(* ===== verification/Prelude.thy ===== *)
theory Prelude
  imports Main "HOL-Library.Word"
begin

text \<open>
  Shared vocabulary of the development: the machine integers of the C++ code as words, the
  collections of rewrite rules the component theories fill, little-endian byte layouts, the
  management-bus ports of the Verilated model that the device emulations of
  \<open>src/verilator\<close> drive, and generic list facts.
\<close>

unbundle bit_operations_syntax

section \<open>Machine integers and byte sequences\<close>

type_synonym u8 = "8 word"
type_synonym u16 = "16 word"
type_synonym u32 = "32 word"
type_synonym u64 = "64 word"
type_synonym bytes = "u8 list"

named_theorems codec_simps \<open>round-trip rules of the checkpoint readers\<close>
named_theorems ide_defs \<open>definitions of the IDE state handlers\<close>
named_theorems inv_intros \<open>preservation lemmas of component invariants\<close>

text \<open>A byte of a C string constant, and a string as the bytes the code copies.\<close>

definition byte_of_char :: "char \<Rightarrow> u8" where
  "byte_of_char c = word_of_nat (of_char c)"

definition bytes_of :: "string \<Rightarrow> bytes" where
  "bytes_of = map byte_of_char"

definition char_of_byte :: "u8 \<Rightarrow> char" where
  "char_of_byte b = char_of (unat b)"

lemma char_of_byte_of_char [simp]: "char_of_byte (byte_of_char c) = c"
proof -
  have "(of_char c :: nat) < 2 ^ LENGTH(8)"
    using of_char_of [of "of_char c :: nat"] by (simp add: char_of_def of_char_def)
  then have "unat (word_of_nat (of_char c) :: u8) = (of_char c :: nat)"
    by (simp add: unat_of_nat)
  then show ?thesis
    by (simp add: char_of_byte_def byte_of_char_def)
qed

section \<open>Little-endian layouts\<close>

text \<open>
  The host is little-endian: \<open>reinterpret_cast<const char*>(&v)\<close> on an integer of
  \<open>n\<close> bytes is \<open>le_bytes n v\<close>, and reading such bytes back is \<open>le_word\<close>.
\<close>

definition le_bytes :: "nat \<Rightarrow> 'a::len word \<Rightarrow> bytes" where
  "le_bytes n w = map (\<lambda>i. ucast (drop_bit (8 * i) w)) [0..<n]"

fun le_word :: "bytes \<Rightarrow> 'a::len word" where
  "le_word [] = 0"
| "le_word (b # bs) = ucast b OR push_bit 8 (le_word bs)"

lemma length_le_bytes [simp]: "length (le_bytes n w) = n"
  by (simp add: le_bytes_def)

lemma bit_le_word:
  "bit (le_word bs :: 'a::len word) i \<longleftrightarrow>
     i < LENGTH('a) \<and> i div 8 < length bs \<and> bit (bs ! (i div 8)) (i mod 8)"
proof (induction bs arbitrary: i)
  case Nil
  then show ?case by simp
next
  case (Cons b bs)
  show ?case
  proof (cases "i < 8")
    case True
    then show ?thesis
      by (auto simp: bit_or_iff bit_ucast_iff bit_push_bit_iff bit_simps)
  next
    case False
    then have "i div 8 = Suc ((i - 8) div 8)" and "i mod 8 = (i - 8) mod 8"
      by (auto simp: le_div_geq le_mod_geq)
    moreover have "\<not> bit b i"
      using False bit_imp_le_length [of b i] by auto
    ultimately show ?thesis
      using False Cons.IH [of "i - 8"]
      by (auto simp: bit_or_iff bit_ucast_iff bit_push_bit_iff)
  qed
qed

lemma bit_le_bytes:
  "k < n \<Longrightarrow> bit (le_bytes n w ! k) j \<longleftrightarrow> j < 8 \<and> bit w (8 * k + j)"
  by (auto simp: le_bytes_def bit_ucast_iff bit_drop_bit_eq)

lemma le_word_le_bytes [simp]:
  fixes w :: "'a::len word"
  assumes "LENGTH('a) \<le> 8 * n"
  shows "le_word (le_bytes n w) = w"
proof (rule bit_word_eqI)
  fix i assume i: "i < LENGTH('a)"
  with assms have "i div 8 < n" by linarith
  then show "bit (le_word (le_bytes n w) :: 'a word) i = bit w i"
    using i by (simp add: bit_le_word bit_le_bytes)
qed

section \<open>Generic lemmas on lists and words\<close>

lemma fold_list_update:
  assumes "j < length ws"
  shows "fold (\<lambda>i ws. ws[b + i := f i]) [0..<n] ws ! j =
    (if b \<le> j \<and> j < b + n then f (j - b) else ws ! j)"
    and "length (fold (\<lambda>i ws. ws[b + i := f i]) [0..<n] ws) = length ws"
proof -
  show l: "length (fold (\<lambda>i ws. ws[b + i := f i]) [0..<n] ws) = length ws" for n
    by (induction n) auto
  show "fold (\<lambda>i ws. ws[b + i := f i]) [0..<n] ws ! j =
    (if b \<le> j \<and> j < b + n then f (j - b) else ws ! j)"
  proof (induction n)
    case 0
    then show ?case by auto
  next
    case (Suc n)
    then show ?case
      using assms by (cases "j = b + n") (auto simp: l nth_list_update)
  qed
qed

lemma unat_ucast_up [simp]:
  "LENGTH('a::len) \<le> LENGTH('b::len) \<Longrightarrow> unat (ucast (w :: 'a word) :: 'b word) = unat w"
  by transfer (simp add: take_bit_nat_eq min_def flip: nat_take_bit_eq)

lemma unat_ucast_down:
  "unat (ucast (w :: 'a::len word) :: 'b::len word) = unat w mod 2 ^ LENGTH('b)"
  by (simp add: unsigned_ucast_eq take_bit_eq_mod unat_mod)

lemma unat_word_of_nat_small:
  "n < 2 ^ LENGTH('a::len) \<Longrightarrow> unat (word_of_nat n :: 'a word) = n"
  by (simp add: unat_of_nat)

lemma unat_pred: "unat w = Suc m \<Longrightarrow> unat (w - 1) = m"
  by (metis diff_Suc_1 unat_0 unat_minus_one Zero_not_Suc)

text \<open>Storing a run of bytes in a byte array.\<close>

definition overwrite :: "nat \<Rightarrow> bytes \<Rightarrow> bytes \<Rightarrow> bytes" where
  "overwrite off bs img = take off img @ bs @ drop (off + length bs) img"

lemma length_overwrite [simp]: "off + length bs \<le> length img \<Longrightarrow> length (overwrite off bs img) = length img"
  by (simp add: overwrite_def)

lemma overwrite_Nil [simp]: "overwrite off [] img = img"
  by (simp add: overwrite_def)

lemma nth_overwrite:
  assumes "off + length bs \<le> length img" and "i < length img"
  shows "overwrite off bs img ! i = (if off \<le> i \<and> i < off + length bs then bs ! (i - off) else img ! i)"
  using assms by (auto simp: overwrite_def nth_append)

end
