(* ===== verification/Pod_Codec.thy ===== *)
theory Pod_Codec
  imports Prelude
begin

text \<open>
  The checkpoint byte streams of \<open>src/verilator/ide_hps.cpp\<close> and
  \<open>src/verilator/main.cpp\<close>: \<open>write_pod\<close>, \<open>write_string\<close>, \<open>write_vector_u8\<close>,
  \<open>write_vector_u64\<close>, \<open>write_deque_u8\<close>, \<open>write_scheduled_events\<close> and their
  readers. A \<open>std::istream\<close> is the bytes still to come and its fail bit: a read past the end
  stores the bytes that were left, sets the fail bit and throws nothing; later reads leave their
  targets alone. What does throw is an allocation: \<open>resize\<close> beyond \<open>lim\<close> elements
  raises (\<open>std::length_error\<close> or \<open>std::bad_alloc\<close>), the limit being an argument.
  The locale \<open>codec\<close> is the contract between a writer and its reader.
\<close>

section \<open>Streams and readers\<close>

record istream =
  ist_data :: bytes
  ist_fail :: bool

datatype load_error =
    Bad_Checkpoint
  | Base_Missing string
  | Cannot_Read string
  | Bad_Alloc
  | Out_Of_Bounds

type_synonym 'a rd = "istream \<Rightarrow> load_error + ('a \<times> istream)"

definition good_stream :: "bytes \<Rightarrow> istream" where
  "good_stream bs = \<lparr>ist_data = bs, ist_fail = False\<rparr>"

definition rret :: "'a \<Rightarrow> 'a rd" where
  "rret x s = Inr (x, s)"

definition rthrow :: "load_error \<Rightarrow> 'a rd" where
  "rthrow e s = Inl e"

definition rbind :: "'a rd \<Rightarrow> ('a \<Rightarrow> 'b rd) \<Rightarrow> 'b rd" where
  "rbind m f s = (case m s of Inl e \<Rightarrow> Inl e | Inr (x, s') \<Rightarrow> f x s')"

text \<open>\<open>in.read(buffer, n)\<close> on a buffer that holds \<open>old\<close>: the buffer afterwards and the stream.\<close>

definition in_read :: "nat \<Rightarrow> bytes \<Rightarrow> istream \<Rightarrow> bytes \<times> istream" where
  "in_read n old s =
     (if ist_fail s then (old, s)
      else if n \<le> length (ist_data s)
        then (take n (ist_data s), s\<lparr>ist_data := drop n (ist_data s)\<rparr>)
      else (ist_data s @ drop (length (ist_data s)) old, \<lparr>ist_data = [], ist_fail = True\<rparr>))"

text \<open>\<open>std::vector::resize(n, x)\<close>.\<close>

definition vresize :: "nat \<Rightarrow> 'a \<Rightarrow> 'a list \<Rightarrow> 'a list" where
  "vresize n x xs = take n xs @ replicate (n - length xs) x"

fun rd_list :: "('a \<Rightarrow> 'a rd) \<Rightarrow> 'a list \<Rightarrow> 'a list rd" where
  "rd_list rd [] = rret []"
| "rd_list rd (x # xs) = rbind (rd x) (\<lambda>y. rbind (rd_list rd xs) (\<lambda>ys. rret (y # ys)))"

section \<open>Writers and readers\<close>

definition write_pod :: "'a::len word \<Rightarrow> bytes" where
  "write_pod v = le_bytes (LENGTH('a) div 8) v"

definition read_pod :: "'a::len word \<Rightarrow> 'a word rd" where
  "read_pod old s =
     (let (bs, s') = in_read (LENGTH('a) div 8) (write_pod old) s in Inr (le_word bs, s'))"

text \<open>\<open>bool\<close> and \<open>int\<close> members go through the same template; a \<open>bool\<close> is one byte.\<close>

definition write_bool :: "bool \<Rightarrow> bytes" where
  "write_bool b = [if b then 1 else 0]"

definition read_bool :: "bool \<Rightarrow> bool rd" where
  "read_bool old = rbind (read_pod (if old then 1 else 0 :: u8)) (\<lambda>b. rret (b \<noteq> 0))"

definition write_int :: "int \<Rightarrow> bytes" where
  "write_int i = write_pod (word_of_int i :: u32)"

definition read_int :: "int \<Rightarrow> int rd" where
  "read_int old = rbind (read_pod (word_of_int old :: u32)) (\<lambda>w. rret (sint w))"

text \<open>A fixed array member read with \<open>in.read(array, sizeof(array))\<close>.\<close>

definition read_raw :: "bytes \<Rightarrow> bytes rd" where
  "read_raw old s = Inr (in_read (length old) old s)"

definition write_string :: "string \<Rightarrow> bytes" where
  "write_string v =
     (let size = word_of_nat (length v) :: u32
      in write_pod size @ take (unat size) (bytes_of v))"

definition read_string :: "nat \<Rightarrow> string \<Rightarrow> string rd" where
  "read_string lim old = rbind (read_pod (0 :: u32)) (\<lambda>size.
     if lim < unat size then rthrow Bad_Alloc
     else (\<lambda>s. let (bs, s') = in_read (unat size) (bytes_of (vresize (unat size) (CHR 0x00) old)) s
               in Inr (map char_of_byte bs, s')))"

definition write_vector_u8 :: "bytes \<Rightarrow> bytes" where
  "write_vector_u8 v = write_pod (word_of_nat (length v) :: u64) @ v"

definition read_vector_u8 :: "nat \<Rightarrow> bytes \<Rightarrow> bytes rd" where
  "read_vector_u8 lim old = rbind (read_pod (0 :: u64)) (\<lambda>size.
     if lim < unat size then rthrow Bad_Alloc
     else if size = 0 then rret []
     else (\<lambda>s. Inr (in_read (unat size) (vresize (unat size) 0 old) s)))"

definition write_vector_u64 :: "u64 list \<Rightarrow> bytes" where
  "write_vector_u64 v = write_pod (word_of_nat (length v) :: u64) @ concat (map write_pod v)"

definition read_vector_u64 :: "nat \<Rightarrow> u64 list \<Rightarrow> u64 list rd" where
  "read_vector_u64 lim old = rbind (read_pod (0 :: u64)) (\<lambda>size.
     if lim < unat size then rthrow Bad_Alloc
     else rd_list read_pod (vresize (unat size) 0 old))"

definition write_deque_u8 :: "bytes \<Rightarrow> bytes" where
  "write_deque_u8 v = write_pod (word_of_nat (length v) :: u64) @ concat (map write_pod v)"

definition read_deque_u8 :: "nat \<Rightarrow> bytes \<Rightarrow> bytes rd" where
  "read_deque_u8 lim old = rbind (read_pod (0 :: u64)) (\<lambda>size.
     if lim < unat size then rthrow Bad_Alloc
     else rd_list read_pod (replicate (unat size) 0))"

record scheduled_ps2_bytes =
  ev_cycle :: u64
  ev_bytes :: bytes

definition write_event :: "scheduled_ps2_bytes \<Rightarrow> bytes" where
  "write_event e = write_pod (ev_cycle e) @ write_vector_u8 (ev_bytes e)"

definition read_event :: "nat \<Rightarrow> scheduled_ps2_bytes \<Rightarrow> scheduled_ps2_bytes rd" where
  "read_event lim old = rbind (read_pod (ev_cycle old)) (\<lambda>c.
     rbind (read_vector_u8 lim (ev_bytes old)) (\<lambda>b. rret \<lparr>ev_cycle = c, ev_bytes = b\<rparr>))"

definition write_scheduled_events :: "scheduled_ps2_bytes list \<Rightarrow> bytes" where
  "write_scheduled_events v =
     write_pod (word_of_nat (length v) :: u64) @ concat (map write_event v)"

definition read_scheduled_events ::
  "nat \<Rightarrow> scheduled_ps2_bytes list \<Rightarrow> scheduled_ps2_bytes list rd" where
  "read_scheduled_events lim old = rbind (read_pod (0 :: u64)) (\<lambda>size.
     if lim < unat size then rthrow Bad_Alloc
     else rd_list (read_event lim) (vresize (unat size) \<lparr>ev_cycle = 0, ev_bytes = []\<rparr> old))"

lemma good_stream_inject [simp]: "good_stream a = good_stream b \<longleftrightarrow> a = b"
  by (simp add: good_stream_def)

section \<open>The contract between a writer and its reader\<close>

locale codec =
  fixes wr :: "'a \<Rightarrow> bytes"
    and rd :: "'a \<Rightarrow> 'a rd"
    and ok :: "'a \<Rightarrow> bool"
  assumes rd_wr: "ok v \<Longrightarrow> rd old (good_stream (wr v @ rest)) = Inr (v, good_stream rest)"
begin

lemma rd_list_wr:
  assumes "list_all ok vs" and "length olds = length vs"
  shows "rd_list rd olds (good_stream (concat (map wr vs) @ rest)) = Inr (vs, good_stream rest)"
  using assms(2,1)
  by (induction olds vs rule: list_induct2) (simp_all add: rbind_def rret_def rd_wr)

lemma wr_prefix_free:
  assumes "ok v" and "ok w" and "wr v @ r = wr w @ r'"
  shows "v = w \<and> r = r'"
proof -
  have "rd v (good_stream (wr v @ r)) = rd v (good_stream (wr w @ r'))"
    by (simp add: assms(3))
  then show ?thesis
    by (simp add: rd_wr assms(1,2))
qed

end

section \<open>Round trips\<close>

lemma rbind_simps [simp]:
  "rbind (rret x) f s = f x s"
  "m s = Inr (x, s') \<Longrightarrow> rbind m f s = f x s'"
  "m s = Inl e \<Longrightarrow> rbind m f s = Inl e"
  by (simp_all add: rbind_def rret_def)

lemma rret_apply [simp]: "rret x s = Inr (x, s)"
  by (simp add: rret_def)

lemma length_vresize [simp]: "length (vresize n x xs) = n"
  by (simp add: vresize_def)

lemma length_bytes_of [simp]: "length (bytes_of v) = length v"
  by (simp add: bytes_of_def)

lemma map_char_of_bytes_of [simp]: "map char_of_byte (bytes_of v) = v"
  by (simp add: bytes_of_def comp_def)

lemma in_read_append [simp]:
  "length bs = n \<Longrightarrow> in_read n old (good_stream (bs @ rest)) = (bs, good_stream rest)"
  by (simp add: in_read_def good_stream_def)

lemma length_write_pod [simp]: "length (write_pod (v :: 'a::len word)) = LENGTH('a) div 8"
  by (simp add: write_pod_def)

lemma read_pod_write_pod [simp, codec_simps]:
  fixes v :: "'a::len word"
  assumes "8 dvd LENGTH('a)"
  shows "read_pod old (good_stream (write_pod v @ rest)) = Inr (v, good_stream rest)"
proof -
  have "LENGTH('a) \<le> 8 * (LENGTH('a) div 8)"
    using assms by auto
  then show ?thesis
    by (simp add: read_pod_def) (simp add: write_pod_def)
qed

interpretation pod8: codec "write_pod :: u8 \<Rightarrow> bytes" read_pod "\<lambda>_. True"
  by unfold_locales simp

interpretation pod16: codec "write_pod :: u16 \<Rightarrow> bytes" read_pod "\<lambda>_. True"
  by unfold_locales simp

interpretation pod64: codec "write_pod :: u64 \<Rightarrow> bytes" read_pod "\<lambda>_. True"
  by unfold_locales simp

lemma read_bool_write_bool [simp, codec_simps]:
  "read_bool old (good_stream (write_bool b @ rest)) = Inr (b, good_stream rest)"
proof -
  have "write_bool b = write_pod (if b then 1 else 0 :: u8)"
    by (simp add: write_bool_def write_pod_def le_bytes_def)
  then show ?thesis
    by (simp add: read_bool_def)
qed

definition int32 :: "int \<Rightarrow> bool" where
  "int32 i \<longleftrightarrow> - (2 ^ 31) \<le> i \<and> i < 2 ^ 31"

lemma read_int_write_int [simp, codec_simps]:
  assumes "int32 i"
  shows "read_int old (good_stream (write_int i @ rest)) = Inr (i, good_stream rest)"
proof -
  have "sint (word_of_int i :: u32) = i"
    using assms by (simp add: int32_def sint_sbintrunc' signed_take_bit_int_eq_self)
  then show ?thesis
    by (simp add: read_int_def write_int_def)
qed

lemma read_raw_append [simp, codec_simps]:
  "length v = length old \<Longrightarrow> read_raw old (good_stream (v @ rest)) = Inr (v, good_stream rest)"
  by (simp add: read_raw_def)

lemma read_string_write_string [simp, codec_simps]:
  assumes "length v < 2 ^ 32" and "length v \<le> lim"
  shows "read_string lim old (good_stream (write_string v @ rest)) = Inr (v, good_stream rest)"
  using assms by (simp add: read_string_def write_string_def Let_def unat_word_of_nat_small)

lemma read_vector_u8_write [simp, codec_simps]:
  assumes "length v < 2 ^ 64" and "length v \<le> lim"
  shows "read_vector_u8 lim old (good_stream (write_vector_u8 v @ rest)) = Inr (v, good_stream rest)"
proof (cases "v = []")
  case True
  then show ?thesis by (simp add: read_vector_u8_def write_vector_u8_def)
next
  case False
  have n: "unat (word_of_nat (length v) :: u64) = length v"
    using assms(1) by (simp add: unat_word_of_nat_small)
  with False have "(word_of_nat (length v) :: u64) \<noteq> 0"
    by (metis length_0_conv unat_0)
  then show ?thesis
    using assms n by (simp add: read_vector_u8_def write_vector_u8_def)
qed

lemma read_vector_u64_write [simp, codec_simps]:
  assumes "length v < 2 ^ 64" and "length v \<le> lim"
  shows "read_vector_u64 lim old (good_stream (write_vector_u64 v @ rest)) =
    Inr (v, good_stream rest)"
  using assms
  by (simp add: read_vector_u64_def write_vector_u64_def unat_word_of_nat_small
      pod64.rd_list_wr list_all_iff)

lemma read_deque_u8_write [simp, codec_simps]:
  assumes "length v < 2 ^ 64" and "length v \<le> lim"
  shows "read_deque_u8 lim old (good_stream (write_deque_u8 v @ rest)) = Inr (v, good_stream rest)"
  using assms
  by (simp add: read_deque_u8_def write_deque_u8_def unat_word_of_nat_small
      pod8.rd_list_wr list_all_iff)

definition event_ok :: "nat \<Rightarrow> scheduled_ps2_bytes \<Rightarrow> bool" where
  "event_ok lim e \<longleftrightarrow> length (ev_bytes e) < 2 ^ 64 \<and> length (ev_bytes e) \<le> lim"

interpretation event: codec write_event "read_event lim" "event_ok lim"
  by unfold_locales (simp add: read_event_def write_event_def event_ok_def)

lemma read_scheduled_events_write [simp, codec_simps]:
  assumes "length v < 2 ^ 64" and "length v \<le> lim" and "list_all (event_ok lim) v"
  shows "read_scheduled_events lim old (good_stream (write_scheduled_events v @ rest)) =
    Inr (v, good_stream rest)"
  using assms
  by (simp add: read_scheduled_events_def write_scheduled_events_def unat_word_of_nat_small
      event.rd_list_wr)

text \<open>
  A truncated stream: the reader keeps what arrived and sets the fail bit, and from then on
  every read leaves its target as it was.
\<close>

lemma read_pod_failed [simp]:
  fixes old :: "'a::len word"
  assumes "8 dvd LENGTH('a)" and "ist_fail s"
  shows "read_pod old s = Inr (old, s)"
proof -
  have "LENGTH('a) \<le> 8 * (LENGTH('a) div 8)"
    using assms(1) by auto
  then show ?thesis
    using assms(2) by (simp add: read_pod_def in_read_def write_pod_def)
qed

lemma read_pod_short:
  fixes old :: "'a::len word"
  assumes "length bs < LENGTH('a) div 8"
  shows "\<exists>v. read_pod old (good_stream bs) = Inr (v, \<lparr>ist_data = [], ist_fail = True\<rparr>)"
  using assms by (simp add: read_pod_def in_read_def good_stream_def)

end
