(* ===== verification/Mgmt_Bus.thy ===== *)
theory Mgmt_Bus
  imports Prelude
begin

text \<open>
  The management bus between the harness and the Verilated core. The core itself
  (\<open>Vz486_mister_sim\<close>, generated by Verilator) is not part of the model: the record holds the
  ports the disk emulations of \<open>ide_hps.cpp\<close> and \<open>main.cpp\<close> read and drive, and whoever
  answers the bus is a parameter of the theorems that need an answer.
\<close>

record mgmt_bus =
  tb_reset :: bool
  mgmt_address :: u16
  mgmt_read :: bool
  mgmt_write :: bool
  mgmt_writedata :: u16
  mgmt_readdata :: u16
  ide0_request :: u8
  ide1_request :: u8
  fdd_request :: u8

definition pulse_read :: "u16 \<Rightarrow> mgmt_bus \<Rightarrow> mgmt_bus" where
  "pulse_read addr tb = tb\<lparr>mgmt_address := addr, mgmt_read := True, mgmt_write := False\<rparr>"

definition pulse_write :: "u16 \<Rightarrow> u16 \<Rightarrow> mgmt_bus \<Rightarrow> mgmt_bus" where
  "pulse_write addr data tb =
     tb\<lparr>mgmt_address := addr, mgmt_writedata := data, mgmt_write := True, mgmt_read := False\<rparr>"

definition clear_bus :: "mgmt_bus \<Rightarrow> mgmt_bus" where
  "clear_bus tb = tb\<lparr>mgmt_read := False, mgmt_write := False\<rparr>"

text \<open>A pulse is active when either strobe is up; the harness looks at it to arbitrate.\<close>

definition bus_active :: "mgmt_bus \<Rightarrow> bool" where
  "bus_active tb \<longleftrightarrow> mgmt_read tb \<or> mgmt_write tb"

lemmas bus_defs = pulse_read_def pulse_write_def clear_bus_def bus_active_def

text \<open>No operation of the harness raises both strobes.\<close>

definition bus_ok :: "mgmt_bus \<Rightarrow> bool" where
  "bus_ok tb \<longleftrightarrow> \<not> (mgmt_read tb \<and> mgmt_write tb)"

lemma bus_ok_pulses [simp]:
  "bus_ok (pulse_read a tb)" "bus_ok (pulse_write a d tb)" "bus_ok (clear_bus tb)"
  by (simp_all add: bus_ok_def bus_defs)

lemma pulse_select [simp]:
  "mgmt_address (pulse_read a tb) = a"
  "mgmt_read (pulse_read a tb)"
  "\<not> mgmt_write (pulse_read a tb)"
  "mgmt_address (pulse_write a d tb) = a"
  "mgmt_writedata (pulse_write a d tb) = d"
  "mgmt_write (pulse_write a d tb)"
  "\<not> mgmt_read (pulse_write a d tb)"
  "\<not> mgmt_read (clear_bus tb)"
  "\<not> mgmt_write (clear_bus tb)"
  "mgmt_address (clear_bus tb) = mgmt_address tb"
  "mgmt_readdata (clear_bus tb) = mgmt_readdata tb"
  "mgmt_readdata (pulse_read a tb) = mgmt_readdata tb"
  "mgmt_readdata (pulse_write a d tb) = mgmt_readdata tb"
  "tb_reset (clear_bus tb) = tb_reset tb"
  "tb_reset (pulse_read a tb) = tb_reset tb"
  "tb_reset (pulse_write a d tb) = tb_reset tb"
  "ide0_request (clear_bus tb) = ide0_request tb"
  "ide1_request (clear_bus tb) = ide1_request tb"
  "fdd_request (clear_bus tb) = fdd_request tb"
  "bus_active (pulse_read a tb)"
  "bus_active (pulse_write a d tb)"
  "\<not> bus_active (clear_bus tb)"
  by (simp_all add: bus_defs)

section \<open>What a device may do to the bus\<close>

text \<open>
  A device on the bus drives the address, the write data and the strobes; it leaves the ports it
  samples alone.
\<close>

definition bus_frame :: "mgmt_bus \<Rightarrow> mgmt_bus \<Rightarrow> bool" where
  "bus_frame tb tb' \<longleftrightarrow> tb_reset tb' = tb_reset tb \<and> mgmt_readdata tb' = mgmt_readdata tb \<and>
     ide0_request tb' = ide0_request tb \<and> ide1_request tb' = ide1_request tb \<and>
     fdd_request tb' = fdd_request tb \<and> (bus_ok tb \<longrightarrow> bus_ok tb')"

lemma bus_frame_simps [simp]:
  "bus_frame tb tb" "bus_frame tb (pulse_read a tb)" "bus_frame tb (pulse_write a d tb)"
  "bus_frame tb (clear_bus tb)"
  by (simp_all add: bus_frame_def bus_defs bus_ok_def)

lemma bus_frame_trans: "bus_frame a b \<Longrightarrow> bus_frame b c \<Longrightarrow> bus_frame a c"
  by (simp add: bus_frame_def)

text \<open>
  The contract between the harness loop and a clocked device: from a state that satisfies the
  device's invariant a tick has a defined result, keeps the invariant and touches only the
  device's own ports. \<open>'c\<close> is global state that lives outside the device object.
\<close>

fun dev_run :: "('c \<Rightarrow> 's \<Rightarrow> mgmt_bus \<Rightarrow> ('c \<times> 's \<times> mgmt_bus) option) \<Rightarrow>
    'c \<Rightarrow> 's \<Rightarrow> mgmt_bus list \<Rightarrow> ('c \<times> 's \<times> mgmt_bus list) option" where
  "dev_run step c s [] = Some (c, s, [])"
| "dev_run step c s (tb # tbs) =
     (case step c s tb of None \<Rightarrow> None
      | Some (c', s', tb') \<Rightarrow>
          map_option (\<lambda>(c2, s2, out). (c2, s2, tb' # out)) (dev_run step c' s' tbs))"

lemma dev_run_append:
  "dev_run step c s (us @ vs) =
     (case dev_run step c s us of None \<Rightarrow> None
      | Some (c1, s1, o1) \<Rightarrow> map_option (\<lambda>(c2, s2, o2). (c2, s2, o1 @ o2)) (dev_run step c1 s1 vs))"
  by (induction us arbitrary: c s)
     (auto simp: option.map_comp o_def map_option_case split: option.splits prod.splits)

locale mgmt_device =
  fixes step :: "'c \<Rightarrow> 's \<Rightarrow> mgmt_bus \<Rightarrow> ('c \<times> 's \<times> mgmt_bus) option"
    and inv :: "'s \<Rightarrow> bool"
  assumes step_total: "inv s \<Longrightarrow>
    \<exists>c' s' tb'. step c s tb = Some (c', s', tb') \<and> inv s' \<and> bus_frame tb tb'"
begin

lemma step_inv: "inv s \<Longrightarrow> step c s tb = Some (c', s', tb') \<Longrightarrow> inv s' \<and> bus_frame tb tb'"
  using step_total [of s c tb] by auto

lemma run_total:
  assumes "inv s"
  shows "\<exists>c' s' out. dev_run step c s tbs = Some (c', s', out) \<and> inv s' \<and> length out = length tbs"
  using assms
proof (induction tbs arbitrary: c s)
  case Nil
  then show ?case by simp
next
  case (Cons tb tbs)
  obtain c' s' tb' where st: "step c s tb = Some (c', s', tb')" and "inv s'"
    using step_total [OF Cons.prems, of c tb] by blast
  then obtain c2 s2 out where "dev_run step c' s' tbs = Some (c2, s2, out)" "inv s2"
    "length out = length tbs"
    using Cons.IH by blast
  with st show ?case by simp
qed

end

end
