(* ===== verification/Ide_Core.thy ===== *)
theory Ide_Core
  imports Pod_Codec Mgmt_Bus
begin

text \<open>
  The drive model of \<open>src/verilator/ide_hps.h\<close> and \<open>ide_hps.cpp\<close>: the task-file registers
  (\<open>HpsIdeRegs\<close>), the drive (\<open>HpsIdeDrive\<close>), the emulation's state (\<open>HpsIde\<close>), mounting an
  image, the geometry, the IDENTIFY block and the LBA/CHS arithmetic. A pointer into the image
  (\<open>sector_words_\<close>) is its byte offset; \<open>int\<close> members are \<open>int\<close>, the fixed-width ones
  words. Log output (\<open>debug_\<close>) changes no state and is left out.
\<close>

section \<open>Constants and records\<close>

definition ATA_STATUS_RDY :: u8 where "ATA_STATUS_RDY = 0x40"
definition ATA_STATUS_RDP :: u8 where "ATA_STATUS_RDP = 0x20"
definition ATA_STATUS_DSC :: u8 where "ATA_STATUS_DSC = 0x10"
definition ATA_STATUS_DRQ :: u8 where "ATA_STATUS_DRQ = 0x08"
definition ATA_STATUS_IRQ :: u8 where "ATA_STATUS_IRQ = 0x04"
definition ATA_STATUS_END :: u8 where "ATA_STATUS_END = 0x02"
definition ATA_STATUS_ERR :: u8 where "ATA_STATUS_ERR = 0x01"

lemmas ata_status_defs = ATA_STATUS_RDY_def ATA_STATUS_RDP_def ATA_STATUS_DSC_def
  ATA_STATUS_DRQ_def ATA_STATUS_IRQ_def ATA_STATUS_END_def ATA_STATUS_ERR_def

record hps_ide_regs =
  r_io_size :: u8
  r_error :: u8
  r_sector_count :: u16
  r_sector :: u16
  r_cylinder :: u32
  r_head :: u8
  r_drv :: u8
  r_lba :: u8
  r_cmd :: u8
  r_pkt_io_size :: u16
  r_status :: u8

definition default_regs :: hps_ide_regs where
  "default_regs = \<lparr>r_io_size = 0, r_error = 0, r_sector_count = 1, r_sector = 1,
     r_cylinder = 0, r_head = 0, r_drv = 0, r_lba = 0, r_cmd = 0, r_pkt_io_size = 0,
     r_status = ATA_STATUS_RDY\<rparr>"

record hps_ide_drive =
  d_present :: bool
  d_cylinders :: u16
  d_heads :: u16
  d_spt :: u16
  d_total_sectors :: u32
  d_spb :: u32
  d_ident :: "u16 list"

definition default_drive :: hps_ide_drive where
  "default_drive = \<lparr>d_present = False, d_cylinders = 0, d_heads = 16, d_spt = 63,
     d_total_sectors = 0, d_spb = 16, d_ident = replicate 256 0\<rparr>"

text \<open>
  \<open>enum State\<close>. A checkpoint stores it as a 32-bit number and \<open>load\<close> casts it back
  unchecked; a number outside the enumeration is kept as \<open>STATE_OUT\<close>, which no case of
  \<open>tick\<close> handles.
\<close>

datatype ide_state =
    INITIAL | IDLE | GET_RESET_DRIVE | RESET_SET | GET_CMD | DO_CMD | SEND_ID
  | SET_REGS | SET_REGS_SEND | READ | READ_REGS | READ_SEND | READ_WAIT_REQ
  | WRITE | WRITE_REGS | WRITE_WAIT_REQ | WRITE_RECV
  | PACKET_WAIT_REQ | PACKET_RECV | PACKET_SEND | PACKET_READ_WAIT_REQ | PACKET_HANDLE
  | STATE_OUT u32

record hps_ide =
  i_id :: u8
  i_base :: u16
  i_state :: ide_state
  i_next_state :: ide_state
  i_regs :: hps_ide_regs
  i_drive :: hps_ide_drive
  i_image :: bytes
  i_image_name :: string
  i_image_path :: string
  i_sector_words :: "nat option"
  i_sector :: u32
  i_sector_count :: u32
  i_cylinder :: u32
  i_drv_addr :: u8
  i_cmd :: u8
  i_features :: u8
  i_buf :: bytes
  i_packet :: bytes
  i_packet_data :: bytes
  i_packet_lba :: u32
  i_packet_remaining :: u32
  i_packet_size_limit :: u16
  i_sense_key :: u8
  i_sense_asc :: u8
  i_sense_ascq :: u8
  i_cnt :: int
  i_irq_pending :: u8
  i_bus_cooldown :: bool
  i_jitter_delay :: int
  i_debug :: bool
  i_cdrom :: bool

definition hps_ide_new :: "u8 \<Rightarrow> u16 \<Rightarrow> hps_ide" where
  "hps_ide_new dev base = \<lparr>i_id = dev, i_base = base, i_state = INITIAL, i_next_state = IDLE,
     i_regs = default_regs, i_drive = default_drive, i_image = [], i_image_name = [],
     i_image_path = [], i_sector_words = None, i_sector = 0, i_sector_count = 0,
     i_cylinder = 0, i_drv_addr = 0, i_cmd = 0, i_features = 0, i_buf = replicate 12 0,
     i_packet = replicate 12 0, i_packet_data = [], i_packet_lba = 0, i_packet_remaining = 0,
     i_packet_size_limit = 0, i_sense_key = 0, i_sense_asc = 0, i_sense_ascq = 0, i_cnt = 0,
     i_irq_pending = 0, i_bus_cooldown = False, i_jitter_delay = 0, i_debug = False,
     i_cdrom = False\<rparr>"

definition set_debug :: "bool \<Rightarrow> hps_ide \<Rightarrow> hps_ide" where
  "set_debug debug s = s\<lparr>i_debug := debug\<rparr>"

definition upd_regs :: "(hps_ide_regs \<Rightarrow> hps_ide_regs) \<Rightarrow> hps_ide \<Rightarrow> hps_ide" where
  "upd_regs f s = s\<lparr>i_regs := f (i_regs s)\<rparr>"

lemma upd_regs_select [simp]:
  "i_regs (upd_regs f s) = f (i_regs s)"
  "i_id (upd_regs f s) = i_id s"
  "i_base (upd_regs f s) = i_base s"
  "i_state (upd_regs f s) = i_state s"
  "i_next_state (upd_regs f s) = i_next_state s"
  "i_drive (upd_regs f s) = i_drive s"
  "i_image (upd_regs f s) = i_image s"
  "i_image_name (upd_regs f s) = i_image_name s"
  "i_image_path (upd_regs f s) = i_image_path s"
  "i_sector_words (upd_regs f s) = i_sector_words s"
  "i_sector (upd_regs f s) = i_sector s"
  "i_sector_count (upd_regs f s) = i_sector_count s"
  "i_cylinder (upd_regs f s) = i_cylinder s"
  "i_drv_addr (upd_regs f s) = i_drv_addr s"
  "i_cmd (upd_regs f s) = i_cmd s"
  "i_features (upd_regs f s) = i_features s"
  "i_buf (upd_regs f s) = i_buf s"
  "i_packet (upd_regs f s) = i_packet s"
  "i_packet_data (upd_regs f s) = i_packet_data s"
  "i_packet_lba (upd_regs f s) = i_packet_lba s"
  "i_packet_remaining (upd_regs f s) = i_packet_remaining s"
  "i_packet_size_limit (upd_regs f s) = i_packet_size_limit s"
  "i_sense_key (upd_regs f s) = i_sense_key s"
  "i_sense_asc (upd_regs f s) = i_sense_asc s"
  "i_sense_ascq (upd_regs f s) = i_sense_ascq s"
  "i_cnt (upd_regs f s) = i_cnt s"
  "i_irq_pending (upd_regs f s) = i_irq_pending s"
  "i_bus_cooldown (upd_regs f s) = i_bus_cooldown s"
  "i_jitter_delay (upd_regs f s) = i_jitter_delay s"
  "i_debug (upd_regs f s) = i_debug s"
  "i_cdrom (upd_regs f s) = i_cdrom s"
  by (simp_all add: upd_regs_def)

section \<open>IDENTIFY block and geometry\<close>

definition be_word :: "char \<Rightarrow> char \<Rightarrow> u16" where
  "be_word hi lo = push_bit 8 (ucast (byte_of_char hi)) OR ucast (byte_of_char lo)"

definition set_ident_string :: "nat \<Rightarrow> nat \<Rightarrow> string \<Rightarrow> u16 list \<Rightarrow> u16 list" where
  "set_ident_string word_base word_count text ws =
     (let padded = vresize (word_count * 2) (CHR '' '') text
      in fold (\<lambda>i ws. ws[word_base + i := be_word (padded ! (i * 2)) (padded ! (i * 2 + 1))])
           [0..<word_count] ws)"

definition identify_cdrom :: "u16 list" where
  "identify_cdrom =
     (set_ident_string 27 20 ''MiSTer CDROM''
       (set_ident_string 23 4 ''1.0''
         (set_ident_string 10 10 ''AOCD00000'' ((replicate 256 0)[0 := 0x8580]))))
     [49 := 0x0200, 53 := 0x0007, 65 := 120, 66 := 120, 67 := 120, 68 := 120, 80 := 0x007E,
      82 := 0x0210, 83 := 0x4000, 84 := 0x4000, 85 := 0x4210, 87 := 0x4000, 93 := 0x630B]"

definition identify_disk :: "hps_ide_drive \<Rightarrow> string \<Rightarrow> u16 list" where
  "identify_disk d image_name =
     (let lo = ucast (d_total_sectors d AND 0xFFFF) :: u16;
          hi = ucast (drop_bit 16 (d_total_sectors d)) :: u16;
          ws = (set_ident_string 10 10 ''AOHD0000''
                  ((replicate 256 0)
                     [0 := 0x0040, 1 := d_cylinders d, 2 := 0x0000, 3 := d_heads d,
                      4 := 512 * d_spt d, 5 := 512, 6 := d_spt d]))
                 [20 := 3, 21 := 512, 22 := 4];
          ws = (set_ident_string 27 20 '''' (set_ident_string 23 4 '''' ws))
                 [47 := 0x8020, 48 := 0x0001, 49 := 0x0200, 50 := 0x4001, 51 := 0x0200,
                  52 := 0x0200, 53 := 0x0007, 54 := d_cylinders d, 55 := d_heads d,
                  56 := d_spt d, 57 := lo, 58 := hi, 59 := 0x0110, 60 := lo, 61 := hi,
                  62 := 0x0000, 63 := 0x0000, 64 := 0x0000, 65 := 120, 66 := 120,
                  67 := 120, 68 := 120, 80 := 0x007E, 81 := 0x0000, 82 := 0x4200,
                  83 := 0x7000, 84 := 0x4000, 85 := 0x4200, 86 := 0x7000, 87 := 0x4000,
                  93 := 0x630B, 100 := lo, 101 := hi, 102 := 0, 103 := 0]
      in if image_name = [] then ws
         else set_ident_string 27 20
                (if 40 < length image_name then vresize 40 (CHR 0x00) image_name else image_name) ws)"

definition update_identify :: "hps_ide \<Rightarrow> hps_ide" where
  "update_identify s =
     s\<lparr>i_drive := (i_drive s)\<lparr>d_ident :=
        (if i_cdrom s then identify_cdrom else identify_disk (i_drive s) (i_image_name s))\<rparr>\<rparr>"

text \<open>
  \<open>set_geometry\<close>: both factors of the product are made non-zero first. The product is an
  \<open>int\<close>; the callers pass at most 255 sectors and 16 heads.
\<close>

definition set_geometry :: "u16 \<Rightarrow> u16 \<Rightarrow> hps_ide \<Rightarrow> hps_ide" where
  "set_geometry sectors heads s =
     (let d = i_drive s;
          h = (if heads \<noteq> 0 then heads else 16);
          t = (if sectors \<noteq> 0 then sectors else 63);
          cylinders = unat (d_total_sectors d) div (unat h * unat t);
          cylinders = (if cylinders > 65535 then 65535 else cylinders)
      in update_identify (s\<lparr>i_drive := d\<lparr>d_heads := h, d_spt := t,
           d_cylinders := word_of_nat cylinders\<rparr>\<rparr>))"

section \<open>Mounting an image\<close>

text \<open>
  A host file as the stream calls see it: the size \<open>tellg\<close> reports at its end and the bytes
  \<open>read\<close> delivers; \<open>None\<close> when it cannot be opened. A short read leaves the delivered
  bytes in the image and reports failure.
\<close>

type_synonym host_file = "(nat \<times> bytes) option"

definition read_whole :: "nat \<Rightarrow> bytes \<Rightarrow> bytes \<Rightarrow> bytes \<times> bool" where
  "read_whole sz content old =
     (let (img, st) = in_read sz (vresize sz 0 old) (good_stream content)
      in (img, \<not> ist_fail st))"

definition base_name :: "string \<Rightarrow> string" where
  "base_name path = rev (takeWhile (\<lambda>c. c \<noteq> CHR ''/'' \<and> c \<noteq> CHR 0x5C) (rev path))"

definition hps_open :: "(string \<Rightarrow> string) \<Rightarrow> host_file \<Rightarrow> string \<Rightarrow> hps_ide \<Rightarrow> bool \<times> hps_ide" where
  "hps_open fs_absolute f path s =
     (case f of None \<Rightarrow> (False, s)
      | Some (sz, content) \<Rightarrow>
          (let (img, good) = read_whole sz content (i_image s); s1 = s\<lparr>i_image := img\<rparr>
           in if \<not> good then (False, s1)
              else (True, set_geometry 63 16
                (s1\<lparr>i_drive := (i_drive s1)\<lparr>d_present := True,
                       d_total_sectors := word_of_nat (sz div 512)\<rparr>,
                     i_cdrom := False,
                     i_image_name := base_name path,
                     i_image_path := fs_absolute path\<rparr>))))"

definition hps_open_cdrom ::
  "(string \<Rightarrow> string) \<Rightarrow> host_file \<Rightarrow> string \<Rightarrow> hps_ide \<Rightarrow> bool \<times> hps_ide" where
  "hps_open_cdrom fs_absolute f path s =
     (case f of None \<Rightarrow> (False, s)
      | Some (sz, content) \<Rightarrow>
          if sz = 0 \<or> sz mod 2048 \<noteq> 0 then (False, s)
          else (let (img, good) = read_whole sz content (i_image s); s1 = s\<lparr>i_image := img\<rparr>
           in if \<not> good then (False, s1)
              else (True, update_identify
                (s1\<lparr>i_drive := (i_drive s1)\<lparr>d_present := True,
                       d_total_sectors := word_of_nat (sz div 2048)\<rparr>,
                     i_cdrom := True,
                     i_image_name := base_name path,
                     i_image_path := fs_absolute path\<rparr>))))"

section \<open>Sector addresses\<close>

definition get_lba :: "hps_ide \<Rightarrow> u32" where
  "get_lba s =
     (let r = i_regs s; d = i_drive s
      in if r_lba r \<noteq> 0 then
           (ucast (r_sector r) AND 0xFF) OR
           push_bit 8 (r_cylinder r AND 0xFFFF) OR
           push_bit 24 (ucast (r_head r) AND 0x0F)
         else
           (r_cylinder r * ucast (d_heads d) + ucast (r_head r)) * ucast (d_spt d)
             + (ucast (r_sector r) - 1))"

text \<open>\<open>put_lba\<close> divides by the geometry in CHS mode; a zero divisor is undefined behaviour (\<open>None\<close>).\<close>

definition put_lba :: "u32 \<Rightarrow> hps_ide \<Rightarrow> hps_ide option" where
  "put_lba l s =
     (let d = i_drive s
      in if r_lba (i_regs s) \<noteq> 0 then
           Some (upd_regs (\<lambda>r. r\<lparr>
             r_sector := ucast (l AND 0xFF),
             r_cylinder := drop_bit 8 l AND 0xFFFF,
             r_head := ucast (drop_bit 24 l) AND 0x0F\<rparr>) s)
         else
           (let hspt = ucast (d_heads d) * ucast (d_spt d) :: u32
            in if hspt = 0 then None
               else Some (upd_regs (\<lambda>r. r\<lparr>
                 r_cylinder := l div hspt,
                 r_head := ucast ((l mod hspt) div ucast (d_spt d)),
                 r_sector := ucast ((l mod hspt) mod ucast (d_spt d) + 1)\<rparr>) s)))"

text \<open>A geometry the address arithmetic is exact for.\<close>

definition geom_ok :: "hps_ide_drive \<Rightarrow> bool" where
  "geom_ok d \<longleftrightarrow> 0 < unat (d_heads d) \<and> unat (d_heads d) \<le> 256 \<and>
     0 < unat (d_spt d) \<and> unat (d_spt d) \<le> 255"

section \<open>The IDENTIFY strings\<close>

lemma length_set_ident_string [simp]: "length (set_ident_string b n t ws) = length ws"
proof -
  have "length (fold (\<lambda>i ws. ws[b + i := f i]) [0..<n] ws) = length ws" for f :: "nat \<Rightarrow> u16"
    by (induction n) auto
  then show ?thesis
    by (simp add: set_ident_string_def Let_def)
qed

lemma set_ident_string_nth:
  assumes "j < length ws"
  shows "set_ident_string b n t ws ! j =
    (if b \<le> j \<and> j < b + n
     then be_word (vresize (n * 2) (CHR '' '') t ! ((j - b) * 2))
            (vresize (n * 2) (CHR '' '') t ! ((j - b) * 2 + 1))
     else ws ! j)"
  using assms by (simp add: set_ident_string_def Let_def fold_list_update)

section \<open>LBA and CHS addresses\<close>

lemma hspt_word:
  assumes "geom_ok d"
  shows "unat (ucast (d_heads d) * ucast (d_spt d) :: u32) = unat (d_heads d) * unat (d_spt d)"
proof -
  have "unat (d_heads d) * unat (d_spt d) \<le> 256 * 255"
    using assms by (intro mult_le_mono) (auto simp: geom_ok_def)
  then show ?thesis
    by (simp add: unat_word_ariths)
qed

lemma put_lba_defined:
  "geom_ok (i_drive s) \<Longrightarrow> \<exists>s'. put_lba l s = Some s'"
  using hspt_word [of "i_drive s"]
  by (auto simp: put_lba_def Let_def geom_ok_def unat_eq_zero split: if_splits)


text \<open>Splitting a block number by a geometry and joining it again, on the words of \<open>put_lba\<close>.\<close>

lemma chs_split_join:
  fixes l H T :: u32
  assumes ht: "unat (H * T) = unat H * unat T"
    and pos: "0 < unat H" "0 < unat T" "unat H \<le> 256" "unat T \<le> 255"
  shows "(l div (H * T) * H + ucast (ucast ((l mod (H * T)) div T) :: u8)) * T
    + (ucast (ucast ((l mod (H * T)) mod T + 1) :: u16) - 1) = l"
proof -
  define n c h r where nat_parts: "n = unat l" "c = n div (unat H * unat T)"
    "h = n mod (unat H * unat T) div unat T" "r = n mod (unat H * unat T) mod unat T"
  have w: "x = word_of_nat (unat x)" for x :: u32
    by simp
  have h: "h < 256"
    using pos unfolding nat_parts
    by (metis less_le_trans less_mult_imp_div_less mod_less_divisor nat_0_less_mult_iff)
  have r: "Suc r < 65536" "Suc r < 4294967296"
    using pos mod_less_divisor [of "unat T" "n mod (unat H * unat T)"] unfolding nat_parts
    by linarith+
  have cyl: "l div (H * T) = word_of_nat c"
    unfolding nat_parts by (subst w) (simp add: unat_div ht)
  have head: "ucast (ucast ((l mod (H * T)) div T) :: u8) = (word_of_nat h :: u32)"
  proof -
    have "unat ((l mod (H * T)) div T) = h"
      by (simp only: nat_parts unat_div unat_mod ht)
    with h show ?thesis by (subst w) (simp add: unat_ucast_down)
  qed
  have sec: "ucast (ucast ((l mod (H * T)) mod T + 1) :: u16) - 1 = (word_of_nat r :: u32)"
  proof -
    have "unat ((l mod (H * T)) mod T) = r"
      by (simp only: nat_parts unat_mod ht)
    then have "unat ((l mod (H * T)) mod T + 1) = Suc r"
      using r by (simp add: unat_word_ariths(1))
    then have "ucast (ucast ((l mod (H * T)) mod T + 1) :: u16) = (word_of_nat (Suc r) :: u32)"
      using r by (subst w) (simp add: unat_ucast_down)
    then show ?thesis by simp
  qed
  have eq: "(c * unat H + h) * unat T + r = n"
    unfolding nat_parts
    by (metis (no_types, lifting) ab_semigroup_mult_class.mult_ac(1) add.assoc add_mult_distrib
        div_mult_mod_eq)
  have "(word_of_nat c * H + word_of_nat h) * T + word_of_nat r =
      (word_of_nat ((c * unat H + h) * unat T + r) :: u32)"
    by simp
  then show ?thesis
    unfolding cyl head sec eq by (simp add: nat_parts)
qed

lemma get_put_lba_chs:
  assumes "geom_ok (i_drive s)" and "r_lba (i_regs s) = 0" and "put_lba l s = Some s'"
  shows "get_lba s' = l"
  using assms hspt_word [of "i_drive s"]
    chs_split_join [of "ucast (d_heads (i_drive s))" "ucast (d_spt (i_drive s))" l]
  by (auto simp: put_lba_def get_lba_def upd_regs_def Let_def geom_ok_def split: if_splits)

lemma lba28_mask:
  fixes l :: u32
  shows "(ucast (ucast (l AND 0xFF) :: u16) AND 0xFF) OR
     push_bit 8 ((drop_bit 8 l AND 0xFFFF) AND 0xFFFF) OR
     push_bit 24 (ucast (ucast (drop_bit 24 l) AND 0x0F :: u8) AND 0x0F) = take_bit 28 l"
proof -
  have m: "(0xFF :: u32) = mask 8" "(0xFFFF :: u32) = mask 16" "(0x0F :: u32) = mask 4"
    "(0x0F :: u8) = mask 4"
    by (simp_all add: mask_eq_exp_minus_1)
  show ?thesis
    unfolding m
  proof (rule bit_word_eqI)
    fix n assume "n < LENGTH(32)"
    consider "n < 8" | "8 \<le> n" "n < 24" | "24 \<le> n" by linarith
    then show "bit ((ucast (ucast (l AND mask 8) :: u16) AND mask 8) OR
       push_bit 8 ((drop_bit 8 l AND mask 16) AND mask 16) OR
       push_bit 24 (ucast (ucast (drop_bit 24 l) AND mask 4 :: u8) AND mask 4)) n =
       bit (take_bit 28 l) n"
      using \<open>n < LENGTH(32)\<close>
      by cases (auto simp: bit_or_iff bit_and_iff bit_mask_iff bit_push_bit_iff
        bit_drop_bit_eq bit_take_bit_iff bit_ucast_iff)
  qed
qed

lemma get_put_lba_28:
  assumes "r_lba (i_regs s) \<noteq> 0" and "put_lba l s = Some s'"
  shows "get_lba s' = take_bit 28 l"
  using assms lba28_mask [of l]
  by (auto simp: put_lba_def get_lba_def upd_regs_def Let_def)

lemma set_geometry_drive [simp]:
  "d_heads (i_drive (set_geometry t h s)) = (if h \<noteq> 0 then h else 16)"
  "d_spt (i_drive (set_geometry t h s)) = (if t \<noteq> 0 then t else 63)"
  "d_total_sectors (i_drive (set_geometry t h s)) = d_total_sectors (i_drive s)"
  "d_present (i_drive (set_geometry t h s)) = d_present (i_drive s)"
  by (simp_all add: set_geometry_def update_identify_def Let_def)

definition cap16 :: "nat \<Rightarrow> nat" where
  "cap16 n = (if n > 65535 then 65535 else n)"

lemma set_geometry_cylinders:
  "d_cylinders (i_drive (set_geometry t h s)) =
     word_of_nat (cap16 (unat (d_total_sectors (i_drive s)) div
       (unat (d_heads (i_drive (set_geometry t h s))) * unat (d_spt (i_drive (set_geometry t h s))))))"
  unfolding set_geometry_drive
  by (simp only: set_geometry_def update_identify_def Let_def cap16_def) simp

lemma set_geometry_ok:
  assumes "unat heads \<le> 256" and "unat sectors \<le> 255"
  shows "geom_ok (i_drive (set_geometry sectors heads s))"
  using assms by (auto simp: geom_ok_def unat_gt_0)

lemma cap16_word_times: "unat (word_of_nat (cap16 (n div k)) :: u16) * k \<le> n"
proof -
  have m: "m \<le> n div k \<Longrightarrow> m * k \<le> n" for m
    by (metis div_times_less_eq_dividend le_trans mult_le_mono1)
  have "cap16 (n div k) < 2 ^ LENGTH(16)" and "cap16 (n div k) \<le> n div k"
    by (auto simp: cap16_def)
  then show ?thesis
    by (simp only: unat_word_of_nat_small m)
qed

lemma set_geometry_capacity:
  "unat (d_cylinders (i_drive (set_geometry t h s))) *
     (unat (d_heads (i_drive (set_geometry t h s))) * unat (d_spt (i_drive (set_geometry t h s))))
   \<le> unat (d_total_sectors (i_drive s))"
  unfolding set_geometry_cylinders by (rule cap16_word_times)

end
