(* ===== verification/Ide_Packet.thy ===== *)
theory Ide_Packet
  imports Ide_Core
begin

text \<open>
  The ATAPI side of \<open>ide_hps.cpp\<close>: the response transfer (\<open>send_packet_data\<close>), the
  completion (\<open>finish_packet\<close>), the chunked CD-ROM read (\<open>prepare_cdrom_read\<close>), the packet
  commands (\<open>handle_packet\<close>) and the ATA commands a CD-ROM answers (\<open>handle_cdrom_cmd\<close>).
  64-bit sums that cannot overflow (a 32-bit block number times 2048) are natural numbers.
\<close>

section \<open>Byte order helpers of \<open>handle_packet\<close>\<close>

definition be16 :: "bytes \<Rightarrow> nat \<Rightarrow> u16" where
  "be16 packet offset = push_bit 8 (ucast (packet ! offset)) OR ucast (packet ! (offset + 1))"

definition be32 :: "bytes \<Rightarrow> nat \<Rightarrow> u32" where
  "be32 packet offset =
     push_bit 24 (ucast (packet ! offset)) OR push_bit 16 (ucast (packet ! (offset + 1))) OR
     push_bit 8 (ucast (packet ! (offset + 2))) OR ucast (packet ! (offset + 3))"

definition push_be32 :: "nat \<Rightarrow> u32 \<Rightarrow> bytes \<Rightarrow> bytes" where
  "push_be32 offset v data =
     data[offset := ucast (drop_bit 24 v), offset + 1 := ucast (drop_bit 16 v),
          offset + 2 := ucast (drop_bit 8 v), offset + 3 := ucast v]"

section \<open>Response and completion\<close>

definition limit_data :: "u16 \<Rightarrow> bytes \<Rightarrow> bytes" where
  "limit_data limit data =
     (let data = (if limit \<noteq> 0 \<and> unat limit < length data then vresize (unat limit) 0 data else data)
      in if odd (length data) then data @ [0] else data)"

definition send_packet_data :: "bytes \<Rightarrow> hps_ide \<Rightarrow> hps_ide" where
  "send_packet_data data s =
     (let data = limit_data (i_packet_size_limit s) data
      in upd_regs (\<lambda>r. r\<lparr>r_pkt_io_size := word_of_nat (length data div 2),
             r_cylinder := word_of_nat (length data), r_sector_count := 2, r_error := 0,
             r_status := ATA_STATUS_RDY OR ATA_STATUS_DRQ OR ATA_STATUS_IRQ\<rparr>)
           (s\<lparr>i_packet_data := data, i_cnt := 0, i_state := PACKET_SEND\<rparr>))"

definition finish_packet :: "u8 \<Rightarrow> u8 \<Rightarrow> u8 \<Rightarrow> u8 \<Rightarrow> hps_ide \<Rightarrow> hps_ide" where
  "finish_packet sense_key asc ascq extra_status s =
     upd_regs (\<lambda>r. r\<lparr>r_sector_count := 3, r_pkt_io_size := 0, r_error := push_bit 4 sense_key,
         r_status := ATA_STATUS_RDY OR ATA_STATUS_IRQ OR
           (if sense_key \<noteq> 0 then ATA_STATUS_ERR else 0) OR extra_status\<rparr>)
       (s\<lparr>i_sense_key := sense_key, i_sense_asc := asc, i_sense_ascq := ascq,
          i_state := SET_REGS, i_next_state := IDLE\<rparr>)"

definition read_chunk :: "u32 \<Rightarrow> u16 \<Rightarrow> nat" where
  "read_chunk remaining limit =
     (let sectors = min (unat remaining) 8;
          sectors = (if 2048 \<le> unat limit then min sectors (unat limit div 2048) else sectors)
      in if sectors = 0 then 1 else sectors)"

definition prepare_cdrom_read :: "hps_ide \<Rightarrow> hps_ide" where
  "prepare_cdrom_read s =
     (if i_packet_remaining s = 0 then finish_packet 0 0 0 0 s
      else
        let sectors = read_chunk (i_packet_remaining s) (i_packet_size_limit s);
            offset = unat (i_packet_lba s) * 2048;
            nbytes = sectors * 2048
        in if offset + nbytes > length (i_image s) then finish_packet 5 0x21 0 0 s
           else send_packet_data (take nbytes (drop offset (i_image s)))
             (s\<lparr>i_packet_lba := i_packet_lba s + word_of_nat sectors,
                i_packet_remaining := i_packet_remaining s - word_of_nat sectors\<rparr>))"

section \<open>Packet commands\<close>

text \<open>A response no longer than the allocation length the host gave.\<close>

definition clip :: "nat \<Rightarrow> bytes \<Rightarrow> bytes" where
  "clip allocation data =
     (if allocation < length data then vresize allocation 0 data else data)"

definition packet_request_sense :: "hps_ide \<Rightarrow> hps_ide" where
  "packet_request_sense s =
     (let data = (replicate 18 0)[0 := 0x70, 2 := i_sense_key s AND 0x0F, 7 := 10,
            12 := i_sense_asc s, 13 := i_sense_ascq s];
          data = clip (unat (i_packet s ! 4)) data
      in (send_packet_data data s)\<lparr>i_sense_key := 0, i_sense_asc := 0, i_sense_ascq := 0\<rparr>)"

definition inquiry_data :: bytes where
  "inquiry_data = [5, 0x80, 0, 0x21, 31, 0, 0, 0] @ bytes_of ''MiSTer  '' @
     bytes_of ''CDROM           '' @ [0, 0, 0, 0]"

definition packet_inquiry :: "hps_ide \<Rightarrow> hps_ide" where
  "packet_inquiry s = send_packet_data (clip (unat (i_packet s ! 4)) inquiry_data) s"

definition packet_read_capacity :: "hps_ide \<Rightarrow> hps_ide" where
  "packet_read_capacity s =
     (let n = d_total_sectors (i_drive s)
      in send_packet_data (push_be32 4 2048 (push_be32 0 (if n \<noteq> 0 then n - 1 else 0)
           (replicate 8 0))) s)"

definition toc_descriptor :: "bool \<Rightarrow> u8 \<Rightarrow> u32 \<Rightarrow> bytes" where
  "toc_descriptor msf track lba =
     (if msf then
        let frame = lba + 150
        in [0, 0x14, track, 0, 0, ucast (frame div 4500), ucast ((frame div 75) mod 60),
            ucast (frame mod 75)]
      else push_be32 4 lba [0, 0x14, track, 0, 0, 0, 0, 0])"

definition toc_format :: "bytes \<Rightarrow> u8" where
  "toc_format packet =
     (if drop_bit 6 (packet ! 9) \<noteq> 0 then drop_bit 6 (packet ! 9) else packet ! 2 AND 0x0F)"

text \<open>The two-byte length field a TOC or mode response starts with.\<close>

definition put_length16 :: "bytes \<Rightarrow> bytes" where
  "put_length16 data =
     (let returned = word_of_nat (if 2 \<le> length data then length data - 2 else 0) :: u16;
          data = (if data \<noteq> [] then data[0 := ucast (drop_bit 8 returned)] else data)
      in if 1 < length data then data[1 := ucast returned] else data)"

definition packet_read_toc :: "hps_ide \<Rightarrow> hps_ide" where
  "packet_read_toc s =
     (let p = i_packet s;
          msf = (p ! 1 AND 2 \<noteq> 0);
          fmt = toc_format p;
          allocation = unat (be16 p 7);
          head = [0, 0, 1, 1]
      in if fmt = 0 then
           let data = head @ (if p ! 6 \<le> 1 then toc_descriptor msf 1 0 else [])
                 @ toc_descriptor msf 0xAA (d_total_sectors (i_drive s))
           in send_packet_data (put_length16 (clip allocation data)) s
         else if fmt = 1 then
           let data = (vresize 12 0 head)[1 := 0x0A, 2 := 1, 3 := 1]
           in send_packet_data (put_length16 (clip allocation data)) s
         else finish_packet 5 0x24 0 0 s)"

definition packet_read_subchannel :: "hps_ide \<Rightarrow> hps_ide" where
  "packet_read_subchannel s =
     (let p = i_packet s;
          subq = (p ! 2 AND 0x40 \<noteq> 0);
          allocation = unat (be16 p 7);
          data = (if subq then [0, 0x13, 0, 0, 1, 0x14, 1, 1, 0, 0, 0, 0, 0, 0, 0, 0]
                  else [0, 0x13, 0, 0]);
          data = clip allocation data;
          returned = word_of_nat (if 4 \<le> length data then length data - 4 else 0) :: u16;
          data = (if 2 < length data then data[2 := ucast (drop_bit 8 returned)] else data);
          data = (if 3 < length data then data[3 := ucast returned] else data)
      in send_packet_data data s)"

definition mode_capabilities :: bytes where
  "mode_capabilities =
     [0x2A, 0x14, 0x3B, 0x00, 0x71, 0x60, 0x29, 0x00,
      0x02, 0xC0, 0x00, 0x02, 0x02, 0x00, 0x02, 0xC0,
      0x00, 0x00, 0x00, 0x00, 0x00, 0x00]"

definition packet_mode_sense :: "hps_ide \<Rightarrow> hps_ide" where
  "packet_mode_sense s =
     (let p = i_packet s;
          page = p ! 2 AND 0x3F;
          data = (if page = 0x2A \<or> page = 0x3F
                  then (replicate 8 0 @ mode_capabilities)[2 := 0x70]
                  else replicate 8 0 @ [page, 0x06, 0, 0, 0, 0, 0, 0])
      in send_packet_data (put_length16 (clip (unat (be16 p 7)) data)) s)"

definition packet_get_configuration :: "hps_ide \<Rightarrow> hps_ide" where
  "packet_get_configuration s =
     send_packet_data (clip (unat (be16 (i_packet s) 7))
       [0, 0, 0, 12, 0, 0, 0, 8, 0, 0, 3, 4, 0, 8, 1, 0]) s"

definition handle_packet :: "hps_ide \<Rightarrow> hps_ide" where
  "handle_packet s =
     (let p = i_packet s; op = p ! 0
      in if op \<in> {0x00, 0x1B, 0x1E, 0x35, 0x45, 0x47, 0x4B, 0x4E} then finish_packet 0 0 0 0 s
         else if op = 0x2B then finish_packet 0 0 0 ATA_STATUS_DSC s
         else if op = 0x03 then packet_request_sense s
         else if op = 0x12 then packet_inquiry s
         else if op = 0x25 then packet_read_capacity s
         else if op = 0x28 then
           prepare_cdrom_read (s\<lparr>i_packet_lba := be32 p 2, i_packet_remaining := ucast (be16 p 7)\<rparr>)
         else if op = 0xA8 then
           prepare_cdrom_read (s\<lparr>i_packet_lba := be32 p 2, i_packet_remaining := be32 p 6\<rparr>)
         else if op = 0x43 then packet_read_toc s
         else if op = 0x42 then packet_read_subchannel s
         else if op = 0x5A then packet_mode_sense s
         else if op = 0x46 then packet_get_configuration s
         else finish_packet 5 0x20 0 0 s)"

section \<open>ATA commands of the CD-ROM\<close>

definition goto_set_regs :: "ide_state \<Rightarrow> hps_ide \<Rightarrow> hps_ide" where
  "goto_set_regs next s = s\<lparr>i_state := SET_REGS, i_next_state := next\<rparr>"

definition handle_cdrom_cmd :: "hps_ide \<Rightarrow> hps_ide" where
  "handle_cdrom_cmd s =
     (let c = i_cmd s
      in if c = 0xA1 then
           s\<lparr>i_regs := default_regs\<lparr>r_drv := r_drv (i_regs s), r_pkt_io_size := 256,
               r_status := ATA_STATUS_RDY OR ATA_STATUS_DRQ OR ATA_STATUS_IRQ OR ATA_STATUS_END\<rparr>,
             i_cnt := 0, i_state := SEND_ID\<rparr>
         else if c = 0xA0 then
           (if i_features s AND 1 \<noteq> 0 then finish_packet 5 0x20 0 0 s
            else
              let limit = ucast (r_cylinder (i_regs s)) :: u16;
                  limit = (if limit = 0 then 32 * 512 else limit)
              in goto_set_regs PACKET_WAIT_REQ
                   (upd_regs (\<lambda>r. r\<lparr>r_pkt_io_size := 6, r_sector_count := 1, r_error := 0,
                      r_status := ATA_STATUS_RDY OR ATA_STATUS_DRQ\<rparr>)
                    (s\<lparr>i_packet_size_limit := limit\<rparr>)))
         else if c = 0x08 then
           goto_set_regs IDLE (upd_regs (\<lambda>r. r\<lparr>r_error := 1, r_sector_count := 1, r_sector := 1,
             r_cylinder := 0xEB14, r_head := 0, r_pkt_io_size := 0, r_status := 0\<rparr>) s)
         else if c = 0xEF then
           goto_set_regs IDLE (upd_regs (\<lambda>r. r\<lparr>r_error := 0,
             r_status := ATA_STATUS_RDY OR ATA_STATUS_IRQ\<rparr>) s)
         else
           goto_set_regs IDLE (upd_regs (\<lambda>r. r\<lparr>r_error := 0x04, r_sector_count := 1, r_sector := 1,
             r_cylinder := 0xEB14,
             r_status := ATA_STATUS_RDY OR ATA_STATUS_ERR OR ATA_STATUS_IRQ\<rparr>) s))"

end
