(* ===== verification/Ide_Tick.thy ===== *)
theory Ide_Tick
  imports Ide_Packet
begin

text \<open>
  The clocked state machine of \<open>ide_hps.cpp\<close>: command dispatch (\<open>handle_cmd\<close>), the
  deterministic latency jitter and \<open>HpsIde::tick\<close>, one handler per case of its switch. A handler
  returns \<open>None\<close> where the C++ has no defined result: an index outside an array, or a division
  by a zero geometry. The theory \<open>Ide_Invariant\<close> shows that no run from a mounted drive gets there.
\<close>

section \<open>Command dispatch\<close>

definition abort_cmd :: "hps_ide \<Rightarrow> hps_ide" where
  "abort_cmd s = goto_set_regs IDLE (upd_regs (\<lambda>r. r\<lparr>r_error := 0x04,
     r_status := ATA_STATUS_RDY OR ATA_STATUS_ERR OR ATA_STATUS_IRQ\<rparr>) s)"

definition mask_taskfile :: "u8 \<Rightarrow> hps_ide_regs \<Rightarrow> hps_ide_regs" where
  "mask_taskfile c r =
     (let n = r_sector_count r AND 0xFF;
          n = (if c \<in> {0x20, 0x21, 0x30, 0x31, 0xC4, 0xC5} \<and> n = 0 then 256 else n)
      in r\<lparr>r_sector_count := n, r_sector := r_sector r AND 0xFF,
           r_cylinder := r_cylinder r AND 0xFFFF\<rparr>)"

definition handle_disk_cmd :: "hps_ide \<Rightarrow> hps_ide" where
  "handle_disk_cmd s =
     (let c = i_cmd s;
          done = ATA_STATUS_RDY OR ATA_STATUS_IRQ
      in if c = 0xEC then
           s\<lparr>i_regs := default_regs\<lparr>r_drv := r_drv (i_regs s), r_io_size := 1,
               r_status := ATA_STATUS_RDY OR ATA_STATUS_DRQ OR ATA_STATUS_IRQ OR ATA_STATUS_END\<rparr>,
             i_state := SEND_ID, i_cnt := 0\<rparr>
         else if c = 0x20 \<or> c = 0x21 then s\<lparr>i_state := READ\<rparr>
         else if c = 0x30 \<or> c = 0x31 then s\<lparr>i_state := WRITE\<rparr>
         else if c = 0x91 then
           goto_set_regs IDLE (upd_regs (\<lambda>r. r\<lparr>r_status := done\<rparr>)
             (set_geometry (r_sector_count (i_regs s)) (ucast (r_head (i_regs s)) + 1) s))
         else if 0x10 \<le> c \<and> c \<le> 0x1F then
           goto_set_regs IDLE (upd_regs (\<lambda>r. r\<lparr>r_status := done, r_cylinder := 0\<rparr>) s)
         else if c = 0x40 then goto_set_regs IDLE (upd_regs (\<lambda>r. r\<lparr>r_status := done\<rparr>) s)
         else abort_cmd s)"

definition handle_cmd :: "hps_ide \<Rightarrow> hps_ide" where
  "handle_cmd s =
     (if \<not> d_present (i_drive s) \<or> r_drv (i_regs s) \<noteq> 0 then abort_cmd s
      else if i_cdrom s then handle_cdrom_cmd s
      else handle_disk_cmd (upd_regs (mask_taskfile (i_cmd s)) s))"

section \<open>Latency jitter\<close>

record jitter =
  j_en :: bool
  j_state :: u32

definition hps_ide_set_jitter :: "bool \<Rightarrow> u32 \<Rightarrow> jitter" where
  "hps_ide_set_jitter en seed = \<lparr>j_en = en, j_state = (if seed \<noteq> 0 then seed else 1)\<rparr>"

definition xorshift32 :: "u32 \<Rightarrow> u32" where
  "xorshift32 x =
     (let x = x XOR push_bit 13 x; x = x XOR drop_bit 17 x in x XOR push_bit 5 x)"

definition jitter_next :: "jitter \<Rightarrow> int \<times> jitter" where
  "jitter_next j =
     (let x = xorshift32 (j_state j) in (uint (x AND 0x3F), j\<lparr>j_state := x\<rparr>))"

section \<open>Checked array accesses\<close>

definition nth_int :: "'a list \<Rightarrow> int \<Rightarrow> 'a option" where
  "nth_int xs i = (if 0 \<le> i \<and> nat i < length xs then Some (xs ! nat i) else None)"

text \<open>\<open>words[i]\<close> of a byte array seen as 16-bit words, from a byte offset.\<close>

definition word_at :: "bytes \<Rightarrow> nat \<Rightarrow> int \<Rightarrow> u16 option" where
  "word_at bs off i =
     (if 0 \<le> i \<and> off + 2 * nat i + 1 < length bs
      then Some (ucast (bs ! (off + 2 * nat i)) OR push_bit 8 (ucast (bs ! (off + 2 * nat i + 1))))
      else None)"

definition put_word_at :: "bytes \<Rightarrow> nat \<Rightarrow> int \<Rightarrow> u16 \<Rightarrow> bytes option" where
  "put_word_at bs off i w =
     (if 0 \<le> i \<and> off + 2 * nat i + 1 < length bs
      then Some (bs[off + 2 * nat i := ucast w, off + 2 * nat i + 1 := ucast (drop_bit 8 w)])
      else None)"

section \<open>The cases of \<open>tick\<close>\<close>

type_synonym tick_result = "(hps_ide \<times> mgmt_bus) option"

definition ide_request :: "hps_ide \<Rightarrow> mgmt_bus \<Rightarrow> u8" where
  "ide_request s tb = (if i_id s \<noteq> 0 then ide1_request tb else ide0_request tb)"

definition tick_initial :: "hps_ide \<Rightarrow> mgmt_bus \<Rightarrow> tick_result" where
  "tick_initial s tb =
     Some (s\<lparr>i_state := IDLE\<rparr>,
           pulse_write (i_base s + 6) (if d_present (i_drive s) then 0x0009 else 0x0008) tb)"

definition tick_idle :: "hps_ide \<Rightarrow> mgmt_bus \<Rightarrow> tick_result" where
  "tick_idle s tb =
     (let req = ide_request s tb
      in if req = 4 then Some (s\<lparr>i_state := GET_CMD\<rparr>, pulse_read (i_base s + 0) tb)
         else if req = 6 then Some (s\<lparr>i_state := GET_RESET_DRIVE\<rparr>, pulse_read (i_base s + 5) tb)
         else Some (s, tb))"

definition tick_get_reset_drive :: "hps_ide \<Rightarrow> mgmt_bus \<Rightarrow> tick_result" where
  "tick_get_reset_drive s tb =
     (let a = ucast (mgmt_readdata tb AND 0xFF) :: u8;
          drv = drop_bit 4 a AND 1
      in Some (goto_set_regs RESET_SET (upd_regs (\<lambda>r. r\<lparr>r_drv := drv,
             r_lba := drop_bit 6 a AND 1, r_head := 0, r_error := (if i_cdrom s then 1 else 0),
             r_sector := 1, r_sector_count := 1,
             r_cylinder := (if d_present (i_drive s) \<and> drv = 0
                            then (if i_cdrom s then 0xEB14 else 0) else 0xFFFF),
             r_status := (if i_cdrom s then 0 else ATA_STATUS_RDY)\<rparr>)
           (s\<lparr>i_drv_addr := a\<rparr>)), tb))"

definition tick_reset_set :: "hps_ide \<Rightarrow> mgmt_bus \<Rightarrow> tick_result" where
  "tick_reset_set s tb = Some (s\<lparr>i_state := IDLE\<rparr>, tb)"

definition tick_get_cmd :: "hps_ide \<Rightarrow> mgmt_bus \<Rightarrow> tick_result" where
  "tick_get_cmd s tb =
     (let d = mgmt_readdata tb; a = mgmt_address tb; k = a AND 0xF; more = pulse_read (a + 1) tb
      in if k = 0 then Some (s\<lparr>i_features := ucast (drop_bit 8 d)\<rparr>, more)
         else if k = 1 then
           Some (s\<lparr>i_sector_count := ucast (d AND 0xFF), i_sector := ucast (drop_bit 8 d)\<rparr>, more)
         else if k = 2 then Some (s\<lparr>i_cylinder := ucast d\<rparr>, more)
         else if k = 3 then
           Some (s\<lparr>i_sector := i_sector s + ucast (d AND 0xFF00),
                   i_sector_count := i_sector_count s + push_bit 8 (ucast (d AND 0x00FF))\<rparr>, more)
         else if k = 4 then
           Some (s\<lparr>i_cylinder := i_cylinder s + push_bit 16 (ucast d)\<rparr>, more)
         else if k = 5 then
           (let da = ucast (d AND 0xFF) :: u8
            in Some (upd_regs (\<lambda>r. r\<lparr>r_sector_count := ucast (i_sector_count s),
                   r_sector := ucast (i_sector s), r_cylinder := i_cylinder s,
                   r_head := da AND 0x0F, r_drv := drop_bit 4 da AND 1,
                   r_lba := drop_bit 6 da AND 1\<rparr>)
                 (s\<lparr>i_drv_addr := da, i_cmd := ucast (drop_bit 8 d), i_state := DO_CMD\<rparr>), tb))
         else Some (s\<lparr>i_state := IDLE\<rparr>, tb))"

definition tick_do_cmd :: "hps_ide \<Rightarrow> mgmt_bus \<Rightarrow> tick_result" where
  "tick_do_cmd s tb = Some (handle_cmd s, tb)"

definition tick_send_id :: "hps_ide \<Rightarrow> mgmt_bus \<Rightarrow> tick_result" where
  "tick_send_id s tb =
     (if i_cnt s < 256 then
        (case nth_int (d_ident (i_drive s)) (i_cnt s) of None \<Rightarrow> None
         | Some w \<Rightarrow> Some (s\<lparr>i_cnt := i_cnt s + 1\<rparr>, pulse_write (i_base s + 255) w tb))
      else Some (goto_set_regs IDLE s, tb))"

definition regs_buffer :: "bool \<Rightarrow> hps_ide_regs \<Rightarrow> bytes" where
  "regs_buffer cdrom r =
     [if cdrom then 0x80 else r_io_size r,
      r_error r,
      ucast (r_sector_count r),
      ucast (r_sector r),
      ucast (r_cylinder r),
      ucast (drop_bit 8 (r_cylinder r)),
      ucast (drop_bit 16 (r_cylinder r)),
      ucast (drop_bit 24 (r_cylinder r)),
      ucast (r_pkt_io_size r),
      ucast (drop_bit 8 (r_pkt_io_size r)),
      (if r_lba r \<noteq> 0 then 0xE0 else 0xA0) OR (if r_drv r \<noteq> 0 then 0x10 else 0x00) OR r_head r,
      r_status r]"

definition tick_set_regs :: "hps_ide \<Rightarrow> mgmt_bus \<Rightarrow> tick_result" where
  "tick_set_regs s tb =
     (let r = i_regs s;
          r = (if \<not> i_cdrom s \<and> r_status r AND ATA_STATUS_DRQ = 0
               then r\<lparr>r_status := r_status r OR ATA_STATUS_DSC\<rparr> else r)
      in Some (s\<lparr>i_regs := r, i_buf := regs_buffer (i_cdrom s) r, i_cnt := 0,
                 i_state := SET_REGS_SEND\<rparr>, tb))"

definition tick_set_regs_send :: "hps_ide \<Rightarrow> mgmt_bus \<Rightarrow> tick_result" where
  "tick_set_regs_send s tb =
     (if i_cnt s < 6 then
        (case word_at (i_buf s) 0 (i_cnt s) of None \<Rightarrow> None
         | Some w \<Rightarrow> Some (s\<lparr>i_cnt := i_cnt s + 1\<rparr>,
             pulse_write (i_base s + word_of_int (i_cnt s)) w tb))
      else Some (s\<lparr>i_cnt := 0, i_state := i_next_state s\<rparr>, tb))"

definition tick_read :: "hps_ide \<Rightarrow> mgmt_bus \<Rightarrow> tick_result" where
  "tick_read s tb = Some (s\<lparr>i_state := READ_REGS\<rparr>, tb)"

text \<open>The sector pointer for a block number: its byte offset if the whole sector is in the image.\<close>

definition sector_ptr :: "bytes \<Rightarrow> u32 \<Rightarrow> nat option" where
  "sector_ptr img l =
     (if (unat l + 1) * 512 > length img then None else Some (unat l * 512))"

definition tick_read_regs :: "hps_ide \<Rightarrow> mgmt_bus \<Rightarrow> tick_result" where
  "tick_read_regs s tb =
     (let l = get_lba s;
          p = sector_ptr (i_image s) l;
          s1 = s\<lparr>i_sector_words := p, i_buf := (if p = None then replicate 12 0 else i_buf s)\<rparr>
      in case put_lba (get_lba s1 + 1) s1 of None \<Rightarrow> None
         | Some s2 \<Rightarrow>
             (let n = r_sector_count (i_regs s2) - 1;
                  st = ATA_STATUS_RDY OR ATA_STATUS_DRQ OR ATA_STATUS_IRQ
              in Some (upd_regs (\<lambda>r. r\<lparr>r_sector_count := n, r_io_size := 1,
                         r_status := (if n = 0 then st OR ATA_STATUS_END else st)\<rparr>)
                       (s2\<lparr>i_cnt := 0, i_state := READ_SEND\<rparr>), tb)))"

definition tick_read_send :: "hps_ide \<Rightarrow> mgmt_bus \<Rightarrow> tick_result" where
  "tick_read_send s tb =
     (if i_cnt s < 256 then
        (case (case i_sector_words s of None \<Rightarrow> Some 0
               | Some off \<Rightarrow> word_at (i_image s) off (i_cnt s)) of None \<Rightarrow> None
         | Some w \<Rightarrow> Some (s\<lparr>i_cnt := i_cnt s + 1\<rparr>, pulse_write (i_base s + 255) w tb))
      else Some (goto_set_regs (if r_sector_count (i_regs s) \<noteq> 0 then READ_WAIT_REQ else IDLE)
                   (s\<lparr>i_cnt := 0\<rparr>), tb))"

definition tick_read_wait_req :: "hps_ide \<Rightarrow> mgmt_bus \<Rightarrow> tick_result" where
  "tick_read_wait_req s tb =
     (let req = ide_request s tb
      in if req = 5 then Some (s\<lparr>i_state := READ_REGS\<rparr>, tb)
         else if req \<noteq> 0 then Some (s\<lparr>i_state := IDLE\<rparr>, tb)
         else Some (s, tb))"

definition tick_write :: "hps_ide \<Rightarrow> mgmt_bus \<Rightarrow> tick_result" where
  "tick_write s tb = Some (s\<lparr>i_irq_pending := 0, i_state := WRITE_REGS\<rparr>, tb)"

definition tick_write_regs :: "hps_ide \<Rightarrow> mgmt_bus \<Rightarrow> tick_result" where
  "tick_write_regs s tb =
     Some (goto_set_regs WRITE_WAIT_REQ
       (upd_regs (\<lambda>r. r\<lparr>r_status := ATA_STATUS_RDY OR ATA_STATUS_DRQ OR i_irq_pending s,
            r_io_size := 1\<rparr>)
         (s\<lparr>i_sector_words := sector_ptr (i_image s) (get_lba s),
            i_irq_pending := ATA_STATUS_IRQ\<rparr>)), tb)"

definition tick_write_wait_req :: "hps_ide \<Rightarrow> mgmt_bus \<Rightarrow> tick_result" where
  "tick_write_wait_req s tb =
     (let req = ide_request s tb
      in if req = 5 then Some (s\<lparr>i_cnt := 0, i_state := WRITE_RECV\<rparr>, tb)
         else if req \<noteq> 0 then Some (s\<lparr>i_state := IDLE\<rparr>, tb)
         else Some (s, tb))"

definition store_word :: "hps_ide \<Rightarrow> mgmt_bus \<Rightarrow> hps_ide option" where
  "store_word s tb =
     (if i_cnt s > 0 then
        (case i_sector_words s of None \<Rightarrow> Some s
         | Some off \<Rightarrow>
             map_option (\<lambda>img. s\<lparr>i_image := img\<rparr>)
               (put_word_at (i_image s) off (i_cnt s - 1) (mgmt_readdata tb)))
      else Some s)"

definition tick_write_recv :: "hps_ide \<Rightarrow> mgmt_bus \<Rightarrow> tick_result" where
  "tick_write_recv s tb =
     (case store_word s tb of None \<Rightarrow> None
      | Some s1 \<Rightarrow>
          if i_cnt s1 < 256 then
            Some (s1\<lparr>i_cnt := i_cnt s1 + 1\<rparr>, pulse_read (i_base s1 + 255) tb)
          else
            (let s2 = s1\<lparr>i_cnt := 0\<rparr>
             in case put_lba (get_lba s2 + 1) s2 of None \<Rightarrow> None
                | Some s3 \<Rightarrow>
                    (let n = r_sector_count (i_regs s3) - 1;
                         s4 = upd_regs (\<lambda>r. r\<lparr>r_sector_count := n\<rparr>) s3
                     in if n \<noteq> 0 then Some (s4\<lparr>i_state := WRITE_REGS\<rparr>, tb)
                        else Some (goto_set_regs IDLE (upd_regs (\<lambda>r. r\<lparr>
                               r_status := ATA_STATUS_RDY OR ATA_STATUS_IRQ\<rparr>) s4), tb))))"

definition tick_packet_wait_req :: "hps_ide \<Rightarrow> mgmt_bus \<Rightarrow> tick_result" where
  "tick_packet_wait_req s tb =
     (let req = ide_request s tb
      in if req = 5 then
           Some (s\<lparr>i_cnt := 0, i_packet := replicate 12 0, i_state := PACKET_RECV\<rparr>, tb)
         else if req \<noteq> 0 then Some (s\<lparr>i_state := IDLE\<rparr>, tb)
         else Some (s, tb))"

definition tick_packet_recv :: "hps_ide \<Rightarrow> mgmt_bus \<Rightarrow> tick_result" where
  "tick_packet_recv s tb =
     (case (if i_cnt s > 0
            then map_option (\<lambda>p. s\<lparr>i_packet := p\<rparr>)
                   (put_word_at (i_packet s) 0 (i_cnt s - 1) (mgmt_readdata tb))
            else Some s) of None \<Rightarrow> None
      | Some s1 \<Rightarrow>
          if i_cnt s1 < 6 then
            Some (s1\<lparr>i_cnt := i_cnt s1 + 1\<rparr>, pulse_read (i_base s1 + 255) tb)
          else Some (s1\<lparr>i_cnt := 0, i_state := PACKET_HANDLE\<rparr>, pulse_write (i_base s1 + 7) 0 tb))"

definition tick_packet_handle :: "hps_ide \<Rightarrow> mgmt_bus \<Rightarrow> tick_result" where
  "tick_packet_handle s tb = Some (handle_packet s, tb)"

definition tick_packet_send :: "hps_ide \<Rightarrow> mgmt_bus \<Rightarrow> tick_result" where
  "tick_packet_send s tb =
     (if i_cnt s < uint (r_pkt_io_size (i_regs s)) then
        (case word_at (i_packet_data s) 0 (i_cnt s) of None \<Rightarrow> None
         | Some w \<Rightarrow> Some (s\<lparr>i_cnt := i_cnt s + 1\<rparr>, pulse_write (i_base s + 255) w tb))
      else Some (goto_set_regs PACKET_READ_WAIT_REQ (s\<lparr>i_cnt := 0\<rparr>), tb))"

definition tick_packet_read_wait_req :: "hps_ide \<Rightarrow> mgmt_bus \<Rightarrow> tick_result" where
  "tick_packet_read_wait_req s tb =
     (let req = ide_request s tb
      in if req = 5 then
           Some (if i_packet_remaining s \<noteq> 0 then prepare_cdrom_read s else finish_packet 0 0 0 0 s, tb)
         else if req \<noteq> 0 then Some (s\<lparr>i_state := IDLE\<rparr>, tb)
         else Some (s, tb))"

fun tick_switch :: "ide_state \<Rightarrow> hps_ide \<Rightarrow> mgmt_bus \<Rightarrow> tick_result" where
  "tick_switch INITIAL = tick_initial"
| "tick_switch IDLE = tick_idle"
| "tick_switch GET_RESET_DRIVE = tick_get_reset_drive"
| "tick_switch RESET_SET = tick_reset_set"
| "tick_switch GET_CMD = tick_get_cmd"
| "tick_switch DO_CMD = tick_do_cmd"
| "tick_switch SEND_ID = tick_send_id"
| "tick_switch SET_REGS = tick_set_regs"
| "tick_switch SET_REGS_SEND = tick_set_regs_send"
| "tick_switch READ = tick_read"
| "tick_switch READ_REGS = tick_read_regs"
| "tick_switch READ_SEND = tick_read_send"
| "tick_switch READ_WAIT_REQ = tick_read_wait_req"
| "tick_switch WRITE = tick_write"
| "tick_switch WRITE_REGS = tick_write_regs"
| "tick_switch WRITE_WAIT_REQ = tick_write_wait_req"
| "tick_switch WRITE_RECV = tick_write_recv"
| "tick_switch PACKET_WAIT_REQ = tick_packet_wait_req"
| "tick_switch PACKET_RECV = tick_packet_recv"
| "tick_switch PACKET_SEND = tick_packet_send"
| "tick_switch PACKET_READ_WAIT_REQ = tick_packet_read_wait_req"
| "tick_switch PACKET_HANDLE = tick_packet_handle"
| "tick_switch (STATE_OUT n) = (\<lambda>s tb. Some (s, tb))"

definition tick_reset :: "hps_ide \<Rightarrow> hps_ide" where
  "tick_reset s = s\<lparr>i_state := INITIAL,
     i_regs := default_regs\<lparr>r_status := (if i_cdrom s then 0 else ATA_STATUS_RDY)\<rparr>,
     i_bus_cooldown := False, i_jitter_delay := 0, i_next_state := IDLE\<rparr>"

definition tick_finish :: "jitter \<Rightarrow> hps_ide \<times> mgmt_bus \<Rightarrow> jitter \<times> hps_ide \<times> mgmt_bus" where
  "tick_finish j r =
     (let (s, tb) = r
      in if bus_active tb then
           (if j_en j
            then (let (d, j') = jitter_next j
                  in (j', s\<lparr>i_bus_cooldown := True, i_jitter_delay := d\<rparr>, tb))
            else (j, s\<lparr>i_bus_cooldown := True\<rparr>, tb))
         else (j, s, tb))"

definition tick :: "jitter \<Rightarrow> hps_ide \<Rightarrow> mgmt_bus \<Rightarrow> (jitter \<times> hps_ide \<times> mgmt_bus) option" where
  "tick j s tb =
     (let tb = clear_bus tb
      in if tb_reset tb then Some (j, tick_reset s, tb)
         else if i_bus_cooldown s then Some (j, s\<lparr>i_bus_cooldown := False\<rparr>, tb)
         else if i_jitter_delay s > 0 then Some (j, s\<lparr>i_jitter_delay := i_jitter_delay s - 1\<rparr>, tb)
         else map_option (tick_finish j) (tick_switch (i_state s) s tb))"

lemmas tick_defs [ide_defs] =
  tick_initial_def tick_idle_def tick_get_reset_drive_def tick_reset_set_def tick_get_cmd_def
  tick_do_cmd_def tick_send_id_def tick_set_regs_def tick_set_regs_send_def tick_read_def
  tick_read_regs_def tick_read_send_def tick_read_wait_req_def tick_write_def
  tick_write_regs_def tick_write_wait_req_def tick_write_recv_def tick_packet_wait_req_def
  tick_packet_recv_def tick_packet_handle_def tick_packet_send_def
  tick_packet_read_wait_req_def

end
