(* ===== verification/Ide_Invariant.thy ===== *)
theory Ide_Invariant
  imports Ide_Tick
begin

text \<open>
  Memory safety of the IDE emulation: the invariant that ties the counter of each transfer state
  to the array it indexes, the geometry to a non-zero divisor and the sector pointer to the image;
  one lemma per case of \<open>tick\<close>; the interpretation of the device contract; and the states a
  mounted drive reaches.
\<close>

section \<open>The invariant\<close>

definition ide_wf :: "hps_ide \<Rightarrow> bool" where
  "ide_wf s \<longleftrightarrow> length (i_buf s) = 12 \<and> length (i_packet s) = 12 \<and>
     length (d_ident (i_drive s)) = 256 \<and> geom_ok (i_drive s) \<and>
     (\<forall>off. i_sector_words s = Some off \<longrightarrow> off + 512 \<le> length (i_image s)) \<and>
     i_next_state s \<in> {IDLE, RESET_SET, READ_WAIT_REQ, WRITE_WAIT_REQ, PACKET_WAIT_REQ,
       PACKET_READ_WAIT_REQ}"

fun phase_ok :: "ide_state \<Rightarrow> hps_ide \<Rightarrow> bool" where
  "phase_ok SEND_ID s \<longleftrightarrow> 0 \<le> i_cnt s \<and> i_cnt s \<le> 256"
| "phase_ok SET_REGS_SEND s \<longleftrightarrow> 0 \<le> i_cnt s \<and> i_cnt s \<le> 6"
| "phase_ok READ_SEND s \<longleftrightarrow> 0 \<le> i_cnt s \<and> i_cnt s \<le> 256"
| "phase_ok WRITE_RECV s \<longleftrightarrow> 0 \<le> i_cnt s \<and> i_cnt s \<le> 256"
| "phase_ok PACKET_RECV s \<longleftrightarrow> 0 \<le> i_cnt s \<and> i_cnt s \<le> 6"
| "phase_ok PACKET_SEND s \<longleftrightarrow>
     0 \<le> i_cnt s \<and> 2 * unat (r_pkt_io_size (i_regs s)) \<le> length (i_packet_data s)"
| "phase_ok _ s \<longleftrightarrow> True"

definition ide_inv :: "hps_ide \<Rightarrow> bool" where
  "ide_inv s \<longleftrightarrow> ide_wf s \<and> phase_ok (i_state s) s"

lemma ide_wf_upd [simp]:
  "ide_wf (s\<lparr>i_state := x_state\<rparr>) = ide_wf s"
  "ide_wf (s\<lparr>i_cnt := x_cnt\<rparr>) = ide_wf s"
  "ide_wf (s\<lparr>i_regs := x_regs\<rparr>) = ide_wf s"
  "ide_wf (s\<lparr>i_image_name := x_image_name\<rparr>) = ide_wf s"
  "ide_wf (s\<lparr>i_image_path := x_image_path\<rparr>) = ide_wf s"
  "ide_wf (s\<lparr>i_sector := x_sector\<rparr>) = ide_wf s"
  "ide_wf (s\<lparr>i_sector_count := x_sector_count\<rparr>) = ide_wf s"
  "ide_wf (s\<lparr>i_cylinder := x_cylinder\<rparr>) = ide_wf s"
  "ide_wf (s\<lparr>i_drv_addr := x_drv_addr\<rparr>) = ide_wf s"
  "ide_wf (s\<lparr>i_cmd := x_cmd\<rparr>) = ide_wf s"
  "ide_wf (s\<lparr>i_features := x_features\<rparr>) = ide_wf s"
  "ide_wf (s\<lparr>i_packet_data := x_packet_data\<rparr>) = ide_wf s"
  "ide_wf (s\<lparr>i_packet_lba := x_packet_lba\<rparr>) = ide_wf s"
  "ide_wf (s\<lparr>i_packet_remaining := x_packet_remaining\<rparr>) = ide_wf s"
  "ide_wf (s\<lparr>i_packet_size_limit := x_packet_size_limit\<rparr>) = ide_wf s"
  "ide_wf (s\<lparr>i_sense_key := x_sense_key\<rparr>) = ide_wf s"
  "ide_wf (s\<lparr>i_sense_asc := x_sense_asc\<rparr>) = ide_wf s"
  "ide_wf (s\<lparr>i_sense_ascq := x_sense_ascq\<rparr>) = ide_wf s"
  "ide_wf (s\<lparr>i_irq_pending := x_irq_pending\<rparr>) = ide_wf s"
  "ide_wf (s\<lparr>i_bus_cooldown := x_bus_cooldown\<rparr>) = ide_wf s"
  "ide_wf (s\<lparr>i_jitter_delay := x_jitter_delay\<rparr>) = ide_wf s"
  "ide_wf (s\<lparr>i_debug := x_debug\<rparr>) = ide_wf s"
  "ide_wf (s\<lparr>i_cdrom := x_cdrom\<rparr>) = ide_wf s"
  "ide_wf (upd_regs f s) = ide_wf s"
  by (simp_all add: ide_wf_def upd_regs_def)

lemma ide_wf_upd_if [simp]:
  "ide_wf s \<Longrightarrow> length b = 12 \<Longrightarrow> ide_wf (s\<lparr>i_buf := b\<rparr>)"
  "ide_wf s \<Longrightarrow> length b = 12 \<Longrightarrow> ide_wf (s\<lparr>i_packet := b\<rparr>)"
  "ide_wf s \<Longrightarrow> length b = length (i_image s) \<Longrightarrow> ide_wf (s\<lparr>i_image := b\<rparr>)"
  "ide_wf s \<Longrightarrow> n \<in> {IDLE, RESET_SET, READ_WAIT_REQ, WRITE_WAIT_REQ, PACKET_WAIT_REQ,
     PACKET_READ_WAIT_REQ} \<Longrightarrow> ide_wf (s\<lparr>i_next_state := n\<rparr>)"
  "ide_wf s \<Longrightarrow> ide_wf (s\<lparr>i_sector_words := sector_ptr (i_image s) l\<rparr>)"
  by (simp_all add: ide_wf_def sector_ptr_def)

lemma ide_wf_put_lba: "put_lba l s = Some s' \<Longrightarrow> ide_wf s' = ide_wf s"
  by (auto simp: put_lba_def Let_def split: if_splits)

lemma put_lba_select:
  assumes "put_lba l s = Some s'"
  shows "i_state s' = i_state s" "i_cnt s' = i_cnt s" "i_drive s' = i_drive s"
    "i_image s' = i_image s" "i_sector_words s' = i_sector_words s" "i_base s' = i_base s"
    "i_id s' = i_id s" "r_lba (i_regs s') = r_lba (i_regs s)"
    "r_sector_count (i_regs s') = r_sector_count (i_regs s)"
    "i_cdrom s' = i_cdrom s" "i_next_state s' = i_next_state s"
  using assms by (auto simp: put_lba_def Let_def split: if_splits)

lemma ide_wf_set_geometry:
  assumes "ide_wf s" and "unat h \<le> 256" and "unat t \<le> 255"
  shows "ide_wf (set_geometry t h s)"
proof -
  have "length (d_ident (i_drive (set_geometry t h s))) = 256"
    by (simp add: set_geometry_def update_identify_def identify_disk_def identify_cdrom_def Let_def)
  moreover have "i_buf (set_geometry t h s) = i_buf s" "i_packet (set_geometry t h s) = i_packet s"
    "i_image (set_geometry t h s) = i_image s" "i_sector_words (set_geometry t h s) = i_sector_words s"
    "i_next_state (set_geometry t h s) = i_next_state s"
    by (simp_all add: set_geometry_def update_identify_def Let_def)
  ultimately show ?thesis
    using assms set_geometry_ok [of h t s] by (simp add: ide_wf_def)
qed

section \<open>Every handler keeps it\<close>

lemma finish_packet_inv: "ide_wf s \<Longrightarrow> ide_inv (finish_packet k a q e s)"
  by (simp add: ide_inv_def finish_packet_def)

lemma goto_set_regs_inv:
  "ide_wf s \<Longrightarrow> n \<in> {IDLE, RESET_SET, READ_WAIT_REQ, WRITE_WAIT_REQ, PACKET_WAIT_REQ,
     PACKET_READ_WAIT_REQ} \<Longrightarrow> ide_inv (goto_set_regs n s)"
  by (simp add: ide_inv_def goto_set_regs_def)

lemma twice_half_word: "2 * unat (word_of_nat (n div 2) :: 'a::len word) \<le> n"
proof -
  have "unat (word_of_nat (n div 2) :: 'a word) \<le> n div 2"
    by (simp add: unat_of_nat)
  then show ?thesis by linarith
qed

lemma send_packet_data_inv: "ide_wf s \<Longrightarrow> ide_inv (send_packet_data d s)"
  by (simp add: ide_inv_def send_packet_data_def Let_def twice_half_word)

lemma prepare_cdrom_read_inv: "ide_wf s \<Longrightarrow> ide_inv (prepare_cdrom_read s)"
  by (simp add: prepare_cdrom_read_def Let_def finish_packet_inv send_packet_data_inv)

lemma ide_inv_sense:
  "ide_inv (s\<lparr>i_sense_key := a, i_sense_asc := b, i_sense_ascq := c\<rparr>) = ide_inv s"
  by (cases "i_state s") (simp_all add: ide_inv_def)

lemma handle_packet_inv: "ide_wf s \<Longrightarrow> ide_inv (handle_packet s)"
  by (simp add: handle_packet_def Let_def finish_packet_inv send_packet_data_inv
      prepare_cdrom_read_inv packet_request_sense_def packet_inquiry_def packet_read_capacity_def
      packet_read_toc_def packet_read_subchannel_def packet_mode_sense_def
      packet_get_configuration_def ide_inv_sense)

lemma handle_cdrom_cmd_inv: "ide_wf s \<Longrightarrow> ide_inv (handle_cdrom_cmd s)"
  by (simp add: handle_cdrom_cmd_def Let_def goto_set_regs_inv finish_packet_inv)
     (simp add: ide_inv_def)

lemma abort_cmd_inv: "ide_wf s \<Longrightarrow> ide_inv (abort_cmd s)"
  by (simp add: abort_cmd_def goto_set_regs_inv)

lemma unat_and_le: "unat (a AND b) \<le> unat (b :: 'a::len word)"
  by (simp add: word_and_le1 flip: word_le_nat_alt)

lemma head_plus_one: "unat (ucast (h :: u8) + 1 :: u16) \<le> 256"
proof -
  have "unat h < 2 ^ LENGTH(8)" by (rule unsigned_less)
  then show ?thesis by (simp add: unat_word_ariths)
qed

lemma handle_disk_cmd_inv:
  assumes "ide_wf s" and "i_cmd s = 0x91 \<Longrightarrow> unat (r_sector_count (i_regs s)) \<le> 255"
  shows "ide_inv (handle_disk_cmd s)"
  using assms
  by (simp add: handle_disk_cmd_def Let_def goto_set_regs_inv abort_cmd_inv ide_wf_set_geometry
      head_plus_one) (simp add: ide_inv_def)

lemma handle_cmd_inv: "ide_wf s \<Longrightarrow> ide_inv (handle_cmd s)"
  using unat_and_le [of "r_sector_count (i_regs s)" "0xFF"]
  by (simp add: handle_cmd_def abort_cmd_inv handle_cdrom_cmd_inv)
     (intro impI handle_disk_cmd_inv; simp add: mask_taskfile_def Let_def)

definition step_ok :: "mgmt_bus \<Rightarrow> tick_result \<Rightarrow> bool" where
  "step_ok tb r \<longleftrightarrow> (\<exists>s' tb'. r = Some (s', tb') \<and> ide_inv s' \<and> bus_frame tb tb')"

lemma step_okI [intro!]:
  "ide_inv s' \<Longrightarrow> bus_frame tb tb' \<Longrightarrow> step_ok tb (Some (s', tb'))"
  by (simp add: step_ok_def)

lemma inv_plain:
  "ide_wf s \<Longrightarrow> phase_ok st s \<Longrightarrow> i_state s = st \<Longrightarrow> ide_inv s"
  by (simp add: ide_inv_def)

lemma tick_initial_ok: "ide_wf s \<Longrightarrow> step_ok tb (tick_initial s tb)"
  by (auto simp: tick_initial_def ide_inv_def)

lemma tick_idle_ok: "ide_inv s \<Longrightarrow> i_state s = IDLE \<Longrightarrow> step_ok tb (tick_idle s tb)"
  by (auto simp: tick_idle_def Let_def ide_inv_def)

lemma tick_get_reset_drive_ok: "ide_wf s \<Longrightarrow> step_ok tb (tick_get_reset_drive s tb)"
  by (auto simp: tick_get_reset_drive_def Let_def intro!: goto_set_regs_inv)

lemma tick_reset_set_ok: "ide_wf s \<Longrightarrow> step_ok tb (tick_reset_set s tb)"
  by (auto simp: tick_reset_set_def ide_inv_def)

lemma tick_get_cmd_ok: "ide_wf s \<Longrightarrow> i_state s = GET_CMD \<Longrightarrow> step_ok tb (tick_get_cmd s tb)"
  by (simp add: tick_get_cmd_def Let_def step_ok_def ide_inv_def)

lemma tick_do_cmd_ok: "ide_wf s \<Longrightarrow> step_ok tb (tick_do_cmd s tb)"
  by (auto simp: tick_do_cmd_def intro!: handle_cmd_inv)

lemma tick_send_id_ok: "ide_inv s \<Longrightarrow> i_state s = SEND_ID \<Longrightarrow> step_ok tb (tick_send_id s tb)"
  by (auto simp: tick_send_id_def nth_int_def ide_inv_def goto_set_regs_def ide_wf_def
      dest: nat_less_iff [THEN iffD2])

lemma tick_set_regs_ok: "ide_wf s \<Longrightarrow> step_ok tb (tick_set_regs s tb)"
  by (simp add: tick_set_regs_def Let_def step_ok_def ide_inv_def regs_buffer_def)

lemma tick_set_regs_send_ok:
  assumes "ide_inv s" and "i_state s = SET_REGS_SEND"
  shows "step_ok tb (tick_set_regs_send s tb)"
proof (cases "i_cnt s < 6")
  case True
  with assms have "2 * nat (i_cnt s) + 1 < length (i_buf s)"
    by (auto simp: ide_inv_def ide_wf_def)
  with True assms show ?thesis
    by (auto simp: tick_set_regs_send_def word_at_def ide_inv_def)
next
  case False
  with assms show ?thesis
    by (auto simp: tick_set_regs_send_def ide_inv_def) (auto simp: ide_wf_def)
qed

lemma tick_read_ok: "ide_wf s \<Longrightarrow> step_ok tb (tick_read s tb)"
  by (auto simp: tick_read_def ide_inv_def)

lemma tick_read_regs_ok:
  assumes "ide_wf s"
  shows "step_ok tb (tick_read_regs s tb)"
proof -
  let ?p = "sector_ptr (i_image s) (get_lba s)"
  let ?s1 = "s\<lparr>i_sector_words := ?p, i_buf := (if ?p = None then replicate 12 0 else i_buf s)\<rparr>"
  have wf: "ide_wf ?s1"
    using assms by (auto simp: ide_wf_def sector_ptr_def)
  obtain s2 where s2: "put_lba (get_lba ?s1 + 1) ?s1 = Some s2"
    using wf put_lba_defined [of ?s1] by (auto simp: ide_wf_def)
  with wf have "ide_wf s2" by (simp add: ide_wf_put_lba)
  then show ?thesis
    using s2 by (simp add: tick_read_regs_def Let_def step_ok_def ide_inv_def)
qed

lemma tick_read_send_ok:
  assumes "ide_inv s" and "i_state s = READ_SEND"
  shows "step_ok tb (tick_read_send s tb)"
proof (cases "i_cnt s < 256")
  case True
  with assms have "0 \<le> i_cnt s" and "nat (i_cnt s) < 256"
    by (auto simp: ide_inv_def)
  then have "\<forall>off. i_sector_words s = Some off \<longrightarrow> off + 2 * nat (i_cnt s) + 1 < length (i_image s)"
    using assms by (auto simp: ide_inv_def ide_wf_def dest!: spec)
  with True assms show ?thesis
    by (auto simp: tick_read_send_def word_at_def ide_inv_def split: option.splits)
next
  case False
  with assms show ?thesis
    by (auto simp: tick_read_send_def ide_inv_def goto_set_regs_def)
qed

lemma wait_req_ok:
  "ide_inv s \<Longrightarrow> i_state s = READ_WAIT_REQ \<Longrightarrow> step_ok tb (tick_read_wait_req s tb)"
  "ide_inv s \<Longrightarrow> i_state s = WRITE_WAIT_REQ \<Longrightarrow> step_ok tb (tick_write_wait_req s tb)"
  "ide_inv s \<Longrightarrow> i_state s = PACKET_WAIT_REQ \<Longrightarrow> step_ok tb (tick_packet_wait_req s tb)"
  by (auto simp: tick_read_wait_req_def tick_write_wait_req_def tick_packet_wait_req_def Let_def
      ide_inv_def)

lemma packet_read_wait_req_ok:
  assumes "ide_inv s" and "i_state s = PACKET_READ_WAIT_REQ"
  shows "step_ok tb (tick_packet_read_wait_req s tb)"
proof -
  have "ide_wf s" and "ide_inv (s\<lparr>i_state := IDLE\<rparr>)"
    using assms by (auto simp: ide_inv_def)
  then show ?thesis
    using assms(1)
    by (simp add: tick_packet_read_wait_req_def Let_def step_ok_def finish_packet_inv
        prepare_cdrom_read_inv)
qed

lemma tick_write_ok: "ide_wf s \<Longrightarrow> step_ok tb (tick_write s tb)"
  by (auto simp: tick_write_def ide_inv_def)

lemma tick_write_regs_ok: "ide_wf s \<Longrightarrow> step_ok tb (tick_write_regs s tb)"
  by (auto simp: tick_write_regs_def intro!: goto_set_regs_inv)

lemma length_put_word_at: "put_word_at bs off i w = Some bs' \<Longrightarrow> length bs' = length bs"
  by (auto simp: put_word_at_def split: if_splits)

lemma store_word_ok:
  assumes "ide_inv s" and "i_state s = WRITE_RECV"
  obtains s1 where "store_word s tb = Some s1" and "ide_wf s1" and "i_cnt s1 = i_cnt s"
    and "i_state s1 = WRITE_RECV" and "i_base s1 = i_base s"
proof (cases "i_cnt s > 0 \<and> i_sector_words s \<noteq> None")
  case False
  with assms have "store_word s tb = Some s" and "ide_wf s"
    by (auto simp: store_word_def ide_inv_def)
  with assms that show ?thesis by simp
next
  case True
  then obtain off where off: "i_sector_words s = Some off" by auto
  have c: "0 < i_cnt s" "i_cnt s \<le> 256"
    using True assms by (auto simp: ide_inv_def)
  moreover have "off + 512 \<le> length (i_image s)"
    using off assms by (auto simp: ide_inv_def ide_wf_def)
  moreover have "nat (i_cnt s - 1) < 256"
    using c by linarith
  ultimately obtain img where img: "put_word_at (i_image s) off (i_cnt s - 1) (mgmt_readdata tb) = Some img"
    by (auto simp: put_word_at_def)
  then have "store_word s tb = Some (s\<lparr>i_image := img\<rparr>)"
    using c off by (simp add: store_word_def)
  moreover have "ide_wf (s\<lparr>i_image := img\<rparr>)"
    using assms length_put_word_at [OF img] by (simp add: ide_inv_def)
  ultimately show ?thesis
    using that assms by simp
qed

lemma tick_write_recv_ok:
  assumes "ide_inv s" and "i_state s = WRITE_RECV"
  shows "step_ok tb (tick_write_recv s tb)"
proof -
  obtain s1 where s1: "store_word s tb = Some s1" "ide_wf s1" "i_cnt s1 = i_cnt s"
    "i_state s1 = WRITE_RECV"
    using store_word_ok [OF assms] by metis
  obtain s3 where s3: "put_lba (get_lba (s1\<lparr>i_cnt := 0\<rparr>) + 1) (s1\<lparr>i_cnt := 0\<rparr>) = Some s3"
    using s1(2) put_lba_defined [of "s1\<lparr>i_cnt := 0\<rparr>"] by (auto simp: ide_wf_def)
  have wf3: "ide_wf s3"
    using s3 s1(2) by (simp add: ide_wf_put_lba)
  show ?thesis
  proof (cases "i_cnt s < 256")
    case True
    with s1 assms show ?thesis
      by (auto simp: tick_write_recv_def ide_inv_def)
  next
    case False
    with s1 s3 wf3 show ?thesis
      by (simp add: tick_write_recv_def Let_def step_ok_def goto_set_regs_inv)
         (simp add: ide_inv_def)
  qed
qed

lemma tick_packet_recv_ok:
  assumes "ide_inv s" and "i_state s = PACKET_RECV"
  shows "step_ok tb (tick_packet_recv s tb)"
proof -
  have c: "0 \<le> i_cnt s" "i_cnt s \<le> 6" "length (i_packet s) = 12" "ide_wf s"
    using assms by (auto simp: ide_inv_def ide_wf_def)
  have len: "length ((i_packet s)[2 * nat (i_cnt s - 1) := a, Suc (2 * nat (i_cnt s - 1)) := b]) = 12"
    for a b using c by simp
  have "0 < i_cnt s \<Longrightarrow> 2 * nat (i_cnt s - 1) + 1 < 12"
    using c by linarith
  then show ?thesis
    using c assms len
    by (auto simp: tick_packet_recv_def put_word_at_def step_ok_def ide_inv_def)
qed

lemma tick_packet_handle_ok: "ide_wf s \<Longrightarrow> step_ok tb (tick_packet_handle s tb)"
  by (auto simp: tick_packet_handle_def intro!: handle_packet_inv)

lemma tick_packet_send_ok:
  assumes "ide_inv s" and "i_state s = PACKET_SEND"
  shows "step_ok tb (tick_packet_send s tb)"
proof (cases "i_cnt s < uint (r_pkt_io_size (i_regs s))")
  case True
  with assms have c: "0 \<le> i_cnt s" "nat (i_cnt s) < unat (r_pkt_io_size (i_regs s))"
    by (auto simp: ide_inv_def nat_less_iff)
  with assms have "2 * nat (i_cnt s) + 1 < length (i_packet_data s)"
    by (auto simp: ide_inv_def)
  with True c assms show ?thesis
    by (auto simp: tick_packet_send_def word_at_def ide_inv_def)
next
  case False
  with assms show ?thesis
    by (auto simp: tick_packet_send_def ide_inv_def goto_set_regs_def)
qed

lemma tick_switch_ok:
  assumes "ide_inv s"
  shows "step_ok tb (tick_switch (i_state s) s tb)"
proof -
  have wf: "ide_wf s" using assms by (simp add: ide_inv_def)
  show ?thesis
  proof (cases "i_state s")
    case (STATE_OUT n)
    with assms show ?thesis by auto
  qed (use assms wf in \<open>auto intro!: tick_initial_ok tick_idle_ok tick_get_reset_drive_ok
      tick_reset_set_ok tick_get_cmd_ok tick_do_cmd_ok tick_send_id_ok tick_set_regs_ok
      tick_set_regs_send_ok tick_read_ok tick_read_regs_ok tick_read_send_ok wait_req_ok packet_read_wait_req_ok
      tick_write_ok tick_write_regs_ok tick_write_recv_ok tick_packet_recv_ok
      tick_packet_handle_ok tick_packet_send_ok\<close>)
qed

lemma ide_inv_timers:
  "ide_inv (s\<lparr>i_bus_cooldown := b\<rparr>) = ide_inv s" "ide_inv (s\<lparr>i_jitter_delay := d\<rparr>) = ide_inv s"
  by (cases "i_state s"; simp add: ide_inv_def)+

lemma tick_reset_inv: "ide_wf s \<Longrightarrow> ide_inv (tick_reset s)"
  by (simp add: tick_reset_def ide_inv_def)

interpretation ide_dev: mgmt_device tick ide_inv
proof
  fix s c tb
  assume inv: "ide_inv s"
  then have wf: "ide_wf s" by (simp add: ide_inv_def)
  obtain s1 tb1 where sw: "tick_switch (i_state s) s (clear_bus tb) = Some (s1, tb1)"
    and s1: "ide_inv s1" "bus_frame (clear_bus tb) tb1"
    using tick_switch_ok [OF inv, of "clear_bus tb"] by (auto simp: step_ok_def)
  have fin: "\<exists>c' s' tb'. tick_finish c (s1, tb1) = (c', s', tb') \<and> ide_inv s' \<and> bus_frame tb tb'"
    using s1 bus_frame_trans [OF bus_frame_simps(4) s1(2)]
    by (simp add: tick_finish_def Let_def ide_inv_timers split: prod.splits)
  show "\<exists>c' s' tb'. tick c s tb = Some (c', s', tb') \<and> ide_inv s' \<and> bus_frame tb tb'"
    using fin sw inv tick_reset_inv [OF wf]
    by (auto simp: tick_def Let_def ide_inv_timers)
qed

lemma tick_bus_ok:
  assumes "ide_inv s" and "tick j s tb = Some (j', s', tb')"
  shows "bus_ok tb'"
proof -
  obtain s1 tb1 where "tick_switch (i_state s) s (clear_bus tb) = Some (s1, tb1)"
    and "bus_frame (clear_bus tb) tb1"
    using tick_switch_ok [OF assms(1), of "clear_bus tb"] by (auto simp: step_ok_def)
  moreover from this(2) have "bus_ok tb1"
    by (simp add: bus_frame_def)
  ultimately show ?thesis
    using assms(2)
    by (auto simp: tick_def tick_finish_def Let_def split: if_splits prod.splits)
qed

section \<open>Reachable states\<close>

lemma hps_ide_new_inv: "ide_inv (hps_ide_new dev base)"
  by (simp add: ide_inv_def ide_wf_def hps_ide_new_def default_drive_def geom_ok_def)

lemma hps_open_inv: "ide_inv (snd (hps_open fa f path (hps_ide_new dev base)))"
proof (cases f)
  case None
  then show ?thesis by (simp add: hps_open_def hps_ide_new_inv)
next
  case (Some a)
  obtain sz content where a: "a = (sz, content)" by fastforce
  obtain img good where rw: "read_whole sz content [] = (img, good)" by fastforce
  let ?s1 = "(hps_ide_new dev base)\<lparr>i_image := img\<rparr>"
  have wf: "ide_wf ?s1" "i_sector_words ?s1 = None" "i_state ?s1 = INITIAL"
    by (simp_all add: ide_wf_def hps_ide_new_def default_drive_def geom_ok_def)
  have st: "i_state (set_geometry t h s) = i_state s" for t h s
    by (simp add: set_geometry_def update_identify_def Let_def)
  have "ide_wf (set_geometry 63 16 (?s1\<lparr>i_drive := (i_drive ?s1)\<lparr>d_present := True,
      d_total_sectors := n\<rparr>, i_cdrom := False, i_image_name := nm, i_image_path := pa\<rparr>))" for n nm pa
    using wf by (intro ide_wf_set_geometry) (simp_all add: ide_wf_def geom_ok_def)
  then show ?thesis
    using Some a rw wf
    by (auto simp: hps_open_def Let_def ide_inv_def st hps_ide_new_def)
qed

lemma hps_open_cdrom_inv: "ide_inv (snd (hps_open_cdrom fa f path (hps_ide_new dev base)))"
proof -
  have "length identify_cdrom = 256"
    by (simp add: identify_cdrom_def)
  then show ?thesis
    by (simp add: hps_open_cdrom_def update_identify_def ide_inv_def ide_wf_def hps_ide_new_def
        default_drive_def geom_ok_def Let_def split: option.split prod.split)
qed

text \<open>
  The states an emulated drive goes through: constructed, possibly mounted with a disk or a CD-ROM
  image (whether the mount succeeds or fails), then clocked against any bus and any jitter.
\<close>

inductive ide_reachable :: "hps_ide \<Rightarrow> bool" where
  fresh: "ide_reachable (hps_ide_new dev base)"
| disk: "ide_reachable (snd (hps_open fa f path (hps_ide_new dev base)))"
| cdrom: "ide_reachable (snd (hps_open_cdrom fa f path (hps_ide_new dev base)))"
| clock: "ide_reachable s \<Longrightarrow> tick j s tb = Some (j', s', tb') \<Longrightarrow> ide_reachable s'"

lemma ide_reachable_inv: "ide_reachable s \<Longrightarrow> ide_inv s"
proof (induction rule: ide_reachable.induct)
  case (clock s j tb j' s' tb')
  then show ?case using ide_dev.step_inv by blast
qed (simp_all only: hps_ide_new_inv hps_open_inv hps_open_cdrom_inv)

text \<open>
  C2: memory safety of \<open>HpsIde::tick\<close>. In every reachable state of the IDE emulation and for
  every bus input, \<open>tick\<close> has a defined result: no index of \<open>drive_.id\<close>, \<open>buf_\<close>,
  \<open>packet_\<close>, \<open>packet_data_\<close> or of the sector in the image is out of range and no CHS
  division is by zero; and no tick raises both bus strobes.
\<close>

theorem ide_tick_defined:
  assumes "ide_reachable s"
  shows "\<exists>j' s' tb'. tick j s tb = Some (j', s', tb') \<and> ide_reachable s' \<and> bus_ok tb'"
proof -
  obtain j' s' tb' where t: "tick j s tb = Some (j', s', tb')"
    using ide_dev.step_total [OF ide_reachable_inv [OF assms], of j tb] by blast
  have "bus_ok tb'"
    using tick_bus_ok [OF ide_reachable_inv [OF assms] t] .
  with t assms show ?thesis
    by (blast intro: ide_reachable.clock)
qed

theorem ide_tick_defined_witness:
  "\<exists>j' s' tb'. tick \<lparr>j_en = False, j_state = 1\<rparr> (hps_ide_new 0 0xF000)
       \<lparr>tb_reset = False, mgmt_address = 0, mgmt_read = False, mgmt_write = False,
         mgmt_writedata = 0, mgmt_readdata = 0, ide0_request = 4, ide1_request = 0,
         fdd_request = 0\<rparr> = Some (j', s', tb')
     \<and> ide_reachable s' \<and> bus_ok tb'"
  by (rule ide_tick_defined [OF ide_reachable.fresh])

end
