(* ===== verification/Ide_Port.thy ===== *)
theory Ide_Port
  imports Ide_Invariant
begin

text \<open>
  Runs of the IDE emulation against the core. Between two ticks of \<open>HpsIde\<close> the harness clocks the
  Verilated core, which answers a read strobe. The core is a parameter: \<open>resp e a\<close> is the word the
  core in state \<open>e\<close> returns for a read of management address \<open>a\<close>, with its next state. The bus
  keeps the address and the data the core last returned, as the ports of the C++ model do; the
  request lines are an arbitrary stimulus. A run collects the words the device writes.

  \<open>reaches\<close> states what a device does whatever the latency jitter is: within \<open>B\<close> ticks it gets to
  the given state and has written exactly the given words. A step of the switch costs one tick, and
  a step that pulses the bus at most 65: the pulse, the cooldown tick and up to 63 ticks of jitter.
  The locales \<open>send_phase\<close> and \<open>recv_phase\<close> are the contracts of the word-transfer states.
\<close>

section \<open>Closed-loop runs\<close>

record 'e port =
  p_core :: 'e
  p_addr :: u16
  p_data :: u16

definition feed :: "'e port \<Rightarrow> mgmt_bus \<Rightarrow> mgmt_bus" where
  "feed p tb = tb\<lparr>mgmt_address := p_addr p, mgmt_readdata := p_data p\<rparr>"

definition answer :: "('e \<Rightarrow> u16 \<Rightarrow> u16 \<times> 'e) \<Rightarrow> 'e port \<Rightarrow> mgmt_bus \<Rightarrow> 'e port" where
  "answer resp p tb =
     (if mgmt_read tb
      then (let (d, e) = resp (p_core p) (mgmt_address tb)
            in p\<lparr>p_core := e, p_addr := mgmt_address tb, p_data := d\<rparr>)
      else p\<lparr>p_addr := mgmt_address tb\<rparr>)"

definition emitted :: "mgmt_bus \<Rightarrow> (u16 \<times> u16) list" where
  "emitted tb = (if mgmt_write tb then [(mgmt_address tb, mgmt_writedata tb)] else [])"

fun port_run :: "('e \<Rightarrow> u16 \<Rightarrow> u16 \<times> 'e) \<Rightarrow> 'e port \<Rightarrow> jitter \<Rightarrow> hps_ide \<Rightarrow> mgmt_bus list \<Rightarrow>
    ('e port \<times> jitter \<times> hps_ide \<times> (u16 \<times> u16) list) option" where
  "port_run resp p j s [] = Some (p, j, s, [])"
| "port_run resp p j s (tb # tbs) =
     (case tick j s (feed p tb) of None \<Rightarrow> None
      | Some (j', s', tb') \<Rightarrow>
          map_option (\<lambda>(p2, j2, s2, tr). (p2, j2, s2, emitted tb' @ tr))
            (port_run resp (answer resp p tb') j' s' tbs))"

definition reaches :: "('e \<Rightarrow> u16 \<Rightarrow> u16 \<times> 'e) \<Rightarrow> (mgmt_bus \<Rightarrow> bool) \<Rightarrow> nat \<Rightarrow> 'e port \<Rightarrow> hps_ide \<Rightarrow>
    'e port \<Rightarrow> hps_ide \<Rightarrow> (u16 \<times> u16) list \<Rightarrow> bool" where
  "reaches resp Q B p s p' s' tr \<longleftrightarrow>
     (\<forall>j tbs. B \<le> length tbs \<longrightarrow> (\<forall>tb\<in>set tbs. Q tb) \<longrightarrow>
        (\<exists>n\<le>B. \<exists>j'. port_run resp p j s (take n tbs) = Some (p', j', s', tr)))"

lemma port_run_append:
  "port_run resp p j s (us @ vs) =
     (case port_run resp p j s us of None \<Rightarrow> None
      | Some (p1, j1, s1, t1) \<Rightarrow>
          map_option (\<lambda>(p2, j2, s2, t2). (p2, j2, s2, t1 @ t2)) (port_run resp p1 j1 s1 vs))"
  by (induction us arbitrary: p j s)
     (auto simp: option.map_comp o_def map_option_case split: option.splits prod.splits)

lemma reaches_trans:
  assumes "reaches resp Q B1 p s p1 s1 t1" and "reaches resp Q B2 p1 s1 p2 s2 t2"
  shows "reaches resp Q (B1 + B2) p s p2 s2 (t1 @ t2)"
  unfolding reaches_def
proof (intro allI impI)
  fix j and tbs :: "mgmt_bus list"
  assume len: "B1 + B2 \<le> length tbs" and q: "\<forall>tb\<in>set tbs. Q tb"
  then obtain n1 j1 where n1: "n1 \<le> B1"
    and r1: "port_run resp p j s (take n1 tbs) = Some (p1, j1, s1, t1)"
    using assms(1) unfolding reaches_def by (metis add_leD1)
  have "B2 \<le> length (drop n1 tbs)" "\<forall>tb\<in>set (drop n1 tbs). Q tb"
    using len n1 q by (auto dest: in_set_dropD)
  then obtain n2 j2 where n2: "n2 \<le> B2"
    and r2: "port_run resp p1 j1 s1 (take n2 (drop n1 tbs)) = Some (p2, j2, s2, t2)"
    using assms(2) unfolding reaches_def by blast
  have "port_run resp p j s (take (n1 + n2) tbs) = Some (p2, j2, s2, t1 @ t2)"
    using r1 r2 by (simp add: take_add port_run_append)
  then show "\<exists>n\<le>B1 + B2. \<exists>j'. port_run resp p j s (take n tbs) = Some (p2, j', s2, t1 @ t2)"
    using n1 n2 by (meson add_mono)
qed

lemma reaches_mono: "reaches resp Q B p s p' s' tr \<Longrightarrow> B \<le> B' \<Longrightarrow> reaches resp Q B' p s p' s' tr"
  unfolding reaches_def by (meson le_trans)

lemma reaches_refl: "reaches resp Q 0 p s p s []"
  unfolding reaches_def by auto

definition settled :: "hps_ide \<Rightarrow> bool" where
  "settled s \<longleftrightarrow> \<not> i_bus_cooldown s \<and> i_jitter_delay s = 0"

definition awake :: "mgmt_bus \<Rightarrow> bool" where
  "awake tb \<longleftrightarrow> \<not> tb_reset tb"

lemma jitter_next_bound:
  assumes "jitter_next j = (d, j')" shows "0 \<le> d \<and> d \<le> 63"
proof -
  have "x AND 0x3F \<le> (0x3F :: u32)" for x
    by (rule word_and_le1)
  then have "uint (x AND 0x3F :: u32) \<le> 63" for x
    unfolding word_le_def by simp
  then show ?thesis
    using assms by (auto simp: jitter_next_def Let_def)
qed

lemma countdown:
  assumes "\<forall>tb\<in>set tbs. awake tb" and "i_jitter_delay s = int (length tbs)" "\<not> i_bus_cooldown s"
  shows "port_run resp p j s tbs = Some (p, j, s\<lparr>i_jitter_delay := 0\<rparr>, [])"
  using assms
proof (induction tbs arbitrary: s)
  case Nil
  then show ?case by simp
next
  case (Cons tb tbs)
  have "port_run resp p j (s\<lparr>i_jitter_delay := i_jitter_delay s - 1\<rparr>) tbs =
      Some (p, j, s\<lparr>i_jitter_delay := 0\<rparr>, [])"
    using Cons.IH [of "s\<lparr>i_jitter_delay := i_jitter_delay s - 1\<rparr>"] Cons.prems by simp
  then show ?case
    using Cons.prems
    by (simp add: tick_def Let_def awake_def feed_def answer_def emitted_def)
qed


lemma wait_out:
  assumes "\<forall>tb\<in>set tbs. awake tb" and "i_jitter_delay s = int d" "i_bus_cooldown s" "Suc d = length tbs"
  shows "port_run resp p j s tbs = Some (p, j, s\<lparr>i_bus_cooldown := False, i_jitter_delay := 0\<rparr>, [])"
proof -
  obtain tb us where tbs: "tbs = tb # us" using assms(4) by (cases tbs) auto
  have "port_run resp p j (s\<lparr>i_bus_cooldown := False\<rparr>) us =
    Some (p, j, s\<lparr>i_bus_cooldown := False, i_jitter_delay := 0\<rparr>, [])"
    using countdown [of us "s\<lparr>i_bus_cooldown := False\<rparr>"] assms tbs by simp
  then show ?thesis
    using assms tbs by (simp add: tick_def Let_def awake_def feed_def answer_def emitted_def)
qed

lemma settled_back: "settled s \<Longrightarrow> s\<lparr>i_bus_cooldown := False, i_jitter_delay := 0\<rparr> = s"
  by (simp add: settled_def)

lemma tick_settled:
  "settled s \<Longrightarrow> awake tb \<Longrightarrow>
     tick j s tb = map_option (tick_finish j) (tick_switch (i_state s) s (clear_bus tb))"
  by (simp add: tick_def settled_def awake_def)

text \<open>A step of the switch that leaves the bus alone takes one tick.\<close>

lemma reaches_quiet:
  assumes "settled s"
    and "\<And>tb. Q tb \<Longrightarrow> awake tb \<and> tick_switch (i_state s) s (clear_bus (feed p tb)) = Some (s', clear_bus (feed p tb))"
  shows "reaches resp Q 1 p s p s' []"
  unfolding reaches_def
proof (intro allI impI)
  fix j and tbs :: "mgmt_bus list"
  assume "1 \<le> length tbs" "\<forall>tb\<in>set tbs. Q tb"
  then obtain tb us where tbs: "tbs = tb # us" and q: "Q tb" by (cases tbs) auto
  have "awake (feed p tb)" using assms(2) [OF q] by (simp add: awake_def feed_def)
  then have "port_run resp p j s (take 1 tbs) = Some (p, j, s', [])"
    using assms q tbs
    by (simp add: tick_settled tick_finish_def answer_def emitted_def feed_def)
  then show "\<exists>n\<le>1. \<exists>j'. port_run resp p j s (take n tbs) = Some (p, j', s', [])"
    by (intro exI [of _ 1]) auto
qed

text \<open>A step that pulses the bus is followed by the cooldown tick and by at most 63 jitter ticks.\<close>

lemma reaches_pulse:
  assumes "settled s" "settled s'"
    and q: "\<And>tb. Q tb \<Longrightarrow> awake tb \<and> (\<exists>tb'. tick_switch (i_state s) s (clear_bus (feed p tb)) = Some (s', tb')
          \<and> bus_active tb' \<and> answer resp p tb' = p' \<and> emitted tb' = tr)"
  shows "reaches resp Q 65 p s p' s' tr"
  unfolding reaches_def
proof (intro allI impI)
  fix j and tbs :: "mgmt_bus list"
  assume len: "65 \<le> length tbs" and all: "\<forall>tb\<in>set tbs. Q tb"
  then obtain tb us where tbs: "tbs = tb # us" by (cases tbs) auto
  have "Q tb" using all tbs by simp
  then have "awake (feed p tb)" using q by (auto simp: awake_def feed_def)
  obtain tb' where "tick_switch (i_state s) s (clear_bus (feed p tb)) = Some (s', tb')"
    and b: "bus_active tb'" "answer resp p tb' = p'" "emitted tb' = tr"
    using q [OF \<open>Q tb\<close>] by blast
  with \<open>awake (feed p tb)\<close> have sw: "tick j s (feed p tb) = Some (tick_finish j (s', tb'))"
    using assms(1) by (simp add: tick_settled)
  obtain j' d where fin: "tick_finish j (s', tb') = (j', s'\<lparr>i_bus_cooldown := True, i_jitter_delay := int d\<rparr>, tb')"
    and d: "d \<le> 63"
  proof (cases "j_en j")
    case True
    obtain d j' where "jitter_next j = (d, j')" by fastforce
    with True b that [of j' "nat d"] jitter_next_bound [of j d j'] show ?thesis
      by (simp add: tick_finish_def nat_le_iff)
  next
    case False
    with b assms(2) that [of j 0] show ?thesis
      by (simp add: tick_finish_def settled_def)
  qed
  have "\<forall>tb\<in>set (take (Suc d) us). awake tb"
    using all q tbs by (auto dest: in_set_takeD)
  moreover have "Suc d = length (take (Suc d) us)"
    using len tbs d by simp
  ultimately have "port_run resp p' j' (s'\<lparr>i_bus_cooldown := True, i_jitter_delay := int d\<rparr>) (take (Suc d) us)
      = Some (p', j', s', [])"
    using wait_out [of "take (Suc d) us" "s'\<lparr>i_bus_cooldown := True, i_jitter_delay := int d\<rparr>" d resp p' j']
      assms(2) by (simp add: settled_back)
  then have "port_run resp p j s (take (Suc (Suc d)) tbs) = Some (p', j', s', tr)"
    using tbs sw fin b by simp
  then show "\<exists>n\<le>65. \<exists>j'. port_run resp p j s (take n tbs) = Some (p', j', s', tr)"
    using d by (intro exI [of _ "Suc (Suc d)"]) auto
qed


section \<open>Phases that send words\<close>

definition moved :: "'e port \<Rightarrow> (u16 \<times> u16) list \<Rightarrow> 'e port" where
  "moved p tr = (if tr = [] then p else p\<lparr>p_addr := fst (last tr)\<rparr>)"

lemma moved_simps [simp]:
  "moved p [] = p" "moved (moved p a) b = moved p (a @ b)"
  "p_core (moved p a) = p_core p" "p_data (moved p a) = p_data p"
  by (simp_all add: moved_def)

lemma reaches_send:
  assumes "settled s" "settled s'"
    and "\<And>tb. Q tb \<Longrightarrow> awake tb \<and> tick_switch (i_state s) s (clear_bus (feed p tb)) =
          Some (s', pulse_write a w (clear_bus (feed p tb)))"
  shows "reaches resp Q 65 p s (moved p [(a, w)]) s' [(a, w)]"
  using assms by (intro reaches_pulse) (auto simp: moved_def answer_def emitted_def)

locale send_phase =
  fixes st :: ide_state
    and total :: "hps_ide \<Rightarrow> nat"
    and item :: "hps_ide \<Rightarrow> nat \<Rightarrow> u16 \<times> u16"
    and ok :: "hps_ide \<Rightarrow> bool"
    and leave :: "hps_ide \<Rightarrow> hps_ide"
  assumes more: "ok s \<Longrightarrow> i_cnt s = int k \<Longrightarrow> k < total s \<Longrightarrow>
      tick_switch st s tb =
        Some (s\<lparr>i_cnt := int (Suc k)\<rparr>, pulse_write (fst (item s k)) (snd (item s k)) tb)"
    and last_step: "i_cnt s = int (total s) \<Longrightarrow> tick_switch st s tb = Some (leave s, tb)"
    and stable: "ok (s\<lparr>i_cnt := c\<rparr>) = ok s" "total (s\<lparr>i_cnt := c\<rparr>) = total s"
      "item (s\<lparr>i_cnt := c\<rparr>) = item s"
begin

lemma send_rest:
  assumes "settled s" "i_state s = st" "ok s" "i_cnt s = int k" "k \<le> total s"
    and Q: "\<And>tb. Q tb \<Longrightarrow> awake tb"
  shows "reaches resp Q (65 * (total s - k) + 1) p s
    (moved p (map (item s) [k..<total s])) (leave (s\<lparr>i_cnt := int (total s)\<rparr>)) (map (item s) [k..<total s])"
  using assms(1-5)
proof (induction "total s - k" arbitrary: k s p)
  case 0
  then have k: "k = total s" and same: "s\<lparr>i_cnt := int (total s)\<rparr> = s" by auto
  show ?case
    using 0 k Q reaches_quiet [of s Q p "leave s" resp] by (simp add: same last_step)
next
  case (Suc m)
  let ?s = "s\<lparr>i_cnt := int (Suc k)\<rparr>"
  have k: "k < total s" using Suc.hyps(2) by linarith
  have m: "m = total s - Suc k" "65 * (total s - k) + 1 = 65 + (65 * m + 1)"
    using Suc.hyps(2) by linarith+
  have 1: "reaches resp Q 65 p s (moved p [item s k]) ?s [item s k]"
    using Suc.prems k Q reaches_send [of s ?s Q p "fst (item s k)" "snd (item s k)" resp]
    by (simp add: settled_def more)
  have 2: "reaches resp Q (65 * m + 1) (moved p [item s k]) ?s
      (moved (moved p [item s k]) (map (item s) [Suc k..<total s])) (leave (s\<lparr>i_cnt := int (total s)\<rparr>))
      (map (item s) [Suc k..<total s])"
    using Suc.hyps(1) [of ?s "Suc k" "moved p [item s k]"] m(1) Suc.prems k
    by (simp add: stable settled_def)
  show ?case
    unfolding m(2) using reaches_trans [OF 1 2] k by (simp add: upt_conv_Cons)
qed

lemma send_all:
  assumes "settled s" "i_state s = st" "ok s" "i_cnt s = 0" and "\<And>tb. Q tb \<Longrightarrow> awake tb"
  shows "reaches resp Q (65 * total s + 1) p s
    (moved p (map (item s) [0..<total s])) (leave (s\<lparr>i_cnt := int (total s)\<rparr>)) (map (item s) [0..<total s])"
  using send_rest [of s 0 Q resp p] assms by simp

end


section \<open>Phases that fetch words\<close>

fun fetch :: "('e \<Rightarrow> u16 \<Rightarrow> u16 \<times> 'e) \<Rightarrow> 'e \<Rightarrow> u16 list \<Rightarrow> u16 list \<times> 'e" where
  "fetch resp e [] = ([], e)"
| "fetch resp e (a # as) =
     (let (d, e1) = resp e a; (ds, e2) = fetch resp e1 as in (d # ds, e2))"

lemma fetch_append:
  "fetch resp e (as @ bs) =
     (let (ds, e1) = fetch resp e as; (ds', e2) = fetch resp e1 bs in (ds @ ds', e2))"
  by (induction as arbitrary: e) (auto simp: Let_def split: prod.splits)

lemma length_fetch [simp]: "length (fst (fetch resp e as)) = length as"
  by (induction as arbitrary: e) (simp_all add: case_prod_beta)

lemma reaches_fetch:
  assumes "settled s" "settled s'"
    and "\<And>tb. Q tb \<Longrightarrow> awake tb \<and> tick_switch (i_state s) s (clear_bus (feed p tb)) =
          Some (s', pulse_read a (clear_bus (feed p tb)))"
  shows "reaches resp Q 65 p s
    \<lparr>p_core = snd (resp (p_core p) a), p_addr = a, p_data = fst (resp (p_core p) a)\<rparr> s' []"
proof (rule reaches_pulse [OF assms(1,2)])
  fix tb assume "Q tb"
  then show "awake tb \<and> (\<exists>tb'. tick_switch (i_state s) s (clear_bus (feed p tb)) = Some (s', tb') \<and>
      bus_active tb' \<and> answer resp p tb' = \<lparr>p_core = snd (resp (p_core p) a), p_addr = a,
        p_data = fst (resp (p_core p) a)\<rparr> \<and> emitted tb' = [])"
    using assms(3) by (cases p) (auto simp: answer_def emitted_def split: prod.split)
qed

text \<open>The port after fetching a non-empty list of addresses: the last word is on the data lines.\<close>

definition fetched :: "('e \<Rightarrow> u16 \<Rightarrow> u16 \<times> 'e) \<Rightarrow> 'e port \<Rightarrow> u16 list \<Rightarrow> 'e port" where
  "fetched resp p as =
     (if as = [] then p
      else \<lparr>p_core = snd (fetch resp (p_core p) as), p_addr = last as,
             p_data = last (fst (fetch resp (p_core p) as))\<rparr>)"

lemma fetched_Nil [simp]: "fetched resp p [] = p"
  by (simp add: fetched_def)

lemma fetched_snoc:
  "\<lparr>p_core = snd (resp (p_core (fetched resp p as)) a), p_addr = a,
     p_data = fst (resp (p_core (fetched resp p as)) a)\<rparr> = fetched resp p (as @ [a])"
  by (auto simp: fetched_def fetch_append Let_def split: prod.splits)

lemma fetch_snoc_fst:
  "fst (fetch resp (p_core p) (as @ [a])) =
     fst (fetch resp (p_core p) as) @ [p_data (fetched resp p (as @ [a]))]"
  by (auto simp: fetched_def fetch_append Let_def split: prod.splits)

locale recv_phase =
  fixes st :: ide_state
    and total :: nat
    and addr :: "hps_ide \<Rightarrow> u16"
    and ok :: "hps_ide \<Rightarrow> bool"
    and put :: "u16 list \<Rightarrow> hps_ide \<Rightarrow> hps_ide"
  assumes first_step: "ok s \<Longrightarrow> i_cnt s = 0 \<Longrightarrow>
      tick_switch st s tb = Some ((put [] s)\<lparr>i_cnt := 1\<rparr>, pulse_read (addr s) tb)"
    and more: "ok s \<Longrightarrow> Suc (length ws) < total \<Longrightarrow>
      tick_switch st ((put ws s)\<lparr>i_cnt := int (Suc (length ws))\<rparr>) tb =
        Some ((put (ws @ [mgmt_readdata tb]) s)\<lparr>i_cnt := int (Suc (Suc (length ws)))\<rparr>,
              pulse_read (addr s) tb)"
    and frame: "i_state (put ws s) = i_state s" "i_bus_cooldown (put ws s) = i_bus_cooldown s"
      "i_jitter_delay (put ws s) = i_jitter_delay s"
begin

lemma recv_some:
  assumes "settled s" "i_state s = st" "ok s" "i_cnt s = 0" "Suc k \<le> total"
    and Q: "\<And>tb. Q tb \<Longrightarrow> awake tb"
  shows "reaches resp Q (65 * Suc k) p s (fetched resp p (replicate (Suc k) (addr s)))
    ((put (fst (fetch resp (p_core p) (replicate k (addr s)))) s)\<lparr>i_cnt := int (Suc k)\<rparr>) []"
  using assms(5)
proof (induction k)
  case 0
  show ?case
    using assms reaches_fetch [of s "(put [] s)\<lparr>i_cnt := 1\<rparr>" Q p "addr s" resp]
      fetched_snoc [of resp p "[]" "addr s"]
    by (simp add: first_step settled_def frame)
next
  case (Suc k)
  let ?as = "replicate (Suc k) (addr s)"
  let ?ws = "fst (fetch resp (p_core p) (replicate k (addr s)))"
  let ?s = "(put ?ws s)\<lparr>i_cnt := int (Suc k)\<rparr>"
  let ?s' = "(put (fst (fetch resp (p_core p) ?as)) s)\<lparr>i_cnt := int (Suc (Suc k))\<rparr>"
  have as: "?as = replicate k (addr s) @ [addr s]"
    by (simp flip: replicate_append_same)
  have 1: "reaches resp Q (65 * Suc k) p s (fetched resp p ?as) ?s []"
    using Suc by simp
  have "tick_switch (i_state ?s) ?s (clear_bus (feed (fetched resp p ?as) tb)) =
      Some (?s', pulse_read (addr s) (clear_bus (feed (fetched resp p ?as) tb)))" for tb
    using more [OF assms(3), of ?ws "clear_bus (feed (fetched resp p ?as) tb)"] Suc.prems assms(2)
    unfolding as by (simp add: frame fetch_snoc_fst feed_def)
  then have 2: "reaches resp Q 65 (fetched resp p ?as) ?s (fetched resp p (?as @ [addr s])) ?s' []"
    using assms(1) Q
      reaches_fetch [of ?s ?s' Q "fetched resp p ?as" "addr s" resp]
    unfolding fetched_snoc by (simp add: settled_def frame)
  show ?case
    using reaches_trans [OF 1 2] by (simp add: replicate_append_same)
qed

end

end
