(* ===== verification/Ide_Transfer.thy ===== *)
theory Ide_Transfer
  imports Ide_Port
begin

text \<open>
  The data transfers of the IDE emulation: the interpretations of the sending and fetching contracts
  on the states \<open>SEND_ID\<close>, \<open>SET_REGS_SEND\<close>, \<open>READ_SEND\<close>, \<open>PACKET_SEND\<close>, \<open>WRITE_RECV\<close> and
  \<open>PACKET_RECV\<close>; the task-file report; whole multi-sector reads and writes; and the disk image as
  a block store.
\<close>

section \<open>Sending phases\<close>

definition word16 :: "bytes \<Rightarrow> nat \<Rightarrow> u16" where
  "word16 bs i = ucast (bs ! i) OR push_bit 8 (ucast (bs ! Suc i))"

lemma word_at_int: "off + 2 * k + 1 < length bs \<Longrightarrow> word_at bs off (int k) = Some (word16 bs (off + 2 * k))"
  by (simp add: word_at_def word16_def)

definition ident_word :: "hps_ide \<Rightarrow> nat \<Rightarrow> u16 \<times> u16" where
  "ident_word s k = (i_base s + 255, d_ident (i_drive s) ! k)"

definition reg_word :: "hps_ide \<Rightarrow> nat \<Rightarrow> u16 \<times> u16" where
  "reg_word s k = (i_base s + word_of_nat k, word16 (i_buf s) (2 * k))"

definition sector_word :: "hps_ide \<Rightarrow> nat \<Rightarrow> u16 \<times> u16" where
  "sector_word s k = (i_base s + 255,
     case i_sector_words s of None \<Rightarrow> 0 | Some off \<Rightarrow> word16 (i_image s) (off + 2 * k))"

definition packet_word :: "hps_ide \<Rightarrow> nat \<Rightarrow> u16 \<times> u16" where
  "packet_word s k = (i_base s + 255, word16 (i_packet_data s) (2 * k))"

interpretation send_id: send_phase SEND_ID "\<lambda>_. 256" ident_word
  "\<lambda>s. length (d_ident (i_drive s)) = 256" "goto_set_regs IDLE"
  by unfold_locales (auto simp: tick_send_id_def nth_int_def ident_word_def)

interpretation set_regs: send_phase SET_REGS_SEND "\<lambda>_. 6" reg_word
  "\<lambda>s. length (i_buf s) = 12" "\<lambda>s. s\<lparr>i_cnt := 0, i_state := i_next_state s\<rparr>"
  by unfold_locales (auto simp: tick_set_regs_send_def word_at_int [where off = 0, simplified] reg_word_def)

definition read_leave :: "hps_ide \<Rightarrow> hps_ide" where
  "read_leave s = goto_set_regs (if r_sector_count (i_regs s) \<noteq> 0 then READ_WAIT_REQ else IDLE) (s\<lparr>i_cnt := 0\<rparr>)"

definition sector_ok :: "hps_ide \<Rightarrow> bool" where
  "sector_ok s \<longleftrightarrow> (\<forall>off. i_sector_words s = Some off \<longrightarrow> off + 512 \<le> length (i_image s))"

interpretation read_send: send_phase READ_SEND "\<lambda>_. 256" sector_word sector_ok read_leave
  by unfold_locales
     (auto simp: tick_read_send_def word_at_int sector_word_def sector_ok_def read_leave_def split: option.split)

lemma int_less_uint: "int k < uint w \<longleftrightarrow> k < unat w"
  unfolding uint_nat by (rule of_nat_less_iff)

interpretation packet_send: send_phase PACKET_SEND "\<lambda>s. unat (r_pkt_io_size (i_regs s))" packet_word
  "\<lambda>s. 2 * unat (r_pkt_io_size (i_regs s)) \<le> length (i_packet_data s)"
  "\<lambda>s. goto_set_regs PACKET_READ_WAIT_REQ (s\<lparr>i_cnt := 0\<rparr>)"
  by unfold_locales
     (auto simp: tick_packet_send_def int_less_uint word_at_int [where off = 0, simplified] packet_word_def)


section \<open>Fetching phases\<close>

definition word_bytes :: "u16 list \<Rightarrow> bytes" where
  "word_bytes ws = concat (map (\<lambda>w. [ucast w, ucast (drop_bit 8 w)]) ws)"

lemma length_word_bytes [simp]: "length (word_bytes ws) = 2 * length ws"
  by (induction ws) (simp_all add: word_bytes_def)

lemma word_bytes_simps [simp]:
  "word_bytes [] = []" "word_bytes [w] = [ucast w, ucast (drop_bit 8 w)]" "word_bytes (ws @ vs) = word_bytes ws @ word_bytes vs"
  by (simp_all add: word_bytes_def)

lemma put_word_at_overwrite:
  assumes "off + 2 * length ws + 2 \<le> length img"
  shows "put_word_at (overwrite off (word_bytes ws) img) off (int (length ws)) w =
    Some (overwrite off (word_bytes (ws @ [w])) img)"
proof -
  let ?n = "off + 2 * length ws"
  have d: "drop ?n img = img ! ?n # img ! Suc ?n # drop (Suc (Suc ?n)) img"
    using assms by (simp add: Cons_nth_drop_Suc)
  show ?thesis
    unfolding put_word_at_def overwrite_def word_bytes_simps length_append length_word_bytes d
    using assms by (simp add: list_update_append)
qed

definition put_sector :: "u16 list \<Rightarrow> hps_ide \<Rightarrow> hps_ide" where
  "put_sector ws s = (case i_sector_words s of None \<Rightarrow> s
     | Some off \<Rightarrow> s\<lparr>i_image := overwrite off (word_bytes ws) (i_image s)\<rparr>)"

interpretation write_recv: recv_phase WRITE_RECV 256 "\<lambda>s. i_base s + 255" sector_ok put_sector
proof
  fix s :: hps_ide and ws :: "u16 list" and tb
  assume s: "sector_ok s" and len: "Suc (length ws) < 256"
  show "tick_switch WRITE_RECV ((put_sector ws s)\<lparr>i_cnt := int (Suc (length ws))\<rparr>) tb =
        Some ((put_sector (ws @ [mgmt_readdata tb]) s)\<lparr>i_cnt := int (Suc (Suc (length ws)))\<rparr>,
              pulse_read (i_base s + 255) tb)"
    using s len
    by (cases "i_sector_words s")
       (simp_all add: put_sector_def tick_write_recv_def store_word_def sector_ok_def put_word_at_overwrite)
qed (auto simp: put_sector_def tick_write_recv_def store_word_def split: option.splits)

definition put_packet :: "u16 list \<Rightarrow> hps_ide \<Rightarrow> hps_ide" where
  "put_packet ws s = s\<lparr>i_packet := overwrite 0 (word_bytes ws) (i_packet s)\<rparr>"

interpretation packet_recv: recv_phase PACKET_RECV 6 "\<lambda>s. i_base s + 255"
  "\<lambda>s. length (i_packet s) = 12" put_packet
proof
  fix s :: hps_ide and ws :: "u16 list" and tb
  assume s: "length (i_packet s) = 12" and len: "Suc (length ws) < 6"
  show "tick_switch PACKET_RECV ((put_packet ws s)\<lparr>i_cnt := int (Suc (length ws))\<rparr>) tb =
        Some ((put_packet (ws @ [mgmt_readdata tb]) s)\<lparr>i_cnt := int (Suc (Suc (length ws)))\<rparr>,
              pulse_read (i_base s + 255) tb)"
    using s len put_word_at_overwrite [of 0 ws "i_packet s" "mgmt_readdata tb"]
    by (simp add: put_packet_def tick_packet_recv_def)
qed (auto simp: put_packet_def tick_packet_recv_def)

section \<open>Reporting the task file\<close>

definition shown_regs :: "hps_ide \<Rightarrow> hps_ide_regs" where
  "shown_regs s = (if \<not> i_cdrom s \<and> r_status (i_regs s) AND ATA_STATUS_DRQ = 0
     then (i_regs s)\<lparr>r_status := r_status (i_regs s) OR ATA_STATUS_DSC\<rparr> else i_regs s)"

definition report :: "hps_ide \<Rightarrow> (u16 \<times> u16) list" where
  "report s = map (\<lambda>k. (i_base s + word_of_nat k,
     word16 (regs_buffer (i_cdrom s) (shown_regs s)) (2 * k))) [0..<6]"

definition reported :: "hps_ide \<Rightarrow> hps_ide" where
  "reported s = s\<lparr>i_regs := shown_regs s, i_buf := regs_buffer (i_cdrom s) (shown_regs s),
     i_cnt := 0, i_state := i_next_state s\<rparr>"

lemma reported_select [simp]:
  "i_state (reported s) = i_next_state s" "i_image (reported s) = i_image s"
  "i_base (reported s) = i_base s" "i_id (reported s) = i_id s" "i_drive (reported s) = i_drive s"
  "i_cdrom (reported s) = i_cdrom s" "i_cnt (reported s) = 0"
  "settled (reported s) = settled s" "get_lba (reported s) = get_lba s"
  "r_sector_count (i_regs (reported s)) = r_sector_count (i_regs s)"
  "r_lba (i_regs (reported s)) = r_lba (i_regs s)"
  "i_sector_words (reported s) = i_sector_words s"
  "i_packet_lba (reported s) = i_packet_lba s"
  "i_packet_remaining (reported s) = i_packet_remaining s"
  "i_packet_size_limit (reported s) = i_packet_size_limit s"
  "i_irq_pending (reported s) = i_irq_pending s"
  by (simp_all add: reported_def settled_def get_lba_def shown_regs_def Let_def)

lemma length_regs_buffer [simp]: "length (regs_buffer c r) = 12"
  by (simp add: regs_buffer_def)

lemma ide_wf_reported [simp]: "ide_wf s \<Longrightarrow> ide_wf (reported s)"
  by (simp add: reported_def)

lemma reaches_report:
  assumes "settled s" "i_state s = SET_REGS" "\<And>tb. Q tb \<Longrightarrow> awake tb"
  shows "reaches resp Q 392 p s (moved p (report s)) (reported s) (report s)"
proof -
  let ?s = "s\<lparr>i_regs := shown_regs s, i_buf := regs_buffer (i_cdrom s) (shown_regs s), i_cnt := 0,
     i_state := SET_REGS_SEND\<rparr>"
  have 1: "reaches resp Q 1 p s p ?s []"
    using assms by (intro reaches_quiet) (simp_all add: tick_set_regs_def shown_regs_def Let_def)
  have "settled ?s" using assms by (simp add: settled_def)
  then have 2: "reaches resp Q (65 * 6 + 1) p ?s (moved p (report s)) (reported s) (report s)"
    using set_regs.send_all [of ?s Q resp p] assms(3)
    by (simp add: report_def reported_def reg_word_def [abs_def])
  show ?thesis using reaches_trans [OF 1 2] by simp
qed

section \<open>READ SECTORS\<close>

definition sector_data :: "bytes \<Rightarrow> u32 \<Rightarrow> u16 list" where
  "sector_data img l = map (\<lambda>k. case sector_ptr img l of None \<Rightarrow> 0
     | Some off \<Rightarrow> word16 img (off + 2 * k)) [0..<256]"

definition next_lba :: "hps_ide \<Rightarrow> u32 \<Rightarrow> u32" where
  "next_lba s l = (if r_lba (i_regs s) \<noteq> 0 then take_bit 28 l else l)"

lemma get_put_lba:
  assumes "geom_ok (i_drive s)" "put_lba l s = Some s'"
  shows "get_lba s' = next_lba s l"
  using assms get_put_lba_chs [OF assms(1) _ assms(2)] get_put_lba_28 [OF _ assms(2)]
  by (simp add: next_lba_def)

lemma read_regs_step:
  assumes s: "settled s" "ide_wf s"
  obtains t where "\<And>tb. tick_read_regs s tb = Some (t, tb)"
    and "i_state t = READ_SEND" "i_cnt t = 0" "settled t" "ide_wf t"
    "i_sector_words t = sector_ptr (i_image s) (get_lba s)"
    "i_image t = i_image s" "i_base t = i_base s" "i_id t = i_id s" "i_drive t = i_drive s"
    "i_cdrom t = i_cdrom s" "r_lba (i_regs t) = r_lba (i_regs s)"
    "get_lba t = next_lba s (get_lba s + 1)"
    "r_sector_count (i_regs t) = r_sector_count (i_regs s) - 1"
proof -
  let ?ptr = "sector_ptr (i_image s) (get_lba s)"
  let ?sa = "s\<lparr>i_sector_words := ?ptr, i_buf := (if ?ptr = None then replicate 12 0 else i_buf s)\<rparr>"
  have ga: "get_lba ?sa = get_lba s" by (simp add: get_lba_def)
  have "ide_wf (s\<lparr>i_sector_words := ?ptr\<rparr>)" and "length (i_buf s) = 12"
    using s(2) by (simp_all only: ide_wf_upd_if) (simp add: ide_wf_def)
  then have wfa: "ide_wf ?sa"
    by (intro ide_wf_upd_if(1)) simp_all
  then have geo: "geom_ok (i_drive ?sa)" by (simp add: ide_wf_def)
  then obtain sb where sb: "put_lba (get_lba s + 1) ?sa = Some sb"
    using put_lba_defined by blast
  note sel = put_lba_select [OF sb]
  have timers: "i_bus_cooldown sb = i_bus_cooldown s" "i_jitter_delay sb = i_jitter_delay s"
    using sb by (auto simp: put_lba_def Let_def split: if_splits)
  define n where "n = r_sector_count (i_regs sb) - 1"
  define sc where "sc = upd_regs (\<lambda>r. r\<lparr>r_sector_count := n, r_io_size := 1,
      r_status := (if n = 0 then ATA_STATUS_RDY OR ATA_STATUS_DRQ OR ATA_STATUS_IRQ OR ATA_STATUS_END
                   else ATA_STATUS_RDY OR ATA_STATUS_DRQ OR ATA_STATUS_IRQ)\<rparr>)
      (sb\<lparr>i_cnt := 0, i_state := READ_SEND\<rparr>)"
  have "tick_read_regs s tb = Some (sc, tb)" for tb
    using sb by (simp add: tick_read_regs_def Let_def ga sc_def n_def or.assoc)
  moreover have "settled sc" using s(1) timers by (simp add: settled_def sc_def)
  moreover have "ide_wf sc"
    using wfa ide_wf_put_lba [OF sb] by (simp add: sc_def)
  moreover have "get_lba sc = next_lba s (get_lba s + 1)"
  proof -
    have "get_lba sc = get_lba sb" by (simp add: sc_def get_lba_def Let_def)
    then show ?thesis using get_put_lba [OF geo sb] by (simp add: next_lba_def)
  qed
  ultimately show ?thesis
    using that [of sc] sel by (simp add: sc_def n_def)
qed

text \<open>One sector: 256 data words, then the six task-file words.\<close>

lemma read_one:
  assumes s: "settled s" "i_state s = READ_REGS" "ide_wf s" and Q: "\<And>tb. Q tb \<Longrightarrow> awake tb"
  obtains s' rs where "reaches resp Q 17034 p s
      (moved p (map (Pair (i_base s + 255)) (sector_data (i_image s) (get_lba s)) @ rs)) s'
      (map (Pair (i_base s + 255)) (sector_data (i_image s) (get_lba s)) @ rs)"
    and "map fst rs = map (\<lambda>k. i_base s + word_of_nat k) [0..<6]"
    and "settled s'" "ide_wf s'" "i_image s' = i_image s" "i_base s' = i_base s" "i_id s' = i_id s"
    "i_drive s' = i_drive s" "i_cdrom s' = i_cdrom s" "r_lba (i_regs s') = r_lba (i_regs s)"
    "get_lba s' = next_lba s (get_lba s + 1)"
    "r_sector_count (i_regs s') = r_sector_count (i_regs s) - 1"
    "i_state s' = (if r_sector_count (i_regs s) = 1 then IDLE else READ_WAIT_REQ)"
proof -
  obtain t where t: "\<And>tb. tick_read_regs s tb = Some (t, tb)"
    "i_state t = READ_SEND" "i_cnt t = 0" "settled t" "ide_wf t"
    "i_sector_words t = sector_ptr (i_image s) (get_lba s)"
    "i_image t = i_image s" "i_base t = i_base s" "i_id t = i_id s" "i_drive t = i_drive s"
    "i_cdrom t = i_cdrom s" "r_lba (i_regs t) = r_lba (i_regs s)"
    "get_lba t = next_lba s (get_lba s + 1)"
    "r_sector_count (i_regs t) = r_sector_count (i_regs s) - 1"
    using read_regs_step [OF s(1,3)] by metis
  let ?data = "map (Pair (i_base s + 255)) (sector_data (i_image s) (get_lba s))"
  have 1: "reaches resp Q 1 p s p t []"
    using s Q t(1) by (intro reaches_quiet) simp_all
  have data: "map (sector_word t) [0..<256] = ?data"
    using t by (simp add: sector_word_def sector_data_def split: option.split)
  define d where "d = read_leave (t\<lparr>i_cnt := int 256\<rparr>)"
  have 2: "reaches resp Q (65 * 256 + 1) p t (moved p ?data) d ?data"
    using read_send.send_all [of t Q resp p] t Q unfolding data d_def
    by (simp add: sector_ok_def ide_wf_def)
  have d: "settled d" "i_state d = SET_REGS" "ide_wf d" "i_image d = i_image s" "i_base d = i_base s"
    "i_id d = i_id s" "i_drive d = i_drive s" "i_cdrom d = i_cdrom s"
    "r_lba (i_regs d) = r_lba (i_regs s)" "get_lba d = get_lba t"
    "r_sector_count (i_regs d) = r_sector_count (i_regs s) - 1"
    "i_next_state d = (if r_sector_count (i_regs s) = 1 then IDLE else READ_WAIT_REQ)"
    using t by (simp_all add: d_def read_leave_def goto_set_regs_def settled_def get_lba_def)
  note 3 = reaches_report [OF d(1,2), where Q = Q, OF Q, where resp = resp and p = "moved p ?data"]
  have "reaches resp Q 17034 p s (moved p (?data @ report d)) (reported d) (?data @ report d)"
    using reaches_trans [OF reaches_trans [OF 1 2] 3] by simp
  then show ?thesis
    using that d t(13) by (simp add: report_def)
qed


text \<open>A bus on which the guest keeps asking for the next block of data.\<close>

definition data_request :: "u8 \<Rightarrow> mgmt_bus \<Rightarrow> bool" where
  "data_request dev tb \<longleftrightarrow> awake tb \<and> (if dev \<noteq> 0 then ide1_request tb else ide0_request tb) = 5"

lemma data_request_awake: "data_request dev tb \<Longrightarrow> awake tb"
  by (simp add: data_request_def)

definition data_words :: "u16 \<Rightarrow> (u16 \<times> u16) list \<Rightarrow> u16 list" where
  "data_words base tr = map snd (filter (\<lambda>(a, w). a = base + 255) tr)"

lemma data_words_simps [simp]:
  "data_words b [] = []" "data_words b (t @ u) = data_words b t @ data_words b u"
  "data_words b (map (Pair (b + 255)) ws) = ws"
  by (simp_all add: data_words_def o_def)

lemma data_words_regs:
  assumes "map fst rs = map (\<lambda>k. b + word_of_nat k) [0..<6]"
  shows "data_words b rs = []"
proof -
  have "a \<noteq> b + 255" if "(a, w) \<in> set rs" for a w
  proof -
    have "a \<in> set (map fst rs)" using that by force
    then obtain k where k: "a = b + word_of_nat k" "k < 6"
      unfolding assms by auto
    then have "unat (word_of_nat k :: u16) = k"
      by (intro unat_word_of_nat_small) simp
    then have "word_of_nat k \<noteq> (255 :: u16)"
      using k(2) by (auto simp: word_unat_eq_iff)
    with k(1) show ?thesis by simp
  qed
  then show ?thesis by (auto simp: data_words_def filter_empty_conv)
qed

fun lba_seq :: "bool \<Rightarrow> u32 \<Rightarrow> nat \<Rightarrow> u32 list" where
  "lba_seq lba28 l 0 = []"
| "lba_seq lba28 l (Suc n) = l # lba_seq lba28 (if lba28 then take_bit 28 (l + 1) else l + 1) n"

lemma read_sectors:
  assumes "settled s" "i_state s = READ_REGS" "ide_wf s" "unat (r_sector_count (i_regs s)) = Suc n"
  shows "\<exists>s' tr. reaches resp (data_request (i_id s)) (17035 * Suc n) p s (moved p tr) s' tr \<and>
    data_words (i_base s) tr = concat (map (sector_data (i_image s))
      (lba_seq (r_lba (i_regs s) \<noteq> 0) (get_lba s) (Suc n))) \<and>
    i_state s' = IDLE \<and> i_image s' = i_image s \<and> ide_wf s' \<and> settled s'"
  using assms
proof (induction n arbitrary: s p)
  case 0
  have one: "r_sector_count (i_regs s) = 1"
    using 0(4) by (simp add: word_unat_eq_iff)
  obtain s' rs where *: "reaches resp (data_request (i_id s)) 17034 p s
      (moved p (map (Pair (i_base s + 255)) (sector_data (i_image s) (get_lba s)) @ rs)) s'
      (map (Pair (i_base s + 255)) (sector_data (i_image s) (get_lba s)) @ rs)"
    "map fst rs = map (\<lambda>k. i_base s + word_of_nat k) [0..<6]"
    "settled s'" "ide_wf s'" "i_image s' = i_image s" "i_state s' = IDLE"
    using read_one [OF 0(1-3), of "data_request (i_id s)" resp p] data_request_awake one by metis
  show ?case
    using reaches_mono [OF *(1), of "17035 * Suc 0"] * data_words_regs [OF *(2)] by force
next
  case (Suc n)
  have count: "r_sector_count (i_regs s) \<noteq> 1" "unat (r_sector_count (i_regs s) - 1) = Suc n"
    using Suc.prems(4) unat_pred by auto
  obtain s1 rs where s1: "reaches resp (data_request (i_id s)) 17034 p s
      (moved p (map (Pair (i_base s + 255)) (sector_data (i_image s) (get_lba s)) @ rs)) s1
      (map (Pair (i_base s + 255)) (sector_data (i_image s) (get_lba s)) @ rs)"
    "map fst rs = map (\<lambda>k. i_base s + word_of_nat k) [0..<6]"
    "settled s1" "ide_wf s1" "i_image s1 = i_image s" "i_base s1 = i_base s" "i_id s1 = i_id s"
    "r_lba (i_regs s1) = r_lba (i_regs s)" "get_lba s1 = next_lba s (get_lba s + 1)"
    "r_sector_count (i_regs s1) = r_sector_count (i_regs s) - 1" "i_state s1 = READ_WAIT_REQ"
    using read_one [OF Suc.prems(1-3), of "data_request (i_id s)" resp p] data_request_awake count by metis
  let ?t1 = "map (Pair (i_base s + 255)) (sector_data (i_image s) (get_lba s)) @ rs"
  let ?s2 = "s1\<lparr>i_state := READ_REGS\<rparr>"
  have 2: "reaches resp (data_request (i_id s)) 1 (moved p ?t1) s1 (moved p ?t1) ?s2 []"
    using s1 by (intro reaches_quiet)
      (auto simp: tick_read_wait_req_def ide_request_def data_request_def feed_def)
  have g2: "get_lba ?s2 = next_lba s (get_lba s + 1)" using s1(9) by (simp add: get_lba_def)
  obtain s' tr where 3: "reaches resp (data_request (i_id s)) (17035 * Suc n) (moved p ?t1) ?s2
      (moved (moved p ?t1) tr) s' tr"
    "data_words (i_base s) tr = concat (map (sector_data (i_image s))
      (lba_seq (r_lba (i_regs s) \<noteq> 0) (next_lba s (get_lba s + 1)) (Suc n)))"
    "i_state s' = IDLE" "i_image s' = i_image s" "ide_wf s'" "settled s'"
    using Suc.IH [of ?s2 "moved p ?t1"] s1 count g2 by (auto simp: settled_def)
  have "reaches resp (data_request (i_id s)) (17035 * Suc (Suc n)) p s (moved p (?t1 @ tr)) s' (?t1 @ tr)"
    using reaches_trans [OF reaches_trans [OF s1(1) 2] 3(1)] by (simp add: add.commute)
  then show ?case
    using 3 data_words_regs [OF s1(2)]
    by (intro exI [of _ s'] exI [of _ "?t1 @ tr"]) (simp add: next_lba_def)
qed

section \<open>WRITE SECTORS\<close>

definition store_sector :: "bytes \<Rightarrow> u32 \<Rightarrow> u16 list \<Rightarrow> bytes" where
  "store_sector img l ws = (case sector_ptr img l of None \<Rightarrow> img
     | Some off \<Rightarrow> overwrite off (word_bytes ws) img)"

fun write_blocks :: "(bytes \<Rightarrow> u32 \<Rightarrow> u16 list \<Rightarrow> bytes) \<Rightarrow> u32 list \<Rightarrow> u16 list \<Rightarrow> bytes \<Rightarrow> bytes" where
  "write_blocks wr [] ws img = img"
| "write_blocks wr (l # ls) ws img = write_blocks wr ls (drop 256 ws) (wr img l (take 256 ws))"

lemma store_last_word:
  assumes "sector_ok s" "length ws = 255"
  shows "store_word ((put_sector ws s)\<lparr>i_cnt := 256\<rparr>) tb =
    Some ((put_sector (ws @ [mgmt_readdata tb]) s)\<lparr>i_cnt := 256\<rparr>)"
  using assms put_word_at_overwrite [of _ ws "i_image s" "mgmt_readdata tb"]
  by (cases "i_sector_words s") (auto simp: store_word_def put_sector_def sector_ok_def)

lemma put_sector_select [simp]:
  "i_regs (put_sector ws s) = i_regs s" "i_drive (put_sector ws s) = i_drive s"
  "i_base (put_sector ws s) = i_base s" "i_id (put_sector ws s) = i_id s"
  "i_cdrom (put_sector ws s) = i_cdrom s" "i_bus_cooldown (put_sector ws s) = i_bus_cooldown s"
  "i_jitter_delay (put_sector ws s) = i_jitter_delay s" "get_lba (put_sector ws s) = get_lba s"
  by (simp_all add: put_sector_def get_lba_def split: option.splits)

lemma ide_wf_put_sector:
  assumes "ide_wf s" "length ws \<le> 256" shows "ide_wf (put_sector ws s)"
proof (cases "i_sector_words s")
  case (Some off)
  then have "off + length (word_bytes ws) \<le> length (i_image s)"
    using assms by (simp add: ide_wf_def)
  then show ?thesis
    using assms(1) Some by (simp add: put_sector_def)
qed (use assms in \<open>simp add: put_sector_def\<close>)

lemma write_last_step:
  assumes s: "settled s" "ide_wf s" and len: "length ws = 255"
  obtains t where "\<And>tb. mgmt_readdata tb = w \<Longrightarrow>
      tick_write_recv ((put_sector ws s)\<lparr>i_cnt := 256\<rparr>) tb = Some (t, tb)"
    and "i_image t = i_image (put_sector (ws @ [w]) s)" "i_base t = i_base s" "i_id t = i_id s"
    "i_drive t = i_drive s" "i_cdrom t = i_cdrom s" "r_lba (i_regs t) = r_lba (i_regs s)"
    "get_lba t = next_lba s (get_lba s + 1)" "settled t" "ide_wf t"
    "r_sector_count (i_regs t) = r_sector_count (i_regs s) - 1"
    "i_state t = (if r_sector_count (i_regs s) = 1 then SET_REGS else WRITE_REGS)"
    "r_sector_count (i_regs s) = 1 \<Longrightarrow> i_next_state t = IDLE"
proof -
  define a where "a = (put_sector (ws @ [w]) s)\<lparr>i_cnt := 0\<rparr>"
  have wfa: "ide_wf a" using ide_wf_put_sector [of s "ws @ [w]"] s len by (simp add: a_def)
  then have geo: "geom_ok (i_drive a)" by (simp add: ide_wf_def)
  have a: "get_lba a = get_lba s" "next_lba a = next_lba s" "settled a"
    using s(1) by (simp_all add: a_def next_lba_def [abs_def] settled_def get_lba_def)
  obtain b where b: "put_lba (get_lba s + 1) a = Some b"
    using put_lba_defined [OF geo] by blast
  note sel = put_lba_select [OF b]
  have timers: "settled b"
    using b a(3) by (auto simp: put_lba_def Let_def settled_def split: if_splits)
  define n where "n = r_sector_count (i_regs b) - 1"
  define c where "c = upd_regs (\<lambda>r. r\<lparr>r_sector_count := n\<rparr>) b"
  define t where "t = (if n \<noteq> 0 then c\<lparr>i_state := WRITE_REGS\<rparr>
     else goto_set_regs IDLE (upd_regs (\<lambda>r. r\<lparr>r_status := ATA_STATUS_RDY OR ATA_STATUS_IRQ\<rparr>) c))"
  have "sector_ok s" using s(2) by (simp add: sector_ok_def ide_wf_def)
  then have "tick_write_recv ((put_sector ws s)\<lparr>i_cnt := 256\<rparr>) tb = Some (t, tb)"
    if "mgmt_readdata tb = w" for tb
    using store_last_word [of s ws tb] len that b a(1)
    by (simp add: tick_write_recv_def Let_def a_def t_def c_def n_def)
  moreover have "get_lba t = next_lba s (get_lba s + 1)"
  proof -
    have "get_lba t = get_lba b" by (simp add: t_def c_def goto_set_regs_def get_lba_def Let_def)
    then show ?thesis using get_put_lba [OF geo b] a by simp
  qed
  moreover have "ide_wf t"
    using wfa ide_wf_put_lba [OF b] by (simp add: t_def c_def goto_set_regs_def)
  moreover have "settled t" using timers by (simp add: t_def c_def goto_set_regs_def settled_def)
  ultimately show ?thesis
    using that [of t] sel
    by (simp add: t_def c_def n_def goto_set_regs_def a_def)
qed

lemma settled_upd [simp]:
  "settled (s\<lparr>i_state := a\<rparr>) = settled s" "settled (s\<lparr>i_cnt := b\<rparr>) = settled s"
  "settled (s\<lparr>i_regs := c\<rparr>) = settled s" "settled (upd_regs f s) = settled s"
  "settled (s\<lparr>i_next_state := d\<rparr>) = settled s" "settled (goto_set_regs n s) = settled s"
  "settled (put_sector ws s) = settled s"
  by (simp_all add: settled_def goto_set_regs_def)

lemma get_lba_upd [simp]:
  "get_lba (s\<lparr>i_state := a\<rparr>) = get_lba s" "get_lba (s\<lparr>i_cnt := b\<rparr>) = get_lba s"
  "get_lba (s\<lparr>i_next_state := d\<rparr>) = get_lba s" "get_lba (goto_set_regs n s) = get_lba s"
  by (simp_all add: get_lba_def goto_set_regs_def)

text \<open>A sector of a write starts with the task file shown with DRQ and a wait for the guest's data.\<close>

lemma write_begin:
  assumes s: "settled s" "i_state s = WRITE_REGS" "ide_wf s"
  obtains b tr where "reaches resp (data_request (i_id s)) 394 p s (moved p tr) b tr"
    and "settled b" "i_state b = WRITE_RECV" "ide_wf b" "i_cnt b = 0"
    "i_id b = i_id s" "i_base b = i_base s" "i_image b = i_image s" "get_lba b = get_lba s"
    "i_sector_words b = sector_ptr (i_image s) (get_lba s)" "r_lba (i_regs b) = r_lba (i_regs s)"
    "r_sector_count (i_regs b) = r_sector_count (i_regs s)"
proof -
  let ?Q = "data_request (i_id s)"
  define a where "a = goto_set_regs WRITE_WAIT_REQ
       (upd_regs (\<lambda>r. r\<lparr>r_status := ATA_STATUS_RDY OR ATA_STATUS_DRQ OR i_irq_pending s,
            r_io_size := 1\<rparr>)
         (s\<lparr>i_sector_words := sector_ptr (i_image s) (get_lba s),
            i_irq_pending := ATA_STATUS_IRQ\<rparr>))"
  have 1: "reaches resp ?Q 1 p s p a []"
    using s data_request_awake
    by (intro reaches_quiet) (auto simp: tick_write_regs_def a_def)
  have a: "settled a" "i_state a = SET_REGS" "ide_wf a" "i_next_state a = WRITE_WAIT_REQ"
    "i_id a = i_id s" "i_base a = i_base s" "i_image a = i_image s" "get_lba a = get_lba s"
    "i_sector_words a = sector_ptr (i_image s) (get_lba s)" "r_lba (i_regs a) = r_lba (i_regs s)"
    "r_sector_count (i_regs a) = r_sector_count (i_regs s)"
    using s by (simp_all add: a_def goto_set_regs_def settled_def get_lba_def Let_def)
  have 2: "reaches resp ?Q 392 p a (moved p (report a)) (reported a) (report a)"
    using reaches_report [OF a(1,2), of ?Q resp p] data_request_awake by metis
  define b where "b = (reported a)\<lparr>i_cnt := 0, i_state := WRITE_RECV\<rparr>"
  have 3: "reaches resp ?Q 1 (moved p (report a)) (reported a) (moved p (report a)) b []"
    using a by (intro reaches_quiet)
      (auto simp: tick_write_wait_req_def ide_request_def data_request_def feed_def b_def)
  have "reaches resp ?Q 394 p s (moved p (report a)) b (report a)"
    using reaches_trans [OF reaches_trans [OF 1 2] 3] by simp
  then show ?thesis
    using that [of "report a" b] a by (simp add: b_def)
qed

text \<open>Then 256 words are fetched into the image.\<close>

lemma write_one:
  assumes s: "settled s" "i_state s = WRITE_REGS" "ide_wf s"
  shows "\<exists>t p' tr. reaches resp (data_request (i_id s)) 17035 p s p' t tr \<and>
    p_core p' = snd (fetch resp (p_core p) (replicate 256 (i_base s + 255))) \<and>
    i_image t = store_sector (i_image s) (get_lba s)
      (fst (fetch resp (p_core p) (replicate 256 (i_base s + 255)))) \<and>
    settled t \<and> ide_wf t \<and> i_base t = i_base s \<and> i_id t = i_id s \<and>
    r_lba (i_regs t) = r_lba (i_regs s) \<and> get_lba t = next_lba s (get_lba s + 1) \<and>
    r_sector_count (i_regs t) = r_sector_count (i_regs s) - 1 \<and>
    i_state t = (if r_sector_count (i_regs s) = 1 then SET_REGS else WRITE_REGS) \<and>
    (r_sector_count (i_regs s) = 1 \<longrightarrow> i_next_state t = IDLE)"
proof -
  let ?Q = "data_request (i_id s)"
  obtain b tr where 1: "reaches resp ?Q 394 p s (moved p tr) b tr"
    and b: "settled b" "i_state b = WRITE_RECV" "ide_wf b" "i_cnt b = 0"
    and bsel: "i_id b = i_id s" "i_base b = i_base s" "i_image b = i_image s" "get_lba b = get_lba s"
    "i_sector_words b = sector_ptr (i_image s) (get_lba s)" "r_lba (i_regs b) = r_lba (i_regs s)"
    "r_sector_count (i_regs b) = r_sector_count (i_regs s)"
    using write_begin [OF s, of resp p] by metis
  have ok: "sector_ok b" using b by (simp add: sector_ok_def ide_wf_def)
  let ?as = "replicate 255 (i_base s + 255)"
  let ?ws = "fst (fetch resp (p_core p) ?as)"
  let ?p4 = "fetched resp (moved p tr) (?as @ [i_base s + 255])"
  have as: "replicate 256 (i_base s + 255) = ?as @ [i_base s + 255]"
    using replicate_add [of 255 1 "i_base s + 255"] by simp
  have 2: "reaches resp ?Q (65 * 256) (moved p tr) b ?p4 ((put_sector ?ws b)\<lparr>i_cnt := 256\<rparr>) []"
    using write_recv.recv_some [OF b(1,2) ok b(4), of 255 ?Q resp "moved p tr"] data_request_awake
    unfolding bsel as [symmetric] by simp
  obtain t where t: "\<And>tb. mgmt_readdata tb = p_data ?p4 \<Longrightarrow>
      tick_write_recv ((put_sector ?ws b)\<lparr>i_cnt := 256\<rparr>) tb = Some (t, tb)"
    and tsel: "i_image t = i_image (put_sector (?ws @ [p_data ?p4]) b)" "i_base t = i_base b" "i_id t = i_id b"
    "r_lba (i_regs t) = r_lba (i_regs b)"
    "get_lba t = next_lba b (get_lba b + 1)" "settled t" "ide_wf t"
    "r_sector_count (i_regs t) = r_sector_count (i_regs b) - 1"
    "i_state t = (if r_sector_count (i_regs b) = 1 then SET_REGS else WRITE_REGS)"
    "r_sector_count (i_regs b) = 1 \<Longrightarrow> i_next_state t = IDLE"
    using write_last_step [OF b(1,3), of ?ws "p_data ?p4"] by (metis length_fetch length_replicate)
  have 3: "reaches resp ?Q 1 ?p4 ((put_sector ?ws b)\<lparr>i_cnt := 256\<rparr>) ?p4 t []"
    using b t data_request_awake
    by (intro reaches_quiet) (auto simp: feed_def write_recv.frame)
  have img: "i_image t = store_sector (i_image s) (get_lba s)
      (fst (fetch resp (p_core p) (replicate 256 (i_base s + 255))))"
    using tsel(1) fetch_snoc_fst [of resp "moved p tr" ?as "i_base s + 255"] bsel
    unfolding as by (simp add: put_sector_def store_sector_def split: option.splits)
  have "reaches resp ?Q 17035 p s ?p4 t tr"
    using reaches_trans [OF reaches_trans [OF 1 2] 3] by simp
  moreover have "p_core ?p4 = snd (fetch resp (p_core p) (replicate 256 (i_base s + 255)))"
    unfolding as by (simp add: fetched_def)
  moreover have "next_lba b = next_lba s" using bsel by (simp add: next_lba_def [abs_def])
  ultimately show ?thesis
    using img tsel bsel by (intro exI [of _ t] exI [of _ ?p4] exI [of _ tr]) simp
qed

lemma write_sectors:
  assumes "settled s" "i_state s = WRITE_REGS" "ide_wf s" "unat (r_sector_count (i_regs s)) = Suc n"
  shows "\<exists>s' p' tr. reaches resp (data_request (i_id s)) (17035 * Suc n + 392) p s p' s' tr \<and>
    i_image s' = write_blocks store_sector (lba_seq (r_lba (i_regs s) \<noteq> 0) (get_lba s) (Suc n))
      (fst (fetch resp (p_core p) (replicate (256 * Suc n) (i_base s + 255)))) (i_image s) \<and>
    i_state s' = IDLE \<and> ide_wf s' \<and> settled s'"
  using assms
proof (induction n arbitrary: s p)
  case 0
  have one: "r_sector_count (i_regs s) = 1"
    using 0(4) by (simp add: word_unat_eq_iff)
  obtain t p' tr where t: "reaches resp (data_request (i_id s)) 17035 p s p' t tr"
    "i_image t = store_sector (i_image s) (get_lba s)
      (fst (fetch resp (p_core p) (replicate 256 (i_base s + 255))))"
    "settled t" "ide_wf t" "i_id t = i_id s" "i_state t = SET_REGS" "i_next_state t = IDLE"
    using write_one [OF 0(1-3), of resp p] one by auto
  have "reaches resp (data_request (i_id s)) 392 p' t (moved p' (report t)) (reported t) (report t)"
    using reaches_report [OF t(3,6), of "data_request (i_id s)" resp p'] data_request_awake by metis
  note reaches_trans [OF t(1) this]
  moreover have "i_image (reported t) = write_blocks store_sector (lba_seq (r_lba (i_regs s) \<noteq> 0) (get_lba s) (Suc 0))
      (fst (fetch resp (p_core p) (replicate (256 * Suc 0) (i_base s + 255)))) (i_image s)"
    using t(2) by simp
  ultimately show ?case
    using t by (intro exI [of _ "reported t"]) auto
next
  case (Suc n)
  have count: "r_sector_count (i_regs s) \<noteq> 1" "unat (r_sector_count (i_regs s) - 1) = Suc n"
    using Suc.prems(4) unat_pred by auto
  let ?f = "fetch resp (p_core p) (replicate 256 (i_base s + 255))"
  obtain t p' tr where t: "reaches resp (data_request (i_id s)) 17035 p s p' t tr"
    "p_core p' = snd ?f" "i_image t = store_sector (i_image s) (get_lba s) (fst ?f)"
    "settled t" "ide_wf t" "i_base t = i_base s" "i_id t = i_id s"
    "r_lba (i_regs t) = r_lba (i_regs s)" "get_lba t = next_lba s (get_lba s + 1)"
    "r_sector_count (i_regs t) = r_sector_count (i_regs s) - 1" "i_state t = WRITE_REGS"
    using write_one [OF Suc.prems(1-3), of resp p] count by auto
  let ?ls = "lba_seq (r_lba (i_regs s) \<noteq> 0) (get_lba t) (Suc n)"
  let ?ws = "fst (fetch resp (snd ?f) (replicate (256 * Suc n) (i_base s + 255)))"
  obtain s' p2 tr2 where s': "reaches resp (data_request (i_id s)) (17035 * Suc n + 392) p' t p2 s' tr2"
    "i_image s' = write_blocks store_sector ?ls ?ws (i_image t)" "i_state s' = IDLE" "ide_wf s'" "settled s'"
    using Suc.IH [OF t(4,11,5), of p'] t count by auto
  have ws: "fst (fetch resp (p_core p) (replicate (256 * Suc (Suc n)) (i_base s + 255))) = fst ?f @ ?ws"
    using fetch_append [of resp "p_core p" "replicate 256 (i_base s + 255)" "replicate (256 * Suc n) (i_base s + 255)"]
      replicate_add [of 256 "256 * Suc n" "i_base s + 255"]
    by (simp add: case_prod_beta add.commute)
  have "length (fst ?f) = 256" by simp
  then have "i_image s' = write_blocks store_sector (lba_seq (r_lba (i_regs s) \<noteq> 0) (get_lba s) (Suc (Suc n)))
      (fst (fetch resp (p_core p) (replicate (256 * Suc (Suc n)) (i_base s + 255)))) (i_image s)"
    unfolding ws lba_seq.simps(2) [of _ "get_lba s"] write_blocks.simps using s'(2) t(3,9)
    by (simp add: next_lba_def del: lba_seq.simps)
  moreover have "17035 + (17035 * Suc n + 392) = 17035 * Suc (Suc n) + 392" by simp
  then have "reaches resp (data_request (i_id s)) (17035 * Suc (Suc n) + 392) p s p2 s' (tr @ tr2)"
    using reaches_trans [OF t(1) s'(1)] by metis
  ultimately show ?case
    using s'(3-5) by blast
qed

section \<open>The image as a block store\<close>

definition on_disk :: "bytes \<Rightarrow> u32 \<Rightarrow> bool" where
  "on_disk img l \<longleftrightarrow> (unat l + 1) * 512 \<le> length img"

locale block_store =
  fixes rd :: "bytes \<Rightarrow> u32 \<Rightarrow> u16 list"
    and wr :: "bytes \<Rightarrow> u32 \<Rightarrow> u16 list \<Rightarrow> bytes"
    and ok :: "bytes \<Rightarrow> u32 \<Rightarrow> bool"
  assumes rd_same: "ok img l \<Longrightarrow> length ws = 256 \<Longrightarrow> rd (wr img l ws) l = ws"
    and rd_other: "length ws = 256 \<Longrightarrow> l' \<noteq> l \<Longrightarrow> rd (wr img l ws) l' = rd img l'"
    and ok_wr: "length ws = 256 \<Longrightarrow> ok (wr img l ws) l' = ok img l'"
begin

lemma write_other:
  "l \<notin> set ls \<Longrightarrow> length ws = 256 * length ls \<Longrightarrow> rd (write_blocks wr ls ws img) l = rd img l"
  by (induction ls arbitrary: ws img) (auto simp: rd_other)

lemma write_read_back:
  "distinct ls \<Longrightarrow> (\<forall>l\<in>set ls. ok img l) \<Longrightarrow> length ws = 256 * length ls \<Longrightarrow>
     concat (map (rd (write_blocks wr ls ws img)) ls) = ws"
  by (induction ls arbitrary: ws img) (auto simp: ok_wr rd_same write_other)

end

lemma word16_join:
  "(ucast (ucast w :: u8) :: u16) OR push_bit 8 (ucast (ucast (drop_bit 8 w) :: u8)) = w"
  by (rule bit_word_eqI) (auto simp: bit_or_iff bit_push_bit_iff bit_ucast_iff bit_drop_bit_eq)

lemma word16_word_bytes: "k < length ws \<Longrightarrow> word16 (word_bytes ws) (2 * k) = ws ! k"
proof (induction ws arbitrary: k)
  case (Cons w ws)
  have c: "word_bytes (w # ws) = ucast w # ucast (drop_bit 8 w) # word_bytes ws"
    by (simp add: word_bytes_def)
  show ?case
    using Cons unfolding c
    by (cases k) (simp_all add: word16_def word16_join)
qed simp

lemma word16_overwrite:
  assumes "off + length bs \<le> length img"
  shows "i + 1 < length bs \<Longrightarrow> word16 (overwrite off bs img) (off + i) = word16 bs i"
    and "i + 1 < off \<or> (off + length bs \<le> i \<and> i + 1 < length img) \<Longrightarrow>
      word16 (overwrite off bs img) i = word16 img i"
  using assms by (auto simp: word16_def overwrite_def nth_append)

lemma store_sector_alt:
  "store_sector img l ws =
     (if on_disk img l then overwrite (unat l * 512) (word_bytes ws) img else img)"
  by (simp add: store_sector_def sector_ptr_def on_disk_def)

lemma sector_data_alt:
  "sector_data img l =
     map (\<lambda>j. if on_disk img l then word16 img (unat l * 512 + 2 * j) else 0) [0..<256]"
  by (simp add: sector_data_def sector_ptr_def on_disk_def)

lemma on_disk_fits:
  "on_disk img l \<Longrightarrow> length ws = 256 \<Longrightarrow> unat l * 512 + length (word_bytes ws) \<le> length img"
  by (simp add: on_disk_def)

lemma on_disk_store_sector:
  "length ws = 256 \<Longrightarrow> on_disk (store_sector img l ws) l' = on_disk img l'"
  using on_disk_fits [of img l ws] by (simp add: store_sector_alt on_disk_def)

interpretation image: block_store sector_data store_sector on_disk
proof
  fix img :: bytes and l l' :: u32 and ws :: "u16 list"
  assume len: "length ws = 256"
  show "on_disk (store_sector img l ws) l' = on_disk img l'"
    using len by (rule on_disk_store_sector)
  show "sector_data (store_sector img l ws) l = ws" if "on_disk img l"
  proof (rule nth_equalityI)
    fix i assume "i < length (sector_data (store_sector img l ws) l)"
    then have "i < 256" by (simp add: sector_data_alt)
    then show "sector_data (store_sector img l ws) l ! i = ws ! i"
      using that len on_disk_fits [OF that len] on_disk_store_sector [OF len, of img l l]
        word16_overwrite(1) [of "unat l * 512" "word_bytes ws" img "2 * i"]
      by (simp add: sector_data_alt store_sector_alt word16_word_bytes)
  qed (simp add: sector_data_alt len)
  show "sector_data (store_sector img l ws) l' = sector_data img l'" if "l' \<noteq> l"
  proof (cases "on_disk img l \<and> on_disk img l'")
    case True
    have "unat l' \<noteq> unat l" using that by (simp add: word_unat_eq_iff)
    then have out: "unat l' * 512 + 2 * j + 1 < unat l * 512 \<or> unat l * 512 + 512 \<le> unat l' * 512 + 2 * j"
      if "j < 256" for j using that by linarith
    have "unat l' * 512 + 2 * j + 1 < length img" if "j < 256" for j
      using that True by (simp add: on_disk_def)
    then show ?thesis
      using True on_disk_store_sector [OF len, of img l l'] on_disk_fits [of img l ws] len out
      by (simp add: sector_data_alt store_sector_alt word16_overwrite(2))
  qed (use on_disk_store_sector [OF len, of img l l'] in \<open>auto simp: sector_data_alt store_sector_alt\<close>)
qed

end
