(* ===== verification/Ide_Commands.thy ===== *)
theory Ide_Commands
  imports Ide_Transfer
begin

text \<open>
  Whole ATA commands of the IDE emulation against an arbitrary core: fetching the task file, READ
  SECTORS, WRITE SECTORS and IDENTIFY DEVICE. Every theorem bounds the number of ticks for any
  latency jitter.
\<close>

section \<open>Fetching a command\<close>

definition command_request :: "u8 \<Rightarrow> mgmt_bus \<Rightarrow> bool" where
  "command_request dev tb \<longleftrightarrow> awake tb \<and> (if dev \<noteq> 0 then ide1_request tb else ide0_request tb) = 4"

definition taskfile_addrs :: "u16 \<Rightarrow> u16 list" where
  "taskfile_addrs base = map (\<lambda>k. base + word_of_nat k) [0..<6]"

text \<open>The taskfile the six words of a command stand for, high bytes in the second half.\<close>

definition load_taskfile :: "u16 list \<Rightarrow> hps_ide \<Rightarrow> hps_ide" where
  "load_taskfile ws s =
     (let n = ucast (ws ! 1 AND 0xFF) + push_bit 8 (ucast (ws ! 3 AND 0x00FF)) :: u32;
          sec = ucast (drop_bit 8 (ws ! 1)) + ucast (ws ! 3 AND 0xFF00) :: u32;
          cyl = ucast (ws ! 2) + push_bit 16 (ucast (ws ! 4)) :: u32;
          da = ucast (ws ! 5 AND 0xFF) :: u8
      in upd_regs (\<lambda>r. r\<lparr>r_sector_count := ucast n, r_sector := ucast sec, r_cylinder := cyl,
             r_head := da AND 0x0F, r_drv := drop_bit 4 da AND 1, r_lba := drop_bit 6 da AND 1\<rparr>)
           (s\<lparr>i_features := ucast (drop_bit 8 (ws ! 0)), i_sector_count := n, i_sector := sec,
              i_cylinder := cyl, i_drv_addr := da, i_cmd := ucast (drop_bit 8 (ws ! 5)),
              i_state := DO_CMD\<rparr>))"

lemma nibble:
  fixes b k :: u16
  assumes "b AND 0xF = 0"
  shows "(b + k) AND 0xF = k AND 0xF"
proof -
  have m: "unat (x AND 0xF) = unat x mod 16" for x :: u16
  proof -
    have "x AND 0xF = take_bit 4 x"
      by (simp add: take_bit_eq_mask mask_eq_exp_minus_1)
    then show ?thesis
      by (simp add: take_bit_eq_mod unat_mod)
  qed
  have aux: "(x + y) mod 65536 mod 16 = y mod 16" if "x mod 16 = 0" for x y :: nat
  proof -
    have "(x + y) mod 65536 mod 16 = (x + y) mod 16" by (rule mod_mod_cancel) simp
    also have "\<dots> = y mod 16" using that by (simp add: mod_add_eq [of x, symmetric])
    finally show ?thesis .
  qed
  have "unat b mod 16 = 0" using assms m [of b] by simp
  then show ?thesis
    using aux by (simp add: word_unat_eq_iff m unat_word_ariths)
qed

lemma fetched_addr [simp]: "p_addr (fetched resp p (as @ [a])) = a"
  by (simp add: fetched_def)

lemma reaches_fetched:
  assumes "settled s" "settled s'"
    and "\<And>tb. Q tb \<Longrightarrow> awake tb \<and> tick_switch (i_state s) s (clear_bus (feed (fetched resp p as) tb)) =
          Some (s', pulse_read a (clear_bus (feed (fetched resp p as) tb)))"
  shows "reaches resp Q 65 (fetched resp p as) s (fetched resp p (as @ [a])) s' []"
  using reaches_fetch [of s s' Q "fetched resp p as" a resp] assms unfolding fetched_snoc by blast

lemma feed_select [simp]:
  "mgmt_address (feed p tb) = p_addr p" "mgmt_readdata (feed p tb) = p_data p"
  "ide0_request (feed p tb) = ide0_request tb" "ide1_request (feed p tb) = ide1_request tb"
  by (simp_all add: feed_def)

text \<open>The \<open>k\<close>-th taskfile word has been read: what it changes, and the next one is requested.\<close>

definition take_word :: "nat \<Rightarrow> u16 \<Rightarrow> hps_ide \<Rightarrow> hps_ide" where
  "take_word k d s =
     (if k = 0 then s\<lparr>i_features := ucast (drop_bit 8 d)\<rparr>
      else if k = 1 then s\<lparr>i_sector_count := ucast (d AND 0xFF), i_sector := ucast (drop_bit 8 d)\<rparr>
      else if k = 2 then s\<lparr>i_cylinder := ucast d\<rparr>
      else if k = 3 then s\<lparr>i_sector := i_sector s + ucast (d AND 0xFF00),
              i_sector_count := i_sector_count s + push_bit 8 (ucast (d AND 0x00FF))\<rparr>
      else s\<lparr>i_cylinder := i_cylinder s + push_bit 16 (ucast d)\<rparr>)"

lemma tick_get_cmd_more:
  assumes "b AND 0xF = 0" "k < 5" "mgmt_address tb = b + word_of_nat k"
  shows "tick_get_cmd s tb = Some (take_word k (mgmt_readdata tb) s, pulse_read (b + word_of_nat (Suc k)) tb)"
proof -
  consider "k = 0" | "k = 1" | "k = 2" | "k = 3" | "k = 4" using assms(2) by linarith
  then show ?thesis
    using assms(3) nibble [OF assms(1), of "word_of_nat k"] assms(1)
    by cases (simp_all add: tick_get_cmd_def take_word_def Let_def add.assoc)
qed


lemma fetched_word:
  assumes "k < length as"
  shows "p_data (fetched resp p (take (Suc k) as)) = fst (fetch resp (p_core p) as) ! k"
proof -
  have "as = take (Suc k) as @ drop (Suc k) as" by simp
  then have "fst (fetch resp (p_core p) as) =
      fst (fetch resp (p_core p) (take (Suc k) as)) @ fst (fetch resp (snd (fetch resp (p_core p) (take (Suc k) as))) (drop (Suc k) as))"
    by (metis (no_types, lifting) fetch_append case_prod_beta fst_conv)
  moreover have len: "length (fst (fetch resp (p_core p) (take (Suc k) as))) = Suc k"
    using assms by simp
  moreover have "take (Suc k) as \<noteq> []" using assms by auto
  ultimately show ?thesis
    by (simp add: fetched_def last_conv_nth nth_append flip: length_0_conv)
qed

lemma take_word_frame [simp]:
  "settled (take_word k d s) = settled s" "i_state (take_word k d s) = i_state s"
  by (simp_all add: take_word_def settled_def)

lemma fold_take_word_frame [simp]:
  "settled (fold (\<lambda>i. take_word i (ws ! i)) ks s) = settled s"
  "i_state (fold (\<lambda>i. take_word i (ws ! i)) ks s) = i_state s"
  by (induction ks arbitrary: s) simp_all

lemma take_taskfile_addrs: "k < 6 \<Longrightarrow> take (Suc k) (taskfile_addrs b) = take k (taskfile_addrs b) @ [b + word_of_nat k]"
  by (simp add: taskfile_addrs_def take_Suc_conv_app_nth)

lemma length_taskfile_addrs [simp]: "length (taskfile_addrs b) = 6"
  by (simp add: taskfile_addrs_def)

lemma fetch_words:
  fixes resp :: "'e \<Rightarrow> u16 \<Rightarrow> u16 \<times> 'e" and p :: "'e port"
  assumes s: "settled s" "i_state s = IDLE" and base: "i_base s AND 0xF = 0" and "k < 6"
  defines "as \<equiv> taskfile_addrs (i_base s)"
  defines "ws \<equiv> fst (fetch resp (p_core p) as)"
  shows "reaches resp (command_request (i_id s)) (65 * Suc k) p s (fetched resp p (take (Suc k) as))
    (fold (\<lambda>i. take_word i (ws ! i)) [0..<k] (s\<lparr>i_state := GET_CMD\<rparr>)) []"
  using assms(4)
proof (induction k)
  case 0
  have "reaches resp (command_request (i_id s)) 65 (fetched resp p []) s (fetched resp p ([] @ [i_base s]))
      (s\<lparr>i_state := GET_CMD\<rparr>) []"
    using s by (intro reaches_fetched) (auto simp: tick_idle_def ide_request_def command_request_def)
  then show ?case
    by (simp add: take_taskfile_addrs as_def)
next
  case (Suc k)
  let ?s = "fold (\<lambda>i. take_word i (ws ! i)) [0..<k] (s\<lparr>i_state := GET_CMD\<rparr>)"
  let ?p = "fetched resp p (take (Suc k) as)"
  have at: "p_addr ?p = i_base s + word_of_nat k" "p_data ?p = ws ! k"
    using Suc.prems fetched_word [of k as resp p]
    by (simp_all add: as_def ws_def take_taskfile_addrs)
  have "tick_get_cmd ?s (clear_bus (feed ?p tb)) = Some (take_word k (ws ! k) ?s,
      pulse_read (i_base s + word_of_nat (Suc k)) (clear_bus (feed ?p tb)))" for tb
    using tick_get_cmd_more [OF base, of k "clear_bus (feed ?p tb)" ?s] Suc.prems at by simp
  then have "reaches resp (command_request (i_id s)) 65 ?p ?s
      (fetched resp p (take (Suc k) as @ [i_base s + word_of_nat (Suc k)])) (take_word k (ws ! k) ?s) []"
    using s by (intro reaches_fetched) (auto simp: command_request_def)
  then show ?case
    using reaches_trans [OF Suc.IH] Suc.prems
    by (simp add: take_taskfile_addrs [of "Suc k"] as_def) fastforce
qed

section \<open>Whole commands\<close>

lemma length_lba_seq [simp]: "length (lba_seq b l n) = n"
  by (induction n arbitrary: l) simp_all

definition block_count :: "u16 \<Rightarrow> nat" where
  "block_count n = (if n AND 0xFF = 0 then 256 else unat (n AND 0xFF))"

definition selected_disk :: "hps_ide \<Rightarrow> bool" where
  "selected_disk s \<longleftrightarrow> settled s \<and> ide_wf s \<and> i_state s = DO_CMD \<and> d_present (i_drive s) \<and>
     r_drv (i_regs s) = 0 \<and> \<not> i_cdrom s"

abbreviation start_lba :: "hps_ide \<Rightarrow> u32" where
  "start_lba s \<equiv> get_lba (upd_regs (mask_taskfile (i_cmd s)) s)"

lemma block_count_mask:
  "c \<in> {0x20, 0x21, 0x30, 0x31} \<Longrightarrow> unat (r_sector_count (mask_taskfile c r)) = block_count (r_sector_count r)"
  "0 < block_count n"
  by (auto simp: mask_taskfile_def block_count_def Let_def unat_gt_0)

lemma handle_cmd_selected:
  assumes "selected_disk s"
  shows "handle_cmd s = handle_disk_cmd (upd_regs (mask_taskfile (i_cmd s)) s)"
  using assms by (simp add: handle_cmd_def selected_disk_def)

lemma do_cmd_step:
  assumes "selected_disk s" "\<And>tb. Q tb \<Longrightarrow> awake tb"
  shows "reaches resp Q 1 p s p (handle_disk_cmd (upd_regs (mask_taskfile (i_cmd s)) s)) []"
  using assms handle_cmd_selected [OF assms(1)]
  by (intro reaches_quiet) (auto simp: selected_disk_def tick_do_cmd_def)

lemma mask_taskfile_lba [simp]: "r_lba (mask_taskfile c r) = r_lba r"
  by (simp add: mask_taskfile_def Let_def)

lemma write_command:
  assumes s: "selected_disk s" and cmd: "i_cmd s = 0x30 \<or> i_cmd s = 0x31"
  shows "\<exists>s' p' tr. reaches resp (data_request (i_id s))
        (17035 * block_count (r_sector_count (i_regs s)) + 394) p s p' s' tr \<and>
      i_image s' = write_blocks store_sector
        (lba_seq (r_lba (i_regs s) \<noteq> 0) (start_lba s) (block_count (r_sector_count (i_regs s))))
        (fst (fetch resp (p_core p) (replicate (256 * block_count (r_sector_count (i_regs s))) (i_base s + 255))))
        (i_image s) \<and>
      i_state s' = IDLE"
proof -
  let ?Q = "data_request (i_id s)" and ?m = "upd_regs (mask_taskfile (i_cmd s)) s"
  let ?N = "block_count (r_sector_count (i_regs s))"
  let ?a = "?m\<lparr>i_state := WRITE\<rparr>" and ?b = "?m\<lparr>i_irq_pending := 0, i_state := WRITE_REGS\<rparr>"
  have "handle_disk_cmd ?m = ?a"
    using cmd by (auto simp: handle_disk_cmd_def)
  then have 1: "reaches resp ?Q 1 p s p ?a []"
    using do_cmd_step [OF s, of ?Q resp p] data_request_awake by metis
  have st: "settled ?b" "ide_wf ?b" "settled s"
    using s by (simp_all add: selected_disk_def) (simp add: settled_def)
  have 2: "reaches resp ?Q 1 p ?a p ?b []"
    using st data_request_awake by (intro reaches_quiet) (auto simp: tick_write_def)
  obtain n where n: "?N = Suc n" using block_count_mask(2) gr0_conv_Suc by blast
  have "unat (r_sector_count (i_regs ?b)) = Suc n"
    using block_count_mask(1) [of "i_cmd s" "i_regs s"] cmd n by auto
  moreover have "get_lba ?b = start_lba s" by (simp add: get_lba_def)
  ultimately obtain s' p' tr where 3: "reaches resp ?Q (17035 * ?N + 392) p ?b p' s' tr"
    "i_image s' = write_blocks store_sector (lba_seq (r_lba (i_regs s) \<noteq> 0) (start_lba s) ?N)
      (fst (fetch resp (p_core p) (replicate (256 * ?N) (i_base s + 255)))) (i_image s)"
    "i_state s' = IDLE"
    using write_sectors [of ?b n resp p] st n by auto
  have "reaches resp ?Q (17035 * ?N + 394) p s p' s' tr"
    using reaches_trans [OF reaches_trans [OF 1 2] 3(1)] by (simp add: add.commute)
  with 3 show ?thesis by blast
qed

section \<open>A drive to evaluate the theorems on\<close>

definition sample_disk :: "u8 \<Rightarrow> hps_ide" where
  "sample_disk c = (hps_ide_new 0 0xF000)\<lparr>i_state := DO_CMD, i_cmd := c,
     i_drive := default_drive\<lparr>d_present := True, d_total_sectors := 8\<rparr>,
     i_image := replicate 4096 0, i_regs := default_regs\<lparr>r_lba := 1, r_sector := 3, r_sector_count := 2\<rparr>\<rparr>"

definition echo_core :: "u16 \<Rightarrow> u16 \<Rightarrow> u16 \<times> u16" where
  "echo_core e a = (e, e + 1)"

lemma sample_disk_selected: "selected_disk (sample_disk c)"
  by (simp add: sample_disk_def selected_disk_def settled_def ide_wf_def hps_ide_new_def
      default_drive_def default_regs_def geom_ok_def)

lemma sample_disk_lbas:
  "i_id (sample_disk c) = 0" "i_base (sample_disk c) = 0xF000" "i_cmd (sample_disk c) = c"
  "block_count (r_sector_count (i_regs (sample_disk c))) = 2" "r_lba (i_regs (sample_disk c)) = 1"
  "get_lba (upd_regs (mask_taskfile c') (sample_disk c)) = 3" "length (i_image (sample_disk c)) = 4096"
  "length (d_ident (i_drive (sample_disk c))) = 256"
  by (simp_all add: sample_disk_def hps_ide_new_def default_regs_def default_drive_def block_count_def
      get_lba_def mask_taskfile_def Let_def)

section \<open>Properties\<close>

text \<open>
  command fetch. When the core raises request 4, an idle channel reads the six task-file words at
  \<open>base + 0 .. base + 5\<close> in order and, within 391 ticks whatever the jitter, is about to execute the
  command with sector count, sector and cylinder assembled from their low and high parts, head, drive
  and LBA bit taken from the drive register, and no word written.
\<close>

theorem ide_command_fetch:
  assumes s: "settled s" "i_state s = IDLE" and base: "i_base s AND 0xF = 0"
  shows "reaches resp (command_request (i_id s)) 391 p s
    (fetched resp p (taskfile_addrs (i_base s)))
    (load_taskfile (fst (fetch resp (p_core p) (taskfile_addrs (i_base s)))) s) []"
proof -
  let ?as = "taskfile_addrs (i_base s)"
  let ?ws = "fst (fetch resp (p_core p) ?as)"
  let ?s = "fold (\<lambda>i. take_word i (?ws ! i)) [0..<5] (s\<lparr>i_state := GET_CMD\<rparr>)"
  have 1: "reaches resp (command_request (i_id s)) 390 p s (fetched resp p ?as) ?s []"
    using fetch_words [OF assms, of 5 resp p] by simp
  have at: "p_addr (fetched resp p ?as) = i_base s + 5" "p_data (fetched resp p ?as) = ?ws ! 5"
    using take_taskfile_addrs [of 5 "i_base s"] fetched_word [of 5 ?as resp p]
      fetched_addr [of resp p "take 5 ?as" "i_base s + 5"] by simp_all
  have five: "[0..<5] = [0, 1, 2, 3, 4 :: nat]" by (simp add: upt_rec)
  have "tick_get_cmd ?s (clear_bus (feed (fetched resp p ?as) tb)) =
      Some (load_taskfile ?ws s, clear_bus (feed (fetched resp p ?as) tb))" for tb
    using nibble [OF base, of 5]
    by (simp add: tick_get_cmd_def at load_taskfile_def Let_def five take_word_def upd_regs_def)
  then have "reaches resp (command_request (i_id s)) 1 (fetched resp p ?as) ?s (fetched resp p ?as)
      (load_taskfile ?ws s) []"
    using s by (intro reaches_quiet) (auto simp: command_request_def)
  from reaches_trans [OF 1 this] show ?thesis by simp
qed

theorem ide_command_fetch_witness:
  "reaches echo_core (command_request 0) 391 \<lparr>p_core = 7, p_addr = 0, p_data = 0\<rparr>
     ((hps_ide_new 0 0xF000)\<lparr>i_state := IDLE\<rparr>)
     (fetched echo_core \<lparr>p_core = 7, p_addr = 0, p_data = 0\<rparr> (taskfile_addrs 0xF000))
     (load_taskfile (fst (fetch echo_core 7 (taskfile_addrs 0xF000)))
       ((hps_ide_new 0 0xF000)\<lparr>i_state := IDLE\<rparr>)) []"
  using ide_command_fetch [of "(hps_ide_new 0 0xF000)\<lparr>i_state := IDLE\<rparr>" echo_core
      "\<lparr>p_core = 7, p_addr = 0, p_data = 0\<rparr>"]
  by (simp add: hps_ide_new_def settled_def)

text \<open>
  C5: READ SECTORS (20h, 21h). From the dispatch of the command, with the guest asking for each block,
  the channel sends through the data port exactly the 256 words of each of the requested sectors, in
  ascending block order from the task file's address (LBA28 or CHS, a count of 0 meaning 256), sends
  zeros for a block beyond the image, leaves the image unchanged and returns to idle; 17035 ticks per
  sector are enough for any jitter.
\<close>

theorem ide_read_command:
  assumes s: "selected_disk s" and cmd: "i_cmd s = 0x20 \<or> i_cmd s = 0x21"
  shows "\<exists>s' tr. reaches resp (data_request (i_id s))
        (17035 * block_count (r_sector_count (i_regs s)) + 2) p s (moved p tr) s' tr \<and>
      data_words (i_base s) tr = concat (map (sector_data (i_image s))
        (lba_seq (r_lba (i_regs s) \<noteq> 0) (start_lba s) (block_count (r_sector_count (i_regs s))))) \<and>
      i_state s' = IDLE \<and> i_image s' = i_image s"
proof -
  let ?Q = "data_request (i_id s)" and ?m = "upd_regs (mask_taskfile (i_cmd s)) s"
  let ?N = "block_count (r_sector_count (i_regs s))"
  let ?a = "?m\<lparr>i_state := READ\<rparr>" and ?b = "?m\<lparr>i_state := READ_REGS\<rparr>"
  have "handle_disk_cmd ?m = ?a"
    using cmd by (auto simp: handle_disk_cmd_def)
  then have 1: "reaches resp ?Q 1 p s p ?a []"
    using do_cmd_step [OF s, of ?Q resp p] data_request_awake by metis
  have st: "settled s" "ide_wf s" using s by (simp_all add: selected_disk_def)
  have 2: "reaches resp ?Q 1 p ?a p ?b []"
    using st data_request_awake by (intro reaches_quiet) (auto simp: tick_read_def)
  obtain n where n: "?N = Suc n" using block_count_mask(2) gr0_conv_Suc by blast
  have "unat (r_sector_count (i_regs ?b)) = Suc n"
    using block_count_mask(1) [of "i_cmd s" "i_regs s"] cmd n by auto
  then obtain s' tr where 3: "reaches resp ?Q (17035 * ?N) p ?b (moved p tr) s' tr"
    "data_words (i_base s) tr = concat (map (sector_data (i_image s))
        (lba_seq (r_lba (i_regs s) \<noteq> 0) (start_lba s) ?N))"
    "i_state s' = IDLE" "i_image s' = i_image s"
    using read_sectors [of ?b n resp p] st n by auto
  have "reaches resp ?Q (17035 * ?N + 2) p s (moved p tr) s' tr"
    using reaches_trans [OF reaches_trans [OF 1 2] 3(1)] by (simp add: add.commute)
  with 3 show ?thesis by blast
qed

theorem ide_read_command_witness:
  "\<exists>s' tr. reaches echo_core (data_request 0) 34072 \<lparr>p_core = 0, p_addr = 0, p_data = 0\<rparr> (sample_disk 0x20)
        (moved \<lparr>p_core = 0, p_addr = 0, p_data = 0\<rparr> tr) s' tr \<and>
      data_words 0xF000 tr = concat (map (sector_data (i_image (sample_disk 0x20))) (lba_seq True 3 2)) \<and>
      i_state s' = IDLE \<and> i_image s' = i_image (sample_disk 0x20)"
  using ide_read_command [of "sample_disk 0x20" echo_core "\<lparr>p_core = 0, p_addr = 0, p_data = 0\<rparr>"] sample_disk_selected
  by (simp add: sample_disk_lbas)

text \<open>
  WRITE SECTORS (30h, 31h). The channel fetches 256 words per requested sector from the data port
  and stores them, low byte first, in the image at ascending block addresses; blocks beyond the image
  are dropped and nothing else of the image changes; then the channel returns to idle.
\<close>

theorem ide_write_command:
  assumes "selected_disk s" and "i_cmd s = 0x30 \<or> i_cmd s = 0x31"
  shows "\<exists>s' p' tr. reaches resp (data_request (i_id s))
        (17035 * block_count (r_sector_count (i_regs s)) + 394) p s p' s' tr \<and>
      i_image s' = write_blocks store_sector
        (lba_seq (r_lba (i_regs s) \<noteq> 0) (start_lba s) (block_count (r_sector_count (i_regs s))))
        (fst (fetch resp (p_core p) (replicate (256 * block_count (r_sector_count (i_regs s))) (i_base s + 255))))
        (i_image s) \<and>
      i_state s' = IDLE"
  using assms by (rule write_command)

theorem ide_write_command_witness:
  "\<exists>s' p' tr. reaches echo_core (data_request 0) 34464 \<lparr>p_core = 5, p_addr = 0, p_data = 0\<rparr> (sample_disk 0x30) p' s' tr \<and>
      i_image s' = write_blocks store_sector (lba_seq True 3 2)
        (fst (fetch echo_core 5 (replicate 512 0xF0FF))) (i_image (sample_disk 0x30)) \<and>
      i_state s' = IDLE"
  using ide_write_command [of "sample_disk 0x30" echo_core "\<lparr>p_core = 5, p_addr = 0, p_data = 0\<rparr>"] sample_disk_selected
  by (simp add: sample_disk_lbas)

text \<open>
  C3: what is written is read back. When the addressed blocks are distinct and on the disk, after a
  WRITE SECTORS command the words a read would send for those blocks are the words the guest wrote,
  in order, and every other block still reads as before.
\<close>

theorem ide_write_read_back:
  fixes s :: hps_ide
  defines "blocks \<equiv> lba_seq (r_lba (i_regs s) \<noteq> 0) (start_lba s) (block_count (r_sector_count (i_regs s)))"
  assumes "selected_disk s" and "i_cmd s = 0x30 \<or> i_cmd s = 0x31"
    and "distinct blocks" and "\<forall>l\<in>set blocks. on_disk (i_image s) l"
  shows "\<exists>s' p' tr B. reaches resp (data_request (i_id s)) B p s p' s' tr \<and> i_state s' = IDLE \<and>
    concat (map (sector_data (i_image s')) blocks) =
      fst (fetch resp (p_core p) (replicate (256 * length blocks) (i_base s + 255))) \<and>
    (\<forall>l. l \<notin> set blocks \<longrightarrow> sector_data (i_image s') l = sector_data (i_image s) l)"
proof -
  let ?N = "block_count (r_sector_count (i_regs s))"
  let ?ws = "fst (fetch resp (p_core p) (replicate (256 * ?N) (i_base s + 255)))"
  have n: "length blocks = ?N" unfolding blocks_def by simp
  obtain s' p' tr where "reaches resp (data_request (i_id s)) (17035 * ?N + 394) p s p' s' tr"
    and img: "i_image s' = write_blocks store_sector blocks ?ws (i_image s)" and "i_state s' = IDLE"
    using write_command [OF assms(2,3), of resp p] unfolding blocks_def by blast
  moreover have "concat (map (sector_data (i_image s')) blocks) = ?ws"
    unfolding img using assms(4,5) n by (intro image.write_read_back) simp_all
  moreover have "\<forall>l. l \<notin> set blocks \<longrightarrow> sector_data (i_image s') l = sector_data (i_image s) l"
    unfolding img using n by (auto intro: image.write_other)
  ultimately show ?thesis unfolding n by blast
qed

theorem ide_write_read_back_witness:
  "\<exists>s' p' tr B. reaches echo_core (data_request 0) B \<lparr>p_core = 5, p_addr = 0, p_data = 0\<rparr> (sample_disk 0x30) p' s' tr \<and>
    i_state s' = IDLE \<and>
    concat (map (sector_data (i_image s')) [3, 4]) = fst (fetch echo_core 5 (replicate 512 0xF0FF)) \<and>
    (\<forall>l. l \<notin> {3, 4} \<longrightarrow> sector_data (i_image s') l = sector_data (i_image (sample_disk 0x30)) l)"
proof -
  have two: "lba_seq True 3 2 = [3, 4 :: u32]" by (simp add: numeral_2_eq_2)
  show ?thesis
    using ide_write_read_back [of "sample_disk 0x30" echo_core "\<lparr>p_core = 5, p_addr = 0, p_data = 0\<rparr>"] sample_disk_selected
    by (simp add: sample_disk_lbas two on_disk_def)
qed

text \<open>
  IDENTIFY DEVICE. The command sends the 256 identify words of the drive through the data port
  and returns to idle.
\<close>

theorem ide_identify_command:
  assumes s: "selected_disk s" and cmd: "i_cmd s = 0xEC" and Q: "\<And>tb. Q tb \<Longrightarrow> awake tb"
  shows "\<exists>s' tr. reaches resp Q 17034 p s (moved p tr) s' tr \<and>
      data_words (i_base s) tr = d_ident (i_drive s) \<and> i_state s' = IDLE"
proof -
  let ?m = "upd_regs (mask_taskfile (i_cmd s)) s"
  define a where "a = handle_disk_cmd ?m"
  have a: "i_state a = SEND_ID" "i_cnt a = 0" "i_drive a = i_drive s" "i_base a = i_base s" "settled a"
    using s cmd by (simp_all add: a_def handle_disk_cmd_def selected_disk_def settled_def)
  have len: "length (d_ident (i_drive s)) = 256" using s by (simp add: selected_disk_def ide_wf_def)
  have 1: "reaches resp Q 1 p s p a []"
    unfolding a_def using do_cmd_step [OF s, of Q resp p] Q by metis
  let ?data = "map (Pair (i_base s + 255)) (d_ident (i_drive s))"
  have data: "map (ident_word a) [0..<256] = ?data"
    using a len map_nth [of "d_ident (i_drive s)"] by (simp add: ident_word_def list_eq_iff_nth_eq)
  define b where "b = goto_set_regs IDLE (a\<lparr>i_cnt := int 256\<rparr>)"
  have 2: "reaches resp Q (65 * 256 + 1) p a (moved p ?data) b ?data"
    using send_id.send_all [of a Q resp p] a len Q unfolding data b_def by simp
  have b: "settled b" "i_state b = SET_REGS" "i_next_state b = IDLE" "i_base b = i_base s"
    using a by (simp_all add: b_def goto_set_regs_def)
  note 3 = reaches_report [OF b(1,2), where Q = Q, OF Q, where resp = resp and p = "moved p ?data"]
  have "reaches resp Q 17034 p s (moved p (?data @ report b)) (reported b) (?data @ report b)"
    using reaches_trans [OF reaches_trans [OF 1 2] 3] by simp
  moreover have "data_words (i_base s) (report b) = []"
    using b by (intro data_words_regs) (simp add: report_def)
  ultimately show ?thesis
    using b(3) by (intro exI [of _ "reported b"] exI [of _ "?data @ report b"]) simp
qed

theorem ide_identify_command_witness:
  "\<exists>s' tr. reaches echo_core awake 17034 \<lparr>p_core = 0, p_addr = 0, p_data = 0\<rparr> (sample_disk 0xEC)
      (moved \<lparr>p_core = 0, p_addr = 0, p_data = 0\<rparr> tr) s' tr \<and>
    data_words 0xF000 tr = d_ident (i_drive (sample_disk 0xEC)) \<and> i_state s' = IDLE"
  using ide_identify_command [of "sample_disk 0xEC" awake echo_core "\<lparr>p_core = 0, p_addr = 0, p_data = 0\<rparr>"] sample_disk_selected
  by (simp add: sample_disk_lbas)

end
