(* ===== verification/Ide_Checkpoint.thy ===== *)
theory Ide_Checkpoint
  imports Ide_Commands
begin

text \<open>
  Saving and restoring the IDE emulation: \<open>HpsIde::save\<close>, \<open>load\<close>, \<open>save_image\<close>,
  \<open>load_image\<close> and \<open>adopt_image_path\<close> of \<open>ide_hps.cpp\<close>. The image is stored as the sectors that
  differ from its file. The host's file system is a parameter (\<open>host_fs\<close>): size and modification
  time of a path, the bytes a read of it delivers, its absolute form. A reader that throws has the
  error as its value; an index outside the image, which the C++ does not check, is
  \<open>Out_Of_Bounds\<close>. The warning about a changed modification time is output only.
\<close>

section \<open>The host's files\<close>

record host_fs =
  fs_stat :: "string \<Rightarrow> (u64 \<times> u64) option"
  fs_read :: "string \<Rightarrow> bytes"
  fs_absolute :: "string \<Rightarrow> string"

definition file_identity :: "host_fs \<Rightarrow> string \<Rightarrow> (u64 \<times> u64) option" where
  "file_identity fs path = (if path = [] then None else fs_stat fs path)"

section \<open>Registers, drive and state numbers\<close>

definition write_regs :: "hps_ide_regs \<Rightarrow> bytes" where
  "write_regs r = write_pod (r_io_size r) @ write_pod (r_error r) @ write_pod (r_sector_count r) @
     write_pod (r_sector r) @ write_pod (r_cylinder r) @ write_pod (r_head r) @ write_pod (r_drv r) @
     write_pod (r_lba r) @ write_pod (r_cmd r) @ write_pod (r_pkt_io_size r) @ write_pod (r_status r)"

definition read_regs :: "hps_ide_regs \<Rightarrow> hps_ide_regs rd" where
  "read_regs r =
     rbind (read_pod (r_io_size r)) (\<lambda>io. rbind (read_pod (r_error r)) (\<lambda>er.
     rbind (read_pod (r_sector_count r)) (\<lambda>n. rbind (read_pod (r_sector r)) (\<lambda>sec.
     rbind (read_pod (r_cylinder r)) (\<lambda>cyl. rbind (read_pod (r_head r)) (\<lambda>hd.
     rbind (read_pod (r_drv r)) (\<lambda>drv. rbind (read_pod (r_lba r)) (\<lambda>lba.
     rbind (read_pod (r_cmd r)) (\<lambda>c. rbind (read_pod (r_pkt_io_size r)) (\<lambda>pk.
     rbind (read_pod (r_status r)) (\<lambda>st.
     rret \<lparr>r_io_size = io, r_error = er, r_sector_count = n, r_sector = sec, r_cylinder = cyl,
       r_head = hd, r_drv = drv, r_lba = lba, r_cmd = c, r_pkt_io_size = pk, r_status = st\<rparr>)))))))))))"

definition write_drive :: "hps_ide_drive \<Rightarrow> bytes" where
  "write_drive d = write_bool (d_present d) @ write_pod (d_cylinders d) @ write_pod (d_heads d) @
     write_pod (d_spt d) @ write_pod (d_total_sectors d) @ write_pod (d_spb d) @
     concat (map write_pod (d_ident d))"

definition read_drive :: "hps_ide_drive \<Rightarrow> hps_ide_drive rd" where
  "read_drive d =
     rbind (read_bool (d_present d)) (\<lambda>pr. rbind (read_pod (d_cylinders d)) (\<lambda>cyl.
     rbind (read_pod (d_heads d)) (\<lambda>hd. rbind (read_pod (d_spt d)) (\<lambda>spt.
     rbind (read_pod (d_total_sectors d)) (\<lambda>tot. rbind (read_pod (d_spb d)) (\<lambda>spb.
     rbind (rd_list read_pod (d_ident d)) (\<lambda>ident.
     rret \<lparr>d_present = pr, d_cylinders = cyl, d_heads = hd, d_spt = spt, d_total_sectors = tot,
       d_spb = spb, d_ident = ident\<rparr>)))))))"

definition enum_states :: "ide_state list" where
  "enum_states = [INITIAL, IDLE, GET_RESET_DRIVE, RESET_SET, GET_CMD, DO_CMD, SEND_ID, SET_REGS,
     SET_REGS_SEND, READ, READ_REGS, READ_SEND, READ_WAIT_REQ, WRITE, WRITE_REGS, WRITE_WAIT_REQ,
     WRITE_RECV, PACKET_WAIT_REQ, PACKET_RECV, PACKET_SEND, PACKET_READ_WAIT_REQ, PACKET_HANDLE]"

definition num_state :: "u32 \<Rightarrow> ide_state" where
  "num_state n = (if unat n < length enum_states then enum_states ! unat n else STATE_OUT n)"

fun state_num :: "ide_state \<Rightarrow> u32" where
  "state_num INITIAL = 0" | "state_num IDLE = 1" | "state_num GET_RESET_DRIVE = 2"
| "state_num RESET_SET = 3" | "state_num GET_CMD = 4" | "state_num DO_CMD = 5"
| "state_num SEND_ID = 6" | "state_num SET_REGS = 7" | "state_num SET_REGS_SEND = 8"
| "state_num READ = 9" | "state_num READ_REGS = 10" | "state_num READ_SEND = 11"
| "state_num READ_WAIT_REQ = 12" | "state_num WRITE = 13" | "state_num WRITE_REGS = 14"
| "state_num WRITE_WAIT_REQ = 15" | "state_num WRITE_RECV = 16" | "state_num PACKET_WAIT_REQ = 17"
| "state_num PACKET_RECV = 18" | "state_num PACKET_SEND = 19"
| "state_num PACKET_READ_WAIT_REQ = 20" | "state_num PACKET_HANDLE = 21"
| "state_num (STATE_OUT n) = n"

section \<open>The image\<close>

text \<open>The base the difference is taken against: the file, if its size fits and it reads in full.\<close>

definition base_image :: "host_fs \<Rightarrow> hps_ide \<Rightarrow> bytes" where
  "base_image fs s =
     (case file_identity fs (i_image_path s) of None \<Rightarrow> []
      | Some (sz, mtime) \<Rightarrow>
          if unat sz = length (i_image s)
          then (let (base, good) = read_whole (unat sz) (fs_read fs (i_image_path s)) []
                in if good then base else [])
          else [])"

definition sector_slice :: "bytes \<Rightarrow> nat \<Rightarrow> bytes" where
  "sector_slice img k = take (min 512 (length img - k * 512)) (drop (k * 512) img)"

definition dirty_sectors :: "bytes \<Rightarrow> bytes \<Rightarrow> u32 list" where
  "dirty_sectors img base =
     map word_of_nat (filter (\<lambda>k. sector_slice img k \<noteq>
         take (min 512 (length img - k * 512)) (drop (k * 512) base)) [0..<(length img + 511) div 512])"

definition write_dirty :: "bytes \<Rightarrow> u32 \<Rightarrow> bytes" where
  "write_dirty img k = write_pod k @ sector_slice img (unat k)"

definition save_image :: "host_fs \<Rightarrow> hps_ide \<Rightarrow> bytes" where
  "save_image fs s =
     write_string (i_image_path s) @
     (let base = base_image fs s; as_diff = (if base = [] then 0 else 1 :: u8)
      in write_pod as_diff @
         (if as_diff = 0 then write_vector_u8 (i_image s)
          else (case file_identity fs (i_image_path s) of None \<Rightarrow> []
            | Some (sz, mtime) \<Rightarrow>
                (let dirty = dirty_sectors (i_image s) base
                 in write_pod sz @ write_pod mtime @ write_pod (word_of_nat (length dirty) :: u64) @
                    concat (map (write_dirty (i_image s)) dirty)))))"

fun load_sectors :: "nat \<Rightarrow> bytes \<Rightarrow> bytes rd" where
  "load_sectors 0 img = rret img"
| "load_sectors (Suc n) img = rbind (read_pod (0 :: u32)) (\<lambda>k.
     if length img \<le> unat k * 512 then rthrow Out_Of_Bounds
     else rbind (read_raw (sector_slice img (unat k))) (\<lambda>bs.
       load_sectors n (overwrite (unat k * 512) bs img)))"

definition load_image :: "host_fs \<Rightarrow> nat \<Rightarrow> hps_ide \<Rightarrow> hps_ide rd" where
  "load_image fs lim s =
     rbind (read_string lim (i_image_path s)) (\<lambda>path.
     rbind (read_pod (0 :: u8)) (\<lambda>as_diff.
       if as_diff = 0 then
         rbind (read_vector_u8 lim (i_image s)) (\<lambda>img. rret (s\<lparr>i_image_path := path, i_image := img\<rparr>))
       else
         rbind (read_pod (0 :: u64)) (\<lambda>sz. rbind (read_pod (0 :: u64)) (\<lambda>mtime.
           case file_identity fs path of None \<Rightarrow> rthrow (Base_Missing path)
           | Some (now_size, now_mtime) \<Rightarrow>
               if now_size \<noteq> sz then rthrow (Base_Missing path)
               else if lim < unat sz then rthrow Bad_Alloc
               else (let (base, good) = read_whole (unat sz) (fs_read fs path) (i_image s)
                     in if \<not> good then rthrow (Cannot_Read path)
                        else rbind (read_pod (0 :: u64)) (\<lambda>count.
                          rbind (load_sectors (unat count) base) (\<lambda>img.
                            rret (s\<lparr>i_image_path := path, i_image := img\<rparr>))))))))"

definition adopt_image_path :: "host_fs \<Rightarrow> string \<Rightarrow> hps_ide \<Rightarrow> hps_ide" where
  "adopt_image_path fs path s =
     (case file_identity fs path of None \<Rightarrow> s
      | Some (sz, mtime) \<Rightarrow>
          if i_image_path s = [] \<and> unat sz = length (i_image s)
          then s\<lparr>i_image_path := fs_absolute fs path\<rparr> else s)"

section \<open>The whole checkpoint\<close>

definition HIDE_MAGIC :: u32 where "HIDE_MAGIC = 0x48494445"

definition sector_words_offset :: "hps_ide \<Rightarrow> u64" where
  "sector_words_offset s =
     (case i_sector_words s of None \<Rightarrow> - 1
      | Some off \<Rightarrow> if i_image s \<noteq> [] \<and> off < length (i_image s) then word_of_nat off else - 1)"

definition save :: "host_fs \<Rightarrow> hps_ide \<Rightarrow> bytes" where
  "save fs s =
     write_pod HIDE_MAGIC @ write_pod (3 :: u32) @ write_pod (i_id s) @ write_pod (i_base s) @
     write_pod (state_num (i_state s)) @ write_pod (state_num (i_next_state s)) @
     write_regs (i_regs s) @ write_drive (i_drive s) @ save_image fs s @
     write_string (i_image_name s) @ write_pod (sector_words_offset s) @ write_pod (i_sector s) @
     write_pod (i_sector_count s) @ write_pod (i_cylinder s) @ write_pod (i_drv_addr s) @
     write_pod (i_cmd s) @ i_buf s @ write_int (i_cnt s) @ write_pod (i_irq_pending s) @
     write_bool (i_bus_cooldown s) @ write_bool (i_debug s) @ write_bool (i_cdrom s) @
     write_pod (i_features s) @ i_packet s @ write_vector_u8 (i_packet_data s) @
     write_pod (i_packet_lba s) @ write_pod (i_packet_remaining s) @
     write_pod (i_packet_size_limit s) @ write_pod (i_sense_key s) @ write_pod (i_sense_asc s) @
     write_pod (i_sense_ascq s)"

text \<open>The members added in version 2.\<close>

definition load_v2 :: "nat \<Rightarrow> hps_ide \<Rightarrow> hps_ide rd" where
  "load_v2 lim s =
     rbind (read_bool (i_cdrom s)) (\<lambda>cd. rbind (read_pod (i_features s)) (\<lambda>ft.
     rbind (read_raw (i_packet s)) (\<lambda>pk. rbind (read_vector_u8 lim (i_packet_data s)) (\<lambda>pd.
     rbind (read_pod (i_packet_lba s)) (\<lambda>pl. rbind (read_pod (i_packet_remaining s)) (\<lambda>pr.
     rbind (read_pod (i_packet_size_limit s)) (\<lambda>ps. rbind (read_pod (i_sense_key s)) (\<lambda>sk.
     rbind (read_pod (i_sense_asc s)) (\<lambda>sa. rbind (read_pod (i_sense_ascq s)) (\<lambda>sq.
     rret (s\<lparr>i_cdrom := cd, i_features := ft, i_packet := pk, i_packet_data := pd,
       i_packet_lba := pl, i_packet_remaining := pr, i_packet_size_limit := ps,
       i_sense_key := sk, i_sense_asc := sa, i_sense_ascq := sq\<rparr>)))))))))))"

definition restore_pointer :: "u64 \<Rightarrow> hps_ide \<Rightarrow> hps_ide" where
  "restore_pointer off s =
     s\<lparr>i_sector_words := (if off \<noteq> - 1 \<and> unat (off + 512) \<le> length (i_image s)
        then Some (unat off) else None)\<rparr>"

definition load :: "host_fs \<Rightarrow> nat \<Rightarrow> hps_ide \<Rightarrow> hps_ide rd" where
  "load fs lim s =
     rbind (read_pod (0 :: u32)) (\<lambda>magic. rbind (read_pod (0 :: u32)) (\<lambda>version.
     if magic \<noteq> HIDE_MAGIC \<or> version < 1 \<or> version > 3 then rthrow Bad_Checkpoint else
     rbind (read_pod (i_id s)) (\<lambda>dev. rbind (read_pod (i_base s)) (\<lambda>base.
     rbind (read_pod (0 :: u32)) (\<lambda>st. rbind (read_pod (0 :: u32)) (\<lambda>nst.
     rbind (read_regs (i_regs s)) (\<lambda>regs. rbind (read_drive (i_drive s)) (\<lambda>drive.
     rbind (if version \<ge> 3 then load_image fs lim s
            else rbind (read_vector_u8 lim (i_image s)) (\<lambda>img. rret (s\<lparr>i_image := img\<rparr>))) (\<lambda>s1.
     rbind (read_string lim (i_image_name s)) (\<lambda>name.
     rbind (read_pod (- 1 :: u64)) (\<lambda>off. rbind (read_pod (i_sector s)) (\<lambda>sec.
     rbind (read_pod (i_sector_count s)) (\<lambda>n. rbind (read_pod (i_cylinder s)) (\<lambda>cyl.
     rbind (read_pod (i_drv_addr s)) (\<lambda>da. rbind (read_pod (i_cmd s)) (\<lambda>c.
     rbind (read_raw (i_buf s)) (\<lambda>buf. rbind (read_int (i_cnt s)) (\<lambda>cnt.
     rbind (read_pod (i_irq_pending s)) (\<lambda>irq. rbind (read_bool (i_bus_cooldown s)) (\<lambda>cool.
     rbind (read_bool (i_debug s)) (\<lambda>dbg.
     let s2 = s1\<lparr>i_id := dev, i_base := base, i_state := num_state st, i_next_state := num_state nst,
       i_regs := regs, i_drive := drive, i_image_name := name, i_sector := sec, i_sector_count := n,
       i_cylinder := cyl, i_drv_addr := da, i_cmd := c, i_buf := buf, i_cnt := cnt,
       i_irq_pending := irq, i_bus_cooldown := cool, i_debug := dbg\<rparr>
     in rbind (if version \<ge> 2 then load_v2 lim s2 else rret s2) (\<lambda>s3.
        rret (restore_pointer off s3)))))))))))))))))))))))"

section \<open>Round trips of the parts\<close>

lemma read_regs_write_regs [simp, codec_simps]:
  "read_regs old (good_stream (write_regs r @ rest)) = Inr (r, good_stream rest)"
  by (simp add: read_regs_def write_regs_def)

lemma read_drive_write_drive [simp, codec_simps]:
  "length (d_ident d) = length (d_ident old) \<Longrightarrow>
     read_drive old (good_stream (write_drive d @ rest)) = Inr (d, good_stream rest)"
  by (simp add: read_drive_def write_drive_def pod16.rd_list_wr list_all_iff)

lemma num_state_num:
  "(\<And>n. st = STATE_OUT n \<Longrightarrow> 22 \<le> unat n) \<Longrightarrow> num_state (state_num st) = st"
  by (cases st) (simp_all add: num_state_def enum_states_def)


section \<open>The difference restores the image\<close>

lemma length_sector_slice [simp]: "length (sector_slice img k) = min 512 (length img - k * 512)"
  by (simp add: sector_slice_def)

lemma nth_sector_slice:
  assumes "j < min 512 (length img - k * 512)"
  shows "sector_slice img k ! j = img ! (k * 512 + j)"
proof -
  have "k * 512 \<le> length img" using assms by linarith
  then show ?thesis using assms by (simp add: sector_slice_def)
qed

definition patch :: "bytes \<Rightarrow> nat \<Rightarrow> bytes \<Rightarrow> bytes" where
  "patch img k b = overwrite (k * 512) (sector_slice img k) b"

lemma length_patch [simp]: "k * 512 < length img \<Longrightarrow> length b = length img \<Longrightarrow> length (patch img k b) = length img"
  by (simp add: patch_def)

lemma nth_patch:
  assumes "k * 512 < length img" "length b = length img" "i < length img"
  shows "patch img k b ! i = (if i div 512 = k then img ! i else b ! i)"
proof -
  have "i div 512 = k \<longleftrightarrow> k * 512 \<le> i \<and> i < k * 512 + min 512 (length img - k * 512)"
    using assms by (auto simp: min_def)
  moreover have "sector_slice img k ! (i - k * 512) = img ! i"
    if "k * 512 \<le> i" "i < k * 512 + min 512 (length img - k * 512)"
  proof -
    have "i - k * 512 < min 512 (length img - k * 512)" using that by linarith
    with that show ?thesis by (simp add: nth_sector_slice)
  qed
  ultimately show ?thesis
    using assms by (simp add: patch_def nth_overwrite)
qed

lemma fold_patch:
  assumes "\<forall>k\<in>set ks. k * 512 < length img" "length b = length img"
  shows "length (fold (patch img) ks b) = length img \<and>
    (\<forall>i<length img. fold (patch img) ks b ! i = (if i div 512 \<in> set ks then img ! i else b ! i))"
  using assms by (induction ks arbitrary: b) (auto simp: nth_patch)

lemma load_sectors_write_dirty:
  assumes "\<forall>k\<in>set ks. k * 512 < length img \<and> k < 2 ^ 32" "length b = length img"
  shows "load_sectors (length ks) b (good_stream (concat (map (\<lambda>k. write_dirty img (word_of_nat k)) ks) @ rest)) =
    Inr (fold (patch img) ks b, good_stream rest)"
  using assms
proof (induction ks arbitrary: b)
  case (Cons k ks)
  have k: "unat (word_of_nat k :: u32) = k" "k * 512 < length img"
    using Cons.prems by (simp_all add: unat_word_of_nat_small)
  have "load_sectors (length ks) (patch img k b)
      (good_stream (concat (map (\<lambda>k. write_dirty img (word_of_nat k)) ks) @ rest)) =
      Inr (fold (patch img) (k # ks) b, good_stream rest)"
    using Cons by simp
  then show ?case
    using k Cons.prems(2) by (simp add: write_dirty_def patch_def [of img k b])
qed simp

lemma dirty_sectors_restore:
  assumes "length base = length img"
  defines "ks \<equiv> filter (\<lambda>k. sector_slice img k \<noteq>
         take (min 512 (length img - k * 512)) (drop (k * 512) base)) [0..<(length img + 511) div 512]"
  shows "fold (patch img) ks base = img" and "\<forall>k\<in>set ks. k * 512 < length img"
proof -
  show inb: "\<forall>k\<in>set ks. k * 512 < length img"
    by (auto simp: ks_def)
  have "base ! i = img ! i" if "i < length img" "i div 512 \<notin> set ks" for i
  proof -
    let ?k = "i div 512"
    have "?k < (length img + 511) div 512" using that by simp
    with that have "sector_slice img ?k = sector_slice base ?k"
      using assms(1) by (auto simp: ks_def sector_slice_def)
    moreover have "i mod 512 < min 512 (length img - ?k * 512)"
      using that by (simp add: less_diff_conv minus_div_mult_eq_mod [symmetric])
    ultimately show ?thesis
      using nth_sector_slice [of "i mod 512" img ?k] nth_sector_slice [of "i mod 512" base ?k] assms(1)
      by simp
  qed
  then show "fold (patch img) ks base = img"
    using fold_patch [OF inb assms(1)] by (auto intro!: nth_equalityI)
qed


section \<open>Round trips of the image and of the object\<close>

text \<open>The base file at load time: same size and contents; its modification time may differ.\<close>

definition same_base :: "host_fs \<Rightarrow> host_fs \<Rightarrow> string \<Rightarrow> bool" where
  "same_base fs fs' path \<longleftrightarrow>
     map_option fst (file_identity fs' path) = map_option fst (file_identity fs path) \<and>
     fs_read fs' path = fs_read fs path"

lemma read_whole_good:
  assumes "read_whole sz content old = (img, True)"
  shows "img = take sz content" "sz \<le> length content" "read_whole sz content old' = (img, True)"
  using assms by (auto simp: read_whole_def in_read_def good_stream_def split: if_splits)

lemma base_image_nonempty:
  assumes "base_image fs s \<noteq> []"
  obtains sz mt where "file_identity fs (i_image_path s) = Some (sz, mt)"
    "unat sz = length (i_image s)" "length (base_image fs s) = length (i_image s)"
    "\<And>old. read_whole (unat sz) (fs_read fs (i_image_path s)) old = (base_image fs s, True)"
proof -
  obtain sz mt where id: "file_identity fs (i_image_path s) = Some (sz, mt)" "unat sz = length (i_image s)"
    using assms by (auto simp: base_image_def split: option.splits if_splits)
  obtain b g where r: "read_whole (unat sz) (fs_read fs (i_image_path s)) [] = (b, g)" by fastforce
  then have g: "g" and b: "base_image fs s = b"
    using assms id by (auto simp: base_image_def split: if_splits)
  then have "read_whole (unat sz) (fs_read fs (i_image_path s)) [] = (b, True)" using r by simp
  note rw = read_whole_good [OF this]
  have "length b = length (i_image s)" using rw(1,2) id(2) by simp
  then show ?thesis using that id rw(3) b by auto
qed

definition image_fits :: "nat \<Rightarrow> hps_ide \<Rightarrow> bool" where
  "image_fits lim s \<longleftrightarrow> length (i_image_path s) < 2 ^ 32 \<and> length (i_image_path s) \<le> lim \<and>
     length (i_image s) < 2 ^ 41 \<and> length (i_image s) \<le> lim"

lemma load_image_save_image:
  assumes fits: "image_fits lim s" and base: "same_base fs fs' (i_image_path s)"
  shows "load_image fs' lim old (good_stream (save_image fs s @ rest)) =
    Inr (old\<lparr>i_image_path := i_image_path s, i_image := i_image s\<rparr>, good_stream rest)"
proof (cases "base_image fs s = []")
  case True
  then show ?thesis
    using fits by (simp add: load_image_def save_image_def image_fits_def)
next
  case False
  then obtain sz mt where id: "file_identity fs (i_image_path s) = Some (sz, mt)"
    "unat sz = length (i_image s)" "length (base_image fs s) = length (i_image s)"
    "\<And>old. read_whole (unat sz) (fs_read fs (i_image_path s)) old = (base_image fs s, True)"
    using base_image_nonempty by blast
  obtain mt' where id': "file_identity fs' (i_image_path s) = Some (sz, mt')"
    "fs_read fs' (i_image_path s) = fs_read fs (i_image_path s)"
    using base id by (auto simp: same_base_def)
  let ?ks = "filter (\<lambda>k. sector_slice (i_image s) k \<noteq> take (min 512 (length (i_image s) - k * 512))
      (drop (k * 512) (base_image fs s))) [0..<(length (i_image s) + 511) div 512]"
  have dirty: "dirty_sectors (i_image s) (base_image fs s) = map word_of_nat ?ks"
    by (simp add: dirty_sectors_def)
  note restore = dirty_sectors_restore [OF id(3)]
  have small: "\<forall>k\<in>set ?ks. k * 512 < length (i_image s) \<and> k < 2 ^ 32"
    using restore(2) fits by (auto simp: image_fits_def)
  have "length ?ks \<le> (length (i_image s) + 511) div 512"
    by (rule order_trans [OF length_filter_le]) simp
  then have "length ?ks < 2 ^ 64"
    using fits by (auto simp: image_fits_def)
  then have n: "unat (word_of_nat (length ?ks) :: u64) = length ?ks"
    by (simp add: unat_word_of_nat_small)
  show ?thesis
    using fits False id id' n load_sectors_write_dirty [OF small id(3)] restore(1)
    by (simp add: load_image_def save_image_def image_fits_def dirty comp_def Let_def)
qed


text \<open>A state whose checkpoint can be read back: the lengths are representable and the enums valid.\<close>

definition ckpt_ok :: "nat \<Rightarrow> hps_ide \<Rightarrow> bool" where
  "ckpt_ok lim s \<longleftrightarrow> image_fits lim s \<and>
     length (i_image_name s) < 2 ^ 32 \<and> length (i_image_name s) \<le> lim \<and>
     length (i_packet_data s) < 2 ^ 64 \<and> length (i_packet_data s) \<le> lim \<and>
     length (i_buf s) = 12 \<and> length (i_packet s) = 12 \<and> length (d_ident (i_drive s)) = 256 \<and>
     int32 (i_cnt s) \<and>
     num_state (state_num (i_state s)) = i_state s \<and>
     num_state (state_num (i_next_state s)) = i_next_state s \<and>
     (\<forall>off. i_sector_words s = Some off \<longrightarrow> off + 512 \<le> length (i_image s))"

lemma restore_pointer_offset:
  assumes "\<forall>off. i_sector_words s = Some off \<longrightarrow> off + 512 \<le> length (i_image s)"
    and "length (i_image s) < 2 ^ 41"
    and [simp]: "i_image t = i_image s"
  shows "restore_pointer (sector_words_offset s) t = t\<lparr>i_sector_words := i_sector_words s\<rparr>"
proof (cases "i_sector_words s")
  case None
  then show ?thesis by (simp add: restore_pointer_def sector_words_offset_def)
next
  case (Some off)
  then have off: "off + 512 \<le> length (i_image s)" using assms(1) by simp
  have u: "unat (word_of_nat off :: u64) = off" "unat (word_of_nat off + 512 :: u64) = off + 512"
    using off assms(2) by (simp_all add: unat_word_of_nat_small unat_word_ariths)
  have "(word_of_nat off :: u64) \<noteq> - 1"
    using u(2) by auto
  then show ?thesis
    using Some off u by (auto simp: restore_pointer_def sector_words_offset_def)
qed

lemma load_v2_write:
  assumes "length (i_packet s) = length (i_packet t)" "length (i_packet_data s) < 2 ^ 64"
    "length (i_packet_data s) \<le> lim"
  shows "load_v2 lim t (good_stream (write_bool (i_cdrom s) @
     write_pod (i_features s) @ i_packet s @ write_vector_u8 (i_packet_data s) @
     write_pod (i_packet_lba s) @ write_pod (i_packet_remaining s) @
     write_pod (i_packet_size_limit s) @ write_pod (i_sense_key s) @ write_pod (i_sense_asc s) @
     write_pod (i_sense_ascq s) @ rest)) =
   Inr (t\<lparr>i_cdrom := i_cdrom s, i_features := i_features s, i_packet := i_packet s,
       i_packet_data := i_packet_data s, i_packet_lba := i_packet_lba s,
       i_packet_remaining := i_packet_remaining s, i_packet_size_limit := i_packet_size_limit s,
       i_sense_key := i_sense_key s, i_sense_asc := i_sense_asc s, i_sense_ascq := i_sense_ascq s\<rparr>,
     good_stream rest)"
  using assms by (simp add: load_v2_def)

lemma load_image_base_missing:
  assumes "image_fits lim s" "base_image fs s \<noteq> []"
    and "map_option fst (file_identity fs' (i_image_path s)) \<noteq> Some (word_of_nat (length (i_image s)))"
  shows "load_image fs' lim old (good_stream (save_image fs s @ rest)) = Inl (Base_Missing (i_image_path s))"
proof -
  obtain sz mt where id: "file_identity fs (i_image_path s) = Some (sz, mt)" "unat sz = length (i_image s)"
    using base_image_nonempty [OF assms(2)] by metis
  have "sz = word_of_nat (length (i_image s))"
    by (simp flip: id(2))
  then show ?thesis
    using assms id
    by (cases "file_identity fs' (i_image_path s)")
       (auto simp: load_image_def save_image_def image_fits_def Let_def rthrow_def)
qed

section \<open>Properties\<close>

definition sample_fs :: "u64 \<Rightarrow> host_fs" where
  "sample_fs mtime = \<lparr>fs_stat = (\<lambda>p. if p = ''/disk'' then Some (4096, mtime) else None),
     fs_read = (\<lambda>p. replicate 4096 1), fs_absolute = (\<lambda>p. p)\<rparr>"

definition sample_saved :: hps_ide where
  "sample_saved = (sample_disk 0x20)\<lparr>i_image_path := ''/disk'', i_sector_words := Some 1024\<rparr>"

lemma sample_saved_ok: "ckpt_ok 5000 sample_saved"
  by (simp add: sample_saved_def sample_disk_def hps_ide_new_def ckpt_ok_def image_fits_def int32_def
      num_state_def enum_states_def default_drive_def)

lemma sample_new_shape:
  "length (i_buf (hps_ide_new d b)) = 12" "length (i_packet (hps_ide_new d b)) = 12"
  "length (d_ident (i_drive (hps_ide_new d b))) = 256"
  by (simp_all add: hps_ide_new_def default_drive_def)

lemma sample_base: "base_image (sample_fs 1) sample_saved \<noteq> []"
  by (simp add: base_image_def sample_saved_def sample_fs_def file_identity_def sample_disk_def
      hps_ide_new_def read_whole_def in_read_def good_stream_def)

lemma load_save:
  assumes ok: "ckpt_ok lim s" and base: "same_base fs fs' (i_image_path s)"
    and t: "length (i_buf t) = 12" "length (i_packet t) = 12" "length (d_ident (i_drive t)) = 256"
  shows "load fs' lim t (good_stream (save fs s @ rest)) =
    Inr (s\<lparr>i_jitter_delay := i_jitter_delay t\<rparr>, good_stream rest)"
proof -
  have fits: "image_fits lim s" using ok by (simp add: ckpt_ok_def)
  note img = load_image_save_image [OF fits base]
  have ptr: "\<forall>off. i_sector_words s = Some off \<longrightarrow> off + 512 \<le> length (i_image s)"
    "length (i_image s) < 2 ^ 41"
    using ok by (simp_all add: ckpt_ok_def image_fits_def)
  show ?thesis
    using ok t
    by (simp add: load_def save_def ckpt_ok_def img load_v2_write Let_def
        restore_pointer_offset [OF ptr])
qed

text \<open>
  C16: checkpoint round trip. Loading what \<open>save\<close> wrote restores the whole object, the disk image
  included, into any object of the right shape, and consumes exactly the written bytes; only the
  pending jitter delay is not part of a checkpoint. The image file may have a new modification time,
  but the same size and contents.
\<close>

theorem ide_checkpoint_roundtrip:
  assumes ok: "ckpt_ok lim s" and base: "same_base fs fs' (i_image_path s)"
    and t: "length (i_buf t) = 12" "length (i_packet t) = 12" "length (d_ident (i_drive t)) = 256"
  shows "load fs' lim t (good_stream (save fs s @ rest)) =
    Inr (s\<lparr>i_jitter_delay := i_jitter_delay t\<rparr>, good_stream rest)"
  using assms by (rule load_save)

theorem ide_checkpoint_roundtrip_witness:
  "load (sample_fs 2) 5000 (hps_ide_new 1 0xF100) (good_stream (save (sample_fs 1) sample_saved @ [7])) =
     Inr (sample_saved\<lparr>i_jitter_delay := i_jitter_delay (hps_ide_new 1 0xF100)\<rparr>, good_stream [7])"
  by (rule ide_checkpoint_roundtrip [OF sample_saved_ok _ sample_new_shape])
     (simp add: same_base_def sample_fs_def file_identity_def)

text \<open>
  a checkpoint taken against an image file refuses to load when that file is gone or has another
  size, instead of restoring a wrong disk.
\<close>

theorem ide_checkpoint_base_missing:
  assumes "ckpt_ok lim s" and "base_image fs s \<noteq> []"
    and "map_option fst (file_identity fs' (i_image_path s)) \<noteq> Some (word_of_nat (length (i_image s)))"
    and "length (d_ident (i_drive t)) = 256"
  shows "load fs' lim t (good_stream (save fs s @ rest)) = Inl (Base_Missing (i_image_path s))"
  using assms load_image_base_missing [OF _ assms(2,3), of lim]
  by (simp add: load_def save_def ckpt_ok_def)

theorem ide_checkpoint_base_missing_witness:
  "load ((sample_fs 1)\<lparr>fs_stat := \<lambda>_. None\<rparr>) 5000 (hps_ide_new 1 0xF100)
     (good_stream (save (sample_fs 1) sample_saved @ [])) = Inl (Base_Missing ''/disk'')"
  using ide_checkpoint_base_missing [OF sample_saved_ok sample_base, of "(sample_fs 1)\<lparr>fs_stat := \<lambda>_. None\<rparr>"
      "hps_ide_new 1 0xF100" "[]"]
  by (simp add: file_identity_def sample_new_shape) (simp add: sample_saved_def)

text \<open>
  a stream whose magic number or version is not one of the three known is rejected before any
  member is touched.
\<close>

theorem ide_checkpoint_bad_header:
  assumes "magic \<noteq> HIDE_MAGIC \<or> version = 0 \<or> 3 < version"
  shows "load fs lim t (good_stream (write_pod magic @ write_pod (version :: u32) @ rest)) = Inl Bad_Checkpoint"
proof -
  have "version < 1 \<longleftrightarrow> version = 0"
    by (metis word_less_1)
  then show ?thesis
    using assms by (auto simp: load_def rthrow_def)
qed

theorem ide_checkpoint_bad_header_witness:
  "load (sample_fs 0) 10 (hps_ide_new 0 0xF000) (good_stream (write_pod HIDE_MAGIC @ write_pod (4 :: u32) @ [])) =
     Inl Bad_Checkpoint"
  by (rule ide_checkpoint_bad_header) simp

end
