(* ===== verification/Ide_Atapi.thy ===== *)
theory Ide_Atapi
  imports Ide_Commands
begin

text \<open>
  The ATAPI side of the IDE emulation: multi-block READ(10) and READ(12) against an arbitrary core,
  the error paths, and two behaviours of the code that its comments and the ATAPI protocol do not
  intend (a byte-count limit below one sector, and a read that fails).
\<close>

section \<open>Reading sectors of a disc\<close>

definition words16 :: "bytes \<Rightarrow> u16 list" where
  "words16 bs = map (\<lambda>k. word16 bs (2 * k)) [0..<length bs div 2]"

lemma words16_append:
  assumes "even (length a)"
  shows "words16 (a @ b) = words16 a @ words16 b"
proof (rule nth_equalityI)
  obtain n where n: "length a = 2 * n" using assms by (metis evenE)
  show "length (words16 (a @ b)) = length (words16 a @ words16 b)"
    using n by (simp add: words16_def)
  fix i assume "i < length (words16 (a @ b))"
  then have i: "i < n + length b div 2" using n by (simp add: words16_def)
  show "words16 (a @ b) ! i = (words16 a @ words16 b) ! i"
  proof (cases "i < n")
    case True
    then show ?thesis using n i by (simp add: words16_def nth_append word16_def)
  next
    case False
    then have "2 * i - 2 * n = 2 * (i - n)" "Suc (2 * i) - 2 * n = Suc (2 * (i - n))"
      "i - n < length b div 2" using i by simp_all
    then show ?thesis using n i False by (simp add: words16_def nth_append word16_def)
  qed
qed

definition disc_bytes :: "bytes \<Rightarrow> nat \<Rightarrow> nat \<Rightarrow> bytes" where
  "disc_bytes img l n = take (n * 2048) (drop (l * 2048) img)"

lemma disc_bytes_split:
  "k \<le> n \<Longrightarrow> disc_bytes img l n = disc_bytes img l k @ disc_bytes img (l + k) (n - k)"
  by (simp add: disc_bytes_def take_add [symmetric] add.commute algebra_simps flip: drop_drop)

lemma read_chunk_bounds:
  assumes "2048 \<le> unat limit" "0 < unat n"
  shows "0 < read_chunk n limit" "read_chunk n limit \<le> unat n" "read_chunk n limit \<le> 8"
    "read_chunk n limit * 2048 \<le> unat limit"
proof -
  have "0 < unat limit div 2048" "unat limit div 2048 * 2048 \<le> unat limit"
    using assms(1) by (simp_all add: div_greater_zero_iff)
  moreover have "read_chunk n limit = min (min (unat n) 8) (unat limit div 2048)"
    using assms calculation by (simp add: read_chunk_def Let_def)
  ultimately show "0 < read_chunk n limit" "read_chunk n limit \<le> unat n" "read_chunk n limit \<le> 8"
    "read_chunk n limit * 2048 \<le> unat limit"
    using assms(2) by (simp_all add: order_trans [OF mult_le_mono1])
qed


text \<open>One block of a CD-ROM read: its words are sent, the task file is shown, the host asks for more.\<close>

lemma packet_block:
  assumes s: "settled s" "ide_wf s" "i_state s = PACKET_SEND" "i_cnt s = 0"
    and len: "length (i_packet_data s) = 2 * unat (r_pkt_io_size (i_regs s))"
    and Q: "\<And>tb. Q tb \<Longrightarrow> awake tb"
  obtains t rs where "reaches resp Q (65 * unat (r_pkt_io_size (i_regs s)) + 393) p s
      (moved p (map (Pair (i_base s + 255)) (words16 (i_packet_data s)) @ rs)) t
      (map (Pair (i_base s + 255)) (words16 (i_packet_data s)) @ rs)"
    "data_words (i_base s) rs = []" "settled t" "ide_wf t" "i_state t = PACKET_READ_WAIT_REQ"
    "i_base t = i_base s" "i_id t = i_id s" "i_image t = i_image s" "i_packet_lba t = i_packet_lba s"
    "i_packet_remaining t = i_packet_remaining s" "i_packet_size_limit t = i_packet_size_limit s"
proof -
  let ?n = "unat (r_pkt_io_size (i_regs s))"
  let ?data = "map (Pair (i_base s + 255)) (words16 (i_packet_data s))"
  have data: "map (packet_word s) [0..<?n] = ?data"
    using len by (simp add: packet_word_def words16_def)
  define d where "d = goto_set_regs PACKET_READ_WAIT_REQ (s\<lparr>i_cnt := int ?n, i_cnt := 0\<rparr>)"
  have 1: "reaches resp Q (65 * ?n + 1) p s (moved p ?data) d ?data"
    using packet_send.send_all [of s Q resp p] s len Q unfolding data d_def by simp
  have d: "settled d" "i_state d = SET_REGS" "ide_wf d" "i_next_state d = PACKET_READ_WAIT_REQ"
    "i_base d = i_base s" "i_id d = i_id s" "i_image d = i_image s" "i_packet_lba d = i_packet_lba s"
    "i_packet_remaining d = i_packet_remaining s" "i_packet_size_limit d = i_packet_size_limit s"
    using s by (simp_all add: d_def goto_set_regs_def)
  note 2 = reaches_report [OF d(1,2), where Q = Q, OF Q, where resp = resp and p = "moved p ?data"]
  have "reaches resp Q (65 * ?n + 393) p s (moved p (?data @ report d)) (reported d) (?data @ report d)"
    using reaches_trans [OF 1 2] by (simp add: add.commute)
  moreover have "data_words (i_base s) (report d) = []"
    using d by (intro data_words_regs) (simp add: report_def)
  ultimately show ?thesis
    using that [of "report d" "reported d"] d by simp
qed

lemma prepare_cdrom_read_ok:
  assumes s: "settled s" "ide_wf s" and limit: "2048 \<le> unat (i_packet_size_limit s)"
    and n: "0 < unat (i_packet_remaining s)"
    and fits: "(unat (i_packet_lba s) + unat (i_packet_remaining s)) * 2048 \<le> length (i_image s)"
    and small: "unat (i_packet_lba s) + unat (i_packet_remaining s) < 2 ^ 32"
  defines "k \<equiv> read_chunk (i_packet_remaining s) (i_packet_size_limit s)"
  defines "t \<equiv> prepare_cdrom_read s"
  shows "settled t" "ide_wf t" "i_state t = PACKET_SEND" "i_cnt t = 0"
    "i_packet_data t = disc_bytes (i_image s) (unat (i_packet_lba s)) k"
    "unat (r_pkt_io_size (i_regs t)) = k * 1024" "length (i_packet_data t) = k * 2048"
    "i_base t = i_base s" "i_id t = i_id s" "i_image t = i_image s"
    "i_packet_size_limit t = i_packet_size_limit s"
    "unat (i_packet_lba t) = unat (i_packet_lba s) + k"
    "unat (i_packet_remaining t) = unat (i_packet_remaining s) - k"
proof -
  note k = read_chunk_bounds [OF limit n, folded k_def]
  have img: "(unat (i_packet_lba s) + k) * 2048 \<le> length (i_image s)"
    using fits k(2) by (meson add_le_mono le_refl mult_le_mono1 le_trans)
  let ?d = "take (k * 2048) (drop (unat (i_packet_lba s) * 2048) (i_image s))"
  have len: "length ?d = k * 2048" using img by simp
  have lim: "limit_data (i_packet_size_limit s) ?d = ?d"
    using k(4) len by (simp add: limit_data_def)
  have nz: "i_packet_remaining s \<noteq> 0" using n by auto
  have t: "t = send_packet_data ?d
      (s\<lparr>i_packet_lba := i_packet_lba s + word_of_nat k,
         i_packet_remaining := i_packet_remaining s - word_of_nat k\<rparr>)"
    using img nz by (simp add: t_def prepare_cdrom_read_def k_def Let_def)
  have wk: "unat (word_of_nat k :: u32) = k" using k(3) by (simp add: unat_word_of_nat_small)
  show "settled t" "ide_wf t" "i_state t = PACKET_SEND" "i_cnt t = 0"
    "i_base t = i_base s" "i_id t = i_id s" "i_image t = i_image s"
    "i_packet_size_limit t = i_packet_size_limit s"
    using s by (simp_all add: t send_packet_data_def Let_def settled_def)
  show "i_packet_data t = disc_bytes (i_image s) (unat (i_packet_lba s)) k"
    by (simp add: t send_packet_data_def Let_def lim disc_bytes_def)
  show "unat (r_pkt_io_size (i_regs t)) = k * 1024"
    using len k(3) by (simp add: t send_packet_data_def Let_def lim unat_word_ariths unat_of_nat)
  show "length (i_packet_data t) = k * 2048"
    using len by (simp add: t send_packet_data_def Let_def lim)
  show "unat (i_packet_lba t) = unat (i_packet_lba s) + k"
    using k(2) small wk by (simp add: t send_packet_data_def Let_def unat_word_ariths)
  have "word_of_nat k \<le> i_packet_remaining s" using k(2) wk by (simp add: word_le_nat_alt)
  then show "unat (i_packet_remaining t) = unat (i_packet_remaining s) - k"
    using wk by (simp add: t send_packet_data_def Let_def unat_sub)
qed


lemma request_five: "data_request (i_id u) tb \<Longrightarrow> ide_request u (clear_bus (feed q tb)) = 5"
  by (auto simp: data_request_def ide_request_def)

lemma packet_more:
  assumes "settled u" "i_state u = PACKET_READ_WAIT_REQ"
  shows "reaches resp (data_request (i_id u)) 1 q u q
    (if i_packet_remaining u \<noteq> 0 then prepare_cdrom_read u else finish_packet 0 0 0 0 u) []"
  using assms data_request_awake
  by (intro reaches_quiet) (auto simp: tick_packet_read_wait_req_def request_five)

text \<open>The last block has gone: good status.\<close>

lemma packet_finish:
  assumes u: "settled u" "i_state u = PACKET_READ_WAIT_REQ" "i_packet_remaining u = 0"
  obtains s' rs where "reaches resp (data_request (i_id u)) 393 q u (moved q rs) s' rs"
    "data_words (i_base u) rs = []" "i_state s' = IDLE" "i_image s' = i_image u" "i_sense_key s' = 0"
proof -
  let ?Q = "data_request (i_id u)" and ?f = "finish_packet 0 0 0 0 u"
  have 1: "reaches resp ?Q 1 q u q ?f []" using packet_more [OF u(1,2), of resp q] u(3) by simp
  have f: "settled ?f" "i_state ?f = SET_REGS" "i_next_state ?f = IDLE" "i_base ?f = i_base u"
    "i_image ?f = i_image u" "i_sense_key ?f = 0"
    using u by (simp_all add: finish_packet_def settled_def)
  have 2: "reaches resp ?Q 392 q ?f (moved q (report ?f)) (reported ?f) (report ?f)"
    using reaches_report [OF f(1,2), of ?Q resp q] data_request_awake by metis
  have "data_words (i_base u) (report ?f) = []"
    using f by (intro data_words_regs) (simp add: report_def)
  then show ?thesis
    using that [of "report ?f" "reported ?f"] reaches_trans [OF 1 2] f by (simp add: reported_def)
qed

lemma cdrom_read_blocks:
  assumes "settled s" "ide_wf s" "2048 \<le> unat (i_packet_size_limit s)"
    "0 < unat (i_packet_remaining s)" "unat (i_packet_remaining s) = n"
    "(unat (i_packet_lba s) + n) * 2048 \<le> length (i_image s)" "unat (i_packet_lba s) + n < 2 ^ 32"
  shows "\<exists>s' tr. reaches resp (data_request (i_id s)) (66954 * n + 392) p (prepare_cdrom_read s) (moved p tr) s' tr \<and>
    data_words (i_base s) tr = words16 (disc_bytes (i_image s) (unat (i_packet_lba s)) n) \<and>
    i_state s' = IDLE \<and> i_image s' = i_image s \<and> i_sense_key s' = 0"
  using assms
proof (induction n arbitrary: s p rule: less_induct)
  case (less n)
  let ?Q = "data_request (i_id s)"
  define k where "k = read_chunk (i_packet_remaining s) (i_packet_size_limit s)"
  have k: "0 < k" "k \<le> n"
    using read_chunk_bounds [OF less.prems(3,4)] less.prems(5) by (simp_all add: k_def)
  have fits: "(unat (i_packet_lba s) + unat (i_packet_remaining s)) * 2048 \<le> length (i_image s)"
    "unat (i_packet_lba s) + unat (i_packet_remaining s) < 2 ^ 32"
    using less.prems by simp_all
  note t = prepare_cdrom_read_ok [OF less.prems(1-4) fits, folded k_def]
  let ?t = "prepare_cdrom_read s" and ?l = "unat (i_packet_lba s)"
  have len: "length (i_packet_data ?t) = 2 * unat (r_pkt_io_size (i_regs ?t))" using t by simp
  obtain u rs where u0: "reaches resp ?Q (65 * unat (r_pkt_io_size (i_regs ?t)) + 393) p ?t
      (moved p (map (Pair (i_base ?t + 255)) (words16 (i_packet_data ?t)) @ rs)) u
      (map (Pair (i_base ?t + 255)) (words16 (i_packet_data ?t)) @ rs)"
    "data_words (i_base ?t) rs = []" "settled u" "ide_wf u" "i_state u = PACKET_READ_WAIT_REQ"
    "i_base u = i_base ?t" "i_id u = i_id ?t" "i_image u = i_image ?t" "i_packet_lba u = i_packet_lba ?t"
    "i_packet_remaining u = i_packet_remaining ?t" "i_packet_size_limit u = i_packet_size_limit ?t"
    using packet_block [OF t(1-4) len, of ?Q resp p] data_request_awake by metis
  have u: "reaches resp ?Q (66560 * k + 393) p ?t
      (moved p (map (Pair (i_base s + 255)) (words16 (disc_bytes (i_image s) ?l k)) @ rs)) u
      (map (Pair (i_base s + 255)) (words16 (disc_bytes (i_image s) ?l k)) @ rs)"
    "data_words (i_base s) rs = []" "settled u" "ide_wf u" "i_state u = PACKET_READ_WAIT_REQ"
    "i_base u = i_base s" "i_id u = i_id s" "i_image u = i_image s"
    "unat (i_packet_lba u) = ?l + k" "unat (i_packet_remaining u) = n - k"
    "i_packet_size_limit u = i_packet_size_limit s"
    using u0 t less.prems(5) by (simp_all add: mult.commute)
  let ?tr = "map (Pair (i_base s + 255)) (words16 (disc_bytes (i_image s) ?l k)) @ rs"
  show ?case
  proof (cases "k = n")
    case True
    then have "i_packet_remaining u = 0" using u(10) by (simp add: unat_eq_zero)
    from packet_finish [OF u(3,5) this, of resp "moved p ?tr"] u(6-8)
    obtain s' fs where f: "reaches resp ?Q 393 (moved p ?tr) u (moved (moved p ?tr) fs) s' fs"
      "data_words (i_base s) fs = []" "i_state s' = IDLE" "i_image s' = i_image s" "i_sense_key s' = 0"
      by metis
    have "reaches resp ?Q (66954 * n + 392) p ?t (moved p (?tr @ fs)) s' (?tr @ fs)"
      using reaches_mono [OF reaches_trans [OF u(1) f(1)], of "66954 * n + 392"] k True by simp
    then show ?thesis
      using f u(2) True by (intro exI [of _ s'] exI [of _ "?tr @ fs"]) simp
  next
    case False
    have z: "i_packet_remaining u \<noteq> 0" using u(10) False k by (auto simp: unat_eq_zero)
    have 2: "reaches resp ?Q 1 (moved p ?tr) u (moved p ?tr) (prepare_cdrom_read u) []"
      using packet_more [OF u(3,5), of resp "moved p ?tr"] z u(7) by simp
    obtain s' tr where 3: "reaches resp ?Q (66954 * (n - k) + 392) (moved p ?tr) (prepare_cdrom_read u)
        (moved (moved p ?tr) tr) s' tr"
      "data_words (i_base s) tr = words16 (disc_bytes (i_image s) (?l + k) (n - k))"
      "i_state s' = IDLE" "i_image s' = i_image s" "i_sense_key s' = 0"
      using less.IH [of "n - k" u "moved p ?tr"] u k False less.prems by auto
    have "66560 * k + 393 + 1 + (66954 * (n - k) + 392) \<le> 66954 * n + 392"
      using k by (simp add: diff_mult_distrib2)
    then have "reaches resp ?Q (66954 * n + 392) p ?t (moved p (?tr @ tr)) s' (?tr @ tr)"
      using reaches_mono [OF reaches_trans [OF reaches_trans [OF u(1) 2] 3(1)]] by simp
    moreover have "even (length (disc_bytes (i_image s) ?l k))"
      using t(5,7) by simp
    then have "words16 (disc_bytes (i_image s) ?l n) =
        words16 (disc_bytes (i_image s) ?l k) @ words16 (disc_bytes (i_image s) (?l + k) (n - k))"
      using disc_bytes_split [OF k(2)] by (simp add: words16_append)
    ultimately show ?thesis
      using 3 u(2) by (intro exI [of _ s'] exI [of _ "?tr @ tr"]) simp
  qed
qed

section \<open>Properties\<close>

text \<open>A packet in the buffer of a CD-ROM channel that is about to execute it.\<close>

definition packet_ready :: "u8 \<Rightarrow> hps_ide \<Rightarrow> bool" where
  "packet_ready op s \<longleftrightarrow> settled s \<and> ide_wf s \<and> i_state s = PACKET_HANDLE \<and> i_packet s ! 0 = op"

lemma packet_handle_step:
  assumes "packet_ready op s"
  shows "reaches resp (data_request (i_id s)) 1 p s p (handle_packet s) []"
  using assms data_request_awake
  by (intro reaches_quiet) (auto simp: packet_ready_def tick_packet_handle_def)

lemma prepare_beyond_disc:
  assumes "i_packet_remaining s \<noteq> 0" and "length (i_image s) \<le> unat (i_packet_lba s) * 2048"
  shows "prepare_cdrom_read s = finish_packet 5 0x21 0 0 s"
proof -
  have "0 < read_chunk (i_packet_remaining s) (i_packet_size_limit s)"
    by (simp add: read_chunk_def Let_def)
  then have "length (i_image s) < unat (i_packet_lba s) * 2048 +
      read_chunk (i_packet_remaining s) (i_packet_size_limit s) * 2048"
    using assms(2) by linarith
  then show ?thesis
    using assms(1) by (simp add: prepare_cdrom_read_def Let_def)
qed

lemma read10_beyond_disc:
  assumes "i_packet s ! 0 = 0x28" and "be16 (i_packet s) 7 \<noteq> 0"
    and "length (i_image s) \<le> unat (be32 (i_packet s) 2) * 2048"
  shows "handle_packet s = finish_packet 5 0x21 0 0
    (s\<lparr>i_packet_lba := be32 (i_packet s) 2, i_packet_remaining := ucast (be16 (i_packet s) 7)\<rparr>)"
  using assms by (simp add: handle_packet_def Let_def prepare_beyond_disc word_unat_eq_iff)

definition sample_cdrom :: "bytes \<Rightarrow> u16 \<Rightarrow> hps_ide" where
  "sample_cdrom pk limit = (hps_ide_new 1 0xF100)\<lparr>i_state := PACKET_HANDLE, i_cdrom := True,
     i_image := replicate 8192 7, i_packet := pk, i_packet_size_limit := limit\<rparr>"



text \<open>
  a CD-ROM read beyond the disc transfers nothing: the packet ends in the error state with sense
  5/21h (illegal request, LBA out of range), the error register and the ERR status bit set.
\<close>

theorem atapi_read_out_of_range:
  assumes "i_packet s ! 0 = 0x28" and "be16 (i_packet s) 7 \<noteq> 0"
    and "length (i_image s) \<le> unat (be32 (i_packet s) 2) * 2048"
  shows "i_state (handle_packet s) = SET_REGS \<and> i_next_state (handle_packet s) = IDLE \<and>
    i_sense_key (handle_packet s) = 5 \<and> i_sense_asc (handle_packet s) = 0x21 \<and>
    r_error (i_regs (handle_packet s)) = 0x50 \<and>
    r_status (i_regs (handle_packet s)) AND ATA_STATUS_ERR \<noteq> 0 \<and>
    i_packet_data (handle_packet s) = i_packet_data s"
  using assms by (simp add: read10_beyond_disc finish_packet_def ata_status_defs)

theorem atapi_read_out_of_range_witness:
  "i_sense_key (handle_packet (sample_cdrom [0x28, 0, 0, 0, 0, 4, 0, 0, 1, 0, 0, 0] 0)) = 5"
  using atapi_read_out_of_range [of "sample_cdrom [0x28, 0, 0, 0, 0, 4, 0, 0, 1, 0, 0, 0] 0"]
  by (simp add: sample_cdrom_def hps_ide_new_def be16_def be32_def)

text \<open>
  a failed CD-ROM read spoils the next data-in packet. \<open>prepare_cdrom_read\<close> ends a read beyond
  the disc without clearing \<open>packet_remaining_\<close>; when the host then fetches the sense data with
  REQUEST SENSE and acknowledges it, \<open>tick\<close> takes the left-over count for more blocks to read, so
  the REQUEST SENSE itself ends with an error and sense 5/21h instead of good status.
\<close>

theorem atapi_failed_read_spoils_sense:
  assumes "i_packet s ! 0 = 0x28" and "be16 (i_packet s) 7 \<noteq> 0"
    and "length (i_image s) \<le> unat (be32 (i_packet s) 2) * 2048"
    and "packet ! 0 = 0x03" and "ide_request s tb = 5"
  shows "\<exists>u. tick_packet_read_wait_req
      ((handle_packet ((handle_packet s)\<lparr>i_packet := packet\<rparr>))\<lparr>i_state := PACKET_READ_WAIT_REQ\<rparr>) tb =
        Some (u, tb) \<and> i_sense_key u = 5 \<and> i_sense_asc u = 0x21 \<and>
        r_status (i_regs u) AND ATA_STATUS_ERR \<noteq> 0"
proof -
  have nz: "ucast (be16 (i_packet s) 7) \<noteq> (0 :: u32)"
    using assms(2) by (simp add: word_unat_eq_iff)
  note h = read10_beyond_disc [OF assms(1-3)]
  define r where "r = (handle_packet s)\<lparr>i_packet := packet\<rparr>"
  have r: "i_packet_remaining r = ucast (be16 (i_packet s) 7)" "i_packet_lba r = be32 (i_packet s) 2"
    "i_image r = i_image s" "i_id r = i_id s" "i_packet r ! 0 = 3"
    using assms(4) by (simp_all add: r_def h finish_packet_def)
  let ?t = "(handle_packet r)\<lparr>i_state := PACKET_READ_WAIT_REQ\<rparr>"
  have "handle_packet r = packet_request_sense r"
    using r(5) by (simp add: handle_packet_def Let_def)
  then have f: "i_packet_remaining ?t = ucast (be16 (i_packet s) 7)" "i_packet_lba ?t = be32 (i_packet s) 2"
    "i_image ?t = i_image s" "i_id ?t = i_id s"
    using r by (simp_all add: packet_request_sense_def send_packet_data_def Let_def)
  have "ide_request ?t tb = 5" using assms(5) f(4) by (simp add: ide_request_def)
  moreover have "prepare_cdrom_read ?t = finish_packet 5 0x21 0 0 ?t"
    using assms(3) nz f by (intro prepare_beyond_disc) simp_all
  ultimately show ?thesis
    using f(1) nz unfolding r_def [symmetric]
    by (simp add: tick_packet_read_wait_req_def finish_packet_def ata_status_defs)
qed

theorem atapi_failed_read_spoils_sense_witness:
  "\<exists>u. tick_packet_read_wait_req
      ((handle_packet ((handle_packet (sample_cdrom [0x28, 0, 0, 0, 0, 4, 0, 0, 1, 0, 0, 0] 0))
          \<lparr>i_packet := [3, 0, 0, 0, 18, 0, 0, 0, 0, 0, 0, 0]\<rparr>))\<lparr>i_state := PACKET_READ_WAIT_REQ\<rparr>)
      \<lparr>tb_reset = False, mgmt_address = 0, mgmt_read = False, mgmt_write = False,
         mgmt_writedata = 0, mgmt_readdata = 0, ide0_request = 0, ide1_request = 5, fdd_request = 0\<rparr> =
        Some (u, \<lparr>tb_reset = False, mgmt_address = 0, mgmt_read = False, mgmt_write = False,
         mgmt_writedata = 0, mgmt_readdata = 0, ide0_request = 0, ide1_request = 5, fdd_request = 0\<rparr>) \<and>
      i_sense_key u = 5 \<and> i_sense_asc u = 0x21 \<and> r_status (i_regs u) AND ATA_STATUS_ERR \<noteq> 0"
  by (rule atapi_failed_read_spoils_sense)
     (simp_all add: sample_cdrom_def hps_ide_new_def be16_def be32_def ide_request_def)

text \<open>
  a byte-count limit below one sector loses data. With \<open>0 < limit < 2048\<close> a CD-ROM read hands the
  host only the first \<open>limit\<close> bytes of the sector, yet advances to the next block and counts the
  block as done, so the rest of the sector is never sent.
\<close>

theorem atapi_small_limit_truncates:
  assumes "0 < unat (i_packet_size_limit s)" and "unat (i_packet_size_limit s) < 2048" and "even (unat (i_packet_size_limit s))"
    and "i_packet_remaining s = 1" and "(unat (i_packet_lba s) + 1) * 2048 \<le> length (i_image s)"
  shows "i_packet_data (prepare_cdrom_read s) =
      take (unat (i_packet_size_limit s)) (drop (unat (i_packet_lba s) * 2048) (i_image s)) \<and>
    i_packet_remaining (prepare_cdrom_read s) = 0 \<and>
    i_packet_lba (prepare_cdrom_read s) = i_packet_lba s + 1"
proof -
  have one: "read_chunk 1 (i_packet_size_limit s) = 1"
    using assms by (simp add: read_chunk_def Let_def)
  let ?d = "take 2048 (drop (unat (i_packet_lba s) * 2048) (i_image s))"
  have "length ?d = 2048" using assms(5) by simp
  moreover have "i_packet_size_limit s \<noteq> 0" using assms(1) by auto
  ultimately have "limit_data (i_packet_size_limit s) ?d = take (unat (i_packet_size_limit s)) ?d"
    using assms(2,3) by (simp add: limit_data_def vresize_def)
  moreover have "min (unat (i_packet_size_limit s)) 2048 = unat (i_packet_size_limit s)"
    using assms(2) by simp
  ultimately show ?thesis
    using assms(4,5) by (simp add: prepare_cdrom_read_def one Let_def send_packet_data_def)
qed

theorem atapi_small_limit_truncates_witness:
  "i_packet_data (prepare_cdrom_read ((sample_cdrom (replicate 12 0) 512)\<lparr>i_packet_remaining := 1\<rparr>)) =
     replicate 512 7"
  using atapi_small_limit_truncates [of "(sample_cdrom (replicate 12 0) 512)\<lparr>i_packet_remaining := 1\<rparr>"]
  by (simp add: sample_cdrom_def hps_ide_new_def)

end
