(* ===== verification/Floppy.thy ===== *)
theory Floppy
  imports Mgmt_Bus Pod_Codec
begin

text \<open>
  The floppy emulation of \<open>main.cpp\<close>: geometry inference (\<open>infer_floppy_geometry\<close>), mounting
  (\<open>HpsFloppy::open\<close>) and the clocked state machine (\<open>HpsFloppy::tick\<close>). The two drives are lists
  of length two; the global \<open>floppy_writable\<close> is the device context. Console output is left out.
\<close>

section \<open>Geometry\<close>

record floppy_geometry =
  cylinders :: u8
  sectors_per_track :: u8
  total_sectors :: u16
  heads :: u8
  cmos_type :: u8

definition default_floppy_geometry :: floppy_geometry where
  "default_floppy_geometry = \<lparr>cylinders = 80, sectors_per_track = 18, total_sectors = 2880, heads = 2,
     cmos_type = 4\<rparr>"

definition infer_floppy_geometry :: "nat \<Rightarrow> floppy_geometry" where
  "infer_floppy_geometry image_size =
     (let sectors = unat (word_of_nat (image_size div 512) :: u32)
      in if sectors = 320 then \<lparr>cylinders = 40, sectors_per_track = 8, total_sectors = 320, heads = 1, cmos_type = 1\<rparr>
         else if sectors = 360 then \<lparr>cylinders = 40, sectors_per_track = 9, total_sectors = 360, heads = 1, cmos_type = 1\<rparr>
         else if sectors = 640 then \<lparr>cylinders = 40, sectors_per_track = 8, total_sectors = 640, heads = 2, cmos_type = 1\<rparr>
         else if sectors = 720 then \<lparr>cylinders = 40, sectors_per_track = 9, total_sectors = 720, heads = 2, cmos_type = 1\<rparr>
         else if sectors = 1440 then \<lparr>cylinders = 80, sectors_per_track = 9, total_sectors = 1440, heads = 2, cmos_type = 3\<rparr>
         else if sectors = 2400 then \<lparr>cylinders = 80, sectors_per_track = 15, total_sectors = 2400, heads = 2, cmos_type = 2\<rparr>
         else if sectors = 2880 then \<lparr>cylinders = 80, sectors_per_track = 18, total_sectors = 2880, heads = 2, cmos_type = 4\<rparr>
         else if sectors = 5760 then \<lparr>cylinders = 80, sectors_per_track = 36, total_sectors = 5760, heads = 2, cmos_type = 5\<rparr>
         else
           (let cyl = (if sectors \<le> 720 then 40 else 80 :: nat);
                hds = (if sectors \<le> 360 then 1 else 2 :: nat)
            in default_floppy_geometry\<lparr>total_sectors := word_of_nat (min sectors 0xFFFF),
                 cylinders := word_of_nat cyl, heads := word_of_nat hds,
                 sectors_per_track := word_of_nat (max 1 (sectors div (cyl * hds)))\<rparr>))"

section \<open>State\<close>

datatype floppy_state = FDD_IDLE | READ_GET_SECTOR | FDD_READ_SEND | WRITE_GET_SECTOR | FDD_WRITE_RECV

record hps_floppy =
  f_state :: floppy_state
  f_present :: "bool list"
  f_geo :: "floppy_geometry list"
  f_image :: "bytes list"
  f_sector :: u32
  f_cnt :: int
  f_selected_drive :: nat

definition hps_floppy_new :: hps_floppy where
  "hps_floppy_new = \<lparr>f_state = FDD_IDLE, f_present = [False, False],
     f_geo = [default_floppy_geometry, default_floppy_geometry], f_image = [[], []],
     f_sector = 0, f_cnt = 0, f_selected_drive = 0\<rparr>"

datatype floppy_error = Open_Failed | Read_Failed | Not_Whole_Sectors

text \<open>
  \<open>read_file\<close>: the file as the stream calls see it, its size from \<open>tellg\<close> and the bytes delivered.
\<close>

definition read_file :: "(nat \<times> bytes) option \<Rightarrow> floppy_error + bytes" where
  "read_file f =
     (case f of None \<Rightarrow> Inl Open_Failed
      | Some (sz, content) \<Rightarrow>
          (let (data, st) = in_read sz (replicate sz 0) (good_stream content)
           in if ist_fail st then Inl Read_Failed else Inr data))"

text \<open>The image is assigned before it is checked: a rejected image stays in \<open>image_\<close>, not present.\<close>

definition floppy_open :: "(nat \<times> bytes) option \<Rightarrow> nat \<Rightarrow> hps_floppy \<Rightarrow> (floppy_error + unit) \<times> hps_floppy" where
  "floppy_open f drive s =
     (case read_file f of Inl e \<Rightarrow> (Inl e, s)
      | Inr data \<Rightarrow>
          (let s1 = s\<lparr>f_image := (f_image s)[drive := data]\<rparr>
           in if data = [] \<or> length data mod 512 \<noteq> 0 then (Inl Not_Whole_Sectors, s1)
              else (Inr (), s1\<lparr>f_geo := (f_geo s)[drive := infer_floppy_geometry (length data)],
                                f_present := (f_present s)[drive := True]\<rparr>)))"

section \<open>The state machine\<close>

definition floppy_offset :: "u32 \<Rightarrow> int \<Rightarrow> nat" where
  "floppy_offset sector byte_index = unat sector * 512 + nat byte_index"

definition read_byte :: "hps_floppy \<Rightarrow> u8" where
  "read_byte s =
     (let image = f_image s ! f_selected_drive s; offset = floppy_offset (f_sector s) (f_cnt s)
      in if length image \<le> offset then 0 else image ! offset)"

definition write_byte :: "bool \<Rightarrow> u16 \<Rightarrow> hps_floppy \<Rightarrow> hps_floppy" where
  "write_byte writable data s =
     (if \<not> writable then s
      else let image = f_image s ! f_selected_drive s; offset = floppy_offset (f_sector s) (f_cnt s)
           in if length image \<le> offset then s
              else s\<lparr>f_image := (f_image s)[f_selected_drive s := image[offset := ucast data]]\<rparr>)"

definition latch_sector :: "u16 \<Rightarrow> hps_floppy \<Rightarrow> hps_floppy" where
  "latch_sector d s =
     s\<lparr>f_selected_drive := unat (drop_bit 15 d AND 1), f_sector := ucast (d AND 0x7FFF), f_cnt := 0\<rparr>"

definition floppy_step :: "bool \<Rightarrow> hps_floppy \<Rightarrow> mgmt_bus \<Rightarrow> hps_floppy \<times> mgmt_bus" where
  "floppy_step writable s tb =
     (if tb_reset tb then (s\<lparr>f_state := FDD_IDLE, f_cnt := 0\<rparr>, tb)
      else case f_state s of
        FDD_IDLE \<Rightarrow>
          if \<not> f_present s ! 0 \<and> \<not> f_present s ! 1 then (s, tb)
          else if fdd_request tb AND 1 \<noteq> 0 then (s\<lparr>f_state := READ_GET_SECTOR\<rparr>, pulse_read 0xF200 tb)
          else if fdd_request tb AND 2 \<noteq> 0 then (s\<lparr>f_state := WRITE_GET_SECTOR\<rparr>, pulse_read 0xF200 tb)
          else (s, tb)
      | READ_GET_SECTOR \<Rightarrow> ((latch_sector (mgmt_readdata tb) s)\<lparr>f_state := FDD_READ_SEND\<rparr>, tb)
      | FDD_READ_SEND \<Rightarrow>
          if f_cnt s < 512 then (s\<lparr>f_cnt := f_cnt s + 1\<rparr>, pulse_write 0xF20F (ucast (read_byte s)) tb)
          else (s\<lparr>f_state := FDD_IDLE\<rparr>, tb)
      | WRITE_GET_SECTOR \<Rightarrow>
          ((latch_sector (mgmt_readdata tb) s)\<lparr>f_state := FDD_WRITE_RECV\<rparr>, pulse_read 0xF20F tb)
      | FDD_WRITE_RECV \<Rightarrow>
          (let s1 = write_byte writable (mgmt_readdata tb) s; s2 = s1\<lparr>f_cnt := f_cnt s1 + 1\<rparr>
           in if f_cnt s2 < 512 then (s2, pulse_read 0xF20F tb) else (s2\<lparr>f_state := FDD_IDLE\<rparr>, tb)))"

definition floppy_tick :: "bool \<Rightarrow> hps_floppy \<Rightarrow> mgmt_bus \<Rightarrow> (bool \<times> hps_floppy \<times> mgmt_bus) option" where
  "floppy_tick writable s tb = Some (writable, floppy_step writable s tb)"

section \<open>The device contract\<close>

text \<open>Two drives, a selected one, and the byte counter inside a sector.\<close>

definition floppy_inv :: "hps_floppy \<Rightarrow> bool" where
  "floppy_inv s \<longleftrightarrow> length (f_present s) = 2 \<and> length (f_geo s) = 2 \<and> length (f_image s) = 2 \<and>
     f_selected_drive s < 2 \<and> 0 \<le> f_cnt s \<and> f_cnt s \<le> 512 \<and>
     (f_state s = FDD_WRITE_RECV \<longrightarrow> f_cnt s < 512)"

lemma drive_bit: "unat (drop_bit 15 (d :: u16) AND 1) < 2"
proof -
  have "drop_bit 15 d AND 1 \<le> (1 :: u16)" by (rule word_and_le1)
  then show ?thesis by (simp add: word_le_nat_alt)
qed

lemma write_byte_select [simp]:
  "f_cnt (write_byte w d s) = f_cnt s" "f_state (write_byte w d s) = f_state s"
  "f_present (write_byte w d s) = f_present s" "f_geo (write_byte w d s) = f_geo s"
  "f_selected_drive (write_byte w d s) = f_selected_drive s" "f_sector (write_byte w d s) = f_sector s"
  "length (f_image (write_byte w d s)) = length (f_image s)"
  by (simp_all add: write_byte_def Let_def)

lemma floppy_step_inv:
  assumes "floppy_inv s"
  shows "floppy_inv (fst (floppy_step w s tb)) \<and> bus_frame tb (snd (floppy_step w s tb))"
  using assms drive_bit [of "mgmt_readdata tb"]
  by (cases "f_state s") (auto simp: floppy_step_def floppy_inv_def latch_sector_def Let_def)

interpretation floppy_dev: mgmt_device floppy_tick floppy_inv
  by unfold_locales (use floppy_step_inv in \<open>auto simp: floppy_tick_def prod_eq_iff\<close>)

lemma floppy_new_inv: "floppy_inv hps_floppy_new"
  by (simp add: floppy_inv_def hps_floppy_new_def)

lemma floppy_open_inv: "floppy_inv s \<Longrightarrow> floppy_inv (snd (floppy_open f d s))"
  by (auto simp: floppy_open_def floppy_inv_def Let_def split: sum.split)

section \<open>Transfers\<close>

definition floppy_bytes :: "hps_floppy \<Rightarrow> nat \<Rightarrow> bytes" where
  "floppy_bytes s n = map (\<lambda>k. read_byte (s\<lparr>f_cnt := int k\<rparr>)) [0..<n]"

lemma floppy_send_run:
  assumes "f_state s = FDD_READ_SEND" "f_cnt s = int k" "k + length tbs \<le> 512"
    "\<forall>tb\<in>set tbs. \<not> tb_reset tb"
  shows "\<exists>out. dev_run floppy_tick w s tbs = Some (w, s\<lparr>f_cnt := int (k + length tbs)\<rparr>, out) \<and>
    map (\<lambda>tb. (mgmt_write tb, mgmt_address tb, mgmt_writedata tb)) out =
      map (\<lambda>j. (True, 0xF20F, ucast (read_byte (s\<lparr>f_cnt := int j\<rparr>)))) [k..<k + length tbs]"
  using assms
proof (induction tbs arbitrary: s k)
  case Nil
  then show ?case by simp
next
  case (Cons tb tbs)
  let ?s = "s\<lparr>f_cnt := int (Suc k)\<rparr>"
  have "floppy_tick w s tb = Some (w, ?s, pulse_write 0xF20F (ucast (read_byte s)) tb)"
    using Cons.prems by (simp add: floppy_tick_def floppy_step_def)
  moreover obtain out where "dev_run floppy_tick w ?s tbs = Some (w, ?s\<lparr>f_cnt := int (Suc k + length tbs)\<rparr>, out)"
    "map (\<lambda>tb. (mgmt_write tb, mgmt_address tb, mgmt_writedata tb)) out =
      map (\<lambda>j. (True, 0xF20F, ucast (read_byte (?s\<lparr>f_cnt := int j\<rparr>)))) [Suc k..<Suc k + length tbs]"
    using Cons.IH [of ?s "Suc k"] Cons.prems by auto
  moreover have "s\<lparr>f_cnt := int k\<rparr> = s" using Cons.prems(2) by simp
  moreover have "[k..<Suc (k + length tbs)] = k # [Suc k..<Suc (k + length tbs)]"
    by (rule upt_conv_Cons) simp
  ultimately show ?case by simp
qed

lemma floppy_store_run:
  assumes "f_state s = FDD_WRITE_RECV" "f_cnt s = int k" "k + length tbs < 512" "floppy_inv s"
    "\<forall>tb\<in>set tbs. \<not> tb_reset tb"
    "unat (f_sector s) * 512 + 512 \<le> length (f_image s ! f_selected_drive s)"
  shows "\<exists>out. dev_run floppy_tick True s tbs = Some (True,
    s\<lparr>f_cnt := int (k + length tbs), f_image := (f_image s)[f_selected_drive s :=
      overwrite (unat (f_sector s) * 512 + k) (map (\<lambda>tb. ucast (mgmt_readdata tb)) tbs)
        (f_image s ! f_selected_drive s)]\<rparr>, out)"
  using assms
proof (induction tbs arbitrary: s k)
  case Nil
  then show ?case by (simp add: overwrite_def)
next
  case (Cons tb tbs)
  let ?d = "f_selected_drive s" and ?o = "unat (f_sector s) * 512 + k"
  let ?img = "(f_image s ! ?d)[?o := ucast (mgmt_readdata tb)]"
  let ?s = "s\<lparr>f_cnt := int (Suc k), f_image := (f_image s)[?d := ?img]\<rparr>"
  have d: "?d < length (f_image s)" using Cons.prems(4) by (simp add: floppy_inv_def)
  have st: "floppy_tick True s tb = Some (True, ?s, pulse_read 0xF20F tb)"
    using Cons.prems by (simp add: floppy_tick_def floppy_step_def write_byte_def floppy_offset_def Let_def)
  have "floppy_inv ?s" using Cons.prems by (simp add: floppy_inv_def)
  then obtain out where out: "dev_run floppy_tick True ?s tbs = Some (True,
      ?s\<lparr>f_cnt := int (Suc k + length tbs), f_image := (f_image ?s)[?d :=
        overwrite (Suc ?o) (map (\<lambda>tb. ucast (mgmt_readdata tb)) tbs) ?img]\<rparr>, out)"
    using Cons.IH [of ?s "Suc k"] Cons.prems d by auto
  have "overwrite (Suc ?o) bs ?img = overwrite ?o (ucast (mgmt_readdata tb) # bs) (f_image s ! ?d)" for bs
    using Cons.prems by (simp add: overwrite_def take_Suc_conv_app_nth)
  with out show ?case by (simp add: st)
qed

lemma read_byte_in_range:
  assumes "unat (f_sector s) * 512 + 512 \<le> length (f_image s ! f_selected_drive s)"
  shows "map (\<lambda>j. read_byte (s\<lparr>f_cnt := int j\<rparr>)) [0..<512] =
    take 512 (drop (unat (f_sector s) * 512) (f_image s ! f_selected_drive s))"
  using assms by (intro nth_equalityI) (simp_all add: read_byte_def floppy_offset_def Let_def)

section \<open>Properties\<close>

definition sample_floppy :: "floppy_state \<Rightarrow> hps_floppy" where
  "sample_floppy st = hps_floppy_new\<lparr>f_state := st, f_present := [True, False],
     f_image := [replicate 2048 3, []], f_sector := 2\<rparr>"

definition idle_bus :: "u16 \<Rightarrow> mgmt_bus" where
  "idle_bus d = \<lparr>tb_reset = False, mgmt_address = 0, mgmt_read = False, mgmt_write = False,
     mgmt_writedata = 0, mgmt_readdata = d, ide0_request = 0, ide1_request = 0, fdd_request = 0\<rparr>"

text \<open>
  floppy sector read. Ticked 513 times without reset, a drive that is sending a sector on the image
  writes its 512 bytes, in order and one per tick, to the data port at F20Fh, changes nothing of the
  images and returns to idle.
\<close>

theorem floppy_read_sector:
  assumes "f_state s = FDD_READ_SEND" "f_cnt s = 0"
    and "unat (f_sector s) * 512 + 512 \<le> length (f_image s ! f_selected_drive s)"
    and "length tbs = 512" "\<forall>tb\<in>set (tbs @ [tb']). \<not> tb_reset tb"
  shows "\<exists>out. dev_run floppy_tick w s (tbs @ [tb']) =
      Some (w, s\<lparr>f_cnt := 512, f_state := FDD_IDLE\<rparr>, out @ [tb']) \<and>
    map (\<lambda>tb. (mgmt_write tb, mgmt_address tb, mgmt_writedata tb)) out =
      map (\<lambda>b. (True, 0xF20F, ucast b))
        (take 512 (drop (unat (f_sector s) * 512) (f_image s ! f_selected_drive s)))"
proof -
  obtain out where out: "dev_run floppy_tick w s tbs = Some (w, s\<lparr>f_cnt := 512\<rparr>, out)"
    "map (\<lambda>tb. (mgmt_write tb, mgmt_address tb, mgmt_writedata tb)) out =
      map (\<lambda>j. (True, 0xF20F, ucast (read_byte (s\<lparr>f_cnt := int j\<rparr>)))) [0..<512]"
    using floppy_send_run [of s 0 tbs w] assms by auto
  have "floppy_tick w (s\<lparr>f_cnt := 512\<rparr>) tb' = Some (w, s\<lparr>f_cnt := 512, f_state := FDD_IDLE\<rparr>, tb')"
    using assms by (simp add: floppy_tick_def floppy_step_def)
  then have "dev_run floppy_tick w s (tbs @ [tb']) = Some (w, s\<lparr>f_cnt := 512, f_state := FDD_IDLE\<rparr>, out @ [tb'])"
    using out(1) by (simp add: dev_run_append)
  moreover have "map (\<lambda>j. (True, 0xF20F, ucast (read_byte (s\<lparr>f_cnt := int j\<rparr>)))) [0..<512] =
      map (\<lambda>b. (True, 0xF20F, ucast b)) (map (\<lambda>j. read_byte (s\<lparr>f_cnt := int j\<rparr>)) [0..<512])"
    by simp
  ultimately show ?thesis
    using out(2) unfolding read_byte_in_range [OF assms(3)] by auto
qed

theorem floppy_read_sector_witness:
  "\<exists>out. dev_run floppy_tick False (sample_floppy FDD_READ_SEND) (replicate 512 (idle_bus 0) @ [idle_bus 0]) =
      Some (False, (sample_floppy FDD_READ_SEND)\<lparr>f_cnt := 512, f_state := FDD_IDLE\<rparr>, out @ [idle_bus 0]) \<and>
    map (\<lambda>tb. (mgmt_write tb, mgmt_address tb, mgmt_writedata tb)) out = replicate 512 (True, 0xF20F, 3)"
  using floppy_read_sector [of "sample_floppy FDD_READ_SEND" "replicate 512 (idle_bus 0)" "idle_bus 0" False]
  by (simp add: sample_floppy_def hps_floppy_new_def idle_bus_def)

text \<open>
  C17: floppy sector write. With writing enabled, 512 ticks store the low bytes of the 512 words the
  core delivers as the selected sector of the selected drive, and no other byte of either image
  changes; then the drive is idle.
\<close>

theorem floppy_write_sector:
  assumes "f_state s = FDD_WRITE_RECV" "f_cnt s = 0" "floppy_inv s"
    and "unat (f_sector s) * 512 + 512 \<le> length (f_image s ! f_selected_drive s)"
    and "length tbs = 512" "\<forall>tb\<in>set tbs. \<not> tb_reset tb"
  shows "\<exists>out. dev_run floppy_tick True s tbs = Some (True,
    s\<lparr>f_state := FDD_IDLE, f_cnt := 512, f_image := (f_image s)[f_selected_drive s :=
      overwrite (unat (f_sector s) * 512) (map (\<lambda>tb. ucast (mgmt_readdata tb)) tbs)
        (f_image s ! f_selected_drive s)]\<rparr>, out)"
proof -
  obtain us tb where tbs: "tbs = us @ [tb]"
    using assms(5) by (cases tbs rule: rev_cases) auto
  have len: "length us = 511" using assms(5) tbs by simp
  let ?d = "f_selected_drive s" and ?o = "unat (f_sector s) * 512"
  let ?bs = "map (\<lambda>tb. ucast (mgmt_readdata tb)) us :: bytes"
  let ?t = "s\<lparr>f_cnt := 511, f_image := (f_image s)[?d := overwrite ?o ?bs (f_image s ! ?d)]\<rparr>"
  obtain out where out: "dev_run floppy_tick True s us = Some (True, ?t, out)"
    using floppy_store_run [of s 0 us] assms tbs len by auto
  have d: "?d < length (f_image s)" using assms(3) by (simp add: floppy_inv_def)
  have "(overwrite ?o ?bs (f_image s ! ?d))[?o + 511 := ucast (mgmt_readdata tb)] =
      overwrite ?o (?bs @ [ucast (mgmt_readdata tb)]) (f_image s ! ?d)"
    using assms(4) len
    by (simp add: overwrite_def list_update_append Cons_nth_drop_Suc [symmetric] add.commute)
  then have "floppy_tick True ?t tb = Some (True, s\<lparr>f_state := FDD_IDLE, f_cnt := 512,
      f_image := (f_image s)[?d := overwrite ?o (?bs @ [ucast (mgmt_readdata tb)]) (f_image s ! ?d)]\<rparr>, tb)"
    using assms tbs len d
    by (simp add: floppy_tick_def floppy_step_def write_byte_def floppy_offset_def Let_def)
  then show ?thesis
    using out by (simp add: tbs dev_run_append)
qed

theorem floppy_write_sector_witness:
  "\<exists>out. dev_run floppy_tick True (sample_floppy FDD_WRITE_RECV) (replicate 512 (idle_bus 9)) = Some (True,
    (sample_floppy FDD_WRITE_RECV)\<lparr>f_state := FDD_IDLE, f_cnt := 512,
      f_image := [overwrite 1024 (replicate 512 9) (replicate 2048 3), []]\<rparr>, out)"
  using floppy_write_sector [of "sample_floppy FDD_WRITE_RECV" "replicate 512 (idle_bus 9)"]
  by (simp add: sample_floppy_def hps_floppy_new_def idle_bus_def floppy_inv_def)

text \<open>
  write protection. While the harness runs with floppy writing disabled, no run of the floppy
  emulation, whatever the bus does, changes an image.
\<close>

theorem floppy_write_protected:
  assumes "dev_run floppy_tick False s tbs = Some (w, s', out)"
  shows "f_image s' = f_image s"
  using assms
proof (induction tbs arbitrary: s out)
  case (Cons tb tbs)
  obtain s1 tb1 where st: "floppy_step False s tb = (s1, tb1)" by fastforce
  have "f_image s1 = f_image s"
    using st by (auto simp: floppy_step_def write_byte_def latch_sector_def Let_def
        split: if_splits floppy_state.splits)
  then show ?case
    using Cons st by (auto simp: floppy_tick_def [of False s tb])
qed simp

theorem floppy_write_protected_witness:
  "f_image (fst (snd (the (dev_run floppy_tick False (sample_floppy FDD_WRITE_RECV) [idle_bus 9])))) =
     [replicate 2048 3, []]"
proof -
  obtain w s' out where r: "dev_run floppy_tick False (sample_floppy FDD_WRITE_RECV) [idle_bus 9] = Some (w, s', out)"
    using floppy_dev.run_total [of "sample_floppy FDD_WRITE_RECV" False "[idle_bus 9]"]
    by (auto simp: floppy_inv_def sample_floppy_def hps_floppy_new_def)
  show ?thesis
    using floppy_write_protected [OF r] unfolding r by (simp add: sample_floppy_def)
qed

text \<open>
  the inferred geometry of the eight standard floppy sizes covers the image exactly: cylinders times
  heads times sectors per track is the number of sectors of the file, and the total the core is told.
\<close>

theorem floppy_geometry_standard:
  assumes "sectors \<in> {320, 360, 640, 720, 1440, 2400, 2880, 5760}"
  shows "(let g = infer_floppy_geometry (sectors * 512)
    in unat (cylinders g) * unat (heads g) * unat (sectors_per_track g) = sectors \<and>
       unat (total_sectors g) = sectors)"
  using assms by (auto simp: infer_floppy_geometry_def unat_word_of_nat_small)

theorem floppy_geometry_standard_witness:
  "(let g = infer_floppy_geometry (2880 * 512)
    in unat (cylinders g) * unat (heads g) * unat (sectors_per_track g) = 2880 \<and>
       unat (total_sectors g) = 2880)"
  by (rule floppy_geometry_standard) simp

end
