(* ===== verification/Ps2.thy ===== *)
theory Ps2
  imports Pod_Codec
begin

text \<open>
  The PS/2 side of the harness: the scan-code table of \<open>scancode.h\<close>, key and mouse encoding, the
  keyboard's answers to host commands (\<open>handle_kbd_host_cmd\<close>) and the paced byte queues that feed
  the core (\<open>keyboard_send_pre\<close>, \<open>keyboard_observe_post\<close>, \<open>mouse_send_pre\<close> of \<open>main.cpp\<close>).
  An SDL key code is represented by the name of its constant without the prefix \<open>SDLK_\<close>; SDL
  documents that the codes of letters and digits are their characters. Console output is left out.
\<close>

section \<open>Scan codes\<close>

type_synonym sdl_keycode = string

definition ps2scancodes :: "(sdl_keycode \<times> bytes \<times> bytes) list" where
  "ps2scancodes =
     [(''ESCAPE'', ([0x76], [0xF0, 0x76])),
      (''F1'', ([0x05], [0xF0, 0x05])),
      (''F2'', ([0x06], [0xF0, 0x06])),
      (''F3'', ([0x04], [0xF0, 0x04])),
      (''F4'', ([0x0C], [0xF0, 0x0C])),
      (''F5'', ([0x03], [0xF0, 0x03])),
      (''F6'', ([0x0B], [0xF0, 0x0B])),
      (''F7'', ([0x83], [0xF0, 0x83])),
      (''F8'', ([0x0A], [0xF0, 0x0A])),
      (''F9'', ([0x01], [0xF0, 0x01])),
      (''F10'', ([0x09], [0xF0, 0x09])),
      (''F11'', ([0x78], [0xF0, 0x78])),
      (''F12'', ([0x07], [0xF0, 0x07])),
      (''PRINTSCREEN'', ([0xE0, 0x12, 0xE0, 0x7C], [0xE0, 0xF0, 0x7C, 0xE0, 0xF0, 0x12])),
      (''SCROLLLOCK'', ([0x7E], [0xF0, 0x7E])),
      (''PAUSE'', ([0xE1, 0x14, 0x77, 0xE1, 0xF0, 0x14, 0xE0, 0x77], [])),
      (''BACKQUOTE'', ([0x0E], [0xF0, 0x0E])),
      (''1'', ([0x16], [0xF0, 0x16])),
      (''EXCLAIM'', ([0x16], [0xF0, 0x16])),
      (''2'', ([0x1E], [0xF0, 0x1E])),
      (''AT'', ([0x1E], [0xF0, 0x1E])),
      (''3'', ([0x26], [0xF0, 0x26])),
      (''HASH'', ([0x26], [0xF0, 0x26])),
      (''4'', ([0x25], [0xF0, 0x25])),
      (''DOLLAR'', ([0x25], [0xF0, 0x25])),
      (''5'', ([0x2E], [0xF0, 0x2E])),
      (''PERCENT'', ([0x2E], [0xF0, 0x2E])),
      (''6'', ([0x36], [0xF0, 0x36])),
      (''CARET'', ([0x36], [0xF0, 0x36])),
      (''7'', ([0x3D], [0xF0, 0x3D])),
      (''AMPERSAND'', ([0x3D], [0xF0, 0x3D])),
      (''8'', ([0x3E], [0xF0, 0x3E])),
      (''ASTERISK'', ([0x3E], [0xF0, 0x3E])),
      (''9'', ([0x46], [0xF0, 0x46])),
      (''LEFTPAREN'', ([0x46], [0xF0, 0x46])),
      (''0'', ([0x45], [0xF0, 0x45])),
      (''RIGHTPAREN'', ([0x45], [0xF0, 0x45])),
      (''MINUS'', ([0x4E], [0xF0, 0x4E])),
      (''UNDERSCORE'', ([0x4E], [0xF0, 0x4E])),
      (''EQUALS'', ([0x55], [0xF0, 0x55])),
      (''PLUS'', ([0x55], [0xF0, 0x55])),
      (''BACKSPACE'', ([0x66], [0xF0, 0x66])),
      (''TAB'', ([0x0D], [0xF0, 0x0D])),
      (''q'', ([0x15], [0xF0, 0x15])),
      (''w'', ([0x1D], [0xF0, 0x1D])),
      (''e'', ([0x24], [0xF0, 0x24])),
      (''r'', ([0x2D], [0xF0, 0x2D])),
      (''t'', ([0x2C], [0xF0, 0x2C])),
      (''y'', ([0x35], [0xF0, 0x35])),
      (''u'', ([0x3C], [0xF0, 0x3C])),
      (''i'', ([0x43], [0xF0, 0x43])),
      (''o'', ([0x44], [0xF0, 0x44])),
      (''p'', ([0x4D], [0xF0, 0x4D])),
      (''LEFTBRACKET'', ([0x54], [0xF0, 0x54])),
      (''RIGHTBRACKET'', ([0x5B], [0xF0, 0x5B])),
      (''BACKSLASH'', ([0x5D], [0xF0, 0x5D])),
      (''CAPSLOCK'', ([0x58], [0xF0, 0x58])),
      (''a'', ([0x1C], [0xF0, 0x1C])),
      (''s'', ([0x1B], [0xF0, 0x1B])),
      (''d'', ([0x23], [0xF0, 0x23])),
      (''f'', ([0x2B], [0xF0, 0x2B])),
      (''g'', ([0x34], [0xF0, 0x34])),
      (''h'', ([0x33], [0xF0, 0x33])),
      (''j'', ([0x3B], [0xF0, 0x3B])),
      (''k'', ([0x42], [0xF0, 0x42])),
      (''l'', ([0x4B], [0xF0, 0x4B])),
      (''SEMICOLON'', ([0x4C], [0xF0, 0x4C])),
      (''COLON'', ([0x4C], [0xF0, 0x4C])),
      (''QUOTE'', ([0x52], [0xF0, 0x52])),
      (''QUOTEDBL'', ([0x52], [0xF0, 0x52])),
      (''RETURN'', ([0x5A], [0xF0, 0x5A])),
      (''LSHIFT'', ([0x12], [0xF0, 0x12])),
      (''z'', ([0x1A], [0xF0, 0x1A])),
      (''x'', ([0x22], [0xF0, 0x22])),
      (''c'', ([0x21], [0xF0, 0x21])),
      (''v'', ([0x2A], [0xF0, 0x2A])),
      (''b'', ([0x32], [0xF0, 0x32])),
      (''n'', ([0x31], [0xF0, 0x31])),
      (''m'', ([0x3A], [0xF0, 0x3A])),
      (''COMMA'', ([0x41], [0xF0, 0x41])),
      (''LESS'', ([0x41], [0xF0, 0x41])),
      (''PERIOD'', ([0x49], [0xF0, 0x49])),
      (''GREATER'', ([0x49], [0xF0, 0x49])),
      (''SLASH'', ([0x4A], [0xF0, 0x4A])),
      (''QUESTION'', ([0x4A], [0xF0, 0x4A])),
      (''RSHIFT'', ([0x59], [0xF0, 0x59])),
      (''LCTRL'', ([0x14], [0xF0, 0x14])),
      (''LALT'', ([0x11], [0xF0, 0x11])),
      (''SPACE'', ([0x29], [0xF0, 0x29])),
      (''RALT'', ([0xE0, 0x11], [0xE0, 0xF0, 0x11])),
      (''RCTRL'', ([0xE0, 0x14], [0xE0, 0xF0, 0x14])),
      (''INSERT'', ([0xE0, 0x70], [0xE0, 0xF0, 0x70])),
      (''HOME'', ([0xE0, 0x6C], [0xE0, 0xF0, 0x6C])),
      (''PAGEUP'', ([0xE0, 0x7D], [0xE0, 0xF0, 0x7D])),
      (''DELETE'', ([0xE0, 0x71], [0xE0, 0xF0, 0x71])),
      (''END'', ([0xE0, 0x69], [0xE0, 0xF0, 0x69])),
      (''PAGEDOWN'', ([0xE0, 0x7A], [0xE0, 0xF0, 0x7A])),
      (''UP'', ([0xE0, 0x75], [0xE0, 0xF0, 0x75])),
      (''LEFT'', ([0xE0, 0x6B], [0xE0, 0xF0, 0x6B])),
      (''DOWN'', ([0xE0, 0x72], [0xE0, 0xF0, 0x72])),
      (''RIGHT'', ([0xE0, 0x74], [0xE0, 0xF0, 0x74])),
      (''NUMLOCKCLEAR'', ([0x77], [0xF0, 0x77])),
      (''KP_DIVIDE'', ([0xE0, 0x4A], [0xE0, 0xF0, 0x4A])),
      (''KP_MULTIPLY'', ([0x7C], [0xF0, 0x7C])),
      (''KP_MINUS'', ([0x7B], [0xF0, 0x7B])),
      (''KP_7'', ([0x6C], [0xF0, 0x6C])),
      (''KP_8'', ([0x75], [0xF0, 0x75])),
      (''KP_9'', ([0x7D], [0xF0, 0x7D])),
      (''KP_PLUS'', ([0x79], [0xF0, 0x79])),
      (''KP_4'', ([0x6B], [0xF0, 0x6B])),
      (''KP_5'', ([0x73], [0xF0, 0x73])),
      (''KP_6'', ([0x74], [0xF0, 0x74])),
      (''KP_1'', ([0x69], [0xF0, 0x69])),
      (''KP_2'', ([0x72], [0xF0, 0x72])),
      (''KP_3'', ([0x7A], [0xF0, 0x7A])),
      (''KP_0'', ([0x70], [0xF0, 0x70])),
      (''KP_PERIOD'', ([0x71], [0xF0, 0x71])),
      (''KP_ENTER'', ([0xE0, 0x5A], [0xE0, 0xF0, 0x5A])),
      (''KP_EQUALS'', ([0xE0, 0x5A], [0xE0, 0xF0, 0x5A]))]"

definition queue_sdl_key :: "sdl_keycode \<Rightarrow> bool \<Rightarrow> bytes \<Rightarrow> bytes" where
  "queue_sdl_key key pressed queue =
     (case map_of ps2scancodes key of None \<Rightarrow> queue
      | Some (mk, bk) \<Rightarrow> queue @ (if pressed then mk else bk))"

definition named_keys :: "(string \<times> sdl_keycode) list" where
  "named_keys = [(''up'', ''UP''), (''down'', ''DOWN''), (''left'', ''LEFT''), (''right'', ''RIGHT''),
     (''enter'', ''RETURN''), (''return'', ''RETURN''), (''escape'', ''ESCAPE''), (''esc'', ''ESCAPE''),
     (''space'', ''SPACE''), (''tab'', ''TAB''), (''backspace'', ''BACKSPACE''), (''delete'', ''DELETE''),
     (''insert'', ''INSERT''), (''home'', ''HOME''), (''end'', ''END''), (''pageup'', ''PAGEUP''),
     (''pagedown'', ''PAGEDOWN''), (''ctrl'', ''LCTRL''), (''shift'', ''LSHIFT''), (''alt'', ''LALT''),
     (''f1'', ''F1''), (''f2'', ''F2''), (''f3'', ''F3''), (''f4'', ''F4''), (''f5'', ''F5''),
     (''f6'', ''F6''), (''f7'', ''F7''), (''f8'', ''F8''), (''f9'', ''F9''), (''f10'', ''F10''),
     (''f11'', ''F11''), (''f12'', ''F12'')]"

definition tolower :: "char \<Rightarrow> char" where
  "tolower c = (if 65 \<le> (of_char c :: nat) \<and> (of_char c :: nat) \<le> 90 then char_of ((of_char c :: nat) + 32) else c)"

definition isalnum :: "char \<Rightarrow> bool" where
  "isalnum c \<longleftrightarrow> (let n = of_char c :: nat in (48 \<le> n \<and> n \<le> 57) \<or> (65 \<le> n \<and> n \<le> 90) \<or> (97 \<le> n \<and> n \<le> 122))"

definition parse_named_key :: "string \<Rightarrow> sdl_keycode option" where
  "parse_named_key name =
     (let name = map tolower name
      in case map_of named_keys name of Some key \<Rightarrow> Some key
         | None \<Rightarrow> if length name = 1 \<and> isalnum (hd name) then Some name else None)"

section \<open>Scheduled key events\<close>

definition tap_event :: "u64 \<Rightarrow> sdl_keycode \<Rightarrow> scheduled_ps2_bytes list" where
  "tap_event cycle key =
     (case map_of ps2scancodes key of None \<Rightarrow> []
      | Some (mk, bk) \<Rightarrow> [\<lparr>ev_cycle = cycle, ev_bytes = mk @ bk\<rparr>])"

definition edge_event :: "u64 \<Rightarrow> sdl_keycode \<Rightarrow> bool \<Rightarrow> scheduled_ps2_bytes list" where
  "edge_event cycle key pressed =
     (case map_of ps2scancodes key of None \<Rightarrow> []
      | Some (mk, bk) \<Rightarrow> [\<lparr>ev_cycle = cycle, ev_bytes = (if pressed then mk else bk)\<rparr>])"

definition ctrl_alt_del_event :: "u64 \<Rightarrow> scheduled_ps2_bytes" where
  "ctrl_alt_del_event cycle =
     (let mk = (\<lambda>key. case map_of ps2scancodes key of None \<Rightarrow> [] | Some (m, b) \<Rightarrow> m);
          bk = (\<lambda>key. case map_of ps2scancodes key of None \<Rightarrow> [] | Some (m, b) \<Rightarrow> b)
      in \<lparr>ev_cycle = cycle,
           ev_bytes = concat (map mk [''LCTRL'', ''LALT'', ''DELETE'']) @
             concat (map bk [''DELETE'', ''LALT'', ''LCTRL''])\<rparr>)"

section \<open>Mouse packets\<close>

definition clamp :: "int \<Rightarrow> int" where
  "clamp v = (if v < - 127 then - 127 else if 127 < v then 127 else v)"

definition mouse_packet :: "int \<Rightarrow> int \<Rightarrow> u8 \<Rightarrow> bytes" where
  "mouse_packet step_x step_y buttons =
     [0x08 OR (buttons AND 0x07) OR (if step_x < 0 then 0x10 else 0) OR (if step_y < 0 then 0x20 else 0),
      word_of_int step_x, word_of_int step_y]"

lemma clamp_towards_zero: "\<bar>v - clamp v\<bar> \<le> \<bar>v\<bar>" "v \<noteq> 0 \<Longrightarrow> \<bar>v - clamp v\<bar> < \<bar>v\<bar>"
  by (auto simp: clamp_def)

function encode_rest :: "int \<Rightarrow> int \<Rightarrow> u8 \<Rightarrow> bytes" where
  "encode_rest dx dy buttons =
     (if dx = 0 \<and> dy = 0 then []
      else mouse_packet (clamp dx) (clamp dy) buttons @
        encode_rest (dx - clamp dx) (dy - clamp dy) buttons)"
  by auto
termination
proof (relation "measure (\<lambda>(dx, dy, _). nat (\<bar>dx\<bar> + \<bar>dy\<bar>))")
  fix dx dy :: int and b :: u8
  assume "\<not> (dx = 0 \<and> dy = 0)"
  then have "\<bar>dx - clamp dx\<bar> + \<bar>dy - clamp dy\<bar> < \<bar>dx\<bar> + \<bar>dy\<bar>"
    using clamp_towards_zero [of dx] clamp_towards_zero [of dy] by linarith
  then show "((dx - clamp dx, dy - clamp dy, b), (dx, dy, b)) \<in> measure (\<lambda>(dx, dy, _). nat (\<bar>dx\<bar> + \<bar>dy\<bar>))"
    by simp
qed simp

declare encode_rest.simps [simp del]

definition encode_mouse_packets :: "int \<Rightarrow> int \<Rightarrow> u8 \<Rightarrow> bytes" where
  "encode_mouse_packets dx dy buttons =
     mouse_packet (clamp dx) (clamp dy) buttons @ encode_rest (dx - clamp dx) (dy - clamp dy) buttons"

definition queue_mouse_packet :: "int \<Rightarrow> int \<Rightarrow> u8 \<Rightarrow> bytes \<Rightarrow> bytes" where
  "queue_mouse_packet dx dy buttons queue = queue @ encode_mouse_packets dx dy buttons"

datatype sdl_button = SDL_BUTTON_LEFT | SDL_BUTTON_MIDDLE | SDL_BUTTON_RIGHT | SDL_BUTTON_OTHER

definition update_mouse_button :: "u8 \<Rightarrow> sdl_button \<Rightarrow> bool \<Rightarrow> u8" where
  "update_mouse_button buttons b pressed =
     (let mask = (case b of SDL_BUTTON_LEFT \<Rightarrow> 0x01 | SDL_BUTTON_RIGHT \<Rightarrow> 0x02
                  | SDL_BUTTON_MIDDLE \<Rightarrow> 0x04 | SDL_BUTTON_OTHER \<Rightarrow> 0)
      in if mask = 0 then buttons else if pressed then buttons OR mask else buttons AND NOT mask)"

section \<open>Keyboard commands\<close>

record ps2_kbd =
  k_queue :: bytes
  k_scan_set :: u8
  k_pending_cmd :: u8
  k_pending_arg :: bool
  k_host_busy :: bool
  k_host_clear :: bool
  k_last_byte :: u64
  k_events :: "scheduled_ps2_bytes list"
  k_next_event :: nat

definition reply :: "bytes \<Rightarrow> ps2_kbd \<Rightarrow> ps2_kbd" where
  "reply codes k = k\<lparr>k_queue := k_queue k @ codes\<rparr>"

definition handle_kbd_host_cmd :: "u8 \<Rightarrow> ps2_kbd \<Rightarrow> ps2_kbd" where
  "handle_kbd_host_cmd cmd k =
     (if \<not> k_pending_arg k then
        (let k = k\<lparr>k_pending_cmd := cmd\<rparr>
         in if cmd = 0xFF then (reply [0xFA, 0xAA] (k\<lparr>k_scan_set := 2\<rparr>))\<lparr>k_pending_cmd := 0\<rparr>
            else if cmd = 0xF2 then (reply [0xFA, 0xAB, 0x83] k)\<lparr>k_pending_cmd := 0\<rparr>
            else if cmd = 0xF0 \<or> cmd = 0xF3 \<or> cmd = 0xED then (reply [0xFA] k)\<lparr>k_pending_arg := True\<rparr>
            else if cmd = 0xF6 then (reply [0xFA] (k\<lparr>k_scan_set := 2\<rparr>))\<lparr>k_pending_cmd := 0\<rparr>
            else if cmd = 0xF4 \<or> cmd = 0xF5 \<or> cmd = 0xFA then (reply [0xFA] k)\<lparr>k_pending_cmd := 0\<rparr>
            else if cmd = 0xEE then (reply [0xEE] k)\<lparr>k_pending_cmd := 0\<rparr>
            else (reply [0xFE] k)\<lparr>k_pending_cmd := 0\<rparr>)
      else
        (let k =
           (if k_pending_cmd k = 0xED then reply [0xFA] k
            else if k_pending_cmd k = 0xF0 then
              (if cmd \<le> 3 then
                 (if cmd = 0 then reply [0xFA, k_scan_set k] k
                  else (reply [0xFA] k)\<lparr>k_scan_set := cmd\<rparr>)
               else reply [0xFE] k)
            else if k_pending_cmd k = 0xF3 then reply [0xFA] k
            else k)
         in k\<lparr>k_pending_cmd := 0, k_pending_arg := False\<rparr>))"

section \<open>Paced delivery\<close>

text \<open>The loop that moves the events that have fallen due to a queue.\<close>

fun due_events :: "u64 \<Rightarrow> scheduled_ps2_bytes list \<Rightarrow> bytes \<Rightarrow> nat \<Rightarrow> bytes \<times> nat" where
  "due_events cycle [] queue n = (queue, n)"
| "due_events cycle (e # es) queue n =
     (if ev_cycle e \<le> cycle then due_events cycle es (queue @ ev_bytes e) (Suc n) else (queue, n))"

definition keyboard_send_pre :: "u64 \<Rightarrow> ps2_kbd \<Rightarrow> u8 option \<times> ps2_kbd" where
  "keyboard_send_pre cycle k =
     (let (queue, n) = due_events cycle (drop (k_next_event k) (k_events k)) (k_queue k) (k_next_event k);
          k = k\<lparr>k_queue := queue, k_next_event := n\<rparr>
      in if \<not> k_host_busy k \<and> cycle - k_last_byte k > 100000 \<and> queue \<noteq> []
         then (Some (hd queue), k\<lparr>k_queue := tl queue, k_last_byte := cycle\<rparr>)
         else (None, k))"

definition keyboard_observe_post :: "bool \<Rightarrow> u16 \<Rightarrow> ps2_kbd \<Rightarrow> ps2_kbd" where
  "keyboard_observe_post posedge kbd_host_data k =
     (if \<not> posedge then k
      else let valid = (kbd_host_data AND 0x100 \<noteq> 0)
           in if valid \<and> \<not> k_host_busy k then
                (handle_kbd_host_cmd (ucast (kbd_host_data AND 0xFF)) k)\<lparr>k_host_busy := True, k_host_clear := True\<rparr>
              else if \<not> valid \<and> k_host_busy k then k\<lparr>k_host_busy := False, k_host_clear := False\<rparr>
              else k)"

record ps2_mouse =
  m_queue :: bytes
  m_last_byte :: u64
  m_events :: "scheduled_ps2_bytes list"
  m_next_event :: nat

definition mouse_send_pre :: "u64 \<Rightarrow> ps2_mouse \<Rightarrow> u8 option \<times> ps2_mouse" where
  "mouse_send_pre cycle m =
     (let (queue, n) = due_events cycle (drop (m_next_event m) (m_events m)) (m_queue m) (m_next_event m);
          m = m\<lparr>m_queue := queue, m_next_event := n\<rparr>
      in if cycle - m_last_byte m > 20000 \<and> queue \<noteq> []
         then (Some (hd queue), m\<lparr>m_queue := tl queue, m_last_byte := cycle\<rparr>)
         else (None, m))"

section \<open>Paced byte sources\<close>

text \<open>
  A source that is polled with the current cycle and hands out at most one byte per poll. \<open>pending\<close>
  is what it still has to send, in order; \<open>due\<close> says that all of it has fallen due.
\<close>

fun paced_run :: "(u64 \<Rightarrow> 's \<Rightarrow> u8 option \<times> 's) \<Rightarrow> u64 list \<Rightarrow> 's \<Rightarrow> (u64 \<times> u8) list \<times> 's" where
  "paced_run send [] s = ([], s)"
| "paced_run send (c # cs) s =
     (case send c s of (b, s1) \<Rightarrow> case paced_run send cs s1 of (out, s2) \<Rightarrow>
        ((case b of None \<Rightarrow> [] | Some x \<Rightarrow> [(c, x)]) @ out, s2))"

locale paced_source =
  fixes send :: "u64 \<Rightarrow> 's \<Rightarrow> u8 option \<times> 's"
    and pending :: "'s \<Rightarrow> bytes"
    and last_sent :: "'s \<Rightarrow> u64"
    and ready :: "'s \<Rightarrow> bool"
    and due :: "u64 \<Rightarrow> 's \<Rightarrow> bool"
    and gap :: u64
  assumes conserve: "send c s = (b, s') \<Longrightarrow> pending s = (case b of None \<Rightarrow> [] | Some x \<Rightarrow> [x]) @ pending s'"
    and pace: "send c s = (Some x, s') \<Longrightarrow> gap < c - last_sent s \<and> last_sent s' = c"
    and hold: "send c s = (None, s') \<Longrightarrow> last_sent s' = last_sent s"
    and stay: "send c s = (b, s') \<Longrightarrow> ready s \<Longrightarrow> ready s'"
    and due_stays: "send c s = (b, s') \<Longrightarrow> due d s \<Longrightarrow> due d s'"
    and prompt: "ready s \<Longrightarrow> due c s \<Longrightarrow> gap < c - last_sent s \<Longrightarrow> pending s \<noteq> [] \<Longrightarrow> send c s \<noteq> (None, s')"
begin

lemma conserve_run: "paced_run send cs s = (out, s') \<Longrightarrow> pending s = map snd out @ pending s'"
proof (induction cs arbitrary: s out)
  case (Cons c cs)
  obtain b s1 where s1: "send c s = (b, s1)" by (cases "send c s")
  show ?case using Cons s1 conserve [OF s1] by (auto split: prod.splits option.splits)
qed simp

lemma run_spaced: "paced_run send cs s = (out, s') \<Longrightarrow> successively (\<lambda>a b. gap < b - a) (last_sent s # map fst out)"
proof (induction cs arbitrary: s out)
  case (Cons c cs)
  obtain b s1 where s1: "send c s = (b, s1)" by (cases "send c s")
  obtain out1 where run: "paced_run send cs s1 = (out1, s')"
    and out: "out = (case b of None \<Rightarrow> [] | Some x \<Rightarrow> [(c, x)]) @ out1"
    using Cons.prems s1 by (auto split: prod.splits)
  show ?case using Cons.IH [OF run] out s1 hold [of c s s1] pace [of c s _ s1] by (cases b) auto
qed simp

lemma run_prompt:
  "paced_run send cs s = (out, s') \<Longrightarrow> ready s \<Longrightarrow> (\<forall>c\<in>set cs. due c s) \<Longrightarrow>
   successively (\<lambda>a b. gap < b - a) (last_sent s # cs) \<Longrightarrow> map snd out = take (length cs) (pending s)"
proof (induction cs arbitrary: s out)
  case (Cons c cs)
  obtain b s1 where s1: "send c s = (b, s1)" by (cases "send c s")
  obtain out1 where run: "paced_run send cs s1 = (out1, s')"
    and out: "out = (case b of None \<Rightarrow> [] | Some x \<Rightarrow> [(c, x)]) @ out1"
    using Cons.prems(1) s1 by (auto split: prod.splits)
  show ?case
  proof (cases b)
    case None
    then have "pending s = []" using prompt [of s c s1] Cons.prems s1 by auto
    then show ?thesis using conserve_run [OF Cons.prems(1)] by simp
  next
    case (Some x)
    then have "last_sent s1 = c" "pending s = x # pending s1" using pace conserve s1 by force+
    then show ?thesis
      using Cons.IH [OF run] Cons.prems Some out stay [OF s1] due_stays [OF s1] by auto
  qed
qed simp

end

definition queued :: "bytes \<Rightarrow> scheduled_ps2_bytes list \<Rightarrow> nat \<Rightarrow> bytes" where
  "queued queue events n = queue @ concat (map ev_bytes (drop n events))"

definition all_due :: "u64 \<Rightarrow> scheduled_ps2_bytes list \<Rightarrow> nat \<Rightarrow> bool" where
  "all_due cycle events n \<longleftrightarrow> (\<forall>e\<in>set (drop n events). ev_cycle e \<le> cycle)"

lemma due_events_moves:
  "due_events cycle es queue n = (queue', n') \<Longrightarrow>
     \<exists>k. n' = n + k \<and> k \<le> length es \<and> queue' = queue @ concat (map ev_bytes (take k es)) \<and>
       ((\<forall>e\<in>set es. ev_cycle e \<le> cycle) \<longrightarrow> k = length es)"
proof (induction cycle es queue n rule: due_events.induct)
  case (2 cycle e es queue n)
  show ?case
  proof (cases "ev_cycle e \<le> cycle")
    case True
    then obtain k where "n' = Suc n + k" "k \<le> length es"
      "queue' = (queue @ ev_bytes e) @ concat (map ev_bytes (take k es))"
      "(\<forall>e\<in>set es. ev_cycle e \<le> cycle) \<longrightarrow> k = length es"
      using 2 by auto
    then show ?thesis by (intro exI [of _ "Suc k"]) auto
  qed (use 2 in auto)
qed simp

lemma due_events_drop:
  assumes "due_events cycle (drop n events) queue n = (queue', n')"
  shows "queued queue events n = queued queue' events n'"
    and "all_due c events n \<Longrightarrow> all_due c events n'"
    and "all_due cycle events n \<Longrightarrow> queued queue' events n' = queue'"
proof -
  obtain k where k: "n' = n + k" "k \<le> length (drop n events)" "queue' = queue @ concat (map ev_bytes (take k (drop n events)))"
    "(\<forall>e\<in>set (drop n events). ev_cycle e \<le> cycle) \<longrightarrow> k = length (drop n events)"
    using due_events_moves [OF assms] by blast
  have "concat (map ev_bytes (drop n events)) = concat (map ev_bytes (take k (drop n events) @ drop k (drop n events)))"
    by (simp only: append_take_drop_id)
  then show "queued queue events n = queued queue' events n'"
    using k by (simp add: queued_def add.commute)
  show "all_due c events n'" if "all_due c events n"
    using that k set_drop_subset [of k "drop n events"] by (auto simp: all_due_def add.commute)
  show "queued queue' events n' = queue'" if "all_due cycle events n"
    using that k by (cases "n \<le> length events") (auto simp: all_due_def queued_def)
qed

interpretation keyboard: paced_source keyboard_send_pre "\<lambda>k. queued (k_queue k) (k_events k) (k_next_event k)"
    k_last_byte "\<lambda>k. \<not> k_host_busy k" "\<lambda>c k. all_due c (k_events k) (k_next_event k)" 100000
proof unfold_locales
  fix c d b x and s s' :: ps2_kbd
  obtain queue n where de: "due_events c (drop (k_next_event s) (k_events s)) (k_queue s) (k_next_event s) = (queue, n)"
    by (cases "due_events c (drop (k_next_event s) (k_events s)) (k_queue s) (k_next_event s)")
  note du = due_events_drop [OF de]
  show "queued (k_queue s) (k_events s) (k_next_event s) = (case b of None \<Rightarrow> [] | Some x \<Rightarrow> [x]) @
      queued (k_queue s') (k_events s') (k_next_event s')" if "keyboard_send_pre c s = (b, s')"
    using that de du(1) by (auto simp: keyboard_send_pre_def queued_def Let_def split: if_splits)
  show "100000 < c - k_last_byte s \<and> k_last_byte s' = c" if "keyboard_send_pre c s = (Some x, s')"
    using that de by (auto simp: keyboard_send_pre_def Let_def split: if_splits)
  show "k_last_byte s' = k_last_byte s" if "keyboard_send_pre c s = (None, s')"
    using that de by (auto simp: keyboard_send_pre_def Let_def split: if_splits)
  show "\<not> k_host_busy s'" if "keyboard_send_pre c s = (b, s')" "\<not> k_host_busy s"
    using that de by (auto simp: keyboard_send_pre_def Let_def split: if_splits)
  show "all_due d (k_events s') (k_next_event s')" if "keyboard_send_pre c s = (b, s')" "all_due d (k_events s) (k_next_event s)"
    using that de du(2) by (auto simp: keyboard_send_pre_def Let_def split: if_splits)
  show "keyboard_send_pre c s \<noteq> (None, s')"
    if "\<not> k_host_busy s" "all_due c (k_events s) (k_next_event s)" "100000 < c - k_last_byte s"
      "queued (k_queue s) (k_events s) (k_next_event s) \<noteq> []"
    using that de du by (auto simp: keyboard_send_pre_def Let_def)
qed

interpretation mouse: paced_source mouse_send_pre "\<lambda>m. queued (m_queue m) (m_events m) (m_next_event m)"
    m_last_byte "\<lambda>m. True" "\<lambda>c m. all_due c (m_events m) (m_next_event m)" 20000
proof unfold_locales
  fix c d b x and s s' :: ps2_mouse
  obtain queue n where de: "due_events c (drop (m_next_event s) (m_events s)) (m_queue s) (m_next_event s) = (queue, n)"
    by (cases "due_events c (drop (m_next_event s) (m_events s)) (m_queue s) (m_next_event s)")
  note du = due_events_drop [OF de]
  show "queued (m_queue s) (m_events s) (m_next_event s) = (case b of None \<Rightarrow> [] | Some x \<Rightarrow> [x]) @
      queued (m_queue s') (m_events s') (m_next_event s')" if "mouse_send_pre c s = (b, s')"
    using that de du(1) by (auto simp: mouse_send_pre_def queued_def Let_def split: if_splits)
  show "20000 < c - m_last_byte s \<and> m_last_byte s' = c" if "mouse_send_pre c s = (Some x, s')"
    using that de by (auto simp: mouse_send_pre_def Let_def split: if_splits)
  show "m_last_byte s' = m_last_byte s" if "mouse_send_pre c s = (None, s')"
    using that de by (auto simp: mouse_send_pre_def Let_def split: if_splits)
  show "all_due d (m_events s') (m_next_event s')" if "mouse_send_pre c s = (b, s')" "all_due d (m_events s) (m_next_event s)"
    using that de du(2) by (auto simp: mouse_send_pre_def Let_def split: if_splits)
  show "mouse_send_pre c s \<noteq> (None, s')"
    if "all_due c (m_events s) (m_next_event s)" "20000 < c - m_last_byte s"
      "queued (m_queue s) (m_events s) (m_next_event s) \<noteq> []"
    using that de du by (auto simp: mouse_send_pre_def Let_def)
qed simp_all

text \<open>
  whatever cycles the keyboard is polled at, the bytes it sends followed by those it still holds
  are the queue and the scheduled events in order (none lost, repeated or reordered), and any two
  consecutive bytes are more than 100000 cycles apart; and when the host is not talking, every event
  has fallen due and the polls are far enough apart, each poll sends the next byte.
\<close>

theorem keyboard_delivery:
  assumes "paced_run keyboard_send_pre cycles k = (sent, k')"
  shows "map snd sent @ queued (k_queue k') (k_events k') (k_next_event k') =
      queued (k_queue k) (k_events k) (k_next_event k) \<and>
    successively (\<lambda>a b. 100000 < b - a) (k_last_byte k # map fst sent) \<and>
    (\<not> k_host_busy k \<longrightarrow> (\<forall>c\<in>set cycles. all_due c (k_events k) (k_next_event k)) \<longrightarrow>
     successively (\<lambda>a b. 100000 < b - a) (k_last_byte k # cycles) \<longrightarrow>
     map snd sent = take (length cycles) (queued (k_queue k) (k_events k) (k_next_event k)))"
  using keyboard.conserve_run [OF assms] keyboard.run_spaced [OF assms] keyboard.run_prompt [OF assms] by simp

definition sample_kbd :: ps2_kbd where
  "sample_kbd = \<lparr>k_queue = [0xFA], k_scan_set = 2, k_pending_cmd = 0, k_pending_arg = False,
     k_host_busy = False, k_host_clear = False, k_last_byte = 0,
     k_events = [\<lparr>ev_cycle = 7, ev_bytes = [0x1C, 0xF0, 0x1C]\<rparr>], k_next_event = 0\<rparr>"

theorem keyboard_delivery_witness:
  "map snd (fst (paced_run keyboard_send_pre [200000, 400000, 600000] sample_kbd)) = [0xFA, 0x1C, 0xF0]"
proof -
  obtain sent k' where r: "paced_run keyboard_send_pre [200000, 400000, 600000] sample_kbd = (sent, k')" by fastforce
  have "map snd sent = [0xFA, 0x1C, 0xF0]"
    using keyboard_delivery [OF r] by (simp add: sample_kbd_def queued_def all_due_def)
  then show ?thesis using r by (simp del: paced_run.simps)
qed


section \<open>Mouse packets\<close>

text \<open>
  How a PS/2 host reads a stream of three-byte packets: nine-bit two's complement movements whose
  sign bits are bits 4 and 5 of the first byte. The result is the sum of the movements and the
  first bytes without the sign bits.
\<close>

fun read_packets :: "bytes \<Rightarrow> (int \<times> int \<times> u8 list) option" where
  "read_packets [] = Some (0, 0, [])"
| "read_packets (f # x # y # rest) =
     (case read_packets rest of None \<Rightarrow> None
      | Some (dx, dy, fs) \<Rightarrow>
          Some (uint x - (if bit f 4 then 256 else 0) + dx, uint y - (if bit f 5 then 256 else 0) + dy,
            (f AND 0xCF) # fs))"
| "read_packets _ = None"

lemma clamp_bounds: "- 127 \<le> clamp v" "clamp v \<le> 127"
  by (auto simp: clamp_def)

lemma uint_byte_of_int: "- 128 \<le> v \<Longrightarrow> v < 128 \<Longrightarrow> uint (word_of_int v :: u8) = (if v < 0 then v + 256 else v)"
proof -
  assume "- 128 \<le> v" "v < 128"
  then have "v mod 256 = (if v < 0 then v + 256 else v)" by presburger
  then show ?thesis by (simp add: uint_word_of_int)
qed

lemma packet_flags:
  fixes b :: u8
  shows "bit (0x08 OR (b AND 0x07) OR (if p then 0x10 else 0) OR (if q then 0x20 else 0)) 4 = p"
    and "bit (0x08 OR (b AND 0x07) OR (if p then 0x10 else 0) OR (if q then 0x20 else 0)) 5 = q"
    and "(0x08 OR (b AND 0x07) OR (if p then 0x10 else 0) OR (if q then 0x20 else 0)) AND 0xCF = 0x08 OR (b AND 0x07)"
  by (auto simp: bit_simps bit.conj_disj_distrib2 and.assoc)

lemma read_packet:
  "read_packets (mouse_packet (clamp dx) (clamp dy) b @ rest) =
     (case read_packets rest of None \<Rightarrow> None
      | Some (x, y, fs) \<Rightarrow> Some (clamp dx + x, clamp dy + y, (0x08 OR (b AND 0x07)) # fs))"
  using clamp_bounds [of dx] clamp_bounds [of dy]
  by (simp add: mouse_packet_def packet_flags uint_byte_of_int del: if_split split: option.split) (simp add: bit.conj_disj_distrib2 and.assoc split: if_split)


lemma read_encode_rest:
  "\<exists>fs. read_packets (encode_rest dx dy b) = Some (dx, dy, fs) \<and> set fs \<subseteq> {0x08 OR (b AND 0x07)}"
proof (induction dx dy b rule: encode_rest.induct)
  case (1 dx dy b)
  show ?case
  proof (cases "dx = 0 \<and> dy = 0")
    case True
    then show ?thesis by (simp add: encode_rest.simps)
  next
    case False
    then show ?thesis using 1 by (subst encode_rest.simps) (auto simp: read_packet split: option.split)
  qed
qed

text \<open>
  C34: a mouse movement of any size survives its encoding. Read back as the PS/2 host reads packets,
  the encoded packets add up to exactly the movement, and every packet carries the three buttons;
  there is at least one packet, so a button change without movement is sent as well.
\<close>

theorem mouse_packets_roundtrip:
  "\<exists>fs. read_packets (encode_mouse_packets dx dy buttons) = Some (dx, dy, fs) \<and>
     set fs = {0x08 OR (buttons AND 0x07)}"
  using read_encode_rest [of "dx - clamp dx" "dy - clamp dy" buttons]
  by (auto simp: encode_mouse_packets_def read_packet split: option.split)

section \<open>Keyboard answers\<close>

text \<open>What the keyboard state keeps: an argument is only awaited for the three commands that have one.\<close>

definition kbd_inv :: "ps2_kbd \<Rightarrow> bool" where
  "kbd_inv k \<longleftrightarrow> (k_pending_arg k \<longrightarrow> k_pending_cmd k \<in> {0xED, 0xF0, 0xF3}) \<and> k_scan_set k \<in> {1, 2, 3} \<and>
     k_host_clear k = k_host_busy k"

lemma word_le_3: "w \<le> 3 \<Longrightarrow> w = 0 \<or> w = 1 \<or> w = 2 \<or> w = (3 :: u8)"
proof -
  assume "w \<le> 3"
  then have "unat w = 0 \<or> unat w = 1 \<or> unat w = 2 \<or> unat w = 3" by (auto simp: word_le_nat_alt)
  then show ?thesis by (simp add: word_unat_eq_iff)
qed

text \<open>
  the keyboard answers every byte of the host. The handshake keeps the keyboard's invariant (an
  argument is awaited only after ED, F0 or F3; the scan-code set is 1, 2 or 3; the clear line follows
  the busy flag), and a byte seen while the keyboard is not busy is answered by acknowledge, echo or
  resend, possibly with data after it, behind what was already queued.
\<close>

theorem keyboard_always_replies:
  assumes "kbd_inv k"
  shows "kbd_inv (keyboard_observe_post posedge data k) \<and>
    (posedge \<and> data AND 0x100 \<noteq> 0 \<and> \<not> k_host_busy k \<longrightarrow>
     (\<exists>code rest. k_queue (keyboard_observe_post posedge data k) = k_queue k @ code # rest \<and>
       code \<in> {0xFA, 0xEE, 0xFE} \<and> k_host_busy (keyboard_observe_post posedge data k)))"
proof -
  have "kbd_inv (handle_kbd_host_cmd c k\<lparr>k_host_busy := True, k_host_clear := True\<rparr>)" for c
    using assms word_le_3 [of c] by (auto simp: kbd_inv_def handle_kbd_host_cmd_def reply_def Let_def)
  moreover have "\<exists>code rest. k_queue (handle_kbd_host_cmd c k) = k_queue k @ code # rest \<and> code \<in> {0xFA, 0xEE, 0xFE}" for c
    using assms by (auto simp: kbd_inv_def handle_kbd_host_cmd_def reply_def Let_def)
  moreover have "kbd_inv (k\<lparr>k_host_busy := False, k_host_clear := False\<rparr>)" using assms by (simp add: kbd_inv_def)
  ultimately show ?thesis using assms by (auto simp: keyboard_observe_post_def Let_def)
qed

theorem keyboard_always_replies_witness:
  "kbd_inv sample_kbd \<and> k_host_busy (keyboard_observe_post True 0x1ED sample_kbd) \<and>
   kbd_inv (keyboard_observe_post True 0x1ED sample_kbd)"
proof -
  have inv: "kbd_inv sample_kbd" by (simp add: kbd_inv_def sample_kbd_def)
  have "(0x1ED :: u16) AND 0x100 \<noteq> 0 \<and> \<not> k_host_busy sample_kbd" by (simp add: sample_kbd_def)
  then show ?thesis using keyboard_always_replies [OF inv, where posedge = True and data = "0x1ED"] inv by auto
qed

section \<open>The scan-code table\<close>

text \<open>
  the scan-code table is a function from keys, every key but Print Screen and Pause releases with
  its make code with F0 put before the last byte, and no make or break code is a reply code of the
  keyboard; every key that can be named in an event has an entry.
\<close>

theorem scancode_table_consistent:
  "distinct (map fst ps2scancodes) \<and>
   list_all (\<lambda>(key, mk, bk). mk \<noteq> [] \<and> (key \<in> {''PRINTSCREEN'', ''PAUSE''} \<or> bk = butlast mk @ [0xF0, last mk]) \<and>
     set mk \<inter> {0xFA, 0xFE, 0xEE, 0xAA} = {}) ps2scancodes \<and>
   list_all (\<lambda>(name, key). parse_named_key name = Some key \<and> map_of ps2scancodes key \<noteq> None) named_keys"
proof -
  have "distinct (map fst ps2scancodes)" by code_simp
  moreover have "list_all (\<lambda>(key, mk, bk). mk \<noteq> [] \<and> (key \<in> {''PRINTSCREEN'', ''PAUSE''} \<or> bk = butlast mk @ [0xF0, last mk]) \<and>
     set mk \<inter> {0xFA, 0xFE, 0xEE, 0xAA} = {}) ps2scancodes" by code_simp
  moreover have "list_all (\<lambda>(name, key). parse_named_key name = Some key \<and> map_of ps2scancodes key \<noteq> None) named_keys" by code_simp
  ultimately show ?thesis by blast
qed

text \<open>
  the Pause entry is not the Pause key of scan-code set 2, whose eight bytes end in F0 77: the
  table ends it in E0 77, so a host decodes the release of Num Lock's prefix as another extended key.
\<close>

theorem scancode_pause_malformed:
  "map_of ps2scancodes ''PAUSE'' \<noteq> Some ([0xE1, 0x14, 0x77, 0xE1, 0xF0, 0x14, 0xF0, 0x77], []) \<and>
   map_of ps2scancodes ''PAUSE'' = Some ([0xE1, 0x14, 0x77, 0xE1, 0xF0, 0x14, 0xE0, 0x77], [])"
  by code_simp

end
