(* ===== verification/Ddr.thy ===== *)
theory Ddr
  imports Prelude
begin

text \<open>
  The memory side of the harness in \<open>main.cpp\<close>: the DDR slave of \<open>step\<close> with its injected
  waitrequest, the KV260 memory calls, ROM staging, and the fractional audio clock. A fixed-size
  array is a function on byte offsets, the sizes being \<open>DDR_SIZE\<close> and \<open>FB_MEM_SIZE\<close>. The messages
  of the Avalon check are left out, its counter is kept.
\<close>

section \<open>State\<close>

definition DDR_SIZE :: nat where "DDR_SIZE = 16 * 1024 * 1024"
definition DDR_SHMEM_BASE :: nat where "DDR_SHMEM_BASE = 0x30000000"
definition FB_BASE_BYTE :: nat where "FB_BASE_BYTE = 0x3F800000"
definition FB_MEM_SIZE :: nat where "FB_MEM_SIZE = 4 * 1024 * 1024"

lemmas ddr_sizes = DDR_SIZE_def DDR_SHMEM_BASE_def FB_BASE_BYTE_def FB_MEM_SIZE_def

type_synonym memory = "nat \<Rightarrow> u8"

record ddr_request =
  q_rd :: bool
  q_we :: bool
  q_addr :: u32
  q_be :: u32
  q_din :: u64

record ddr =
  ddram_mem :: memory
  fb_mem :: memory
  ddram_resp_valid :: bool
  ddram_resp_data :: u64
  busy_period :: int
  busy_len :: int
  busy_phase :: u64
  busy_rand_pct :: int
  busy_rand_state :: u64
  busy_rand_now :: bool
  pre_busy :: bool
  pre_req :: ddr_request
  prev_blocked :: bool
  dropped_reads :: u64

section \<open>Waitrequest injection\<close>

definition xorshift64 :: "u64 \<Rightarrow> u64" where
  "xorshift64 x =
     (let x = x XOR push_bit 13 x; x = x XOR drop_bit 7 x in x XOR push_bit 17 x)"

text \<open>One draw per cycle, before the rising edge.\<close>

definition busy_draw :: "ddr \<Rightarrow> ddr" where
  "busy_draw d =
     (if busy_rand_pct d > 0 then
        (let x = xorshift64 (busy_rand_state d)
         in d\<lparr>busy_rand_state := x,
              busy_rand_now := int (unat (drop_bit 33 x) mod 100) < busy_rand_pct d\<rparr>)
      else d)"

definition ddram_busy_now :: "ddr \<Rightarrow> bool" where
  "ddram_busy_now d =
     (if busy_rand_pct d > 0 then busy_rand_now d
      else if busy_period d \<le> 0 then False
      else busy_phase d mod word_of_int (busy_period d) < word_of_int (busy_len d))"

text \<open>The half step before a rising edge: the draw, the busy line and the request as it stands.\<close>

definition ddr_latch :: "ddr_request \<Rightarrow> ddr \<Rightarrow> ddr" where
  "ddr_latch req d =
     (let d = busy_draw d in d\<lparr>pre_busy := ddram_busy_now d, pre_req := req\<rparr>)"

section \<open>The slave\<close>

definition join_bytes :: "(nat \<Rightarrow> u8) \<Rightarrow> u64" where
  "join_bytes f = fold (\<lambda>i data. data OR push_bit (8 * i) (ucast (f i))) [0..<8] 0"

definition byte_addr :: "u32 \<Rightarrow> nat" where
  "byte_addr a = unat (push_bit 3 (ucast a :: u64))"

definition ddr_read_data :: "nat \<Rightarrow> ddr \<Rightarrow> u64" where
  "ddr_read_data a d =
     (if FB_BASE_BYTE \<le> a \<and> a < FB_BASE_BYTE + FB_MEM_SIZE then
        join_bytes (\<lambda>i. if a - FB_BASE_BYTE + i < FB_MEM_SIZE then fb_mem d (a - FB_BASE_BYTE + i) else 0)
      else if DDR_SHMEM_BASE \<le> a \<and> a < DDR_SHMEM_BASE + DDR_SIZE then
        join_bytes (\<lambda>i. if a - DDR_SHMEM_BASE + i < DDR_SIZE then ddram_mem d (a - DDR_SHMEM_BASE + i) else 0)
      else 0)"

definition put_byte :: "nat \<Rightarrow> u8 \<Rightarrow> ddr \<Rightarrow> ddr" where
  "put_byte a b d =
     (if FB_BASE_BYTE \<le> a \<and> a < FB_BASE_BYTE + FB_MEM_SIZE then
        d\<lparr>fb_mem := (fb_mem d)(a - FB_BASE_BYTE := b)\<rparr>
      else if DDR_SHMEM_BASE \<le> a \<and> a - DDR_SHMEM_BASE < DDR_SIZE then
        d\<lparr>ddram_mem := (ddram_mem d)(a - DDR_SHMEM_BASE := b)\<rparr>
      else d)"

definition ddr_write_data :: "nat \<Rightarrow> u32 \<Rightarrow> u64 \<Rightarrow> ddr \<Rightarrow> ddr" where
  "ddr_write_data a be din d =
     fold (\<lambda>i d. if bit be i then put_byte (a + i) (ucast (drop_bit (8 * i) din)) d else d) [0..<8] d"

definition ddr_posedge :: "ddr \<Rightarrow> ddr" where
  "ddr_posedge d =
     (let q = pre_req d;
          d = d\<lparr>busy_phase := busy_phase d + 1\<rparr>;
          read_accepted = (q_rd q \<and> \<not> pre_busy d);
          d = (if prev_blocked d \<and> \<not> q_rd q then d\<lparr>dropped_reads := dropped_reads d + 1\<rparr> else d);
          d = d\<lparr>prev_blocked := q_rd q \<and> pre_busy d\<rparr>;
          d = (if read_accepted
               then d\<lparr>ddram_resp_data := ddr_read_data (byte_addr (q_addr q)) d, ddram_resp_valid := True\<rparr>
               else d\<lparr>ddram_resp_valid := False\<rparr>)
      in if q_we q \<and> \<not> pre_busy d
         then ddr_write_data (byte_addr (q_addr q)) (q_be q) (q_din q) d else d)"

text \<open>One clock of the core: the request is stable across the edge.\<close>

definition ddr_cycle :: "ddr_request \<Rightarrow> ddr \<Rightarrow> ddr" where
  "ddr_cycle req d = ddr_posedge (ddr_latch req d)"

section \<open>KV260 memory calls\<close>

definition KV260_FB_BASE :: nat where "KV260_FB_BASE = 0x0F800000"

definition kv260_byte :: "u32 \<Rightarrow> ddr \<Rightarrow> u8" where
  "kv260_byte a d =
     (if unat a < DDR_SIZE then ddram_mem d (unat a)
      else if KV260_FB_BASE \<le> unat a \<and> unat a - KV260_FB_BASE < FB_MEM_SIZE
        then fb_mem d (unat a - KV260_FB_BASE) else 0)"

definition kv260_memory_read :: "u32 \<Rightarrow> ddr \<Rightarrow> u32" where
  "kv260_memory_read address d =
     fold (\<lambda>b v. v OR push_bit (b * 8) (ucast (kv260_byte (address + word_of_nat b) d))) [0..<4] 0"

definition kv260_put :: "u32 \<Rightarrow> u8 \<Rightarrow> ddr \<Rightarrow> ddr" where
  "kv260_put a v d =
     (if unat a < DDR_SIZE then d\<lparr>ddram_mem := (ddram_mem d)(unat a := v)\<rparr>
      else if KV260_FB_BASE \<le> unat a \<and> unat a - KV260_FB_BASE < FB_MEM_SIZE
        then d\<lparr>fb_mem := (fb_mem d)(unat a - KV260_FB_BASE := v)\<rparr> else d)"

definition kv260_memory_write :: "u32 \<Rightarrow> u32 \<Rightarrow> u32 \<Rightarrow> ddr \<Rightarrow> ddr" where
  "kv260_memory_write address data msk d =
     fold (\<lambda>b d. if bit msk b then kv260_put (address + word_of_nat b) (ucast (drop_bit (b * 8) data)) d else d)
       [0..<4] d"

section \<open>ROM staging\<close>

definition mem_fill :: "nat \<Rightarrow> nat \<Rightarrow> u8 \<Rightarrow> memory \<Rightarrow> memory" where
  "mem_fill lo hi v m = (\<lambda>a. if lo \<le> a \<and> a < hi then v else m a)"

definition ddr_write :: "nat \<Rightarrow> bytes \<Rightarrow> memory \<Rightarrow> memory" where
  "ddr_write offset data m =
     (if DDR_SIZE \<le> offset then m
      else let count = min (length data) (DDR_SIZE - offset)
           in (\<lambda>a. if offset \<le> a \<and> a < offset + count then data ! (a - offset) else m a))"

definition boot0_offset :: "bytes \<Rightarrow> nat" where
  "boot0_offset boot0 = (if length boot0 > 65536 then 0xE0000 else 0xF0000)"

definition stage_roms_to_ddr :: "bytes \<Rightarrow> bytes \<Rightarrow> memory \<Rightarrow> memory" where
  "stage_roms_to_ddr boot0 boot1 m =
     ddr_write (boot0_offset boot0) boot0 (ddr_write 0xC0000 boot1
       (mem_fill 0xCE000 0xD0000 0 (mem_fill 0xA0000 0xC0000 0 (mem_fill 0xA0000 0x100000 0xFF
         (mem_fill 0 DDR_SIZE 0 m)))))"

section \<open>The audio clock\<close>

definition AUDIO_CLOCK_HZ :: nat where "AUDIO_CLOCK_HZ = 24576000"
definition AUDIO_SAMPLE_RATE :: nat where "AUDIO_SAMPLE_RATE = 48000"

record audio =
  clk_audio :: bool
  clock_accum :: nat
  sample_accum :: nat
  edges :: nat
  samples :: nat

text \<open>One turn of the loop: an audio clock edge, and on a rising one perhaps a recorded sample.\<close>

definition audio_edge :: "bool \<Rightarrow> audio \<Rightarrow> audio" where
  "audio_edge recording a =
     (let a = a\<lparr>clk_audio := \<not> clk_audio a, edges := edges a + 1\<rparr>
      in if clk_audio a \<and> recording then
           (let acc = sample_accum a + AUDIO_SAMPLE_RATE
            in if AUDIO_CLOCK_HZ \<le> acc
               then a\<lparr>sample_accum := acc - AUDIO_CLOCK_HZ, samples := samples a + 1\<rparr>
               else a\<lparr>sample_accum := acc\<rparr>)
         else a)"

function audio_drain :: "nat \<Rightarrow> bool \<Rightarrow> audio \<Rightarrow> audio" where
  "audio_drain sys recording a =
     (if 0 < sys \<and> 2 * sys \<le> clock_accum a
      then audio_drain sys recording (audio_edge recording (a\<lparr>clock_accum := clock_accum a - 2 * sys\<rparr>))
      else a)"
  by auto
termination
  by (relation "measure (\<lambda>(sys, r, a). clock_accum a)") (auto simp: audio_edge_def Let_def)

declare audio_drain.simps [simp del]

definition audio_step :: "nat \<Rightarrow> bool \<Rightarrow> bool \<Rightarrow> audio \<Rightarrow> audio" where
  "audio_step sys no_audio_clock recording a =
     audio_drain sys recording
       (if no_audio_clock then a else a\<lparr>clock_accum := clock_accum a + 2 * AUDIO_CLOCK_HZ\<rparr>)"

section \<open>Bytes of a word\<close>

lemma bit_fold_bytes:
  fixes f :: "nat \<Rightarrow> u8"
  shows "bit (fold (\<lambda>i v. v OR push_bit (8 * i) (ucast (f i))) [0..<k] (0 :: 'a::len word)) n \<longleftrightarrow>
    n < LENGTH('a) \<and> n div 8 < k \<and> bit (f (n div 8)) (n mod 8)"
proof (induction k)
  case (Suc k)
  have "bit (push_bit (8 * k) (ucast (f k)) :: 'a word) n \<longleftrightarrow>
      n < LENGTH('a) \<and> n div 8 = k \<and> bit (f k) (n mod 8)"
  proof (cases "n < LENGTH('a)")
    case True
    show ?thesis
    proof (cases "n div 8 = k")
      case eq: True
      then have "n - 8 * k = n mod 8" "8 * k \<le> n" by (simp_all add: minus_mult_div_eq_mod eq [symmetric])
      then show ?thesis using True eq by (auto simp: bit_push_bit_iff bit_ucast_iff)
    next
      case False
      then have "n < 8 * k \<or> 8 \<le> n - 8 * k" by auto
      then show ?thesis
        using False True by (auto simp: bit_push_bit_iff bit_ucast_iff dest: bit_imp_le_length)
    qed
  qed (use bit_imp_le_length in blast)
  then show ?case
    using Suc by (auto simp: bit_or_iff less_Suc_eq)
qed (simp)

lemma fold_bytes_byte:
  fixes f :: "nat \<Rightarrow> u8"
  assumes "i < k" "8 * i + 8 \<le> LENGTH('a)"
  shows "ucast (drop_bit (8 * i) (fold (\<lambda>i v. v OR push_bit (8 * i) (ucast (f i))) [0..<k] (0 :: 'a::len word))) = f i"
proof (rule bit_word_eqI)
  fix n assume "n < LENGTH(8)"
  then have "(8 * i + n) div 8 = i" "(8 * i + n) mod 8 = n" "8 * i + n < LENGTH('a)"
    using assms(2) by simp_all
  then show "bit (ucast (drop_bit (8 * i) (fold (\<lambda>i v. v OR push_bit (8 * i) (ucast (f i))) [0..<k] (0 :: 'a word))) :: u8) n = bit (f i) n"
    using assms(1) \<open>n < LENGTH(8)\<close> by (simp add: bit_ucast_iff bit_drop_bit_eq bit_fold_bytes)
qed

lemma join_bytes_byte: "i < 8 \<Longrightarrow> ucast (drop_bit (8 * i) (join_bytes f)) = f i"
  unfolding join_bytes_def by (rule fold_bytes_byte) simp_all

section \<open>The memory as the core sees it\<close>

definition mapped :: "nat \<Rightarrow> bool" where
  "mapped a \<longleftrightarrow> (FB_BASE_BYTE \<le> a \<and> a < FB_BASE_BYTE + FB_MEM_SIZE) \<or>
     (DDR_SHMEM_BASE \<le> a \<and> a < DDR_SHMEM_BASE + DDR_SIZE)"

definition peek :: "ddr \<Rightarrow> nat \<Rightarrow> u8" where
  "peek d a =
     (if FB_BASE_BYTE \<le> a \<and> a < FB_BASE_BYTE + FB_MEM_SIZE then fb_mem d (a - FB_BASE_BYTE)
      else if DDR_SHMEM_BASE \<le> a \<and> a < DDR_SHMEM_BASE + DDR_SIZE then ddram_mem d (a - DDR_SHMEM_BASE)
      else 0)"

lemma peek_put_byte: "peek (put_byte a b d) x = (if x = a \<and> mapped a then b else peek d x)"
  by (auto simp: peek_def put_byte_def mapped_def ddr_sizes)

lemma peek_write_data:
  "peek (ddr_write_data a be din d) x =
     (if a \<le> x \<and> x < a + 8 \<and> mapped x \<and> bit be (x - a) then ucast (drop_bit (8 * (x - a)) din) else peek d x)"
proof -
  have "peek (fold (\<lambda>i d. if bit be i then put_byte (a + i) (ucast (drop_bit (8 * i) din)) d else d) [0..<k] d) x =
     (if a \<le> x \<and> x < a + k \<and> mapped x \<and> bit be (x - a) then ucast (drop_bit (8 * (x - a)) din) else peek d x)" for k
    by (induction k) (auto simp: peek_put_byte less_Suc_eq)
  then show ?thesis by (simp add: ddr_write_data_def)
qed

lemma byte_addr_dvd: "8 dvd byte_addr a"
proof -
  have "byte_addr a = unat a * 8"
  proof -
    have "unat a < 2 ^ 32" using unsigned_less [of a] by simp
    then show ?thesis
      by (simp add: byte_addr_def push_bit_eq_mult unat_word_ariths)
  qed
  then show ?thesis by simp
qed

lemma ddr_read_data_peek:
  assumes "8 dvd a"
  shows "ddr_read_data a d = join_bytes (\<lambda>i. if i < 8 then peek d (a + i) else 0)"
proof -
  have cong: "join_bytes f = join_bytes g" if "\<And>i. i < 8 \<Longrightarrow> f i = g i" for f g
    unfolding join_bytes_def using that by (intro fold_cong) auto
  obtain m where a: "a = 8 * m" using assms by blast
  have "fold (\<lambda>i v. v) xs v = v" for xs :: "nat list" and v :: u64 by (induction xs) simp_all
  then have z: "join_bytes (\<lambda>i. 0) = 0" by (simp add: join_bytes_def)
  show ?thesis
    by (cases "FB_BASE_BYTE \<le> a \<and> a < FB_BASE_BYTE + FB_MEM_SIZE";
        cases "DDR_SHMEM_BASE \<le> a \<and> a < DDR_SHMEM_BASE + DDR_SIZE")
       (auto simp: ddr_read_data_def peek_def ddr_sizes a z [symmetric] intro!: cong)
qed


lemma peek_frame [simp]:
  "peek (d\<lparr>busy_phase := a\<rparr>) x = peek d x" "peek (d\<lparr>dropped_reads := b\<rparr>) x = peek d x"
  "peek (d\<lparr>prev_blocked := c\<rparr>) x = peek d x" "peek (d\<lparr>ddram_resp_valid := e\<rparr>) x = peek d x"
  "peek (d\<lparr>ddram_resp_data := r\<rparr>) x = peek d x"
  by (simp_all add: peek_def)

lemma write_data_frame [simp]:
  "ddram_resp_valid (ddr_write_data a be din d) = ddram_resp_valid d"
  "ddram_resp_data (ddr_write_data a be din d) = ddram_resp_data d"
  "dropped_reads (ddr_write_data a be din d) = dropped_reads d"
  "prev_blocked (ddr_write_data a be din d) = prev_blocked d"
proof -
  have p: "ddram_resp_valid (put_byte x b d) = ddram_resp_valid d" "ddram_resp_data (put_byte x b d) = ddram_resp_data d"
    "dropped_reads (put_byte x b d) = dropped_reads d" "prev_blocked (put_byte x b d) = prev_blocked d" for x b d
    by (simp_all add: put_byte_def)
  have "ddram_resp_valid (fold g xs d) = ddram_resp_valid d \<and> ddram_resp_data (fold g xs d) = ddram_resp_data d \<and>
      dropped_reads (fold g xs d) = dropped_reads d \<and> prev_blocked (fold g xs d) = prev_blocked d"
    if "g = (\<lambda>i d. if bit be i then put_byte (a + i) (ucast (drop_bit (8 * i) din)) d else d)" for g xs
    unfolding that by (induction xs arbitrary: d) (auto simp: p)
  then show "ddram_resp_valid (ddr_write_data a be din d) = ddram_resp_valid d"
    "ddram_resp_data (ddr_write_data a be din d) = ddram_resp_data d"
    "dropped_reads (ddr_write_data a be din d) = dropped_reads d"
    "prev_blocked (ddr_write_data a be din d) = prev_blocked d"
    by (simp_all add: ddr_write_data_def)
qed

section \<open>Xorshift generators\<close>

lemma xor_shift_nonzero:
  fixes x :: "'a::len word"
  assumes "x \<noteq> 0" "0 < k"
  shows "x XOR push_bit k x \<noteq> 0" "x XOR drop_bit k x \<noteq> 0"
proof -
  obtain n where n: "bit x n" using assms(1) by (auto simp: bit_eq_iff)
  define lo where "lo = (LEAST n. bit x n)"
  have lo: "bit x lo" using n unfolding lo_def by (rule LeastI)
  have "\<not> bit (push_bit k x) lo"
    using assms(2) not_less_Least [of "lo - k" "bit x"] lo_def by (auto simp: bit_push_bit_iff)
  then have "bit (x XOR push_bit k x) lo" using lo by (simp add: bit_xor_iff)
  then show "x XOR push_bit k x \<noteq> 0" by auto
  define hi where "hi = (GREATEST n. bit x n)"
  have b: "\<forall>m. bit x m \<longrightarrow> m \<le> LENGTH('a)" using bit_imp_le_length by (metis less_imp_le)
  have hi: "bit x hi" unfolding hi_def using GreatestI_nat [of "bit x" n] n b by blast
  have "\<not> bit x (hi + k)"
    using Greatest_le_nat [of "bit x" "hi + k" "LENGTH('a)"] b assms(2) unfolding hi_def by auto
  then have "bit (x XOR drop_bit k x) hi" using hi by (simp add: bit_xor_iff bit_drop_bit_eq add.commute)
  then show "x XOR drop_bit k x \<noteq> 0" by auto
qed

lemma xorshift64_nonzero: "x \<noteq> 0 \<Longrightarrow> xorshift64 x \<noteq> 0"
  unfolding xorshift64_def Let_def by (intro xor_shift_nonzero) simp_all


section \<open>ROM staging and the audio clock\<close>

lemma audio_edge_select [simp]:
  "clock_accum (audio_edge r a) = clock_accum a" "edges (audio_edge r a) = Suc (edges a)"
  by (simp_all add: audio_edge_def Let_def)

lemma audio_drain_spec:
  assumes "0 < sys"
  shows "clock_accum (audio_drain sys r a) < 2 * sys \<and>
    edges (audio_drain sys r a) * (2 * sys) + clock_accum (audio_drain sys r a) = edges a * (2 * sys) + clock_accum a"
  using assms
proof (induction sys r a rule: audio_drain.induct)
  case (1 sys r a)
  show ?case
  proof (cases "2 * sys \<le> clock_accum a")
    case True
    then have "audio_drain sys r a = audio_drain sys r (audio_edge r (a\<lparr>clock_accum := clock_accum a - 2 * sys\<rparr>))"
      using 1(2) by (subst audio_drain.simps) simp
    then show ?thesis using 1 True by simp
  next
    case False
    then have "audio_drain sys r a = a" by (subst audio_drain.simps) simp
    then show ?thesis using False by simp
  qed
qed

lemma sample_inv:
  assumes "sample_accum a < AUDIO_CLOCK_HZ"
  shows "sample_accum (audio_edge r a) < AUDIO_CLOCK_HZ"
  using assms by (auto simp: audio_edge_def Let_def AUDIO_CLOCK_HZ_def AUDIO_SAMPLE_RATE_def)

fun audio_steps :: "nat \<Rightarrow> nat \<Rightarrow> audio \<Rightarrow> audio" where
  "audio_steps sys 0 a = a"
| "audio_steps sys (Suc n) a = audio_step sys False True (audio_steps sys n a)"

lemma audio_steps_spec:
  assumes "0 < sys" "clock_accum a < 2 * sys"
  shows "clock_accum (audio_steps sys n a) < 2 * sys \<and>
    edges (audio_steps sys n a) * (2 * sys) + clock_accum (audio_steps sys n a) =
      edges a * (2 * sys) + clock_accum a + n * (2 * AUDIO_CLOCK_HZ)"
proof (induction n)
  case (Suc n)
  show ?case
    using Suc audio_drain_spec [OF assms(1), of True
        "(audio_steps sys n a)\<lparr>clock_accum := clock_accum (audio_steps sys n a) + 2 * AUDIO_CLOCK_HZ\<rparr>"]
    by (simp add: audio_step_def)
qed (use assms in simp)


section \<open>Properties\<close>

text \<open>
  C9: the effect of a clock edge on memory, for every request and whether or not waitrequest is up: a
  byte changes only if a write was presented in a cycle that was not busy, addresses it, enables its
  lane and it belongs to the framebuffer or the shared DDR window, and then it is the byte of its lane.
\<close>

theorem ddr_memory_effect:
  "peek (ddr_posedge d) x =
     (let q = pre_req d; a = byte_addr (q_addr q)
      in if q_we q \<and> \<not> pre_busy d \<and> a \<le> x \<and> x < a + 8 \<and> mapped x \<and> bit (q_be q) (x - a)
         then ucast (drop_bit (8 * (x - a)) (q_din q)) else peek d x)"
  by (simp add: ddr_posedge_def Let_def peek_write_data)

text \<open>
  C10: the response to a read. A response is valid in the cycle after an edge exactly if a read was
  presented in a cycle that was not busy, and byte \<open>i\<close> of its data is byte \<open>i\<close> of the addressed
  eight-byte word as memory stood before the edge (0 outside the mapped windows).
\<close>

theorem ddr_read_response:
  "ddram_resp_valid (ddr_posedge d) = (q_rd (pre_req d) \<and> \<not> pre_busy d) \<and>
   (\<forall>i<8. ddram_resp_valid (ddr_posedge d) \<longrightarrow>
      ucast (drop_bit (8 * i) (ddram_resp_data (ddr_posedge d))) = peek d (byte_addr (q_addr (pre_req d)) + i))"
proof -
  have "ddram_resp_valid (ddr_posedge d) = (q_rd (pre_req d) \<and> \<not> pre_busy d)"
    by (simp add: ddr_posedge_def Let_def)
  moreover have "ucast (drop_bit (8 * i) (ddram_resp_data (ddr_posedge d))) = peek d (byte_addr (q_addr (pre_req d)) + i)"
    if "q_rd (pre_req d) \<and> \<not> pre_busy d" "i < 8" for i
    using that by (simp add: ddr_posedge_def Let_def ddr_read_data_peek [OF byte_addr_dvd] join_bytes_byte)
  ultimately show ?thesis by blast
qed

definition sample_ddr :: ddr where
  "sample_ddr = \<lparr>ddram_mem = (\<lambda>_. 0), fb_mem = (\<lambda>_. 0), ddram_resp_valid = False, ddram_resp_data = 0,
     busy_period = 0, busy_len = 1, busy_phase = 0, busy_rand_pct = 0, busy_rand_state = 1,
     busy_rand_now = False, pre_busy = False,
     pre_req = \<lparr>q_rd = True, q_we = False, q_addr = 0x06000000, q_be = 0xFF, q_din = 0\<rparr>,
     prev_blocked = False, dropped_reads = 0\<rparr>"

theorem ddr_read_response_witness:
  "ddram_resp_valid (ddr_posedge sample_ddr) \<and> ucast (drop_bit (8 * 3) (ddram_resp_data (ddr_posedge sample_ddr))) = (0 :: u8)"
proof -
  have v: "ddram_resp_valid (ddr_posedge sample_ddr)"
    using ddr_read_response [of sample_ddr] by (simp add: sample_ddr_def)
  then have "ucast (drop_bit (8 * 3) (ddram_resp_data (ddr_posedge sample_ddr))) =
      peek sample_ddr (byte_addr (q_addr (pre_req sample_ddr)) + 3)"
    using conjunct2 [OF ddr_read_response [of sample_ddr], rule_format, of 3] by simp
  moreover have "peek sample_ddr x = 0" for x by (simp add: peek_def sample_ddr_def)
  ultimately show ?thesis using v by simp
qed

text \<open>
  the random waitrequest generator never gets stuck. Its state stays non-zero through every draw,
  so the sequence does not collapse to the all-zero fixed point, in which it would stop changing.
\<close>

theorem ddr_busy_state_nonzero:
  assumes "busy_rand_state d \<noteq> 0"
  shows "busy_rand_state (ddr_latch req d) \<noteq> 0"
  using assms xorshift64_nonzero by (simp add: ddr_latch_def busy_draw_def Let_def)

theorem ddr_busy_state_nonzero_witness:
  "busy_rand_state (ddr_latch (pre_req sample_ddr) (sample_ddr\<lparr>busy_rand_pct := 30\<rparr>)) \<noteq> 0"
  by (rule ddr_busy_state_nonzero) (simp add: sample_ddr_def)

text \<open>
  the audio clock is exact in the long run: after \<open>n\<close> half periods of the system clock it has made
  \<open>(n * 24576000 + r) / f\<close> edges rounded down for a system clock of \<open>f\<close> Hz, \<open>r\<close> being the remainder
  it started with, so it never drifts; every step's loop ends, and up to 1 GHz the next sum still fits
  the 32-bit accumulator of the code.
\<close>

theorem audio_clock_rate:
  assumes "0 < sys" and "clock_accum a < 2 * sys" and "sys \<le> 2 ^ 30"
  shows "edges (audio_steps sys n a) - edges a = (clock_accum a + n * (2 * AUDIO_CLOCK_HZ)) div (2 * sys) \<and>
    clock_accum (audio_steps sys n a) < 2 * sys \<and>
    clock_accum (audio_steps sys n a) + 2 * AUDIO_CLOCK_HZ < 2 ^ 32"
proof -
  note spec = audio_steps_spec [OF assms(1, 2), of n]
  let ?b = "audio_steps sys n a"
  have "edges a * (2 * sys) \<le> edges ?b * (2 * sys) + clock_accum ?b" using spec by linarith
  then have "edges a * (2 * sys) < (edges ?b + 1) * (2 * sys)" using spec by simp
  then have "edges a < edges ?b + 1" by (rule mult_less_cancel2 [THEN iffD1, THEN conjunct2])
  then have le: "edges a \<le> edges ?b" by simp
  then have "(edges ?b - edges a) * (2 * sys) + clock_accum ?b = clock_accum a + n * (2 * AUDIO_CLOCK_HZ)"
    using spec by (simp add: diff_mult_distrib)
  then have "(clock_accum a + n * (2 * AUDIO_CLOCK_HZ)) div (2 * sys) = ((edges ?b - edges a) * (2 * sys) + clock_accum ?b) div (2 * sys)"
    by simp
  also have "\<dots> = edges ?b - edges a" using spec assms(1) by (subst div_mult_self3) auto
  finally have "(clock_accum a + n * (2 * AUDIO_CLOCK_HZ)) div (2 * sys) = edges ?b - edges a" .
  then show ?thesis using spec assms(3) by (simp add: AUDIO_CLOCK_HZ_def)
qed

theorem audio_clock_rate_witness:
  "edges (audio_steps 20000000 40000000 \<lparr>clk_audio = False, clock_accum = 0, sample_accum = 0, edges = 0, samples = 0\<rparr>) =
     49152000"
  using audio_clock_rate [of 20000000 "\<lparr>clk_audio = False, clock_accum = 0, sample_accum = 0, edges = 0, samples = 0\<rparr>" 40000000]
  by (simp add: AUDIO_CLOCK_HZ_def)

text \<open>
  the staged BIOS is where the machine starts. A boot0 image of at most 128 KiB is mapped so that
  every one of its bytes is in memory from E0000h (above 64 KiB) or F0000h, and every byte of a boot1
  image of at most 128 KiB that boot0 does not cover is at C0000h; the shared-folder window
  CE000h..CFFFFh is clear unless boot1 covers it.
\<close>

theorem rom_staging:
  assumes "length boot0 \<le> 131072" and "length boot1 \<le> 131072"
  shows "(\<forall>i<length boot0. stage_roms_to_ddr boot0 boot1 m (boot0_offset boot0 + i) = boot0 ! i) \<and>
    (\<forall>i<length boot1. 0xC0000 + i < boot0_offset boot0 \<longrightarrow>
       stage_roms_to_ddr boot0 boot1 m (0xC0000 + i) = boot1 ! i) \<and>
    (\<forall>a. 0xCE000 \<le> a \<and> a < 0xD0000 \<and> 0xC0000 + length boot1 \<le> a \<longrightarrow> stage_roms_to_ddr boot0 boot1 m a = 0)"
  using assms
  by (auto simp: stage_roms_to_ddr_def ddr_write_def boot0_offset_def DDR_SIZE_def mem_fill_def Let_def)

theorem rom_staging_witness:
  "stage_roms_to_ddr [1, 2, 3] [9] (\<lambda>_. 5) 0xF0001 = 2 \<and> stage_roms_to_ddr [1, 2, 3] [9] (\<lambda>_. 5) 0xC0000 = 9"
proof -
  note r = rom_staging [of "[1, 2, 3]" "[9]" "\<lambda>_. 5"]
  have "stage_roms_to_ddr [1, 2, 3] [9] (\<lambda>_. 5) (boot0_offset [1, 2, 3] + 1) = [1, 2, 3] ! 1"
    using r by (auto simp del: One_nat_def)
  moreover have "stage_roms_to_ddr [1, 2, 3] [9] (\<lambda>_. 5) (0xC0000 + 0) = [9] ! 0"
    using r by (auto simp: boot0_offset_def)
  ultimately show ?thesis by (simp add: boot0_offset_def)
qed

end
