(* ===== verification/Cosim_Host.thy ===== *)
theory Cosim_Host
  imports Prelude
begin

text \<open>
  The full-system co-simulation host, \<open>src/verilator/cosim_host.cpp\<close>: every clock it reads the taps
  of the z486 core, feeds a reference processor with what the system supplies and compares the two.
  The reference is used through the interface of \<open>cosim/cosim86.h\<close> only; the processor behind that
  interface is 86Box, which is not part of the repository, so the interface is a record of functions
  on an abstract reference state and every definition takes it as its argument. Counters have
  the width the code gives them; console output is left out.
\<close>

section \<open>The interface of the reference\<close>

datatype cosim_result = COSIM_OK | COSIM_STALL | COSIM_ERROR

record 'r cosim86 =
  cosim_reset :: "'r \<Rightarrow> 'r"
  cosim_set_a20 :: "bool \<Rightarrow> 'r \<Rightarrow> 'r"
  cosim_set_fpu :: "bool \<Rightarrow> 'r \<Rightarrow> 'r"
  cosim_step :: "'r \<Rightarrow> cosim_result \<times> 'r"
  cosim_step_rep_to :: "u32 \<Rightarrow> 'r \<Rightarrow> cosim_result \<times> 'r"
  cosim_interrupt :: "u8 \<Rightarrow> 'r \<Rightarrow> cosim_result \<times> 'r"
  cosim_adopt_flags :: "u32 \<Rightarrow> 'r \<Rightarrow> 'r"
  cosim_eip :: "'r \<Rightarrow> u32"
  cosim_cs :: "'r \<Rightarrow> u16"
  cosim_reg :: "nat \<Rightarrow> 'r \<Rightarrow> u32"
  cosim_at_rep_string :: "'r \<Rightarrow> bool"
  cosim_last_fault :: "'r \<Rightarrow> int"
  cosim_instructions :: "'r \<Rightarrow> u64"
  cosim_dut_io_read :: "u16 \<Rightarrow> u8 \<Rightarrow> 'r \<Rightarrow> 'r"
  cosim_dut_dev_read :: "u32 \<Rightarrow> u8 \<Rightarrow> 'r \<Rightarrow> 'r"
  cosim_dut_write :: "u32 \<Rightarrow> u8 \<Rightarrow> 'r \<Rightarrow> cosim_result \<times> 'r"
  cosim_dut_io_write :: "u16 \<Rightarrow> u8 \<Rightarrow> 'r \<Rightarrow> cosim_result \<times> 'r"
  cosim_dma_write :: "u32 \<Rightarrow> u8 \<Rightarrow> 'r \<Rightarrow> 'r"
  cosim_walker_write :: "u32 \<Rightarrow> u8 \<Rightarrow> 'r \<Rightarrow> 'r"
  cosim_arch :: "'r \<Rightarrow> u32 list"
  cosim_snapshot_ok :: "'r \<Rightarrow> bool"
  cosim_ram :: "'r \<Rightarrow> bytes"
  cosim_put_ram :: "bytes \<Rightarrow> 'r \<Rightarrow> 'r"

definition COSIM_ARCH_X87 :: nat where "COSIM_ARCH_X87 = 43"

section \<open>State\<close>

definition K_IO :: u8 where "K_IO = 1"
definition K_INTA :: u8 where "K_INTA = 2"
definition K_X87 :: u8 where "K_X87 = 4"
definition K_DEV :: u8 where "K_DEV = 8"
definition K_WALK :: u8 where "K_WALK = 16"

definition has_kind :: "u8 \<Rightarrow> u8 \<Rightarrow> bool" where
  "has_kind kind k \<longleftrightarrow> kind AND k \<noteq> 0"

record issue_ev =
  ev_eip :: u32
  ev_ecx :: u32
  ev_eflags :: u32
  ev_cs :: u32
  ev_t :: u64
  ev_gpr :: "u32 list"

record read_req =
  rq_addr :: u32
  rq_be :: u8
  rq_kind :: u8

record write_log =
  wl_t :: u64
  wl_addr :: u32
  wl_val :: u8
  wl_port :: char

record 'r cosim_host =
  g_enabled :: bool
  g_ram_mb :: nat
  g_running :: bool
  g_failed :: bool
  g_have_cur :: bool
  g_squash_ok :: bool
  g_ram_copied :: bool
  g_snap_candidate :: bool
  g_x87_on :: bool
  g_rpti_prev :: bool
  g_cur_restarted :: bool
  g_issues :: "issue_ev list"
  g_reads :: "read_req list"
  g_vectors :: "u8 list"
  g_wlog :: "write_log list"
  g_wlog_n :: u32
  g_issued :: u64
  g_irqs :: u64
  g_stalls :: u64
  g_squashed :: u64
  g_resets :: u64
  g_cycles :: u64
  g_reset_cycles :: u64
  g_issue_raw :: u64
  g_reg_miss :: "u32 list"
  g_reg_first :: "u64 list"
  g_now :: u64
  g_x87_ref_last :: "u32 list"
  g_x87_dirty :: bool
  g_x87_miss :: u32
  g_x87_period :: u32
  g_x87_values :: bool
  g_x87_precision :: bool
  g_x87_checks :: u64
  g_ref :: 'r

text \<open>
  The taps of one clock. \<open>cosim_x87\<close> is what the DPI calls into the x87 unit return (idle and the 27
  words of its state), \<open>None\<close> when the unit's scopes do not exist or the simulator is built without it.
\<close>

record taps =
  cosim_cpu_reset_n :: bool
  cosim_x87_on :: bool
  cosim_a20 :: bool
  cosim_dma_wr :: bool
  cosim_dma_addr :: u32
  cosim_dma_be :: u8
  cosim_dma_wdata :: u32
  cosim_dreq_acc :: bool
  cosim_dreq_write :: bool
  cosim_dreq_kind :: u8
  cosim_dreq_addr :: u32
  cosim_dreq_be :: u8
  cosim_dreq_wdata :: u32
  cosim_dreq_wdata_direct :: u32
  cosim_drd_done :: bool
  cosim_drd_data :: u32
  cosim_fst_acc :: bool
  cosim_fst_addr :: u32
  cosim_fst_be :: u8
  cosim_fst_wdata :: u32
  cosim_rpti :: bool
  cosim_issue :: bool
  cosim_issue_eip :: u32
  cosim_issue_cs :: u32
  cosim_ecx :: u32
  cosim_eflags :: u32
  cosim_gprs :: "u32 list"
  cosim_bus_quiet :: bool
  cosim_x87 :: "(bool \<times> u32 list) option"
  sdram :: "nat \<Rightarrow> u16"

definition log_write :: "u64 \<Rightarrow> u32 \<Rightarrow> u8 \<Rightarrow> char \<Rightarrow> 'r cosim_host \<Rightarrow> 'r cosim_host" where
  "log_write t addr val port h =
     h\<lparr>g_wlog := (g_wlog h)[unat (g_wlog_n h) mod 16 := \<lparr>wl_t = t, wl_addr = addr, wl_val = val, wl_port = port\<rparr>],
       g_wlog_n := g_wlog_n h + 1\<rparr>"

definition diverge :: "'r cosim_host \<Rightarrow> 'r cosim_host" where
  "diverge h = h\<lparr>g_failed := True\<rparr>"

section \<open>Guest memory\<close>

definition ram_bytes :: "nat \<Rightarrow> nat" where
  "ram_bytes mb = mb * 2 ^ 20"

definition copy_ram :: "'r cosim86 \<Rightarrow> (nat \<Rightarrow> u16) \<Rightarrow> 'r cosim_host \<Rightarrow> 'r cosim_host" where
  "copy_ram ref m h =
     h\<lparr>g_ref := cosim_put_ram ref
         (map (\<lambda>a. ucast (drop_bit (8 * (a mod 2)) (m (a div 2)))) [0..<ram_bytes (g_ram_mb h)]) (g_ref h)\<rparr>"

definition vga_hole :: "nat \<Rightarrow> bool" where
  "vga_hole a \<longleftrightarrow> 0xA0000 \<le> a \<and> a < 0xC0000"

definition ram_to_sdram :: "bytes \<Rightarrow> (nat \<Rightarrow> u16) \<Rightarrow> nat \<Rightarrow> u16" where
  "ram_to_sdram r m w =
     (if 2 * w < length r \<and> \<not> vga_hole (2 * w) then ucast (r ! (2 * w)) OR push_bit 8 (ucast (r ! (2 * w + 1))) else m w)"

definition cosim_host_compare_ram :: "bytes \<Rightarrow> (nat \<Rightarrow> u16) \<Rightarrow> nat" where
  "cosim_host_compare_ram r m =
     length (filter (\<lambda>a. \<not> vga_hole (a - a mod 2) \<and> ucast (drop_bit (8 * (a mod 2)) (m (a div 2))) \<noteq> r ! a) [0..<length r])"

section \<open>Registers\<close>

definition kRegPersist :: u32 where "kRegPersist = 64"

fun check_regs :: "'r cosim86 \<Rightarrow> issue_ev \<Rightarrow> nat list \<Rightarrow> 'r cosim_host \<Rightarrow> bool \<times> 'r cosim_host" where
  "check_regs ref ev [] h = (True, h)"
| "check_regs ref ev (r # rs) h =
     (if ev_gpr ev ! r = cosim_reg ref r (g_ref h) then check_regs ref ev rs (h\<lparr>g_reg_miss := (g_reg_miss h)[r := 0]\<rparr>)
      else
        (let h = (if g_reg_miss h ! r = 0
                  then h\<lparr>g_reg_first := (g_reg_first h)[r := cosim_instructions ref (g_ref h)]\<rparr> else h);
             n = g_reg_miss h ! r + 1;
             h = h\<lparr>g_reg_miss := (g_reg_miss h)[r := n]\<rparr>
         in if kRegPersist \<le> n then (False, diverge h) else check_regs ref ev rs h))"

definition check_registers :: "'r cosim86 \<Rightarrow> issue_ev \<Rightarrow> 'r cosim_host \<Rightarrow> bool \<times> 'r cosim_host" where
  "check_registers ref ev h = check_regs ref ev [0..<8] h"

section \<open>The x87\<close>

definition kX87Persist :: u32 where "kX87Persist = 4"
definition kX87Period :: u32 where "kX87Period = 4096"

definition same_x87 :: "bool \<Rightarrow> bool \<Rightarrow> u32 list \<Rightarrow> u32 list \<Rightarrow> bool" where
  "same_x87 vals precision dut ref \<longleftrightarrow>
     (let sw_mask = (if vals then 0xFFFF else 0xFDFF) AND (if precision then 0xFFFF else 0xFFDF)
      in dut ! 0 AND 0xFFFF = ref ! 0 AND 0xFFFF \<and> dut ! 1 AND sw_mask = ref ! 1 AND sw_mask \<and>
         dut ! 2 AND 0xFFFF = ref ! 2 AND 0xFFFF \<and>
         (vals \<longrightarrow> list_all (\<lambda>i. drop_bit (2 * i) (ref ! 2) AND 3 = 3 \<or>
            dut ! (3 + 3 * i) = ref ! (3 + 3 * i) \<and> dut ! (4 + 3 * i) = ref ! (4 + 3 * i) \<and>
            dut ! (5 + 3 * i) AND 0xFFFF = ref ! (5 + 3 * i) AND 0xFFFF) [0..<8]))"

definition check_x87 :: "bool \<Rightarrow> 'r cosim86 \<Rightarrow> taps \<Rightarrow> issue_ev \<Rightarrow> 'r cosim_host \<Rightarrow> bool \<times> 'r cosim_host" where
  "check_x87 sim_enable_x87 ref tb ev h =
     (if \<not> sim_enable_x87 \<or> \<not> g_x87_on h then (True, h)
      else
        (let now = take 27 (drop COSIM_ARCH_X87 (cosim_arch ref (g_ref h)));
             h = (if now \<noteq> g_x87_ref_last h then h\<lparr>g_x87_ref_last := now, g_x87_dirty := True\<rparr> else h);
             h' = (if g_x87_dirty h then h else h\<lparr>g_x87_period := g_x87_period h + 1\<rparr>)
         in if \<not> g_x87_dirty h \<and> g_x87_period h' < kX87Period then (True, h')
            else
              (let h = h'\<lparr>g_x87_period := 0\<rparr>
               in if ev_t ev \<noteq> g_now h then (True, h)
                  else case cosim_x87 tb of None \<Rightarrow> (True, h)
                    | Some (idle, dut) \<Rightarrow>
                        if \<not> idle then (True, h)
                        else
                          (let h = h\<lparr>g_x87_checks := g_x87_checks h + 1\<rparr>
                           in if same_x87 (g_x87_values h) (g_x87_precision h) dut now
                              then (True, h\<lparr>g_x87_dirty := False, g_x87_miss := 0\<rparr>)
                              else
                                (let h = h\<lparr>g_x87_miss := g_x87_miss h + 1\<rparr>
                                 in if g_x87_miss h < kX87Persist then (True, h) else (False, diverge h))))))"

section \<open>Issued instructions\<close>

text \<open>
  One turn of the loop over the issued instructions: \<open>Popped\<close> goes on with the next one, \<open>Retry\<close>
  leaves the rest for a later clock, \<open>Failed\<close> is a divergence.
\<close>

datatype issue_result = Popped | Retry | Failed

definition same_pc :: "'r cosim86 \<Rightarrow> issue_ev \<Rightarrow> 'r cosim_host \<Rightarrow> bool" where
  "same_pc ref ev h \<longleftrightarrow> cosim_eip ref (g_ref h) = ev_eip ev \<and> ucast (cosim_cs ref (g_ref h)) = ev_cs ev"

definition accept_issue :: "bool \<Rightarrow> 'r cosim86 \<Rightarrow> taps \<Rightarrow> issue_ev \<Rightarrow> 'r cosim_host \<Rightarrow> issue_result \<times> 'r cosim_host" where
  "accept_issue sim_enable_x87 ref tb ev h =
     (case check_registers ref ev (h\<lparr>g_squash_ok := False, g_have_cur := True\<rparr>) of
        (False, h) \<Rightarrow> (Failed, h)
      | (True, h) \<Rightarrow>
          (case check_x87 sim_enable_x87 ref tb ev h of
             (False, h) \<Rightarrow> (Failed, h)
           | (True, h) \<Rightarrow> (Popped, h\<lparr>g_issues := tl (g_issues h)\<rparr>)))"

definition fetch_fault :: "bool \<Rightarrow> 'r cosim86 \<Rightarrow> taps \<Rightarrow> issue_ev \<Rightarrow> 'r cosim_host \<Rightarrow> issue_result \<times> 'r cosim_host" where
  "fetch_fault sim_enable_x87 ref tb ev h =
     (if same_pc ref ev h then accept_issue sim_enable_x87 ref tb ev h
      else
        (let (r, s) = cosim_step ref (g_ref h); h = h\<lparr>g_ref := s\<rparr>
         in if r = COSIM_ERROR \<or> cosim_last_fault ref s < 0 \<or> \<not> same_pc ref ev h
            then (Failed, diverge h) else accept_issue sim_enable_x87 ref tb ev h))"

definition squash :: "bool \<Rightarrow> 'r cosim86 \<Rightarrow> taps \<Rightarrow> issue_ev \<Rightarrow> 'r cosim_host \<Rightarrow> issue_result \<times> 'r cosim_host" where
  "squash sim_enable_x87 ref tb ev h =
     (if \<not> same_pc ref ev h \<and> g_squash_ok h
      then (Popped, h\<lparr>g_squash_ok := False, g_squashed := g_squashed h + 1, g_issues := tl (g_issues h)\<rparr>)
      else fetch_fault sim_enable_x87 ref tb ev h)"

definition deliver_irq :: "bool \<Rightarrow> 'r cosim86 \<Rightarrow> taps \<Rightarrow> issue_ev \<Rightarrow> 'r cosim_host \<Rightarrow> issue_result \<times> 'r cosim_host" where
  "deliver_irq sim_enable_x87 ref tb ev h =
     (if \<not> same_pc ref ev h \<and> g_vectors h \<noteq> [] then
        (let v = hd (g_vectors h);
             h = h\<lparr>g_vectors := tl (g_vectors h), g_irqs := g_irqs h + 1\<rparr>;
             (r, s) = cosim_interrupt ref v (g_ref h); h = h\<lparr>g_ref := s\<rparr>
         in if r \<noteq> COSIM_OK then (Failed, diverge h) else squash sim_enable_x87 ref tb ev h)
      else squash sim_enable_x87 ref tb ev h)"

definition drop_restarted :: "'r cosim86 \<Rightarrow> 'r cosim_host \<Rightarrow> 'r cosim_host" where
  "drop_restarted ref h =
     (if g_have_cur h \<and> g_cur_restarted h \<and> \<not> cosim_at_rep_string ref (g_ref h)
      then h\<lparr>g_have_cur := False, g_cur_restarted := False, g_squash_ok := False\<rparr> else h)"

definition process_issue :: "bool \<Rightarrow> 'r cosim86 \<Rightarrow> taps \<Rightarrow> issue_ev \<Rightarrow> 'r cosim_host \<Rightarrow> issue_result \<times> 'r cosim_host" where
  "process_issue sim_enable_x87 ref tb ev h =
     (let h = drop_restarted ref h
      in if g_have_cur h then
           (let (r, s) = (if g_vectors h \<noteq> [] \<and> cosim_at_rep_string ref (g_ref h)
                          then cosim_step_rep_to ref (ev_ecx ev) (g_ref h) else cosim_step ref (g_ref h));
                h = h\<lparr>g_ref := s\<rparr>
            in case r of
                 COSIM_STALL \<Rightarrow> (Retry, h\<lparr>g_stalls := g_stalls h + 1\<rparr>)
               | COSIM_ERROR \<Rightarrow> (Failed, diverge h)
               | COSIM_OK \<Rightarrow>
                   deliver_irq sim_enable_x87 ref tb ev
                     (h\<lparr>g_have_cur := False, g_cur_restarted := False, g_squash_ok := 0 \<le> cosim_last_fault ref s,
                        g_ref := cosim_adopt_flags ref (ev_eflags ev) s\<rparr>))
         else deliver_irq sim_enable_x87 ref tb ev h)"

fun issue_loop :: "bool \<Rightarrow> 'r cosim86 \<Rightarrow> taps \<Rightarrow> issue_ev list \<Rightarrow> 'r cosim_host \<Rightarrow> bool \<times> 'r cosim_host" where
  "issue_loop sim_enable_x87 ref tb [] h = (True, h)"
| "issue_loop sim_enable_x87 ref tb (ev # evs) h =
     (case process_issue sim_enable_x87 ref tb ev h of
        (Popped, h) \<Rightarrow> issue_loop sim_enable_x87 ref tb evs h
      | (Retry, h) \<Rightarrow> (True, h)
      | (Failed, h) \<Rightarrow> (False, h))"

definition process_issues :: "bool \<Rightarrow> 'r cosim86 \<Rightarrow> taps \<Rightarrow> 'r cosim_host \<Rightarrow> bool \<times> 'r cosim_host" where
  "process_issues sim_enable_x87 ref tb h = issue_loop sim_enable_x87 ref tb (g_issues h) h"

section \<open>One clock\<close>

text \<open>The bytes of a write, in order, each handed to an operation that may find a divergence.\<close>

definition word_byte :: "u32 \<Rightarrow> nat \<Rightarrow> u8" where
  "word_byte w i = ucast (drop_bit (8 * i) w)"

definition align4 :: "u32 \<Rightarrow> u32" where
  "align4 a = a AND NOT 3"

fun each_byte :: "(nat \<Rightarrow> 'r cosim_host \<Rightarrow> bool \<times> 'r cosim_host) \<Rightarrow> u8 \<Rightarrow> nat list \<Rightarrow> 'r cosim_host \<Rightarrow> bool \<times> 'r cosim_host" where
  "each_byte f be [] h = (True, h)"
| "each_byte f be (i # is) h =
     (if \<not> bit be i then each_byte f be is h
      else case f i h of (False, h) \<Rightarrow> (False, h) | (True, h) \<Rightarrow> each_byte f be is h)"

definition checked :: "cosim_result \<times> 'r \<Rightarrow> 'r cosim_host \<Rightarrow> bool \<times> 'r cosim_host" where
  "checked rs h = (let h = h\<lparr>g_ref := snd rs\<rparr> in if fst rs \<noteq> COSIM_OK then (False, diverge h) else (True, h))"

definition start_running :: "'r cosim86 \<Rightarrow> 'r cosim_host \<Rightarrow> 'r cosim_host" where
  "start_running ref h =
     (if g_running h then h
      else h\<lparr>g_ram_copied := False, g_ref := cosim_reset ref (g_ref h), g_issues := [], g_reads := [],
             g_vectors := [], g_have_cur := False, g_squash_ok := False, g_running := True\<rparr>)"

definition cycle_dma :: "'r cosim86 \<Rightarrow> taps \<Rightarrow> 'r cosim_host \<Rightarrow> bool \<times> 'r cosim_host" where
  "cycle_dma ref tb h =
     (if cosim_dma_wr tb then
        each_byte (\<lambda>i h. (True, h\<lparr>g_ref := cosim_dma_write ref (align4 (cosim_dma_addr tb) + of_nat i)
          (word_byte (cosim_dma_wdata tb) i) (g_ref h)\<rparr>)) (cosim_dma_be tb) [0..<4] h
      else (True, h))"

definition dreq_byte :: "'r cosim86 \<Rightarrow> u64 \<Rightarrow> u8 \<Rightarrow> u32 \<Rightarrow> u32 \<Rightarrow> nat \<Rightarrow> 'r cosim_host \<Rightarrow> bool \<times> 'r cosim_host" where
  "dreq_byte ref t kind base data i h =
     (let b = word_byte data i; a = base + of_nat i
      in if has_kind kind K_WALK then (True, h\<lparr>g_ref := cosim_walker_write ref a b (g_ref h)\<rparr>)
         else if has_kind kind K_X87 then (True, h)
         else if has_kind kind K_IO then
           (let h = log_write t a b (CHR ''i'') h in checked (cosim_dut_io_write ref (ucast a) b (g_ref h)) h)
         else
           (let h = log_write t a b (CHR ''d'') h in checked (cosim_dut_write ref a b (g_ref h)) h))"

definition cycle_dreq :: "'r cosim86 \<Rightarrow> taps \<Rightarrow> u64 \<Rightarrow> 'r cosim_host \<Rightarrow> bool \<times> 'r cosim_host" where
  "cycle_dreq ref tb t h =
     (if \<not> cosim_dreq_acc tb then (True, h)
      else let kind = cosim_dreq_kind tb; base = align4 (cosim_dreq_addr tb)
        in if cosim_dreq_write tb then
             each_byte (dreq_byte ref t kind base
               (if has_kind kind K_IO then cosim_dreq_wdata_direct tb else cosim_dreq_wdata tb)) (cosim_dreq_be tb) [0..<4] h
           else (True, h\<lparr>g_reads := g_reads h @ [\<lparr>rq_addr = cosim_dreq_addr tb, rq_be = cosim_dreq_be tb, rq_kind = kind\<rparr>]\<rparr>))"

definition drd_byte :: "'r cosim86 \<Rightarrow> read_req \<Rightarrow> u32 \<Rightarrow> nat \<Rightarrow> 'r cosim_host \<Rightarrow> bool \<times> 'r cosim_host" where
  "drd_byte ref rq data i h =
     (let b = word_byte data i; a = align4 (rq_addr rq) + of_nat i
      in if has_kind (rq_kind rq) K_IO then (True, h\<lparr>g_ref := cosim_dut_io_read ref (ucast a) b (g_ref h)\<rparr>)
         else if has_kind (rq_kind rq) K_DEV then (True, h\<lparr>g_ref := cosim_dut_dev_read ref a b (g_ref h)\<rparr>)
         else (True, h))"

definition cycle_drd :: "'r cosim86 \<Rightarrow> taps \<Rightarrow> 'r cosim_host \<Rightarrow> bool \<times> 'r cosim_host" where
  "cycle_drd ref tb h =
     (if \<not> cosim_drd_done tb then (True, h)
      else case g_reads h of [] \<Rightarrow> (False, diverge h)
        | rq # rqs \<Rightarrow>
            (let h = h\<lparr>g_reads := rqs\<rparr>; data = cosim_drd_data tb
             in if has_kind (rq_kind rq) K_INTA then
                  (True, if rq_addr rq AND 4 = 0 then h\<lparr>g_vectors := g_vectors h @ [ucast (data AND 0xFF)]\<rparr> else h)
                else if \<not> has_kind (rq_kind rq) (K_WALK OR K_X87) then each_byte (drd_byte ref rq data) (rq_be rq) [0..<4] h
                else (True, h)))"

definition cycle_fst :: "'r cosim86 \<Rightarrow> taps \<Rightarrow> u64 \<Rightarrow> 'r cosim_host \<Rightarrow> bool \<times> 'r cosim_host" where
  "cycle_fst ref tb t h =
     (if \<not> cosim_fst_acc tb then (True, h)
      else each_byte (\<lambda>i h.
        (let b = word_byte (cosim_fst_wdata tb) i; a = align4 (cosim_fst_addr tb) + of_nat i;
             h = log_write t a b (CHR ''f'') h
         in checked (cosim_dut_write ref a b (g_ref h)) h)) (cosim_fst_be tb) [0..<4] h)"

definition take_issue :: "'r cosim86 \<Rightarrow> taps \<Rightarrow> u64 \<Rightarrow> 'r cosim_host \<Rightarrow> 'r cosim_host" where
  "take_issue ref tb t h =
     (let h = (if cosim_rpti tb \<and> \<not> g_rpti_prev h \<and> g_have_cur h then h\<lparr>g_cur_restarted := True\<rparr> else h);
          h = h\<lparr>g_rpti_prev := cosim_rpti tb\<rparr>
      in if \<not> cosim_issue tb then h
         else let h = (if g_ram_copied h then h else (copy_ram ref (sdram tb) h)\<lparr>g_ram_copied := True\<rparr>)
           in h\<lparr>g_issues := g_issues h @ [\<lparr>ev_eip = cosim_issue_eip tb, ev_ecx = cosim_ecx tb, ev_eflags = cosim_eflags tb,
                  ev_cs = cosim_issue_cs tb, ev_t = t, ev_gpr = cosim_gprs tb\<rparr>],
                g_issued := g_issued h + 1\<rparr>)"

definition snap_candidate :: "taps \<Rightarrow> 'r cosim_host \<Rightarrow> bool" where
  "snap_candidate tb h \<longleftrightarrow> cosim_issue tb \<and> \<not> cosim_dreq_acc tb \<and> \<not> cosim_fst_acc tb \<and> \<not> cosim_drd_done tb \<and>
     \<not> cosim_dma_wr tb \<and> g_have_cur h \<and> g_issues h = [] \<and> g_reads h = [] \<and> g_vectors h = []"

definition cycle_issue :: "bool \<Rightarrow> 'r cosim86 \<Rightarrow> taps \<Rightarrow> u64 \<Rightarrow> 'r cosim_host \<Rightarrow> bool \<times> 'r cosim_host" where
  "cycle_issue sim_enable_x87 ref tb t h =
     (let h = take_issue ref tb t h
      in case (if g_issues h = [] then (True, h) else process_issues sim_enable_x87 ref tb h) of
           (False, h) \<Rightarrow> (False, h)
         | (True, h) \<Rightarrow> (True, h\<lparr>g_snap_candidate := snap_candidate tb h\<rparr>))"

definition count_clock :: "'r cosim86 \<Rightarrow> taps \<Rightarrow> u64 \<Rightarrow> 'r cosim_host \<Rightarrow> 'r cosim_host" where
  "count_clock ref tb t h =
     (let h = h\<lparr>g_cycles := g_cycles h + 1, g_now := t\<rparr>;
          h = (if cosim_issue tb then h\<lparr>g_issue_raw := g_issue_raw h + 1\<rparr> else h);
          h = (if \<not> cosim_cpu_reset_n tb then h\<lparr>g_reset_cycles := g_reset_cycles h + 1\<rparr> else h)
      in if cosim_x87_on tb \<noteq> g_x87_on h
         then h\<lparr>g_x87_on := cosim_x87_on tb, g_ref := cosim_set_fpu ref (cosim_x87_on tb) (g_ref h)\<rparr> else h)"

definition andthen :: "bool \<times> 'r cosim_host \<Rightarrow> ('r cosim_host \<Rightarrow> bool \<times> 'r cosim_host) \<Rightarrow> bool \<times> 'r cosim_host" where
  "andthen p f = (if fst p then f (snd p) else p)"

definition cosim_host_cycle :: "bool \<Rightarrow> 'r cosim86 \<Rightarrow> taps \<Rightarrow> u64 \<Rightarrow> 'r cosim_host \<Rightarrow> bool \<times> 'r cosim_host" where
  "cosim_host_cycle sim_enable_x87 ref tb t h =
     (if \<not> g_enabled h \<or> g_failed h then (\<not> g_failed h, h)
      else
        (let h = count_clock ref tb t h
         in if \<not> cosim_cpu_reset_n tb
            then (True, h\<lparr>g_resets := (if g_running h then g_resets h + 1 else g_resets h), g_running := False\<rparr>)
            else
              (let h = start_running ref h; h = h\<lparr>g_ref := cosim_set_a20 ref (cosim_a20 tb) (g_ref h)\<rparr>
               in andthen (andthen (andthen (andthen (cycle_dma ref tb h) (cycle_dreq ref tb t)) (cycle_drd ref tb))
                    (cycle_fst ref tb t)) (cycle_issue sim_enable_x87 ref tb t))))"

definition cosim_host_snapshot_ready :: "'r cosim86 \<Rightarrow> taps \<Rightarrow> 'r cosim_host \<Rightarrow> bool" where
  "cosim_host_snapshot_ready ref tb h \<longleftrightarrow>
     g_enabled h \<and> g_running h \<and> \<not> g_failed h \<and> g_snap_candidate h \<and> cosim_cpu_reset_n tb \<and> cosim_bus_quiet tb \<and>
     \<not> (cosim_issue tb \<or> cosim_dreq_acc tb \<or> cosim_fst_acc tb \<or> cosim_drd_done tb \<or> cosim_dma_wr tb) \<and>
     cosim_snapshot_ok ref (g_ref h)"

section \<open>Snapshot memory\<close>

text \<open>
  The RAM part of a portable snapshot: a keyframe in the directory of keys and the pages that differ
  from it. A file is its uncompressed content (\<open>zfile.h\<close> pipes it through \<open>zstd\<close>, which is lossless);
  \<open>can_open\<close> says whether a file can be opened for writing, and writes to an open file succeed.
\<close>

definition kRamDiffMagic :: u32 where "kRamDiffMagic = 0x46445241"
definition kPage :: nat where "kPage = 4096"

record ram_key =
  g_key_ram :: bytes
  g_key_name :: string
  g_key_uses :: u32

definition ram_page :: "nat \<Rightarrow> bytes \<Rightarrow> bytes" where
  "ram_page p ram = take kPage (drop (p * kPage) ram)"

definition diff_pages :: "bytes \<Rightarrow> bytes \<Rightarrow> nat list" where
  "diff_pages ram key = filter (\<lambda>p. ram_page p ram \<noteq> ram_page p key) [0..<length ram div kPage]"

fun decimal :: "nat \<Rightarrow> nat \<Rightarrow> string" where
  "decimal 0 n = []"
| "decimal (Suc w) n = decimal w (n div 10) @ [char_of (48 + n mod 10)]"

text \<open>\<open>%016llu\<close>: at least sixteen digits, and up to twenty when the number needs them.\<close>

definition key_file :: "u64 \<Rightarrow> string" where
  "key_file cycle =
     (let n = unat cycle; w = (if n < 10 ^ 16 then 16 else if n < 10 ^ 17 then 17 else if n < 10 ^ 18 then 18 else if n < 10 ^ 19 then 19 else 20)
      in ''key_'' @ decimal w n @ ''.ram.zst'')"

definition write_ram_diff :: "bytes \<Rightarrow> string \<Rightarrow> nat list \<Rightarrow> bytes" where
  "write_ram_diff ram key diff =
     le_bytes 4 kRamDiffMagic @ le_bytes 8 (of_nat (length ram) :: u64) @ le_bytes 4 (of_nat (length key) :: u32) @
     bytes_of key @ le_bytes 4 (of_nat (length diff) :: u32) @
     concat (map (\<lambda>p. le_bytes 4 (of_nat p :: u32) @ ram_page p ram) diff)"

definition save_ram_portable ::
    "(string \<Rightarrow> bool) \<Rightarrow> u64 \<Rightarrow> bytes \<Rightarrow> ram_key \<Rightarrow> (string \<rightharpoonup> bytes) \<Rightarrow> (bytes \<times> ram_key \<times> (string \<rightharpoonup> bytes)) option" where
  "save_ram_portable can_open cycle ram k keys =
     (let same_size = (length (g_key_ram k) = length ram);
          diff = (if same_size then diff_pages ram (g_key_ram k) else []);
          pages = length ram div kPage;
          new_key = (\<not> same_size \<or> pages div 4 < length diff \<or> 32 \<le> g_key_uses k);
          name = key_file cycle
      in if new_key \<and> \<not> can_open name then None
         else
           (let k' = (if new_key then \<lparr>g_key_ram = ram, g_key_name = name, g_key_uses = 0\<rparr> else k);
                keys' = (if new_key then keys(name \<mapsto> ram) else keys);
                k' = k'\<lparr>g_key_uses := g_key_uses k' + 1\<rparr>
            in if \<not> can_open ''ram.diff.zst'' then None
               else Some (write_ram_diff ram (g_key_name k') (if new_key then [] else diff), k', keys')))"

definition get_u32 :: "bytes \<Rightarrow> (u32 \<times> bytes) option" where
  "get_u32 f = (if 4 \<le> length f then Some (le_word (take 4 f), drop 4 f) else None)"

definition get_u64 :: "bytes \<Rightarrow> (u64 \<times> bytes) option" where
  "get_u64 f = (if 8 \<le> length f then Some (le_word (take 8 f), drop 8 f) else None)"

definition get_bytes :: "nat \<Rightarrow> bytes \<Rightarrow> (bytes \<times> bytes) option" where
  "get_bytes n f = (if n \<le> length f then Some (take n f, drop n f) else None)"

fun load_pages :: "nat \<Rightarrow> bytes \<Rightarrow> bytes \<Rightarrow> bytes option" where
  "load_pages 0 f ram = Some ram"
| "load_pages (Suc n) f ram =
     (case get_u32 f of None \<Rightarrow> None
      | Some (p, f) \<Rightarrow>
          if unat p * kPage < length ram then
            (case get_bytes kPage f of None \<Rightarrow> None
             | Some (bs, f) \<Rightarrow> load_pages n f (overwrite (unat p * kPage) bs ram))
          else None)"

definition load_ram_portable :: "nat \<Rightarrow> (string \<rightharpoonup> bytes) \<Rightarrow> bytes \<Rightarrow> bytes option" where
  "load_ram_portable ram_size keys d =
     (case get_u32 d of None \<Rightarrow> None | Some (magic, d) \<Rightarrow>
      if magic \<noteq> kRamDiffMagic then None else
      case get_u64 d of None \<Rightarrow> None | Some (sz, d) \<Rightarrow>
      if unat sz \<noteq> ram_size then None else
      case get_u32 d of None \<Rightarrow> None | Some (len, d) \<Rightarrow>
      case get_bytes (unat len) d of None \<Rightarrow> None | Some (key, d) \<Rightarrow>
      case get_u32 d of None \<Rightarrow> None | Some (n, d) \<Rightarrow>
      case keys (map char_of_byte key) of None \<Rightarrow> None | Some content \<Rightarrow>
      case get_bytes (unat sz) content of None \<Rightarrow> None | Some (ram, _) \<Rightarrow>
      load_pages (unat n) d ram)"

section \<open>What a clock leaves\<close>

text \<open>The comparisons leave the reference, the queues and the pending flag alone.\<close>

definition same_frame :: "'r cosim_host \<Rightarrow> 'r cosim_host \<Rightarrow> bool" where
  "same_frame h h' \<longleftrightarrow> g_ref h' = g_ref h \<and> g_issues h' = g_issues h \<and> g_have_cur h' = g_have_cur h \<and>
     g_reads h' = g_reads h \<and> g_vectors h' = g_vectors h \<and> g_running h' = g_running h \<and> g_enabled h' = g_enabled h"

text \<open>A result that says whether a divergence was recorded, for a host that had none before.\<close>

definition reports :: "bool \<times> 'r cosim_host \<Rightarrow> bool" where
  "reports p \<longleftrightarrow> g_failed (snd p) = (\<not> fst p)"

lemma same_frame_simps [simp]:
  "same_frame h h"
  "same_frame (h\<lparr>g_reg_miss := m\<rparr>) h' = same_frame h h'"
  "same_frame (h\<lparr>g_reg_first := f\<rparr>) h' = same_frame h h'"
  "same_frame h (h'\<lparr>g_reg_miss := m\<rparr>) = same_frame h h'"
  "same_frame h (h'\<lparr>g_reg_first := f\<rparr>) = same_frame h h'"
  "same_frame h (diverge h') = same_frame h h'"
  by (simp_all add: same_frame_def diverge_def)

lemma check_regs_frame: "check_regs ref ev rs h = (ok, h') \<Longrightarrow> same_frame h h'"
proof (induction rs arbitrary: h)
  case (Cons r rs)
  have "same_frame (h\<lparr>g_reg_miss := m\<rparr>) h'" if "check_regs ref ev rs (h\<lparr>g_reg_miss := m\<rparr>) = (ok, h')" for m
    using Cons.IH that by blast
  moreover have "same_frame (h\<lparr>g_reg_first := f, g_reg_miss := m\<rparr>) h'"
    if "check_regs ref ev rs (h\<lparr>g_reg_first := f, g_reg_miss := m\<rparr>) = (ok, h')" for f m
    using Cons.IH that by blast
  ultimately show ?case using Cons.prems by (simp add: Let_def split: if_splits) auto
qed simp

lemma check_regs_reports: "\<not> g_failed h \<Longrightarrow> reports (check_regs ref ev rs h)"
  by (induction ref ev rs h rule: check_regs.induct)
    (auto simp: reports_def diverge_def Let_def)

lemma check_registers_frame: "check_registers ref ev h = (ok, h') \<Longrightarrow> same_frame h h'"
  by (auto simp: check_registers_def check_regs_frame)

lemma check_x87_frame: "check_x87 x ref tb ev h = (ok, h') \<Longrightarrow> same_frame h h'"
  by (auto simp: check_x87_def same_frame_def diverge_def Let_def split: if_splits option.splits)

lemma check_x87_reports: "\<not> g_failed h \<Longrightarrow> reports (check_x87 x ref tb ev h)"
  by (simp add: check_x87_def reports_def diverge_def Let_def split: option.split)

definition issue_reports :: "issue_result \<times> 'r cosim_host \<Rightarrow> bool" where
  "issue_reports p \<longleftrightarrow> g_failed (snd p) = (fst p = Failed)"

lemma accept_issue_reports: "\<not> g_failed h \<Longrightarrow> issue_reports (accept_issue x ref tb ev h)"
proof -
  assume f: "\<not> g_failed h"
  obtain ok1 h1 where c1: "check_registers ref ev (h\<lparr>g_squash_ok := False, g_have_cur := True\<rparr>) = (ok1, h1)"
    by (cases "check_registers ref ev (h\<lparr>g_squash_ok := False, g_have_cur := True\<rparr>)")
  have r1: "g_failed h1 = (\<not> ok1)"
    using check_regs_reports [of "h\<lparr>g_squash_ok := False, g_have_cur := True\<rparr>" ref ev "[0..<8]"] f c1
    by (simp add: check_registers_def reports_def)
  show ?thesis
  proof (cases ok1)
    case True
    then show ?thesis
      using r1 c1 check_x87_reports [of h1 x ref tb ev]
      by (auto simp: accept_issue_def issue_reports_def reports_def split: prod.split bool.split)
  qed (use r1 c1 in \<open>simp add: accept_issue_def issue_reports_def\<close>)
qed

lemma fetch_fault_reports: "\<not> g_failed h \<Longrightarrow> issue_reports (fetch_fault x ref tb ev h)"
  by (auto simp: fetch_fault_def accept_issue_reports Let_def issue_reports_def [of "(Failed, _)"] diverge_def split: prod.split)

lemma squash_reports: "\<not> g_failed h \<Longrightarrow> issue_reports (squash x ref tb ev h)"
  by (auto simp: squash_def fetch_fault_reports issue_reports_def [of "(Popped, _)"])

lemma deliver_irq_reports: "\<not> g_failed h \<Longrightarrow> issue_reports (deliver_irq x ref tb ev h)"
  by (auto simp: deliver_irq_def squash_reports Let_def issue_reports_def [of "(Failed, _)"] diverge_def split: prod.split)

lemma process_issue_reports: "\<not> g_failed h \<Longrightarrow> issue_reports (process_issue x ref tb ev h)"
proof -
  assume "\<not> g_failed h"
  then have "\<not> g_failed (drop_restarted ref h)" by (simp add: drop_restarted_def)
  then show ?thesis
    by (auto simp: process_issue_def deliver_irq_reports Let_def issue_reports_def [of "(Failed, _)"]
        issue_reports_def [of "(Retry, _)"] diverge_def split: prod.split cosim_result.split)
qed

lemma issue_loop_reports: "\<not> g_failed h \<Longrightarrow> reports (issue_loop x ref tb evs h)"
proof (induction evs arbitrary: h)
  case (Cons ev evs)
  then show ?case
    using process_issue_reports [OF Cons.prems, of x ref tb ev]
    by (auto simp: issue_reports_def split: prod.split issue_result.split) (auto simp: reports_def)
qed (simp add: reports_def)

lemma reports_andthen:
  "reports p \<Longrightarrow> (\<And>h. \<not> g_failed h \<Longrightarrow> reports (f h)) \<Longrightarrow> reports (andthen p f)"
  by (auto simp: andthen_def reports_def)

lemma reports_each_byte:
  "(\<And>i h. \<not> g_failed h \<Longrightarrow> reports (f i h)) \<Longrightarrow> \<not> g_failed h \<Longrightarrow> reports (each_byte f be is h)"
proof (induction f be "is" h rule: each_byte.induct)
  case (2 f be i "is" h)
  have "reports (f i h)" using 2 by simp
  then show ?case using 2 by (cases "f i h") (auto split: bool.split simp: reports_def)
qed (simp add: reports_def)

lemma reports_checked: "\<not> g_failed h \<Longrightarrow> reports (checked rs h)"
  by (simp add: checked_def reports_def diverge_def Let_def)

lemma failed_log_write [simp]: "g_failed (log_write t a b p h) = g_failed h"
  by (simp add: log_write_def)

lemma reports_True [simp]: "reports (True, h) = (\<not> g_failed h)" "reports (False, diverge h)"
  by (simp_all add: reports_def diverge_def)

lemma phase_reports:
  assumes "\<not> g_failed h"
  shows "reports (cycle_dma ref tb h)" "reports (cycle_dreq ref tb t h)" "reports (cycle_drd ref tb h)"
    "reports (cycle_fst ref tb t h)" "reports (cycle_issue x ref tb t h)"
proof -
  show "reports (cycle_dma ref tb h)" using assms by (auto simp: cycle_dma_def intro!: reports_each_byte)
  show "reports (cycle_dreq ref tb t h)"
    using assms by (auto simp: cycle_dreq_def dreq_byte_def Let_def intro!: reports_each_byte reports_checked)
  show "reports (cycle_drd ref tb h)"
    using assms by (auto simp: cycle_drd_def drd_byte_def Let_def intro!: reports_each_byte split: list.split)
  show "reports (cycle_fst ref tb t h)"
    using assms by (auto simp: cycle_fst_def Let_def intro!: reports_each_byte reports_checked)
  have f: "\<not> g_failed (take_issue ref tb t h)" using assms by (simp add: take_issue_def copy_ram_def Let_def)
  then show "reports (cycle_issue x ref tb t h)"
    using issue_loop_reports [OF f, of x ref tb "g_issues (take_issue ref tb t h)"]
    by (auto simp: cycle_issue_def Let_def process_issues_def reports_def split: prod.split bool.split)
qed

lemma cycle_reports: "g_enabled h \<Longrightarrow> \<not> g_failed h \<Longrightarrow> reports (cosim_host_cycle x ref tb t h)"
proof -
  assume h: "g_enabled h" "\<not> g_failed h"
  have "\<not> g_failed (count_clock ref tb t h)" using h by (simp add: count_clock_def Let_def)
  then show ?thesis
    using h by (auto simp: cosim_host_cycle_def Let_def start_running_def intro!: reports_andthen phase_reports)
qed


section \<open>Staying in step\<close>

text \<open>What one turn of the issue loop promises when it is not a divergence.\<close>

definition in_step :: "'r cosim86 \<Rightarrow> issue_ev \<Rightarrow> issue_ev list \<Rightarrow> issue_result \<times> 'r cosim_host \<Rightarrow> bool" where
  "in_step ref ev evs p \<longleftrightarrow>
     (case p of (Popped, h') \<Rightarrow> g_issues h' = evs \<and> (g_have_cur h' \<longrightarrow> same_pc ref ev h')
      | (Retry, h') \<Rightarrow> g_issues h' = ev # evs
      | (Failed, _) \<Rightarrow> True)"

lemma accept_in_step:
  assumes "same_pc ref ev h" and "g_issues h = ev # evs"
  shows "in_step ref ev evs (accept_issue x ref tb ev h)"
proof -
  obtain ok1 h1 where c1: "check_registers ref ev (h\<lparr>g_squash_ok := False, g_have_cur := True\<rparr>) = (ok1, h1)"
    by (cases "check_registers ref ev (h\<lparr>g_squash_ok := False, g_have_cur := True\<rparr>)")
  obtain ok2 h2 where c2: "check_x87 x ref tb ev h1 = (ok2, h2)" by (cases "check_x87 x ref tb ev h1")
  have "g_ref h2 = g_ref h" "g_issues h2 = ev # evs"
    using check_registers_frame [OF c1] check_x87_frame [OF c2] assms(2) by (simp_all add: same_frame_def)
  then show ?thesis
    using assms(1) c1 c2 by (cases ok1; cases ok2) (simp_all add: accept_issue_def in_step_def same_pc_def)
qed

lemma in_step_simps [simp]: "in_step ref ev evs (Failed, h)" "in_step ref ev evs (Retry, h) = (g_issues h = ev # evs)"
  by (simp_all add: in_step_def)

lemma same_pc_upd [simp]:
  "same_pc ref ev (h\<lparr>g_vectors := v\<rparr>) = same_pc ref ev h"
  "same_pc ref ev (h\<lparr>g_irqs := n\<rparr>) = same_pc ref ev h"
  by (simp_all add: same_pc_def)

lemma fetch_fault_in_step: "g_issues h = ev # evs \<Longrightarrow> in_step ref ev evs (fetch_fault x ref tb ev h)"
  by (auto simp: fetch_fault_def Let_def accept_in_step split: prod.split)

lemma squash_in_step:
  "g_issues h = ev # evs \<Longrightarrow> \<not> g_have_cur h \<Longrightarrow> in_step ref ev evs (squash x ref tb ev h)"
  by (auto simp: squash_def fetch_fault_in_step) (simp add: in_step_def)

lemma deliver_irq_in_step:
  "g_issues h = ev # evs \<Longrightarrow> \<not> g_have_cur h \<Longrightarrow> in_step ref ev evs (deliver_irq x ref tb ev h)"
  by (auto simp: deliver_irq_def Let_def squash_in_step split: prod.split)

lemma process_issue_in_step: "g_issues h = ev # evs \<Longrightarrow> in_step ref ev evs (process_issue x ref tb ev h)"
proof -
  assume "g_issues h = ev # evs"
  then have "g_issues (drop_restarted ref h) = ev # evs" by (simp add: drop_restarted_def)
  then show ?thesis
    by (auto simp: process_issue_def Let_def deliver_irq_in_step split: prod.split cosim_result.split)
qed

lemma issue_loop_in_step:
  "issue_loop x ref tb evs h = (True, h') \<Longrightarrow> g_issues h = evs \<Longrightarrow> evs \<noteq> [] \<Longrightarrow> g_issues h' = [] \<Longrightarrow>
   g_have_cur h' \<Longrightarrow> same_pc ref (last evs) h'"
proof (induction evs arbitrary: h)
  case (Cons ev evs)
  obtain r h1 where r: "process_issue x ref tb ev h = (r, h1)" by (cases "process_issue x ref tb ev h")
  have s: "in_step ref ev evs (r, h1)" using process_issue_in_step [OF Cons.prems(2)] r by metis
  show ?case
  proof (cases r)
    case Popped
    then show ?thesis using Cons r s by (cases "evs = []") (auto simp: in_step_def)
  qed (use Cons.prems r s in \<open>auto simp: in_step_def\<close>)
qed simp

lemma cycle_issue_in_step:
  assumes "cycle_issue x ref tb t h = (True, h')" and "g_snap_candidate h' \<or> cosim_issue tb \<and> g_issues h' = [] \<and> g_have_cur h'"
  shows "cosim_eip ref (g_ref h') = cosim_issue_eip tb \<and> ucast (cosim_cs ref (g_ref h')) = cosim_issue_cs tb \<and>
    g_snap_candidate h' = snap_candidate tb h'"
proof -
  let ?h = "take_issue ref tb t h"
  obtain ok h1 where p: "(if g_issues ?h = [] then (True, ?h) else process_issues x ref tb ?h) = (ok, h1)"
    by fastforce
  have ok: "ok" and h': "h' = h1\<lparr>g_snap_candidate := snap_candidate tb h1\<rparr>"
    using assms(1) p by (auto simp: cycle_issue_def Let_def split: bool.splits)
  have c: "cosim_issue tb" "g_issues h1 = []" "g_have_cur h1"
    using assms(2) h' by (auto simp: snap_candidate_def)
  then have "g_issues ?h \<noteq> []" and l: "ev_eip (last (g_issues ?h)) = cosim_issue_eip tb" "ev_cs (last (g_issues ?h)) = cosim_issue_cs tb"
    by (simp_all add: take_issue_def Let_def)
  then have "same_pc ref (last (g_issues ?h)) h1"
    using issue_loop_in_step [of x ref tb "g_issues ?h" ?h h1] p c ok by (simp add: process_issues_def)
  then show ?thesis using l h' by (simp add: same_pc_def snap_candidate_def)
qed


lemma cycle_split:
  assumes "cosim_host_cycle x ref tb t h = (True, h')" and "g_enabled h" and "g_running h'"
  obtains h0 where "cycle_issue x ref tb t h0 = (True, h')"
proof -
  let ?h1 = "count_clock ref tb t h"
  let ?h2 = "(start_running ref ?h1)\<lparr>g_ref := cosim_set_a20 ref (cosim_a20 tb) (g_ref (start_running ref ?h1))\<rparr>"
  have f: "\<not> g_failed h" using assms(1, 2) by (auto simp: cosim_host_cycle_def split: if_splits)
  have r: "cosim_cpu_reset_n tb"
  proof (rule ccontr)
    assume "\<not> cosim_cpu_reset_n tb"
    then have "h' = ?h1\<lparr>g_resets := (if g_running ?h1 then g_resets ?h1 + 1 else g_resets ?h1), g_running := False\<rparr>"
      using assms(1, 2) f by (simp add: cosim_host_cycle_def Let_def)
    then show False using assms(3) by simp
  qed
  let ?p = "andthen (andthen (andthen (cycle_dma ref tb ?h2) (cycle_dreq ref tb t)) (cycle_drd ref tb)) (cycle_fst ref tb t)"
  have "andthen ?p (cycle_issue x ref tb t) = (True, h')"
    using assms(1, 2) f r by (simp add: cosim_host_cycle_def Let_def)
  then have "cycle_issue x ref tb t (snd ?p) = (True, h')"
    unfolding andthen_def [of ?p] by (cases ?p) (auto split: if_splits)
  then show thesis by (rule that)
qed

text \<open>
  C19: a snapshot is only taken where the two processors agree. If after a clock the host says that a
  snapshot may be taken, nothing is outstanding (no issued instruction, read or interrupt vector is
  queued), and the reference stands at exactly the instruction (segment and offset) that z486 issued in
  that clock and has not run.
\<close>

theorem cosim_snapshot_consistent:
  assumes "cosim_host_cycle x ref tb t h = (ok, h')" and "g_enabled h"
    and "cosim_host_snapshot_ready ref tb' h'"
  shows "g_issues h' = [] \<and> g_reads h' = [] \<and> g_vectors h' = [] \<and> g_have_cur h' \<and>
    cosim_eip ref (g_ref h') = cosim_issue_eip tb \<and> ucast (cosim_cs ref (g_ref h')) = cosim_issue_cs tb"
proof -
  have r: "g_running h'" "\<not> g_failed h'" "g_snap_candidate h'"
    using assms(3) by (auto simp: cosim_host_snapshot_ready_def)
  have ok
    using r(2) assms(1) cycle_reports [OF assms(2), of x ref tb t]
    by (cases "g_failed h") (auto simp: reports_def cosim_host_cycle_def)
  then obtain h0 where c: "cycle_issue x ref tb t h0 = (True, h')"
    using cycle_split [of x ref tb t h h'] assms(1, 2) r(1) by auto
  show ?thesis using cycle_issue_in_step [OF c] r(3) by (simp add: snap_candidate_def)
qed

section \<open>Verdicts\<close>

text \<open>
  what the clock returns is the verdict. For an enabled host the result is false exactly when a
  divergence is recorded afterwards, and once one is recorded nothing changes any more.
\<close>

theorem cosim_result_is_verdict:
  assumes "g_enabled h" and "cosim_host_cycle x ref tb t h = (ok, h')"
  shows "ok = (\<not> g_failed h') \<and> (g_failed h \<longrightarrow> h' = h)"
proof (cases "g_failed h")
  case False
  then show ?thesis using cycle_reports [OF assms(1), of x ref tb t] assms(2) by (simp add: reports_def)
qed (use assms in \<open>auto simp: cosim_host_cycle_def\<close>)

section \<open>Register differences\<close>

text \<open>The counts of consecutive differences, and when the check reports one.\<close>

definition differs :: "'r cosim86 \<Rightarrow> issue_ev \<Rightarrow> 'r \<Rightarrow> nat \<Rightarrow> bool" where
  "differs ref ev s r \<longleftrightarrow> ev_gpr ev ! r \<noteq> cosim_reg ref r s"

definition reg_counts :: "'r cosim_host \<Rightarrow> bool" where
  "reg_counts h \<longleftrightarrow> length (g_reg_miss h) = 8 \<and> (\<forall>r<8. g_reg_miss h ! r < kRegPersist)"

lemma check_regs_counts:
  assumes "check_regs ref ev rs h = (ok, h')" and "distinct rs" and "\<forall>r\<in>set rs. r < length (g_reg_miss h)"
  shows "(ok \<longleftrightarrow> (\<forall>r\<in>set rs. differs ref ev (g_ref h) r \<longrightarrow> g_reg_miss h ! r + 1 < kRegPersist)) \<and>
    (ok \<longrightarrow> length (g_reg_miss h') = length (g_reg_miss h) \<and>
      (\<forall>r<length (g_reg_miss h). g_reg_miss h' ! r =
        (if r \<in> set rs then if differs ref ev (g_ref h) r then g_reg_miss h ! r + 1 else 0 else g_reg_miss h ! r)))"
  using assms
proof (induction rs arbitrary: h)
  case (Cons r rs)
  let ?n = "if differs ref ev (g_ref h) r then g_reg_miss h ! r + 1 else 0"
  define g where "g = (if differs ref ev (g_ref h) r \<and> g_reg_miss h ! r = 0
    then h\<lparr>g_reg_first := (g_reg_first h)[r := cosim_instructions ref (g_ref h)]\<rparr> else h)\<lparr>g_reg_miss := (g_reg_miss h)[r := ?n]\<rparr>"
  have g: "g_ref g = g_ref h" "g_reg_miss g = (g_reg_miss h)[r := ?n]" by (simp_all add: g_def)
  show ?case
  proof (cases "differs ref ev (g_ref h) r \<and> kRegPersist \<le> g_reg_miss h ! r + 1")
    case True
    then have "\<not> ok" using Cons.prems(1) by (auto simp: differs_def Let_def split: if_splits)
    then show ?thesis using True by (auto simp: not_less)
  next
    case False
    then have "check_regs ref ev rs g = (ok, h')"
      using Cons.prems(1) by (auto simp: differs_def Let_def g_def split: if_splits)
    then have "(ok \<longleftrightarrow> (\<forall>q\<in>set rs. differs ref ev (g_ref g) q \<longrightarrow> g_reg_miss g ! q + 1 < kRegPersist)) \<and>
      (ok \<longrightarrow> length (g_reg_miss h') = length (g_reg_miss g) \<and>
        (\<forall>q<length (g_reg_miss g). g_reg_miss h' ! q =
          (if q \<in> set rs then if differs ref ev (g_ref g) q then g_reg_miss g ! q + 1 else 0 else g_reg_miss g ! q)))"
      using Cons.prems g by (intro Cons.IH) auto
    moreover have "g_reg_miss g ! q = g_reg_miss h ! q" if "q \<in> set rs" for q
      using that Cons.prems(2) g by (cases "r = q") auto
    ultimately show ?thesis using False Cons.prems(2, 3) g
      by (auto simp: not_le nth_list_update)
  qed
qed simp

lemma check_registers_counts:
  assumes "check_registers ref ev h = (ok, h')" and "length (g_reg_miss h) = 8"
  shows "ok \<longleftrightarrow> (\<forall>r<8. differs ref ev (g_ref h) r \<longrightarrow> g_reg_miss h ! r + 1 < kRegPersist)"
    and "ok \<Longrightarrow> length (g_reg_miss h') = 8"
    and "ok \<Longrightarrow> r < 8 \<Longrightarrow> g_reg_miss h' ! r = (if differs ref ev (g_ref h) r then g_reg_miss h ! r + 1 else 0)"
proof -
  have c: "check_regs ref ev [0..<8] h = (ok, h')" using assms(1) by (simp only: check_registers_def)
  note cc = check_regs_counts [OF c, unfolded set_upt assms(2), simplified]
  show "ok \<longleftrightarrow> (\<forall>r<8. differs ref ev (g_ref h) r \<longrightarrow> g_reg_miss h ! r + 1 < kRegPersist)"
    using cc by (simp only: Ball_def lessThan_iff atLeast0LessThan)
  show "ok \<Longrightarrow> length (g_reg_miss h') = 8" using cc by blast
  show "ok \<Longrightarrow> r < 8 \<Longrightarrow> g_reg_miss h' ! r = (if differs ref ev (g_ref h) r then g_reg_miss h ! r + 1 else 0)"
    using cc by fastforce
qed

text \<open>A run of checks, each against the state the reference has at that issue.\<close>

fun reg_checks :: "'r cosim86 \<Rightarrow> (issue_ev \<times> 'r) list \<Rightarrow> 'r cosim_host \<Rightarrow> bool" where
  "reg_checks ref [] h = True"
| "reg_checks ref ((ev, s) # xs) h =
     (case check_registers ref ev (h\<lparr>g_ref := s\<rparr>) of (ok, h) \<Rightarrow> ok \<and> reg_checks ref xs h)"

definition differ_at :: "'r cosim86 \<Rightarrow> (issue_ev \<times> 'r) list \<Rightarrow> nat \<Rightarrow> nat \<Rightarrow> bool" where
  "differ_at ref xs r i \<longleftrightarrow> differs ref (fst (xs ! i)) (snd (xs ! i)) r"

text \<open>A register's difference count reaches the limit: right at the start, or in a later run of 64.\<close>

definition persists :: "'r cosim86 \<Rightarrow> nat \<Rightarrow> nat \<Rightarrow> (issue_ev \<times> 'r) list \<Rightarrow> bool" where
  "persists ref m r xs \<longleftrightarrow>
     (64 - m \<le> length xs \<and> (\<forall>i<64 - m. differ_at ref xs r i)) \<or>
     (\<exists>n. n + 64 \<le> length xs \<and> (\<forall>i<64. differ_at ref xs r (n + i)))"

lemma persists_zero: "persists ref 0 r xs \<longleftrightarrow> (\<exists>n. n + 64 \<le> length xs \<and> (\<forall>i<64. differ_at ref xs r (n + i)))"
proof -
  have "(64 \<le> length xs \<and> (\<forall>i<64. differ_at ref xs r i)) \<Longrightarrow> (\<exists>n. n + 64 \<le> length xs \<and> (\<forall>i<64. differ_at ref xs r (n + i)))"
    by (rule exI [of _ 0]) simp
  then show ?thesis by (auto simp: persists_def)
qed

lemma differ_at_Cons: "differ_at ref (x # xs) r (Suc i) = differ_at ref xs r i" "differ_at ref (x # xs) r 0 = differs ref (fst x) (snd x) r"
  by (simp_all add: differ_at_def)

lemma window_Cons:
  "(\<exists>n. n + 64 \<le> length (x # xs) \<and> (\<forall>i<64. differ_at ref (x # xs) r (n + i))) \<longleftrightarrow>
     (63 \<le> length xs \<and> (\<forall>i<64. differ_at ref (x # xs) r i)) \<or>
     (\<exists>n. n + 64 \<le> length xs \<and> (\<forall>i<64. differ_at ref xs r (n + i)))" (is "?L = (?A \<or> ?B)")
proof
  assume ?L
  then obtain n where n: "n + 64 \<le> length (x # xs)" "\<forall>i<64. differ_at ref (x # xs) r (n + i)" by blast
  show "?A \<or> ?B"
  proof (cases n)
    case (Suc m)
    then show ?thesis using n by (auto simp: differ_at_Cons intro!: exI [of _ m])
  qed (use n in auto)
next
  assume "?A \<or> ?B"
  then show ?L
  proof
    assume ?A
    then show ?L by (intro exI [of _ 0]) auto
  next
    assume ?B
    then obtain n where "n + 64 \<le> length xs" "\<forall>i<64. differ_at ref xs r (n + i)" by blast
    then show ?L by (intro exI [of _ "Suc n"]) (auto simp: differ_at_Cons)
  qed
qed

lemma persists_Cons:
  assumes "m < 64"
  shows "persists ref m r (x # xs) \<longleftrightarrow>
    (if differs ref (fst x) (snd x) r then m = 63 \<or> persists ref (m + 1) r xs else persists ref 0 r xs)"
proof -
  have all: "(\<forall>i<Suc k. differ_at ref (x # xs) r i) \<longleftrightarrow> differs ref (fst x) (snd x) r \<and> (\<forall>i<k. differ_at ref xs r i)" for k
    by (auto simp: differ_at_Cons less_Suc_eq_0_disj)
  obtain k where k: "64 - m = Suc k" using assms by (cases "64 - m") auto
  have k': "64 - (m + 1) = k" "k \<le> 63" "m = 63 \<longleftrightarrow> k = 0" using k by auto
  have s: "(\<forall>i<64. differ_at ref (x # xs) r i) \<longleftrightarrow> differs ref (fst x) (snd x) r \<and> (\<forall>i<63. differ_at ref xs r i)"
    using all [of 63] by simp
  let ?D = "differs ref (fst x) (snd x) r" and ?W = "\<exists>n. n + 64 \<le> length xs \<and> (\<forall>i<64. differ_at ref xs r (n + i))"
    and ?P = "\<lambda>k. \<forall>i<k. differ_at ref xs r i"
  have left: "persists ref m r (x # xs) \<longleftrightarrow> (k \<le> length xs \<and> ?D \<and> ?P k) \<or> (63 \<le> length xs \<and> ?D \<and> ?P 63) \<or> ?W"
    unfolding persists_def window_Cons s k all by (simp only: list.size add_Suc_right add_0_right Suc_le_mono)
  have right: "persists ref (m + 1) r xs \<longleftrightarrow> (k \<le> length xs \<and> ?P k) \<or> ?W" by (simp only: persists_def k')
  have "63 \<le> length xs \<Longrightarrow> ?P 63 \<Longrightarrow> k \<le> length xs \<and> ?P k" using k'(2) by auto
  moreover have "k = 0 \<Longrightarrow> k \<le> length xs \<and> ?P k" by simp
  ultimately show ?thesis unfolding left right persists_zero k'(3) by argo
qed

lemma reg_checks_persists:
  assumes "reg_counts h"
  shows "reg_checks ref xs h \<longleftrightarrow> (\<forall>r<8. \<not> persists ref (unat (g_reg_miss h ! r)) r xs)"
  using assms
proof (induction xs arbitrary: h)
  case Nil
  have "unat (g_reg_miss h ! r) < 64" if "r < 8" for r
    using Nil that by (simp add: reg_counts_def kRegPersist_def word_less_nat_alt)
  then show ?case by (auto simp: persists_def not_le)
next
  case (Cons x xs)
  obtain ev s where x: "x = (ev, s)" by (cases x)
  let ?h = "h\<lparr>g_ref := s\<rparr>"
  obtain ok h1 where c: "check_registers ref ev ?h = (ok, h1)" by (cases "check_registers ref ev ?h")
  have len: "length (g_reg_miss ?h) = 8" using Cons.prems by (simp add: reg_counts_def)
  note cc = check_registers_counts [OF c len]
  have m: "unat (g_reg_miss h ! r) < 64" if "r < 8" for r
    using Cons.prems that by (simp add: reg_counts_def kRegPersist_def word_less_nat_alt)
  have inc: "unat (g_reg_miss h ! r + 1) = unat (g_reg_miss h ! r) + 1" if "r < 8" for r
    using m [OF that] by (simp add: unat_word_ariths(1))
  have limit: "g_reg_miss h ! r + 1 < kRegPersist \<longleftrightarrow> unat (g_reg_miss h ! r) \<noteq> 63" if "r < 8" for r
    unfolding word_less_nat_alt inc [OF that] kRegPersist_def using m [OF that] by (simp; linarith)
  have ok: "ok \<longleftrightarrow> (\<forall>r<8. differs ref ev s r \<longrightarrow> unat (g_reg_miss h ! r) \<noteq> 63)"
    using cc(1) limit by simp
  show ?case
  proof (cases ok)
    case False
    then obtain r where "r < 8" "differs ref ev s r" "unat (g_reg_miss h ! r) = 63" using ok by auto
    then have "persists ref (unat (g_reg_miss h ! r)) r (x # xs)" by (subst persists_Cons) (simp_all add: x)
    then show ?thesis using False \<open>r < 8\<close> c x by auto
  next
    case True
    have m1: "g_reg_miss h1 ! r = (if differs ref ev s r then g_reg_miss h ! r + 1 else 0)" if "r < 8" for r
      using cc(3) True that by simp
    have "g_reg_miss h1 ! r < kRegPersist" if "r < 8" for r
    proof (cases "differs ref ev s r")
      case d: True
      then show ?thesis using m1 [OF that] cc(1) True that by simp
    qed (use m1 [OF that] in \<open>simp add: kRegPersist_def\<close>)
    then have "reg_counts h1" using cc(2) True by (simp add: reg_counts_def)
    then have "reg_checks ref xs h1 \<longleftrightarrow> (\<forall>r<8. \<not> persists ref (unat (g_reg_miss h1 ! r)) r xs)" by (rule Cons.IH)
    moreover have "persists ref (unat (g_reg_miss h1 ! r)) r xs = persists ref (unat (g_reg_miss h ! r)) r (x # xs)"
      if "r < 8" for r
      using m1 [OF that] inc [OF that] m [OF that] ok True that by (auto simp: persists_Cons x)
    ultimately show ?thesis using True c x by auto
  qed
qed

text \<open>
  a register difference is reported exactly when it persists. Over any run of issues, starting
  with clear counts, the register check fails exactly when some register differs from the reference
  at 64 consecutive issues; a load that is still in flight for fewer issues is never reported.
\<close>

theorem cosim_register_persistence:
  assumes "g_reg_miss h = replicate 8 0"
  shows "reg_checks ref xs h \<longleftrightarrow>
    \<not> (\<exists>r<8. \<exists>n. n + 64 \<le> length xs \<and>
         (\<forall>i<64. ev_gpr (fst (xs ! (n + i))) ! r \<noteq> cosim_reg ref r (snd (xs ! (n + i)))))"
proof -
  have "reg_counts h" using assms by (simp add: reg_counts_def kRegPersist_def)
  then show ?thesis
    using assms reg_checks_persists [of h ref xs]
    by (simp add: persists_zero differ_at_def differs_def)
qed

section \<open>Memory copies and snapshots\<close>

lemma join_word_byte:
  "i < 2 \<Longrightarrow> ucast (drop_bit (8 * i) (ucast a OR push_bit 8 (ucast b) :: u16)) = (if i = 0 then a else b :: u8)"
proof -
  assume "i < 2"
  then have "i = 0 \<or> i = 1" by auto
  moreover have "\<not> bit a (8 + n)" for n using bit_imp_le_length [of a "8 + n"] by auto
  ultimately show ?thesis by (auto intro!: bit_word_eqI simp: bit_simps)
qed

text \<open>
  restoring a snapshot makes the two memories agree. After the reference's memory is copied to the
  SDRAM model the comparison of the two finds no difference, and the video window A0000h..BFFFFh,
  which is not memory, keeps its content; the comparison is zero exactly when every byte outside the
  window agrees.
\<close>

theorem cosim_ram_restore_agrees:
  assumes "even (length r)"
  shows "cosim_host_compare_ram r (ram_to_sdram r m) = 0 \<and>
    (\<forall>w. 0x50000 \<le> w \<and> w < 0x60000 \<longrightarrow> ram_to_sdram r m w = m w) \<and>
    (cosim_host_compare_ram r m = 0 \<longleftrightarrow>
      (\<forall>a<length r. vga_hole a \<or> ucast (drop_bit (8 * (a mod 2)) (m (a div 2))) = r ! a))"
proof -
  have hole: "vga_hole (a - a mod 2) = vga_hole a" for a
    by (cases "even a") (auto simp: vga_hole_def elim!: oddE)
  have zero: "cosim_host_compare_ram r m = 0 \<longleftrightarrow>
      (\<forall>a<length r. vga_hole a \<or> ucast (drop_bit (8 * (a mod 2)) (m (a div 2))) = r ! a)" for m
    by (auto simp: cosim_host_compare_ram_def filter_empty_conv hole)
  have "ucast (drop_bit (8 * (a mod 2)) (ram_to_sdram r m (a div 2))) = r ! a"
    if "a < length r" "\<not> vga_hole a" for a
  proof -
    have e: "2 * (a div 2) = a - a mod 2" by (simp add: minus_mod_eq_mult_div)
    then have "2 * (a div 2) < length r" "\<not> vga_hole (2 * (a div 2))" using that hole [of a] by simp_all
    then have "ram_to_sdram r m (a div 2) = ucast (r ! (2 * (a div 2))) OR push_bit 8 (ucast (r ! (2 * (a div 2) + 1)))"
      by (simp add: ram_to_sdram_def)
    then have "ucast (drop_bit (8 * (a mod 2)) (ram_to_sdram r m (a div 2))) =
        (if a mod 2 = 0 then r ! (2 * (a div 2)) else r ! (2 * (a div 2) + 1))"
      using join_word_byte [of "a mod 2"] by simp
    then show ?thesis by (cases "even a") (auto elim!: oddE)
  qed
  then have "cosim_host_compare_ram r (ram_to_sdram r m) = 0" by (auto simp: zero)
  moreover have "ram_to_sdram r m w = m w" if "0x50000 \<le> w \<and> w < 0x60000" for w
    using that by (auto simp: ram_to_sdram_def vga_hole_def)
  ultimately show ?thesis using zero by blast
qed

theorem cosim_ram_restore_agrees_witness:
  "cosim_host_compare_ram [1, 2, 3, 4] (ram_to_sdram [1, 2, 3, 4] (\<lambda>_. 0)) = 0"
  using cosim_ram_restore_agrees [of "[1, 2, 3, 4]" "\<lambda>_. 0"] by simp

definition patch_pages :: "bytes \<Rightarrow> nat list \<Rightarrow> bytes \<Rightarrow> bytes" where
  "patch_pages ram ps base = fold (\<lambda>p r. overwrite (p * kPage) (ram_page p ram) r) ps base"

lemma length_ram_page: "p < length ram div kPage \<Longrightarrow> length (ram_page p ram) = kPage"
proof -
  assume "p < length ram div kPage"
  then have "Suc p * kPage \<le> length ram" by (metis Suc_leI div_times_less_eq_dividend le_trans mult_le_mono1)
  then show ?thesis by (simp add: ram_page_def)
qed

lemma page_fits: "p < length ram div kPage \<Longrightarrow> p * kPage + kPage \<le> length ram"
  by (metis Suc_leI add.commute div_times_less_eq_dividend le_trans mult_Suc mult_le_mono1)

lemma nth_ram_page: "p < length ram div kPage \<Longrightarrow> i < kPage \<Longrightarrow> ram_page p ram ! i = ram ! (p * kPage + i)"
  using page_fits [of p ram] by (simp add: ram_page_def)

lemma patch_pages_nth:
  assumes "length base = length ram" and "\<forall>p\<in>set ps. p < length ram div kPage"
  shows "length (patch_pages ram ps base) = length ram"
    and "i < length ram \<Longrightarrow> patch_pages ram ps base ! i = (if i div kPage \<in> set ps then ram ! i else base ! i)"
proof -
  have "length (patch_pages ram ps base) = length ram \<and>
    (\<forall>i<length ram. patch_pages ram ps base ! i = (if i div kPage \<in> set ps then ram ! i else base ! i))"
    using assms
  proof (induction ps rule: rev_induct)
    case (snoc p ps)
    let ?b = "patch_pages ram ps base"
    have b: "length ?b = length ram" "\<forall>i<length ram. ?b ! i = (if i div kPage \<in> set ps then ram ! i else base ! i)"
      using snoc by auto
    have p: "p < length ram div kPage" using snoc.prems by simp
    have u: "patch_pages ram (ps @ [p]) base = overwrite (p * kPage) (ram_page p ram) ?b"
      by (simp add: patch_pages_def)
    have in_page: "p * kPage \<le> i \<and> i < p * kPage + kPage \<longleftrightarrow> i div kPage = p" for i
      by (simp add: kPage_def) linarith
    have "ram_page p ram ! (i - p * kPage) = ram ! i" if "i div kPage = p" for i
    proof -
      have "p * kPage \<le> i" "i < p * kPage + kPage" using that in_page [of i] by blast+
      moreover from this have "i - p * kPage < kPage" by linarith
      ultimately have "p * kPage \<le> i" "i - p * kPage < kPage" by simp_all
      then show ?thesis using nth_ram_page [OF p] by simp
    qed
    then show ?case
      using b length_ram_page [OF p] page_fits [OF p] unfolding u
      by (simp add: nth_overwrite in_page)
  qed (simp add: patch_pages_def)
  then show "length (patch_pages ram ps base) = length ram"
    and "i < length ram \<Longrightarrow> patch_pages ram ps base ! i = (if i div kPage \<in> set ps then ram ! i else base ! i)" by auto
qed

lemma patch_diff_pages:
  assumes "length base = length ram" and "kPage dvd length ram"
  shows "patch_pages ram (diff_pages ram base) base = ram"
proof (rule nth_equalityI)
  have d: "\<forall>p\<in>set (diff_pages ram base). p < length ram div kPage" by (auto simp: diff_pages_def)
  show "length (patch_pages ram (diff_pages ram base) base) = length ram" by (rule patch_pages_nth [OF assms(1) d])
  fix i assume "i < length (patch_pages ram (diff_pages ram base) base)"
  then have i: "i < length ram" using patch_pages_nth(1) [OF assms(1) d] by simp
  then have p: "i div kPage < length ram div kPage" using assms(2) by (auto elim!: dvdE simp: kPage_def less_mult_imp_div_less mult.commute)
  have m: "i mod kPage < kPage" by (simp add: kPage_def)
  show "patch_pages ram (diff_pages ram base) base ! i = ram ! i"
  proof (cases "i div kPage \<in> set (diff_pages ram base)")
    case True
    then show ?thesis by (simp add: patch_pages_nth(2) [OF assms(1) d i])
  next
    case False
    then have "ram_page (i div kPage) ram = ram_page (i div kPage) base" using p by (simp add: diff_pages_def)
    then have "ram ! i = base ! i"
      using nth_ram_page [OF p m] nth_ram_page [of "i div kPage" base, OF _ m] p assms(1) by simp
    then show ?thesis using False by (simp add: patch_pages_nth(2) [OF assms(1) d i])
  qed
qed

lemma get_simps [simp]:
  "get_u32 (le_bytes 4 (w :: u32) @ f) = Some (w, f)"
  "get_u64 (le_bytes 8 (v :: u64) @ f) = Some (v, f)"
  by (simp_all add: get_u32_def get_u64_def)

lemma get_bytes_append [simp]: "n = length bs \<Longrightarrow> get_bytes n (bs @ f) = Some (bs, f)"
  by (simp add: get_bytes_def)

lemma load_pages_patch:
  assumes "length base = length ram" and "\<forall>p\<in>set ps. p < length ram div kPage" and "length ram < 2 ^ 44"
  shows "load_pages (length ps) (concat (map (\<lambda>p. le_bytes 4 (of_nat p :: u32) @ ram_page p ram) ps)) base =
    Some (patch_pages ram ps base)"
  using assms
proof (induction ps arbitrary: base)
  case (Cons p ps)
  have p: "p < length ram div kPage" using Cons.prems by simp
  then have "p < 2 ^ 32" using Cons.prems(3) by (simp add: kPage_def)
  then have u: "unat (of_nat p :: u32) = p" by (simp add: unat_of_nat)
  have "p * kPage < length base" using page_fits [OF p] Cons.prems(1) by (simp add: kPage_def)
  moreover have "length (overwrite (p * kPage) (ram_page p ram) base) = length ram"
    using page_fits [OF p] length_ram_page [OF p] Cons.prems(1) by simp
  ultimately show ?case
    using Cons.IH [of "overwrite (p * kPage) (ram_page p ram) base"] Cons.prems length_ram_page [OF p] u
    by (simp add: patch_pages_def)
qed (simp add: patch_pages_def)

definition key_saved :: "ram_key \<Rightarrow> (string \<rightharpoonup> bytes) \<Rightarrow> bool" where
  "key_saved k keys \<longleftrightarrow> length (g_key_name k) < 2 ^ 32 \<and>
     (g_key_ram k \<noteq> [] \<longrightarrow> keys (g_key_name k) = Some (g_key_ram k))"

lemma length_decimal: "length (decimal w n) = w"
  by (induction w arbitrary: n) auto

lemma length_key_file: "length (key_file c) \<le> 32"
  by (simp add: key_file_def Let_def length_decimal)

lemma map_char_bytes_of: "map char_of_byte (bytes_of s) = s"
  by (simp add: bytes_of_def o_def map_idI)

lemma load_write_ram_diff:
  assumes "keys name = Some base" and "length base = length ram" and "length name < 2 ^ 32" and "length ram < 2 ^ 44"
    and "\<forall>p\<in>set ps. p < length ram div kPage" and "length ps \<le> length ram div kPage"
  shows "load_ram_portable (length ram) keys (write_ram_diff ram name ps) = Some (patch_pages ram ps base)"
proof -
  have "length ps < 2 ^ 32" using assms(4, 6) by (simp add: kPage_def)
  then have u: "unat (of_nat (length ps) :: u32) = length ps" "unat (of_nat (length ram) :: u64) = length ram"
    "unat (of_nat (length name) :: u32) = length name"
    using assms(3, 4) by (simp_all add: unat_of_nat)
  have "length (bytes_of name) = length name" by (simp add: bytes_of_def)
  then show ?thesis
    using assms load_pages_patch [OF assms(2, 5, 4)]
    by (simp add: load_ram_portable_def write_ram_diff_def u map_char_bytes_of get_bytes_def [of _ base])
qed

text \<open>
  C8: a snapshot's memory is rebuilt exactly. Whatever the keyframe in use is, saving the reference's
  memory and loading it back from the keys gives that memory byte for byte, the keyframe in use stays
  on disk under its name, and if no key of this cycle was on disk before, every older snapshot still
  loads what it did.
\<close>

theorem cosim_ram_roundtrip:
  assumes "save_ram_portable can_open cycle ram k keys = Some (d, k', keys')"
    and "key_saved k keys" and "kPage dvd length ram" and "ram \<noteq> []" and "length ram < 2 ^ 44"
  shows "load_ram_portable (length ram) keys' d = Some ram \<and> key_saved k' keys' \<and>
    (keys (key_file cycle) = None \<longrightarrow>
      (\<forall>n d0 r0. load_ram_portable n keys d0 = Some r0 \<longrightarrow> load_ram_portable n keys' d0 = Some r0))"
proof -
  let ?same = "length (g_key_ram k) = length ram"
  let ?diff = "if ?same then diff_pages ram (g_key_ram k) else []"
  let ?new = "\<not> ?same \<or> length ram div kPage div 4 < length ?diff \<or> 32 \<le> g_key_uses k"
  have older: "load_ram_portable n keys d0 = Some r0 \<longrightarrow> load_ram_portable n (keys(f \<mapsto> c)) d0 = Some r0"
    if "keys f = None" for n d0 r0 f c
    using that by (auto simp: load_ram_portable_def split: option.splits prod.splits if_splits)
  show ?thesis
  proof (cases ?new)
    case True
    then have d: "d = write_ram_diff ram (key_file cycle) []" "keys' = keys(key_file cycle \<mapsto> ram)"
      and k': "g_key_ram k' = ram" "g_key_name k' = key_file cycle"
      using assms(1) by (auto simp: save_ram_portable_def Let_def split: if_splits)
    have "load_ram_portable (length ram) keys' d = Some ram"
      using load_write_ram_diff [of keys' "key_file cycle" ram ram "[]"] assms(5) length_key_file [of cycle] d
      by (simp add: patch_pages_def)
    moreover have "key_saved k' keys'" using d k' length_key_file [of cycle] by (simp add: key_saved_def)
    ultimately show ?thesis using older d(2) by blast
  next
    case False
    then have d: "d = write_ram_diff ram (g_key_name k) (diff_pages ram (g_key_ram k))" "keys' = keys"
      and k': "g_key_ram k' = g_key_ram k" "g_key_name k' = g_key_name k"
      using assms(1) by (auto simp: save_ram_portable_def Let_def split: if_splits)
    have same: ?same using False by simp
    then have "keys (g_key_name k) = Some (g_key_ram k)" "length (g_key_name k) < 2 ^ 32"
      using assms(2, 4) by (auto simp: key_saved_def)
    then have "load_ram_portable (length ram) keys d = Some (patch_pages ram (diff_pages ram (g_key_ram k)) (g_key_ram k))"
      unfolding d(1) using same assms(5)
      by (intro load_write_ram_diff) (auto simp: diff_pages_def intro: order_trans [OF length_filter_le])
    then show ?thesis using patch_diff_pages [OF same assms(3)] assms(2) d(2) k' by (simp add: key_saved_def)
  qed
qed

theorem cosim_ram_roundtrip_witness:
  "\<exists>d k' keys'. save_ram_portable (\<lambda>_. True) 5 (replicate kPage 7) \<lparr>g_key_ram = [], g_key_name = [], g_key_uses = 0\<rparr> Map.empty =
      Some (d, k', keys') \<and> load_ram_portable kPage keys' d = Some (replicate kPage 7)"
proof -
  obtain d k' keys' where s: "save_ram_portable (\<lambda>_. True) 5 (replicate kPage 7)
      \<lparr>g_key_ram = [], g_key_name = [], g_key_uses = 0\<rparr> Map.empty = Some (d, k', keys')"
    by (simp add: save_ram_portable_def Let_def)
  have "key_saved \<lparr>g_key_ram = [], g_key_name = [], g_key_uses = 0\<rparr> Map.empty" by (simp add: key_saved_def)
  then show ?thesis using cosim_ram_roundtrip [OF s] s by (simp add: kPage_def)
qed

section \<open>Concrete instances\<close>

text \<open>A reference that only has an instruction pointer, an enabled host, and a clock that issues at the reset vector.\<close>

definition toy_ref :: "u32 cosim86" where
  "toy_ref = \<lparr>cosim_reset = (\<lambda>_. 0xFFF0), cosim_set_a20 = (\<lambda>_ s. s), cosim_set_fpu = (\<lambda>_ s. s),
     cosim_step = (\<lambda>s. (COSIM_OK, s + 1)), cosim_step_rep_to = (\<lambda>_ s. (COSIM_OK, s)),
     cosim_interrupt = (\<lambda>_ s. (COSIM_OK, s)), cosim_adopt_flags = (\<lambda>_ s. s), cosim_eip = (\<lambda>s. s),
     cosim_cs = (\<lambda>_. 0xF000), cosim_reg = (\<lambda>_ _. 0), cosim_at_rep_string = (\<lambda>_. False),
     cosim_last_fault = (\<lambda>_. - 1), cosim_instructions = (\<lambda>_. 0), cosim_dut_io_read = (\<lambda>_ _ s. s),
     cosim_dut_dev_read = (\<lambda>_ _ s. s), cosim_dut_write = (\<lambda>_ _ s. (COSIM_OK, s)),
     cosim_dut_io_write = (\<lambda>_ _ s. (COSIM_OK, s)), cosim_dma_write = (\<lambda>_ _ s. s),
     cosim_walker_write = (\<lambda>_ _ s. s), cosim_arch = (\<lambda>_. replicate 70 0), cosim_snapshot_ok = (\<lambda>_. True),
     cosim_ram = (\<lambda>_. []), cosim_put_ram = (\<lambda>_ s. s)\<rparr>"

definition host0 :: "u32 cosim_host" where
  "host0 = \<lparr>g_enabled = True, g_ram_mb = 0, g_running = False, g_failed = False, g_have_cur = False,
     g_squash_ok = False, g_ram_copied = True, g_snap_candidate = False, g_x87_on = True, g_rpti_prev = False,
     g_cur_restarted = False, g_issues = [], g_reads = [], g_vectors = [],
     g_wlog = replicate 16 \<lparr>wl_t = 0, wl_addr = 0, wl_val = 0, wl_port = CHR 0x00\<rparr>, g_wlog_n = 0,
     g_issued = 0, g_irqs = 0, g_stalls = 0, g_squashed = 0, g_resets = 0, g_cycles = 0, g_reset_cycles = 0,
     g_issue_raw = 0, g_reg_miss = replicate 8 0, g_reg_first = replicate 8 0, g_now = 0,
     g_x87_ref_last = replicate 27 0, g_x87_dirty = False, g_x87_miss = 0, g_x87_period = 0,
     g_x87_values = True, g_x87_precision = True, g_x87_checks = 0, g_ref = 0\<rparr>"

definition clock0 :: "bool \<Rightarrow> taps" where
  "clock0 issue = \<lparr>cosim_cpu_reset_n = True, cosim_x87_on = True, cosim_a20 = True, cosim_dma_wr = False,
     cosim_dma_addr = 0, cosim_dma_be = 0, cosim_dma_wdata = 0, cosim_dreq_acc = False,
     cosim_dreq_write = False, cosim_dreq_kind = 0, cosim_dreq_addr = 0, cosim_dreq_be = 0,
     cosim_dreq_wdata = 0, cosim_dreq_wdata_direct = 0, cosim_drd_done = False, cosim_drd_data = 0,
     cosim_fst_acc = False, cosim_fst_addr = 0, cosim_fst_be = 0, cosim_fst_wdata = 0, cosim_rpti = False,
     cosim_issue = issue, cosim_issue_eip = 0xFFF0, cosim_issue_cs = 0xF000, cosim_ecx = 0, cosim_eflags = 2,
     cosim_gprs = replicate 8 0, cosim_bus_quiet = True, cosim_x87 = None, sdram = (\<lambda>_. 0)\<rparr>"

lemma first_eight: "[0..<8] = [0, 1, 2, 3, 4, 5, 6, 7 :: nat]"
  by code_simp

lemma clock0_ready:
  "cosim_host_snapshot_ready toy_ref (clock0 False) (snd (cosim_host_cycle False toy_ref (clock0 True) 7 host0))"
  by (simp add: cosim_host_snapshot_ready_def cosim_host_cycle_def count_clock_def start_running_def andthen_def
      cycle_dma_def cycle_dreq_def cycle_drd_def cycle_fst_def cycle_issue_def take_issue_def copy_ram_def
      process_issues_def process_issue_def drop_restarted_def deliver_irq_def squash_def fetch_fault_def same_pc_def
      accept_issue_def check_registers_def check_x87_def snap_candidate_def host0_def clock0_def toy_ref_def ram_bytes_def
      first_eight Let_def)

theorem cosim_snapshot_consistent_witness:
  "cosim_eip toy_ref (g_ref (snd (cosim_host_cycle False toy_ref (clock0 True) 7 host0))) = 0xFFF0 \<and>
   g_have_cur (snd (cosim_host_cycle False toy_ref (clock0 True) 7 host0))"
proof -
  have e: "g_enabled host0" "cosim_issue_eip (clock0 True) = 0xFFF0" by (simp_all add: host0_def clock0_def)
  show ?thesis
    using cosim_snapshot_consistent [OF prod.collapse [symmetric] e(1) clock0_ready] e(2) by simp
qed

theorem cosim_result_is_verdict_witness:
  "g_failed (host0\<lparr>g_failed := True\<rparr>) \<and>
   cosim_host_cycle False toy_ref (clock0 True) 7 (host0\<lparr>g_failed := True\<rparr>) = (False, host0\<lparr>g_failed := True\<rparr>)"
proof -
  let ?h = "host0\<lparr>g_failed := True\<rparr>"
  obtain ok h' where c: "cosim_host_cycle False toy_ref (clock0 True) 7 ?h = (ok, h')" by fastforce
  have "g_enabled ?h" by (simp add: host0_def)
  then have "ok = (\<not> g_failed h') \<and> (g_failed ?h \<longrightarrow> h' = ?h)" using cosim_result_is_verdict c by blast
  then show ?thesis using c by simp
qed

theorem cosim_register_persistence_witness:
  "\<not> reg_checks toy_ref (replicate 64 (\<lparr>ev_eip = 0, ev_ecx = 0, ev_eflags = 0, ev_cs = 0, ev_t = 0, ev_gpr = replicate 8 1\<rparr>, 0)) host0"
proof -
  have "g_reg_miss host0 = replicate 8 0" by (simp add: host0_def)
  moreover have "\<exists>n. n + 64 \<le> length (replicate 64 x) \<and> (\<forall>i<64. P (replicate 64 x ! (n + i)))" if "P x" for P :: "'a \<Rightarrow> bool" and x
    by (rule exI [of _ 0]) (use that in simp)
  ultimately show ?thesis
    by (subst cosim_register_persistence) (auto simp: toy_ref_def intro!: exI [of _ "0::nat"])
qed

end
