(* ===== verification/Cosim_Queue.thy ===== *)
theory Cosim_Queue
  imports Cosim_Host
begin

text \<open>
  The event queues of the co-simulation reference, \<open>src/verilator/cosim/cosim86.c\<close>: growing arrays
  with a head and a tail, and the proof that they are first-in first-out lists.
\<close>

section \<open>The queue of the code\<close>

text \<open>
  \<open>ev_t\<close> is a byte of a write or read with its address, the instruction it belongs to and three
  marks; \<open>q_t\<close> is a growing array used between \<open>head\<close> and \<open>tail\<close>. \<open>realloc\<close> leaves the new cells
  unspecified; they are zero here and lie above \<open>tail\<close>.
\<close>

record ev_t =
  e_addr :: u32
  e_val :: u8
  e_done :: bool
  e_silent :: bool
  e_fpu :: bool
  e_grp :: u64

record q_t =
  q_v :: "ev_t list"
  q_head :: nat
  q_tail :: nat
  q_cap :: nat

definition ev_zero :: ev_t where
  "ev_zero = \<lparr>e_addr = 0, e_val = 0, e_done = False, e_silent = False, e_fpu = False, e_grp = 0\<rparr>"

definition q_none :: q_t where
  "q_none = \<lparr>q_v = [], q_head = 0, q_tail = 0, q_cap = 0\<rparr>"

definition q_compact :: "q_t \<Rightarrow> q_t" where
  "q_compact q = (if 0 < q_head q
     then let n = q_tail q - q_head q
          in q\<lparr>q_v := take n (drop (q_head q) (q_v q)) @ drop n (q_v q), q_tail := n, q_head := 0\<rparr>
     else q)"

definition q_grow :: "q_t \<Rightarrow> q_t" where
  "q_grow q = (if q_tail q = q_cap q
     then let c = (if q_cap q \<noteq> 0 then q_cap q * 2 else 4096)
          in q\<lparr>q_cap := c, q_v := q_v q @ replicate (c - q_cap q) ev_zero\<rparr>
     else q)"

definition q_push_ev :: "q_t \<Rightarrow> ev_t \<Rightarrow> q_t" where
  "q_push_ev q e = (let q = (if q_tail q = q_cap q then q_grow (q_compact q) else q)
     in q\<lparr>q_v := (q_v q)[q_tail q := e], q_tail := q_tail q + 1\<rparr>)"

definition q_push :: "bool \<Rightarrow> q_t \<Rightarrow> u32 \<Rightarrow> u8 \<Rightarrow> u64 \<Rightarrow> q_t" where
  "q_push cur_fpu q addr val grp = q_push_ev q
     \<lparr>e_addr = addr, e_val = val, e_done = False, e_silent = False, e_fpu = cur_fpu, e_grp = grp\<rparr>"

definition q_empty :: "q_t \<Rightarrow> bool" where
  "q_empty q \<longleftrightarrow> q_head q = q_tail q"

definition q_reset :: "q_t \<Rightarrow> q_t" where
  "q_reset q = q\<lparr>q_head := 0, q_tail := 0\<rparr>"

definition q_pop :: "q_t \<Rightarrow> q_t" where
  "q_pop q = q\<lparr>q_head := q_head q + 1\<rparr>"

section \<open>The queue as a list\<close>

definition q_wf :: "q_t \<Rightarrow> bool" where
  "q_wf q \<longleftrightarrow> q_head q \<le> q_tail q \<and> q_tail q \<le> q_cap q \<and> length (q_v q) = q_cap q"

definition q_list :: "q_t \<Rightarrow> ev_t list" where
  "q_list q = drop (q_head q) (take (q_tail q) (q_v q))"

lemma q_wf_none [simp]: "q_wf q_none" "q_list q_none = []"
  by (simp_all add: q_wf_def q_none_def q_list_def)

lemma q_wf_reset [simp]: "q_wf q \<Longrightarrow> q_wf (q_reset q)" "q_list (q_reset q) = []"
  by (simp_all add: q_wf_def q_reset_def q_list_def)

lemma length_q_list [simp]: "q_wf q \<Longrightarrow> length (q_list q) = q_tail q - q_head q"
  by (simp add: q_wf_def q_list_def)

lemma q_empty_iff: "q_wf q \<Longrightarrow> q_empty q \<longleftrightarrow> q_list q = []"
  by (auto simp: q_wf_def q_empty_def q_list_def)

lemma q_list_nth: "q_wf q \<Longrightarrow> q_head q + k < q_tail q \<Longrightarrow> q_list q ! k = q_v q ! (q_head q + k)"
  by (simp add: q_wf_def q_list_def)

lemma q_list_Cons: "q_wf q \<Longrightarrow> q_head q < q_tail q \<Longrightarrow> q_list q = q_v q ! q_head q # q_list (q_pop q)"
  using Cons_nth_drop_Suc [of "q_head q" "take (q_tail q) (q_v q)"] by (simp add: q_wf_def q_list_def q_pop_def)

lemma q_wf_pop: "q_wf q \<Longrightarrow> q_head q < q_tail q \<Longrightarrow> q_wf (q_pop q)"
  by (simp add: q_wf_def q_pop_def)

lemma q_list_pop: "q_wf q \<Longrightarrow> q_head q < q_tail q \<Longrightarrow> q_list (q_pop q) = tl (q_list q)"
  by (simp add: q_list_Cons)

lemma q_compact_wf: "q_wf q \<Longrightarrow> q_wf (q_compact q) \<and> q_list (q_compact q) = q_list q"
  by (auto simp: q_wf_def q_list_def q_compact_def Let_def take_drop min_def)

lemma q_grow_wf: "q_wf q \<Longrightarrow> q_wf (q_grow q) \<and> q_list (q_grow q) = q_list q \<and> q_tail (q_grow q) < q_cap (q_grow q)"
  by (auto simp: q_wf_def q_list_def q_grow_def Let_def)

text \<open>Compaction and growth only make room: a push appends one event to the list.\<close>

lemma q_push_ev_refines: "q_wf q \<Longrightarrow> q_wf (q_push_ev q e) \<and> q_list (q_push_ev q e) = q_list q @ [e]"
proof -
  assume w: "q_wf q"
  define p where "p = (if q_tail q = q_cap q then q_grow (q_compact q) else q)"
  have p: "q_wf p" "q_list p = q_list q" "q_tail p < q_cap p"
    using w q_compact_wf [of q] q_grow_wf [of "q_compact q"] by (auto simp: p_def q_wf_def)
  have "q_push_ev q e = p\<lparr>q_v := (q_v p)[q_tail p := e], q_tail := q_tail p + 1\<rparr>"
    by (simp add: q_push_ev_def p_def Let_def)
  then show ?thesis
    using p by (auto simp: q_wf_def q_list_def take_Suc_conv_app_nth)
qed

text \<open>
  What the comparison engine relies on: a first-in first-out store whose contents are a list.
\<close>

locale event_queue =
  fixes wf :: "'q \<Rightarrow> bool" and contents :: "'q \<Rightarrow> 'e list"
    and push :: "'q \<Rightarrow> 'e \<Rightarrow> 'q" and empty_q :: "'q \<Rightarrow> bool" and pop :: "'q \<Rightarrow> 'q"
  assumes push_wf: "wf q \<Longrightarrow> wf (push q e)"
    and push_contents: "wf q \<Longrightarrow> contents (push q e) = contents q @ [e]"
    and empty_iff: "wf q \<Longrightarrow> empty_q q \<longleftrightarrow> contents q = []"
    and pop_wf: "wf q \<Longrightarrow> \<not> empty_q q \<Longrightarrow> wf (pop q)"
    and pop_contents: "wf q \<Longrightarrow> \<not> empty_q q \<Longrightarrow> contents (pop q) = tl (contents q)"
begin

lemma pushes: "wf q \<Longrightarrow> wf (foldl push q es) \<and> contents (foldl push q es) = contents q @ es"
  by (induction es arbitrary: q) (auto simp: push_wf push_contents)

lemma push_not_empty: "wf q \<Longrightarrow> \<not> empty_q (push q e)"
  by (simp add: empty_iff push_wf push_contents)

end

interpretation evq: event_queue q_wf q_list q_push_ev q_empty q_pop
proof
  fix q e
  assume w: "q_wf q"
  show "q_wf (q_push_ev q e)" "q_list (q_push_ev q e) = q_list q @ [e]"
    using q_push_ev_refines [OF w] by auto
  show "q_empty q \<longleftrightarrow> q_list q = []"
    by (rule q_empty_iff [OF w])
  show "\<not> q_empty q \<Longrightarrow> q_wf (q_pop q)" "\<not> q_empty q \<Longrightarrow> q_list (q_pop q) = tl (q_list q)"
    using q_wf_pop [OF w] q_list_pop [OF w] w by (simp_all add: q_empty_def q_wf_def)
qed

lemma q_push_wf [simp]: "q_wf q \<Longrightarrow> q_wf (q_push fp q a v g)"
  and q_push_list [simp]: "q_wf q \<Longrightarrow> q_list (q_push fp q a v g) = q_list q @
    [\<lparr>e_addr = a, e_val = v, e_done = False, e_silent = False, e_fpu = fp, e_grp = g\<rparr>]"
  by (simp_all add: q_push_def evq.push_wf evq.push_contents)

section \<open>The queue is a first-in first-out list\<close>

datatype q_op = Push ev_t | Pop | Reset

definition q_do :: "q_t \<Rightarrow> q_op \<Rightarrow> q_t" where
  "q_do q a = (case a of Push e \<Rightarrow> q_push_ev q e | Pop \<Rightarrow> if q_empty q then q else q_pop q | Reset \<Rightarrow> q_reset q)"

definition fifo_do :: "ev_t list \<Rightarrow> q_op \<Rightarrow> ev_t list" where
  "fifo_do es a = (case a of Push e \<Rightarrow> es @ [e] | Pop \<Rightarrow> tl es | Reset \<Rightarrow> [])"

lemma q_do_refines:
  assumes "q_wf q"
  shows "q_wf (q_do q a) \<and> q_list (q_do q a) = fifo_do (q_list q) a"
proof (cases a)
  case Pop
  then show ?thesis
    using assms evq.empty_iff [OF assms] evq.pop_wf [OF assms] evq.pop_contents [OF assms] by (simp add: q_do_def fifo_do_def)
next
  case Reset
  then show ?thesis
    using assms by (simp add: q_do_def fifo_do_def q_reset_def q_wf_def q_list_def)
qed (use assms in \<open>simp add: q_do_def fifo_do_def evq.push_wf evq.push_contents\<close>)

text \<open>
  C12: Through any sequence of pushes, pops and resets from an empty queue, with the compaction and the growth of its array, the event queue behaves as an unbounded first-in first-out list and reports emptiness as one.
\<close>

theorem queue_refines_fifo:
  "q_list (foldl q_do q_none ops) = foldl fifo_do [] ops \<and> q_wf (foldl q_do q_none ops) \<and>
   q_empty (foldl q_do q_none ops) = (foldl fifo_do [] ops = [])"
proof -
  have "q_wf q \<Longrightarrow> q_wf (foldl q_do q ops) \<and> q_list (foldl q_do q ops) = foldl fifo_do (q_list q) ops" for q
    by (induction ops arbitrary: q) (simp_all add: q_do_refines)
  moreover have "q_wf q_none" "q_list q_none = []"
    by (simp_all add: q_none_def q_wf_def q_list_def)
  ultimately show ?thesis
    using evq.empty_iff by fastforce
qed

end
