(* ===== verification/Cosim_Match.thy ===== *)
theory Cosim_Match
  imports Cosim_Queue
begin

text \<open>
  The comparison of memory and I/O writes in \<open>src/verilator/cosim/cosim86.c\<close>: the state of the file,
  the hooks the reference processor calls for device reads and for every byte it writes, and the
  matching of z486's writes against the oldest reference instruction that has writes open.
\<close>

section \<open>State of the comparison\<close>

datatype cosim_err =
    WriteDiffers u32 u8 u8 u64
  | WriteOrder u32 u8 u32 u8 u64
  | IoOrder u16 u8 u32 u8 u64
  | DeviceRead u32 u32
  | IoRead u16 u32
  | TripleFault int
  | FaultNotDelivered int int
  | InterruptNotDelivered int int

text \<open>A pending fault of the reference processor: a page fault, or any other with its code.\<close>

datatype fault = Fault_none | Fault_pf | Fault_other int

text \<open>
  The file's variables and the globals of \<open>stubs.c\<close> they work with: RAM and its log of changed
  bytes, the part of a split write that reached memory, the queues, and of the reference processor
  the registers the page walk reads or sets. RAM is a function of the masked address.
\<close>

record cmp =
  c_ram :: "u32 \<Rightarrow> u8"
  rammask :: u32
  ram_bytes :: u32
  a20_on :: bool
  c_err :: "cosim_err option"
  ninsn :: u64
  c_stall :: bool
  mem_log :: "(u32 \<times> u8 \<times> u8) list"
  partial_w :: "(u32 \<times> u8) list"
  split_probe :: "(u32 \<times> nat) option"
  cr0 :: u32
  cr2 :: u32
  cr3 :: u32
  cpl :: nat
  cpl_override :: bool
  fetching :: bool
  abrt :: fault
  abrt_error :: u32
  cur_fpu :: bool
  ignne :: bool
  x87_lenient :: bool
  x87_adopted :: u64
  dev_last :: u32
  io_rd :: q_t
  dev_rd :: q_t
  io_cur :: nat
  dev_cur :: nat
  exp_w :: q_t
  dut_w :: q_t
  exp_io :: q_t
  dut_io :: q_t
  stage_w :: q_t
  stage_io :: q_t

definition DEV_LO :: u32 where "DEV_LO = 0x000A0000"
definition DEV_HI :: u32 where "DEV_HI = 0x000C0000"
definition BIOS_ALIAS :: u32 where "BIOS_ALIAS = 0xFFFC0000"
definition BIOS_MIRROR :: u32 where "BIOS_MIRROR = 0x00FC0000"

text \<open>\<open>fail\<close> keeps the first error.\<close>

definition fail_with :: "cosim_err \<Rightarrow> cmp \<Rightarrow> cmp" where
  "fail_with e s = (if c_err s = None then s\<lparr>c_err := Some e\<rparr> else s)"

definition platform_phys :: "bool \<Rightarrow> u32 \<Rightarrow> u32" where
  "platform_phys a20 phys =
     (let p = (if a20 then phys else phys AND NOT 0x00100000)
      in if BIOS_ALIAS \<le> p then BIOS_MIRROR + (p AND 0x3FFFF) else p)"

definition in_dev :: "u32 \<Rightarrow> bool" where
  "in_dev phys \<longleftrightarrow> DEV_LO \<le> phys \<and> phys < DEV_HI"

definition in_ram :: "cmp \<Rightarrow> u32 \<Rightarrow> bool" where
  "in_ram s phys \<longleftrightarrow> phys < ram_bytes s \<and> \<not> in_dev phys \<and> drop_bit 18 phys \<noteq> 3"

definition ram_at :: "cmp \<Rightarrow> u32 \<Rightarrow> u8" where
  "ram_at s phys = c_ram s (phys AND rammask s)"

definition put_ram :: "u32 \<Rightarrow> u8 \<Rightarrow> cmp \<Rightarrow> cmp" where
  "put_ram phys v s = s\<lparr>c_ram := (c_ram s)(phys AND rammask s := v)\<rparr>"

section \<open>Reads\<close>

function skip_replayed :: "ev_t list \<Rightarrow> nat \<Rightarrow> u32 \<Rightarrow> u32 \<Rightarrow> nat \<Rightarrow> nat" where
  "skip_replayed v lim phys prev i =
     (if i < lim \<and> e_addr (v ! i) \<noteq> phys \<and> e_addr (v ! i) = prev then skip_replayed v lim phys prev (i + 1) else i)"
  by pat_completeness auto

termination by (relation "measure (\<lambda>(v, lim, phys, prev, i). lim - i)") auto

declare skip_replayed.simps [simp del]

text \<open>\<open>rd_hook\<close>: the byte and the state when the hook supplies it, \<open>None\<close> when RAM does.\<close>

definition rd_hook :: "u32 \<Rightarrow> cmp \<Rightarrow> u8 option \<times> cmp" where
  "rd_hook phys s =
     (if in_dev phys then
        let h = q_head (dev_rd s);
            i = skip_replayed (q_v (dev_rd s)) (q_tail (dev_rd s)) phys (dev_last s) (h + dev_cur s);
            s1 = s\<lparr>dev_cur := i - h\<rparr>
        in if q_tail (dev_rd s) \<le> i then (Some 0xFF, s1\<lparr>c_stall := True\<rparr>)
           else let e = q_v (dev_rd s) ! i;
                    s2 = s1\<lparr>dev_last := phys\<rparr>;
                    s3 = (if e_addr e \<noteq> phys then fail_with (DeviceRead phys (e_addr e)) s2 else s2)
                in (Some (e_val e), s3\<lparr>dev_cur := dev_cur s3 + 1\<rparr>)
      else if ram_bytes s \<le> phys then (Some 0xFF, s)
      else (None, s))"

text \<open>\<open>io_in\<close>: the bytes of an I/O read, low byte first; a byte z486 has not returned stalls the step.\<close>

fun io_in_from :: "nat \<Rightarrow> nat \<Rightarrow> u16 \<Rightarrow> u32 \<Rightarrow> cmp \<Rightarrow> u32 \<times> cmp" where
  "io_in_from 0 b port val s = (val, s)"
| "io_in_from (Suc n) b port val s =
     (let i = q_head (io_rd s) + io_cur s
      in if q_tail (io_rd s) \<le> i then (0xFFFFFFFF, s\<lparr>c_stall := True\<rparr>)
         else let e = q_v (io_rd s) ! i; p = port + word_of_nat b;
                  s1 = (if e_addr e \<noteq> ucast p then fail_with (IoRead p (e_addr e)) s else s)
              in io_in_from n (b + 1) port (val OR push_bit (8 * b) (ucast (e_val e))) (s1\<lparr>io_cur := io_cur s1 + 1\<rparr>))"

definition io_in :: "u16 \<Rightarrow> nat \<Rightarrow> cmp \<Rightarrow> u32 \<times> cmp" where
  "io_in port sz s = io_in_from sz 0 port 0 s"

section \<open>Writes of the reference\<close>

text \<open>\<open>wr_hook\<close>: the write is staged; the result says whether it stays out of RAM.\<close>

definition wr_hook :: "u32 \<Rightarrow> u8 \<Rightarrow> cmp \<Rightarrow> bool \<times> cmp" where
  "wr_hook phys v s =
     (let silent = in_ram s phys \<and> ram_at s phys = v;
          s1 = s\<lparr>stage_w := q_push_ev (stage_w s) \<lparr>e_addr = phys, e_val = v, e_done = False, e_silent = silent,
                   e_fpu = cur_fpu s, e_grp = 0\<rparr>\<rparr>
      in (in_dev phys \<or> drop_bit 18 phys = 3 \<or> ram_bytes s \<le> phys, s1))"

text \<open>\<open>io_out\<close>: the bytes go to the staged I/O writes, port F0h also sets IGNNE#. \<open>pending\<close> is the x87's error summary bit.\<close>

definition set_ignne :: "bool \<Rightarrow> u16 \<Rightarrow> cmp \<Rightarrow> cmp" where
  "set_ignne pending port s = (if port = 0xF0 then s\<lparr>ignne := pending\<rparr> else s)"

definition io_out :: "bool \<Rightarrow> u16 \<Rightarrow> nat \<Rightarrow> u32 \<Rightarrow> cmp \<Rightarrow> cmp" where
  "io_out pending port sz val s = fold (\<lambda>b s. s\<lparr>stage_io := q_push (cur_fpu s) (stage_io s) (ucast (port + word_of_nat b :: u16))
      (ucast (drop_bit (8 * b) val)) 0\<rparr>) [0..<sz] (set_ignne pending port s)"

section \<open>Matching\<close>

text \<open>\<open>q_head\<close> never passes \<open>q_tail\<close>, so the loop's \<open>!q_empty\<close> is \<open>q_head < q_tail\<close>.\<close>

function advance_q :: "q_t \<Rightarrow> q_t" where
  "advance_q q = (if q_head q < q_tail q \<and> e_done (q_v q ! q_head q) then advance_q (q_pop q) else q)"
  by pat_completeness auto

termination by (relation "measure (\<lambda>q. q_tail q - q_head q)") (auto simp: q_pop_def)

declare advance_q.simps [simp del]

definition advance_exp :: "cmp \<Rightarrow> cmp" where
  "advance_exp s = s\<lparr>exp_w := advance_q (exp_w s)\<rparr>"

text \<open>
  The search of the oldest instruction's writes: the index where it ends and whether a write of the
  address was found there.
\<close>

function find_write :: "ev_t list \<Rightarrow> nat \<Rightarrow> u64 \<Rightarrow> u32 \<Rightarrow> nat \<Rightarrow> nat \<times> bool" where
  "find_write v lim grp phys i =
     (if i < lim \<and> e_grp (v ! i) = grp
      then if e_done (v ! i) \<or> e_addr (v ! i) \<noteq> phys then find_write v lim grp phys (i + 1) else (i, True)
      else (i, False))"
  by pat_completeness auto

termination by (relation "measure (\<lambda>(v, lim, grp, phys, i). lim - i)") auto

declare find_write.simps [simp del]

definition only_silent :: "ev_t list \<Rightarrow> nat \<Rightarrow> nat \<Rightarrow> bool" where
  "only_silent v i j \<longleftrightarrow> list_all (\<lambda>k. e_done (v ! k) \<or> e_silent (v ! k)) [i..<j]"

definition mark_done :: "nat \<Rightarrow> ev_t list \<Rightarrow> ev_t list" where
  "mark_done k v = v[k := (v ! k)\<lparr>e_done := True\<rparr>]"

definition mark_all_done :: "ev_t list \<Rightarrow> nat \<Rightarrow> nat \<Rightarrow> ev_t list" where
  "mark_all_done v i j = fold mark_done [i..<j] v"

fun first_open :: "ev_t list \<Rightarrow> nat \<Rightarrow> nat list \<Rightarrow> nat" where
  "first_open v h [] = h"
| "first_open v h (k # ks) = (if \<not> e_done (v ! k) \<and> \<not> e_silent (v ! k) then k else first_open v h ks)"

text \<open>One turn of the loop of \<open>match_write\<close>; no result means \<open>continue\<close>.\<close>

definition match_round :: "u32 \<Rightarrow> u8 \<Rightarrow> cmp \<Rightarrow> cosim_result option \<times> cmp" where
  "match_round phys val s0 =
     (let s = advance_exp s0; q = exp_w s; v = q_v q; h = q_head q in
      if q_empty q then (Some COSIM_OK, s\<lparr>dut_w := q_push (cur_fpu s) (dut_w s) phys val 0\<rparr>)
      else let grp = e_grp (v ! h); (k, found) = find_write v (q_tail q) grp phys h in
        if found then
          let e = v ! k in
          if e_val e \<noteq> val \<and> \<not> (x87_lenient s \<and> e_fpu e)
          then (Some COSIM_ERROR, fail_with (WriteDiffers phys val (e_val e) grp) s)
          else let s1 = (if e_val e \<noteq> val
                         then let t = s\<lparr>x87_adopted := x87_adopted s + 1\<rparr> in if in_ram t phys then put_ram phys val t else t
                         else s)
               in (Some COSIM_OK, advance_exp (s1\<lparr>exp_w := q\<lparr>q_v := mark_done k v\<rparr>\<rparr>))
        else if in_ram s phys \<and> ram_at s phys = val then (Some COSIM_OK, s)
        else if only_silent v h k then (None, s\<lparr>exp_w := q\<lparr>q_v := mark_all_done v h k\<rparr>\<rparr>)
        else let e = v ! first_open v h [h..<k]
             in (Some COSIM_ERROR, fail_with (WriteOrder phys val (e_addr e) (e_val e) grp) s))"

definition pending_of :: "q_t \<Rightarrow> ev_t list" where
  "pending_of q = filter (\<lambda>e. \<not> e_done e) (q_list q)"

definition pend :: "cmp \<Rightarrow> ev_t list" where
  "pend s = pending_of (exp_w s)"

section \<open>Index loops over the pending writes\<close>

lemma q_list_map: "q_wf q \<Longrightarrow> q_list q = map (\<lambda>i. q_v q ! i) [q_head q..<q_tail q]"
  by (rule nth_equalityI) (auto simp: q_list_nth q_wf_def)

lemma pending_map: "q_wf q \<Longrightarrow> pending_of q = filter (\<lambda>e. \<not> e_done e) (map (\<lambda>i. q_v q ! i) [q_head q..<q_tail q])"
  by (simp add: pending_of_def q_list_map)

lemma advance_q_spec:
  "q_wf q \<Longrightarrow> q_wf (advance_q q) \<and> pending_of (advance_q q) = pending_of q \<and>
     (q_empty (advance_q q) \<or> q_head (advance_q q) < q_tail (advance_q q) \<and>
        \<not> e_done (q_v (advance_q q) ! q_head (advance_q q)))"
proof (induction q rule: advance_q.induct)
  case (1 q)
  show ?case
  proof (cases "q_head q < q_tail q \<and> e_done (q_v q ! q_head q)")
    case True
    then have "pending_of (q_pop q) = pending_of q"
      using 1 by (simp add: pending_of_def q_list_Cons [of q])
    then show ?thesis
      using 1 True q_wf_pop [of q] by (subst (1 2 3 4 5 6 7) advance_q.simps) simp
  next
    case False
    then show ?thesis
      using 1 by (subst (1 2 3 4 5 6 7) advance_q.simps) (auto simp: q_empty_def q_wf_def)
  qed
qed

lemma advance_q_wf [simp]: "q_wf q \<Longrightarrow> q_wf (advance_q q)"
  and advance_q_pending [simp]: "q_wf q \<Longrightarrow> pending_of (advance_q q) = pending_of q"
  using advance_q_spec by auto

lemma advance_q_empty: "q_wf q \<Longrightarrow> q_empty (advance_q q) \<longleftrightarrow> pending_of q = []"
proof -
  assume w: "q_wf q"
  let ?p = "advance_q q"
  have p: "q_wf ?p" "pending_of ?p = pending_of q"
    and c: "q_empty ?p \<or> q_head ?p < q_tail ?p \<and> \<not> e_done (q_v ?p ! q_head ?p)"
    using advance_q_spec [OF w] by auto
  show ?thesis
  proof (cases "q_empty ?p")
    case True
    then show ?thesis
      using p by (auto simp: pending_of_def q_empty_iff)
  next
    case False
    then show ?thesis
      using c p by (auto simp: pending_of_def q_list_Cons)
  qed
qed

lemma find_write_spec:
  "find_write v lim grp phys i = (k, f) \<Longrightarrow> i \<le> lim \<Longrightarrow>
     i \<le> k \<and> k \<le> lim \<and> (\<forall>j. i \<le> j \<and> j < k \<longrightarrow> e_done (v ! j) \<or> e_addr (v ! j) \<noteq> phys) \<and>
     (f \<longrightarrow> k < lim \<and> \<not> e_done (v ! k) \<and> e_addr (v ! k) = phys)"
proof (induction v lim grp phys i rule: find_write.induct)
  case (1 v lim grp phys i)
  show ?case
  proof (cases "i < lim \<and> e_grp (v ! i) = grp")
    case True
    show ?thesis
    proof (cases "e_done (v ! i) \<or> e_addr (v ! i) \<noteq> phys")
      case d: True
      then have "find_write v lim grp phys (i + 1) = (k, f)"
        using 1 True by (subst (asm) find_write.simps) simp
      then have ih: "i + 1 \<le> k \<and> k \<le> lim \<and> (\<forall>j. i + 1 \<le> j \<and> j < k \<longrightarrow> e_done (v ! j) \<or> e_addr (v ! j) \<noteq> phys) \<and>
          (f \<longrightarrow> k < lim \<and> \<not> e_done (v ! k) \<and> e_addr (v ! k) = phys)"
        using 1 True d by simp
      have "e_done (v ! j) \<or> e_addr (v ! j) \<noteq> phys" if "i \<le> j" "j < k" for j
        using ih d that by (cases "j = i") auto
      then show ?thesis
        using ih by auto
    next
      case False
      then show ?thesis
        using 1 True by (subst (asm) find_write.simps) auto
    qed
  next
    case False
    then show ?thesis
      using 1 by (subst (asm) find_write.simps) auto
  qed
qed

lemma find_write_moves:
  "find_write v lim (e_grp (v ! i)) phys i = (k, False) \<Longrightarrow> i < lim \<Longrightarrow> i < k"
  using find_write_spec [of v lim "e_grp (v ! i)" phys "i + 1" k False]
  by (subst (asm) find_write.simps) (auto split: if_splits)

lemma mark_done_nth [simp]: "length (mark_done k v) = length v"
  "j \<noteq> k \<Longrightarrow> mark_done k v ! j = v ! j"
  "k < length v \<Longrightarrow> e_done (mark_done k v ! k)"
  by (simp_all add: mark_done_def)

lemma mark_all_length [simp]: "length (mark_all_done v i j) = length v"
proof -
  have "length (fold mark_done ks v) = length v" for ks
    by (induction ks arbitrary: v) auto
  then show ?thesis
    by (simp add: mark_all_done_def)
qed

lemma mark_all_nth: "j \<le> length v \<Longrightarrow> n < length v \<Longrightarrow>
    mark_all_done v i j ! n = (if i \<le> n \<and> n < j then (v ! n)\<lparr>e_done := True\<rparr> else v ! n)"
proof (induction j)
  case (Suc j)
  show ?case
  proof (cases "i \<le> j")
    case True
    then have "mark_all_done v i (Suc j) = mark_done j (mark_all_done v i j)"
      by (simp add: mark_all_done_def)
    then show ?thesis
      using Suc True by (cases "n = j") (auto simp: mark_done_def)
  next
    case False
    then have "\<not> (i \<le> n \<and> n < j)" "\<not> (i \<le> n \<and> n < Suc j)"
      by auto
    then show ?thesis
      using Suc False by (auto simp: mark_all_done_def)
  qed
qed (simp add: mark_all_done_def)

text \<open>Matching a write takes the first open write of its address out of the pending list.\<close>

lemma pending_mark:
  assumes w: "q_wf q" and k: "q_head q \<le> k" "k < q_tail q" and open_k: "\<not> e_done (q_v q ! k)"
  obtains xs ys where "pending_of q = xs @ q_v q ! k # ys"
    and "pending_of (q\<lparr>q_v := mark_done k (q_v q)\<rparr>) = xs @ ys"
    and "\<And>x. x \<in> set xs \<Longrightarrow> \<exists>j. q_head q \<le> j \<and> j < k \<and> x = q_v q ! j \<and> \<not> e_done x"
    and "q_wf (q\<lparr>q_v := mark_done k (q_v q)\<rparr>)"
proof
  let ?f = "\<lambda>a b. filter (\<lambda>e. \<not> e_done e) (map (\<lambda>i. q_v q ! i) [a..<b])"
  have sp: "[q_head q..<q_tail q] = [q_head q..<k] @ k # [Suc k..<q_tail q]"
    using k upt_add_eq_append [of "q_head q" k "q_tail q - k"] by (simp add: upt_conv_Cons)
  let ?m = "q\<lparr>q_v := mark_done k (q_v q)\<rparr>"
  show wm: "q_wf ?m"
    using w by (simp add: q_wf_def)
  show "pending_of q = ?f (q_head q) k @ q_v q ! k # ?f (Suc k) (q_tail q)"
    by (simp only: pending_map [OF w] sp) (simp add: open_k)
  have kl: "k < length (q_v q)"
    using w k by (simp add: q_wf_def)
  have "map (\<lambda>i. mark_done k (q_v q) ! i) [q_head q..<k] = map (\<lambda>i. q_v q ! i) [q_head q..<k]"
    and "map (\<lambda>i. mark_done k (q_v q) ! i) [Suc k..<q_tail q] = map (\<lambda>i. q_v q ! i) [Suc k..<q_tail q]"
    by auto
  then show "pending_of ?m = ?f (q_head q) k @ ?f (Suc k) (q_tail q)"
    using kl by (simp add: pending_map [OF wm] sp del: filter_map map_eq_conv)
  show "\<exists>j. q_head q \<le> j \<and> j < k \<and> x = q_v q ! j \<and> \<not> e_done x" if "x \<in> set (?f (q_head q) k)" for x
    using that by auto
qed

lemma pending_mark_all:
  assumes w: "q_wf q" and k: "q_head q \<le> k" "k \<le> q_tail q"
  obtains xs ys where "pending_of q = xs @ ys"
    and "pending_of (q\<lparr>q_v := mark_all_done (q_v q) (q_head q) k\<rparr>) = ys"
    and "xs = filter (\<lambda>e. \<not> e_done e) (map (\<lambda>i. q_v q ! i) [q_head q..<k])"
    and "q_wf (q\<lparr>q_v := mark_all_done (q_v q) (q_head q) k\<rparr>)"
proof
  let ?f = "\<lambda>a b. filter (\<lambda>e. \<not> e_done e) (map (\<lambda>i. q_v q ! i) [a..<b])"
  have sp: "[q_head q..<q_tail q] = [q_head q..<k] @ [k..<q_tail q]"
    using k by (metis le_Suc_ex upt_add_eq_append)
  let ?m = "q\<lparr>q_v := mark_all_done (q_v q) (q_head q) k\<rparr>"
  show wm: "q_wf ?m"
    using w by (simp add: q_wf_def)
  show "pending_of q = ?f (q_head q) k @ ?f k (q_tail q)"
    by (simp only: pending_map [OF w] sp) simp
  have kl: "q_tail q \<le> length (q_v q)"
    using w k by (simp add: q_wf_def)
  have "filter (\<lambda>e. \<not> e_done e) (map (\<lambda>i. mark_all_done (q_v q) (q_head q) k ! i) [q_head q..<k]) = []"
    using kl k by (auto simp: filter_empty_conv mark_all_nth)
  moreover have "map (\<lambda>i. mark_all_done (q_v q) (q_head q) k ! i) [k..<q_tail q] = map (\<lambda>i. q_v q ! i) [k..<q_tail q]"
    using kl k by (simp add: mark_all_nth)
  ultimately show "pending_of ?m = ?f k (q_tail q)"
    by (simp add: pending_map [OF wm] sp del: filter_map map_eq_conv)
qed simp

section \<open>The matching functions\<close>

partial_function (option) match_write :: "u32 \<Rightarrow> u8 \<Rightarrow> cmp \<Rightarrow> (cosim_result \<times> cmp) option" where
  "match_write phys val s = (case match_round phys val s of
      (Some r, t) \<Rightarrow> Some (r, t)
    | (None, t) \<Rightarrow> match_write phys val t)"

definition match_io :: "u16 \<Rightarrow> u8 \<Rightarrow> cmp \<Rightarrow> cosim_result \<times> cmp" where
  "match_io port val s =
     (if q_empty (exp_io s) then (COSIM_OK, s\<lparr>dut_io := q_push (cur_fpu s) (dut_io s) (ucast port) val 0\<rparr>)
      else let e = q_v (exp_io s) ! q_head (exp_io s) in
        if e_addr e \<noteq> ucast port \<or> e_val e \<noteq> val
        then (COSIM_ERROR, fail_with (IoOrder port val (e_addr e) (e_val e) (e_grp e)) s)
        else (COSIM_OK, s\<lparr>exp_io := q_pop (exp_io s)\<rparr>))"

fun replay_writes :: "ev_t list \<Rightarrow> cmp \<Rightarrow> cmp option" where
  "replay_writes [] s = Some s"
| "replay_writes (e # es) s = (case match_write (e_addr e) (e_val e) s of
      None \<Rightarrow> None
    | Some (r, t) \<Rightarrow> if r = COSIM_OK then replay_writes es t else Some t)"

fun replay_io :: "ev_t list \<Rightarrow> cmp \<Rightarrow> cmp" where
  "replay_io [] s = s"
| "replay_io (e # es) s = (let (r, t) = match_io (ucast (e_addr e)) (e_val e) s
      in if r = COSIM_OK then replay_io es t else t)"

definition expect_write :: "u64 \<Rightarrow> q_t \<Rightarrow> ev_t \<Rightarrow> q_t" where
  "expect_write n q e = q_push_ev q (e\<lparr>e_grp := n\<rparr>)"

definition expect_io :: "bool \<Rightarrow> u64 \<Rightarrow> q_t \<Rightarrow> ev_t \<Rightarrow> q_t" where
  "expect_io fp n q e = q_push fp q (e_addr e) (e_val e) n"

definition join_staged :: "cmp \<Rightarrow> cmp" where
  "join_staged s = s\<lparr>exp_w := foldl (expect_write (ninsn s)) (exp_w s) (q_list (stage_w s)),
      exp_io := foldl (expect_io (cur_fpu s) (ninsn s)) (exp_io s) (q_list (stage_io s)),
      stage_w := q_reset (stage_w s), stage_io := q_reset (stage_io s),
      io_rd := (io_rd s)\<lparr>q_head := q_head (io_rd s) + io_cur s\<rparr>, io_cur := 0,
      dev_rd := (dev_rd s)\<lparr>q_head := q_head (dev_rd s) + dev_cur s\<rparr>, dev_cur := 0\<rparr>"

definition commit_writes :: "cmp \<Rightarrow> (cosim_result \<times> cmp) option" where
  "commit_writes s0 =
     (let s = join_staged s0; pending = q_list (dut_w s) in
      case replay_writes pending (s\<lparr>dut_w := q_none\<rparr>) of
        None \<Rightarrow> None
      | Some t \<Rightarrow> let pio = q_list (dut_io t); u = replay_io pio (t\<lparr>dut_io := q_none\<rparr>)
                  in Some (if c_err u = None then COSIM_OK else COSIM_ERROR, u))"

definition drop_step :: "cmp \<Rightarrow> cmp" where
  "drop_step s = s\<lparr>stage_w := q_reset (stage_w s), stage_io := q_reset (stage_io s), io_cur := 0, dev_cur := 0\<rparr>"

definition c86_dut_io_read :: "u16 \<Rightarrow> u8 \<Rightarrow> cmp \<Rightarrow> cmp" where
  "c86_dut_io_read port val s = s\<lparr>io_rd := q_push (cur_fpu s) (io_rd s) (ucast port) val 0\<rparr>"

definition c86_dut_dev_read :: "u32 \<Rightarrow> u8 \<Rightarrow> cmp \<Rightarrow> cmp" where
  "c86_dut_dev_read phys val s = s\<lparr>dev_rd := q_push (cur_fpu s) (dev_rd s) phys val 0\<rparr>"

definition c86_dut_write :: "u32 \<Rightarrow> u8 \<Rightarrow> cmp \<Rightarrow> (cosim_result \<times> cmp) option" where
  "c86_dut_write phys val s = match_write (platform_phys (a20_on s) phys) val s"

definition c86_dut_io_write :: "u16 \<Rightarrow> u8 \<Rightarrow> cmp \<Rightarrow> cosim_result \<times> cmp" where
  "c86_dut_io_write port val s = match_io port val s"

definition c86_dma_write :: "u32 \<Rightarrow> u8 \<Rightarrow> cmp \<Rightarrow> cmp" where
  "c86_dma_write phys val s = (if phys < ram_bytes s then put_ram phys val s else s)"

definition c86_walker_write :: "u32 \<Rightarrow> u8 \<Rightarrow> cmp \<Rightarrow> cmp" where
  "c86_walker_write phys val s =
     (let p = platform_phys (a20_on s) phys in if p < ram_bytes s then put_ram p val s else s)"

definition c86_writes_pending :: "cmp \<Rightarrow> bool \<times> cmp" where
  "c86_writes_pending s0 = (let s = advance_exp s0 in (\<not> q_empty (exp_w s) \<or> \<not> q_empty (exp_io s), s))"

section \<open>What one turn does to the pending writes\<close>

lemma cmp_frames [simp]:
  "exp_w (fail_with e s) = exp_w s" "dut_w (fail_with e s) = dut_w s" "c_ram (fail_with e s) = c_ram s"
  "exp_w (put_ram p v s) = exp_w s" "dut_w (put_ram p v s) = dut_w s"
  by (simp_all add: fail_with_def put_ram_def)

lemma advance_exp_frames [simp]:
  "exp_w (advance_exp s) = advance_q (exp_w s)" "dut_w (advance_exp s) = dut_w s" "c_ram (advance_exp s) = c_ram s"
  "rammask (advance_exp s) = rammask s" "ram_bytes (advance_exp s) = ram_bytes s" "c_err (advance_exp s) = c_err s"
  "x87_lenient (advance_exp s) = x87_lenient s" "cur_fpu (advance_exp s) = cur_fpu s"
  "in_ram (advance_exp s) a = in_ram s a" "ram_at (advance_exp s) a = ram_at s a"
  by (simp_all add: advance_exp_def in_ram_def ram_at_def)

text \<open>The open writes of a segment of the array.\<close>

definition same_env :: "cmp \<Rightarrow> cmp \<Rightarrow> bool" where
  "same_env s t \<longleftrightarrow> rammask t = rammask s \<and> ram_bytes t = ram_bytes s \<and> x87_lenient t = x87_lenient s \<and>
     c_ram t = c_ram s \<and> stage_w t = stage_w s \<and> stage_io t = stage_io s \<and> exp_io t = exp_io s \<and> dut_io t = dut_io s \<and>
     cur_fpu t = cur_fpu s \<and> ninsn t = ninsn s \<and> a20_on t = a20_on s"

definition exp_ok :: "cmp \<Rightarrow> bool" where
  "exp_ok s \<longleftrightarrow> q_wf (exp_w s) \<and> q_wf (dut_w s)"

text \<open>The outcomes of a turn.\<close>

inductive turn :: "u32 \<Rightarrow> u8 \<Rightarrow> cmp \<Rightarrow> cosim_result option \<Rightarrow> cmp \<Rightarrow> bool" for phys val s where
  parked: "pend s = [] \<Longrightarrow> pend t = [] \<Longrightarrow> q_list (dut_w t) = q_list (dut_w s) @
      [\<lparr>e_addr = phys, e_val = val, e_done = False, e_silent = False, e_fpu = cur_fpu s, e_grp = 0\<rparr>] \<Longrightarrow>
     c_err t = c_err s \<Longrightarrow> turn phys val s (Some COSIM_OK) t"
| matched: "pend s = xs @ e # ys \<Longrightarrow> pend t = xs @ ys \<Longrightarrow> e_addr e = phys \<Longrightarrow> e_val e = val \<Longrightarrow>
     \<forall>x\<in>set xs. e_addr x \<noteq> phys \<Longrightarrow> dut_w t = dut_w s \<Longrightarrow> c_err t = c_err s \<Longrightarrow> turn phys val s (Some COSIM_OK) t"
| adopted: "x87_lenient s \<Longrightarrow> pend s = xs @ e # ys \<Longrightarrow> pend t = xs @ ys \<Longrightarrow> e_addr e = phys \<Longrightarrow> e_fpu e \<Longrightarrow>
     dut_w t = dut_w s \<Longrightarrow> c_err t = c_err s \<Longrightarrow> turn phys val s (Some COSIM_OK) t"
| rewritten: "pend s \<noteq> [] \<Longrightarrow> pend t = pend s \<Longrightarrow> in_ram s phys \<Longrightarrow> ram_at s phys = val \<Longrightarrow> dut_w t = dut_w s \<Longrightarrow>
     c_err t = c_err s \<Longrightarrow> turn phys val s (Some COSIM_OK) t"
| dropped: "pend s = xs @ pend t \<Longrightarrow> xs \<noteq> [] \<Longrightarrow> \<forall>x\<in>set xs. e_silent x \<Longrightarrow> dut_w t = dut_w s \<Longrightarrow>
     c_err t = c_err s \<Longrightarrow> turn phys val s None t"
| refused: "c_err t \<noteq> None \<Longrightarrow> turn phys val s (Some COSIM_ERROR) t"

lemma frames_match [simp]:
  "same_env s (advance_exp s)"
  "same_env s (fail_with e t) = same_env s t"
  "same_env s (t\<lparr>exp_w := q\<rparr>) = same_env s t"
  "same_env s (t\<lparr>dut_w := q\<rparr>) = same_env s t"
  "same_env s (advance_exp t) = same_env s t"
  by (auto simp: same_env_def advance_exp_def fail_with_def)

lemma same_env_refl [simp]: "same_env s s"
  by (simp add: same_env_def)

lemma fail_with_err [simp]: "c_err (fail_with e s) \<noteq> None"
  by (simp add: fail_with_def)

lemma turn_fails [simp]: "turn phys val s0 (Some COSIM_ERROR) (fail_with e s)"
  by (rule turn.refused) simp

lemma match_round_turn:
  assumes ok: "exp_ok s0" and mr: "match_round phys val s0 = (r, t)"
  shows "turn phys val s0 r t \<and> exp_ok t \<and> (\<not> x87_lenient s0 \<longrightarrow> same_env s0 t)"
proof -
  define s where "s = advance_exp s0"
  define q where "q = exp_w s"
  have wq: "q_wf q" and wd: "q_wf (dut_w s)" and pq: "pending_of q = pend s0"
    and em: "q_empty q \<longleftrightarrow> pend s0 = []"
    using ok by (auto simp: exp_ok_def s_def q_def pend_def advance_q_empty)
  have s_simps: "dut_w s = dut_w s0" "c_err s = c_err s0" "x87_lenient s = x87_lenient s0" "cur_fpu s = cur_fpu s0"
    "in_ram s phys = in_ram s0 phys" "ram_at s phys = ram_at s0 phys" "same_env s0 s"
    by (simp_all add: s_def)
  have pend_s: "pend s = pend s0"
    using pq by (simp add: pend_def q_def)
  show ?thesis
  proof (cases "q_empty q")
    case True
    then have r: "r = Some COSIM_OK" "t = s\<lparr>dut_w := q_push (cur_fpu s) (dut_w s) phys val 0\<rparr>"
      using mr by (auto simp: match_round_def Let_def s_def q_def)
    have "turn phys val s0 r t"
      unfolding r using True em wd pq s_simps by (intro turn.parked) (auto simp: pend_def q_def)
    then show ?thesis
      using r wq wd s_simps by (simp add: exp_ok_def q_def)
  next
    case False
    define h where "h = q_head q"
    define v where "v = q_v q"
    obtain k f where kf: "find_write v (q_tail q) (e_grp (v ! h)) phys h = (k, f)"
      by (cases "find_write v (q_tail q) (e_grp (v ! h)) phys h") auto
    have hl: "h < q_tail q"
      using False wq by (auto simp: q_empty_def q_wf_def h_def)
    have fk: "h \<le> k" "k \<le> q_tail q" "\<And>j. h \<le> j \<Longrightarrow> j < k \<Longrightarrow> e_done (v ! j) \<or> e_addr (v ! j) \<noteq> phys"
      "f \<Longrightarrow> k < q_tail q" "f \<Longrightarrow> \<not> e_done (v ! k)" "f \<Longrightarrow> e_addr (v ! k) = phys"
      using find_write_spec [OF kf] hl by auto
    note unf = match_round_def Let_def s_def [symmetric] q_def [symmetric] h_def [symmetric] v_def [symmetric]
    show ?thesis
    proof (cases f)
      case True
      obtain xs ys where xy: "pending_of q = xs @ v ! k # ys" "pending_of (q\<lparr>q_v := mark_done k v\<rparr>) = xs @ ys"
        "\<And>x. x \<in> set xs \<Longrightarrow> \<exists>j. h \<le> j \<and> j < k \<and> x = v ! j \<and> \<not> e_done x" "q_wf (q\<lparr>q_v := mark_done k v\<rparr>)"
        using pending_mark [OF wq, of k] fk(1) fk(4-5) True unfolding h_def v_def by metis
      have p0: "pend s0 = xs @ v ! k # ys"
        using xy(1) pq by simp
      have pt: "pend (advance_exp (u\<lparr>exp_w := q\<lparr>q_v := mark_done k v\<rparr>\<rparr>)) = xs @ ys" for u
        using xy(2,4) by (simp add: pend_def)
      have no: "\<forall>x\<in>set xs. e_addr x \<noteq> phys"
        using xy(3) fk(3) by blast
      consider (eq) "e_val (v ! k) = val" | (ne) "e_val (v ! k) \<noteq> val" "\<not> (x87_lenient s \<and> e_fpu (v ! k))"
        | (ad) "e_val (v ! k) \<noteq> val" "x87_lenient s" "e_fpu (v ! k)"
        by blast
      then show ?thesis
      proof cases
        case eq
        have r: "r = Some COSIM_OK" "t = advance_exp (s\<lparr>exp_w := q\<lparr>q_v := mark_done k v\<rparr>\<rparr>)"
          using mr kf False \<open>f\<close> eq unfolding unf by auto
        have "turn phys val s0 r t"
          unfolding r by (rule turn.matched [OF p0 pt]) (use fk True eq no s_simps in simp_all)
        then show ?thesis
          using r xy(4) wd s_simps by (simp add: exp_ok_def)
      next
        case ne
        then have "r = Some COSIM_ERROR" "t = fail_with (WriteDiffers phys val (e_val (v ! k)) (e_grp (v ! h))) s"
          using mr kf False \<open>f\<close> unfolding unf by auto
        then show ?thesis
          using wq wd s_simps by (auto simp: exp_ok_def q_def)
      next
        case ad
        define u where "u = (let t = s\<lparr>x87_adopted := x87_adopted s + 1\<rparr> in if in_ram t phys then put_ram phys val t else t)"
        have r: "r = Some COSIM_OK" "t = advance_exp (u\<lparr>exp_w := q\<lparr>q_v := mark_done k v\<rparr>\<rparr>)"
          using mr kf False \<open>f\<close> ad unfolding unf u_def by auto
        have u: "dut_w u = dut_w s" "c_err u = c_err s"
          by (simp_all add: u_def Let_def put_ram_def)
        have "turn phys val s0 r t"
          unfolding r by (rule turn.adopted [OF _ p0 pt]) (use fk True ad s_simps u in simp_all)
        then show ?thesis
          using r xy(4) wd s_simps ad u by (simp add: exp_ok_def)
      qed
    next
      case nf: False
      then have hk: "h < k"
        using find_write_moves [of v "q_tail q" h phys k] kf hl by simp
      consider (same) "in_ram s phys" "ram_at s phys = val"
        | (silent) "\<not> (in_ram s phys \<and> ram_at s phys = val)" "only_silent v h k"
        | (wrong) "\<not> (in_ram s phys \<and> ram_at s phys = val)" "\<not> only_silent v h k"
        by blast
      then show ?thesis
      proof cases
        case same
        then have r: "r = Some COSIM_OK" "t = s"
          using mr kf False nf unfolding unf by auto
        have "turn phys val s0 r t"
          unfolding r using same False em pend_s s_simps by (intro turn.rewritten) auto
        then show ?thesis
          using r wq wd s_simps by (simp add: exp_ok_def q_def)
      next
        case silent
        then have r: "r = None" "t = s\<lparr>exp_w := q\<lparr>q_v := mark_all_done v h k\<rparr>\<rparr>"
          using mr kf False nf unfolding unf by auto
        obtain xs ys where xy: "pending_of q = xs @ ys" "pending_of (q\<lparr>q_v := mark_all_done v h k\<rparr>) = ys"
          "xs = filter (\<lambda>e. \<not> e_done e) (map (\<lambda>i. v ! i) [h..<k])" "q_wf (q\<lparr>q_v := mark_all_done v h k\<rparr>)"
          using pending_mark_all [OF wq, of k] fk(1,2) unfolding h_def v_def by metis
        have "\<not> e_done (v ! h)"
          using advance_q_spec [of "exp_w s0"] ok False by (auto simp: exp_ok_def q_def s_def h_def v_def)
        then have "v ! h \<in> set xs"
          using xy(3) hk by auto
        then have "xs \<noteq> []"
          by auto
        moreover have "\<forall>x\<in>set xs. e_silent x"
          using silent(2) xy(3) by (auto simp: only_silent_def list_all_iff)
        ultimately have "turn phys val s0 r t"
          unfolding r using xy s_simps pq by (intro turn.dropped [of s0 xs]) (auto simp: pend_def [of "s\<lparr>exp_w := q\<lparr>q_v := mark_all_done v h k\<rparr>\<rparr>"])
        then show ?thesis
          using r xy(4) wd s_simps by (simp add: exp_ok_def)
      next
        case wrong
        then have "r = Some COSIM_ERROR" "\<exists>e. t = fail_with e s"
          using mr kf False nf unfolding unf by auto
        then show ?thesis
          using wq wd s_simps by (auto simp: exp_ok_def q_def)
      qed
    qed
  qed
qed

text \<open>The loop ends: a turn that continues takes open writes away.\<close>

lemma match_write_total: "exp_ok s \<Longrightarrow> \<exists>r t. match_write phys val s = Some (r, t) \<and> exp_ok t"
proof (induction "length (pend s)" arbitrary: s rule: less_induct)
  case less
  obtain r t where mr: "match_round phys val s = (r, t)"
    by (cases "match_round phys val s") auto
  have tu: "turn phys val s r t" "exp_ok t"
    using match_round_turn [OF less(2) mr] by auto
  show ?case
  proof (cases r)
    case None
    then have "length (pend t) < length (pend s)"
      using tu(1) by (auto elim: turn.cases)
    then show ?thesis
      using less(1) [of t] tu mr None by (subst match_write.simps) simp
  next
    case (Some a)
    then show ?thesis
      using mr tu by (subst match_write.simps) simp
  qed
qed

lemma replay_writes_total: "exp_ok s \<Longrightarrow> \<exists>t. replay_writes es s = Some t"
proof (induction es arbitrary: s)
  case (Cons e es)
  obtain r t where "match_write (e_addr e) (e_val e) s = Some (r, t)" "exp_ok t"
    using match_write_total [OF Cons.prems] by blast
  then show ?case
    using Cons.IH by simp
qed simp

lemma expect_writes_wf: "q_wf q \<Longrightarrow> q_wf (foldl (expect_write n) q es)"
  by (induction es arbitrary: q) (simp_all add: expect_write_def evq.push_wf)

lemma commit_writes_total: "exp_ok s \<Longrightarrow> \<exists>r t. commit_writes s = Some (r, t)"
proof -
  assume "exp_ok s"
  then have "exp_ok ((join_staged s)\<lparr>dut_w := q_none\<rparr>)"
    by (simp add: exp_ok_def join_staged_def expect_writes_wf)
  then show ?thesis
    using replay_writes_total [of _ "q_list (dut_w (join_staged s))"] by (auto simp: commit_writes_def Let_def split: option.splits)
qed

end
