(* ===== verification/Cosim_Sessions.thy ===== *)
theory Cosim_Sessions
  imports Cosim_Match
begin

text \<open>
  Co-simulation sessions: completed reference instructions and z486 writes in any order the engine
  accepts, and what an accepted session says about the two memories and the device writes. The
  reference processor enters only as the list of bytes it writes.
\<close>

section \<open>Whole sessions\<close>

text \<open>
  \<open>mem_log_write\<close> and \<open>store_byte\<close> of \<open>stubs.c\<close> with the write hook of \<open>cosim_init\<close> installed: the log of
  changed bytes is bounded.
\<close>

definition MAX_MEM_LOG :: nat where "MAX_MEM_LOG = 4096"

definition mem_log_write :: "u32 \<Rightarrow> u8 \<Rightarrow> u8 \<Rightarrow> cmp \<Rightarrow> cmp" where
  "mem_log_write addr old_val new_val s =
     (if old_val = new_val then s
      else if length (mem_log s) < MAX_MEM_LOG then s\<lparr>mem_log := mem_log s @ [(addr, old_val, new_val)]\<rparr>
      else s)"

definition store_byte :: "u32 \<Rightarrow> u8 \<Rightarrow> cmp \<Rightarrow> cmp" where
  "store_byte pa b s =
     (let (hooked, s1) = wr_hook pa b s
      in if hooked then s1 else put_ram pa b (mem_log_write (pa AND rammask s1) (ram_at s1 pa) b s1))"

text \<open>
  What happens to the engine in a co-simulation: the reference completes an instruction with its
  writes and its port outputs, and z486's writes and outputs arrive. A session goes on while every
  call returns \<open>COSIM_OK\<close>.
\<close>

datatype cosim_act =
    RefInsn "(u32 \<times> u8) list" "(bool \<times> u16 \<times> nat \<times> u32) list"
  | DutWrite u32 u8
  | DutOut u16 u8

definition ref_insn :: "(u32 \<times> u8) list \<Rightarrow> (bool \<times> u16 \<times> nat \<times> u32) list \<Rightarrow> cmp \<Rightarrow> cmp" where
  "ref_insn ws outs s =
     (let t = fold (\<lambda>(pending, port, sz, val). io_out pending port sz val) outs (fold (\<lambda>(pa, b). store_byte pa b) ws (drop_step s))
      in t\<lparr>ninsn := ninsn t + 1\<rparr>)"

definition ok_state :: "cosim_result \<times> cmp \<Rightarrow> cmp option" where
  "ok_state r = (if fst r = COSIM_OK then Some (snd r) else None)"

definition cosim_act :: "cosim_act \<Rightarrow> cmp \<Rightarrow> cmp option" where
  "cosim_act a s = (case a of
      RefInsn ws outs \<Rightarrow> Option.bind (commit_writes (ref_insn ws outs s)) ok_state
    | DutWrite phys val \<Rightarrow> Option.bind (c86_dut_write phys val s) ok_state
    | DutOut port val \<Rightarrow> ok_state (c86_dut_io_write port val s))"

fun session :: "cosim_act list \<Rightarrow> cmp \<Rightarrow> cmp option" where
  "session [] s = Some s"
| "session (a # as) s = (case cosim_act a s of None \<Rightarrow> None | Some t \<Rightarrow> session as t)"

text \<open>The bytes z486 and the reference wrote, in order, and the memory z486's writes leave.\<close>

fun dut_writes :: "bool \<Rightarrow> cosim_act list \<Rightarrow> (u32 \<times> u8) list" where
  "dut_writes a20 [] = []"
| "dut_writes a20 (DutWrite phys val # as) = (platform_phys a20 phys, val) # dut_writes a20 as"
| "dut_writes a20 (_ # as) = dut_writes a20 as"

fun ref_writes :: "cosim_act list \<Rightarrow> (u32 \<times> u8) list" where
  "ref_writes [] = []"
| "ref_writes (RefInsn ws outs # as) = ws @ ref_writes as"
| "ref_writes (_ # as) = ref_writes as"

definition mem_after :: "(u32 \<times> u8) list \<Rightarrow> (u32 \<Rightarrow> u8) \<Rightarrow> u32 \<Rightarrow> u8" where
  "mem_after ws m = fold (\<lambda>(a, v) m. m(a := v)) ws m"

section \<open>Agreement\<close>

type_synonym wview = "u32 \<times> u8 \<times> bool"

definition view :: "ev_t \<Rightarrow> wview" where
  "view e = (e_addr e, e_val e, e_silent e)"

text \<open>
  At one address: \<open>r\<close> is the byte the reference holds, \<open>d\<close> the byte z486 wrote last and the list holds
  the open writes of the address.
\<close>

fun settled :: "u8 \<Rightarrow> u8 \<Rightarrow> (u8 \<times> bool) list \<Rightarrow> bool" where
  "settled r d [] \<longleftrightarrow> d = r"
| "settled r d ((v, silent) # es) \<longleftrightarrow>
     (if silent then settled r d es \<and> ((\<forall>x\<in>set es. snd x) \<longrightarrow> v = r) else settled r v es)"

definition at :: "u32 \<Rightarrow> wview list \<Rightarrow> (u8 \<times> bool) list" where
  "at a ws = map snd (filter (\<lambda>w. fst w = a) ws)"

lemma at_simps [simp]:
  "at a [] = []" "at a (xs @ ys) = at a xs @ at a ys"
  "at a ((b, v, q) # xs) = (if a = b then (v, q) # at a xs else at a xs)"
  by (auto simp: at_def)

lemma settled_any: "\<exists>x\<in>set es. \<not> snd x \<Longrightarrow> settled r d es = settled r d' es"
proof (induction es arbitrary: d d')
  case (Cons e es)
  obtain v q where e: "e = (v, q)"
    by (cases e)
  show ?case
  proof (cases q)
    case True
    then have "\<exists>x\<in>set es. \<not> snd x"
      using Cons.prems e by auto
    then show ?thesis
      using Cons.IH [of d d'] e True by auto
  qed (simp add: e)
qed simp

lemma settled_ram: "settled r d es \<Longrightarrow> settled r r es"
proof (induction es arbitrary: d)
  case (Cons e es)
  then show ?case
    by (cases e) (auto split: if_splits)
qed simp

lemma settled_silent_all: "settled r d es \<Longrightarrow> \<forall>x\<in>set es. snd x \<Longrightarrow> d = r"
  by (induction es) auto

lemma settled_match: "settled r d ((v, q) # es) \<Longrightarrow> settled r v es"
proof (cases q)
  case True
  assume s: "settled r d ((v, q) # es)"
  show ?thesis
  proof (cases "\<forall>x\<in>set es. snd x")
    case all: True
    then show ?thesis
      using s True settled_ram by auto
  next
    case False
    then show ?thesis
      using s True settled_any [of es r d v] by auto
  qed
qed simp

lemma settled_drop: "settled r d (xs @ ys) \<Longrightarrow> \<forall>x\<in>set xs. snd x \<Longrightarrow> settled r d ys"
  by (induction xs) auto

lemma settled_write: "settled r d es \<Longrightarrow> settled v d (es @ [(v, r = v)])"
proof (induction r d es rule: settled.induct)
  case (2 r d w silent es)
  then show ?case
    by (auto split: if_splits)
qed auto

text \<open>
  The invariant: \<open>dn\<close> are the z486 writes already matched, \<open>rf\<close> the reference's writes, \<open>m\<close> the memory
  before the session.
\<close>

definition open_views :: "cmp \<Rightarrow> wview list" where
  "open_views s = map view (pend s @ q_list (stage_w s))"

definition mem_ok :: "cmp \<Rightarrow> bool" where
  "mem_ok s \<longleftrightarrow> (\<forall>a. a < ram_bytes s \<longrightarrow> a AND rammask s = a)"

definition agree :: "(u32 \<Rightarrow> u8) \<Rightarrow> (u32 \<times> u8) list \<Rightarrow> (u32 \<times> u8) list \<Rightarrow> cmp \<Rightarrow> bool" where
  "agree m dn rf s \<longleftrightarrow>
     (\<forall>a. in_ram s a \<longrightarrow> settled (ram_at s a) (mem_after dn m a) (at a (open_views s))) \<and>
     (\<forall>a. \<not> in_ram s a \<longrightarrow> map snd (filter (\<lambda>w. fst w = a) dn) @ map fst (at a (open_views s)) =
        map snd (filter (\<lambda>w. fst w = a) rf)) \<and>
     (\<forall>(a, v, silent)\<in>set (open_views s). silent \<longrightarrow> in_ram s a)"

definition sound :: "cmp \<Rightarrow> bool" where
  "sound s \<longleftrightarrow> exp_ok s \<and> q_wf (stage_w s) \<and> mem_ok s \<and> \<not> x87_lenient s \<and> (\<forall>e\<in>set (q_list (stage_w s)). \<not> e_done e)"

lemma mem_after_snoc [simp]: "mem_after (ws @ [(a, v)]) m = (mem_after ws m)(a := v)"
  by (simp add: mem_after_def)

lemma hook_in_ram: "(in_dev pa \<or> drop_bit 18 pa = 3 \<or> ram_bytes s \<le> pa) \<longleftrightarrow> \<not> in_ram s pa"
  by (auto simp: in_ram_def)

definition logged :: "u32 \<Rightarrow> u8 \<Rightarrow> u8 \<Rightarrow> (u32 \<times> u8 \<times> u8) list \<Rightarrow> (u32 \<times> u8 \<times> u8) list" where
  "logged addr old_val new_val lg =
     (if old_val \<noteq> new_val \<and> length lg < MAX_MEM_LOG then lg @ [(addr, old_val, new_val)] else lg)"

lemma mem_log_write_eq: "mem_log_write a ov nv s = s\<lparr>mem_log := logged a ov nv (mem_log s)\<rparr>"
  by (simp add: mem_log_write_def logged_def)

lemma store_byte_eq:
  "store_byte pa b s = s\<lparr>stage_w := q_push_ev (stage_w s) \<lparr>e_addr = pa, e_val = b, e_done = False,
       e_silent = in_ram s pa \<and> ram_at s pa = b, e_fpu = cur_fpu s, e_grp = 0\<rparr>,
     mem_log := (if in_ram s pa then logged (pa AND rammask s) (ram_at s pa) b (mem_log s) else mem_log s),
     c_ram := (if in_ram s pa then (c_ram s)(pa AND rammask s := b) else c_ram s)\<rparr>"
proof (cases "in_ram s pa")
  case True
  then show ?thesis
    by (simp add: store_byte_def wr_hook_def Let_def hook_in_ram mem_log_write_eq put_ram_def ram_at_def)
next
  case False
  then show ?thesis
    by (simp add: store_byte_def wr_hook_def Let_def hook_in_ram)
qed

lemma in_ram_mask: "mem_ok s \<Longrightarrow> in_ram s a \<Longrightarrow> a AND rammask s = a"
  by (simp add: mem_ok_def in_ram_def)

lemma store_byte_spec:
  assumes so: "sound s" and ag: "agree m dn rf s"
  shows "sound (store_byte pa b s) \<and> agree m dn (rf @ [(pa, b)]) (store_byte pa b s) \<and>
    pend (store_byte pa b s) = pend s"
proof -
  let ?e = "\<lparr>e_addr = pa, e_val = b, e_done = False, e_silent = in_ram s pa \<and> ram_at s pa = b, e_fpu = cur_fpu s, e_grp = 0\<rparr>"
  note t = store_byte_eq [of pa b s]
  let ?t = "store_byte pa b s"
  have q: "q_wf (stage_w ?t)" "q_list (stage_w ?t) = q_list (stage_w s) @ [?e]"
    using so by (simp_all add: t sound_def evq.push_wf evq.push_contents)
  have pd: "pend ?t = pend s"
    by (simp add: t pend_def)
  have ov: "open_views ?t = open_views s @ [(pa, b, in_ram s pa \<and> ram_at s pa = b)]"
    by (simp add: open_views_def q pd view_def)
  have ir: "in_ram ?t a = in_ram s a" for a
    by (simp add: t in_ram_def)
  have mk: "a AND rammask s = a" if "in_ram s a" for a
    using so that by (auto simp: sound_def intro: in_ram_mask)
  have ra: "ram_at ?t a = (if a = pa then b else ram_at s a)" if "in_ram s a" for a
    using mk [OF that] mk [of pa] that by (cases "in_ram s pa") (auto simp: t ram_at_def)
  have "sound ?t"
    using so q by (auto simp: sound_def exp_ok_def mem_ok_def) (auto simp: t)
  moreover have "agree m dn (rf @ [(pa, b)]) ?t"
    using ag settled_write [of "ram_at s pa" "mem_after dn m pa" "at pa (open_views s)" b]
    unfolding agree_def ov ir by (auto simp: ra)
  ultimately show ?thesis
    using pd by simp
qed

lemma store_bytes_spec:
  "sound s \<Longrightarrow> agree m dn rf s \<Longrightarrow> (let t = fold (\<lambda>(pa, b). store_byte pa b) ws s in
     sound t \<and> agree m dn (rf @ ws) t \<and> pend t = pend s)"
proof (induction ws arbitrary: rf s)
  case (Cons w ws)
  obtain pa b where w: "w = (pa, b)"
    by (cases w)
  have st: "sound (store_byte pa b s)" "agree m dn (rf @ [(pa, b)]) (store_byte pa b s)"
    "pend (store_byte pa b s) = pend s"
    using store_byte_spec [OF Cons.prems] by auto
  show ?case
    using Cons.IH [OF st(1,2)] st(3) w by (simp add: Let_def)
qed simp

lemma same_env_frames: "same_env s t \<Longrightarrow> in_ram t a = in_ram s a" "same_env s t \<Longrightarrow> ram_at t a = ram_at s a"
  "same_env s t \<Longrightarrow> stage_w t = stage_w s" "same_env s t \<Longrightarrow> x87_lenient t = x87_lenient s"
  "same_env s t \<Longrightarrow> mem_ok t = mem_ok s"
  by (simp_all add: same_env_def in_ram_def ram_at_def mem_ok_def)

lemma sound_turn: "sound s \<Longrightarrow> exp_ok t \<Longrightarrow> same_env s t \<Longrightarrow> sound t"
  by (simp add: sound_def same_env_frames)

lemma agree_ram: "agree m dn rf s \<Longrightarrow> in_ram s a \<Longrightarrow>
    settled (ram_at s a) (mem_after dn m a) (at a (open_views s))"
  by (simp add: agree_def)

lemma agree_dev: "agree m dn rf s \<Longrightarrow> \<not> in_ram s a \<Longrightarrow>
    map snd (filter (\<lambda>w. fst w = a) dn) @ map fst (at a (open_views s)) = map snd (filter (\<lambda>w. fst w = a) rf)"
  by (simp add: agree_def)

lemma agree_silent: "agree m dn rf s \<Longrightarrow> (a, v, True) \<in> set (open_views s) \<Longrightarrow> in_ram s a"
  by (auto simp: agree_def)

lemma agree_matched:
  assumes ag: "agree m dn rf s" and se: "same_env s t"
    and p: "pend s = xs @ e # ys" "pend t = xs @ ys" "e_addr e = phys" "e_val e = val" "\<forall>x\<in>set xs. e_addr x \<noteq> phys"
  shows "agree m (dn @ [(phys, val)]) rf t"
proof -
  define us where "us = map view xs"
  define vs where "vs = map view ys @ map view (q_list (stage_w s))"
  have ov: "open_views s = us @ (phys, val, e_silent e) # vs" "open_views t = us @ vs"
    using p same_env_frames(3) [OF se] by (simp_all add: open_views_def us_def vs_def view_def)
  have no: "at phys us = []"
    using p(5) by (auto simp: us_def at_def view_def filter_empty_conv)
  have "settled (ram_at s a) (mem_after (dn @ [(phys, val)]) m a) (at a (us @ vs))" if "in_ram s a" for a
    using agree_ram [OF ag that] no settled_match [of "ram_at s phys" "mem_after dn m phys" val "e_silent e" "at phys vs"]
    by (cases "a = phys") (simp_all add: ov del: settled.simps(2))
  moreover have "map snd (filter (\<lambda>w. fst w = a) (dn @ [(phys, val)])) @ map fst (at a (us @ vs)) =
      map snd (filter (\<lambda>w. fst w = a) rf)" if "\<not> in_ram s a" for a
    using ag that no by (auto simp: agree_def ov)
  moreover have "\<forall>(a, v, silent)\<in>set (us @ vs). silent \<longrightarrow> in_ram s a"
    using ag by (auto simp: agree_def ov)
  ultimately show ?thesis
    using se by (simp add: agree_def same_env_frames ov)
qed

lemma agree_rewritten:
  assumes ag: "agree m dn rf s" and se: "same_env s t" and p: "pend t = pend s"
    and r: "in_ram s phys" "ram_at s phys = val"
  shows "agree m (dn @ [(phys, val)]) rf t"
proof -
  have ov: "open_views t = open_views s"
    using p same_env_frames(3) [OF se] by (simp add: open_views_def)
  have "settled (ram_at s a) (mem_after (dn @ [(phys, val)]) m a) (at a (open_views s))" if "in_ram s a" for a
    using ag that r settled_ram [of "ram_at s phys"] by (auto simp: agree_def)
  then show ?thesis
    using ag se r by (auto simp: agree_def same_env_frames ov)
qed

lemma agree_dropped:
  assumes ag: "agree m dn rf s" and se: "same_env s t" and p: "pend s = xs @ pend t" "\<forall>x\<in>set xs. e_silent x"
  shows "agree m dn rf t"
proof -
  define us where "us = map view xs"
  have ov: "open_views s = us @ open_views t"
    using p same_env_frames(3) [OF se] by (simp add: open_views_def us_def)
  have si: "\<forall>x\<in>set (at a us). snd x" for a
    using p(2) by (auto simp: us_def at_def view_def)
  have "at a us = []" if "\<not> in_ram s a" for a
  proof (rule ccontr)
    assume "at a us \<noteq> []"
    then obtain x where "x \<in> set xs" "e_addr x = a"
      by (auto simp: us_def at_def view_def filter_empty_conv)
    then have "(a, e_val x, True) \<in> set (open_views s)"
      using p(2) by (force simp: ov us_def view_def)
    then show False
      using agree_silent [OF ag] that by blast
  qed
  then show ?thesis
    using ag se settled_drop [OF _ si] by (auto simp: agree_def same_env_frames ov)
qed

lemma agree_same: "agree m dn rf s \<Longrightarrow> same_env s t \<Longrightarrow> pend t = pend s \<Longrightarrow> agree m dn rf t"
  by (rule agree_dropped [where xs = "[]"]) auto

definition parked_of :: "q_t \<Rightarrow> (u32 \<times> u8) list" where
  "parked_of q = map (\<lambda>e. (e_addr e, e_val e)) (q_list q)"

text \<open>
  A write of z486: it is matched, or parked because the reference has nothing open, or refused with
  an error.
\<close>

lemma match_write_agree:
  "sound s \<Longrightarrow> agree m dn rf s \<Longrightarrow> match_write phys val s = Some (r, t) \<Longrightarrow>
     (r = COSIM_OK \<and> sound t \<and> same_env s t \<and> c_err t = c_err s \<and>
        (pend s \<noteq> [] \<and> agree m (dn @ [(phys, val)]) rf t \<and> dut_w t = dut_w s \<or>
         pend t = [] \<and> agree m dn rf t \<and> parked_of (dut_w t) = parked_of (dut_w s) @ [(phys, val)])) \<or>
     r = COSIM_ERROR \<and> c_err t \<noteq> None"
proof (induction "length (pend s)" arbitrary: s rule: less_induct)
  case less
  obtain r1 t1 where mr: "match_round phys val s = (r1, t1)"
    by (cases "match_round phys val s") auto
  have tu: "turn phys val s r1 t1" and se: "same_env s t1" and so: "sound t1"
    using match_round_turn [OF _ mr] less(2) sound_turn [of s t1] by (auto simp: sound_def)
  note mw = less(4)
  show ?case
    using tu
  proof cases
    case parked
    then have "(r, t) = (COSIM_OK, t1)"
      using mr mw by (subst (asm) match_write.simps) simp
    then show ?thesis
      using parked so se agree_same [OF less(3) se] by (auto simp: parked_of_def)
  next
    case (matched xs e ys)
    then have "(r, t) = (COSIM_OK, t1)"
      using mr mw by (subst (asm) match_write.simps) simp
    then show ?thesis
      using matched so se agree_matched [OF less(3) se matched(2,3,4,5,6)] by auto
  next
    case rewritten
    then have "(r, t) = (COSIM_OK, t1)"
      using mr mw by (subst (asm) match_write.simps) simp
    then show ?thesis
      using rewritten so se agree_rewritten [OF less(3) se] by auto
  next
    case (dropped xs)
    then have mw1: "match_write phys val t1 = Some (r, t)"
      using mr mw by (subst (asm) match_write.simps) simp
    have "length (pend t1) < length (pend s)"
      using dropped by simp
    then have ih: "(r = COSIM_OK \<and> sound t \<and> same_env t1 t \<and> c_err t = c_err t1 \<and>
        (pend t1 \<noteq> [] \<and> agree m (dn @ [(phys, val)]) rf t \<and> dut_w t = dut_w t1 \<or>
         pend t = [] \<and> agree m dn rf t \<and> parked_of (dut_w t) = parked_of (dut_w t1) @ [(phys, val)])) \<or>
     r = COSIM_ERROR \<and> c_err t \<noteq> None"
      using less(1) [of t1] so agree_dropped [OF less(3) se dropped(2,4)] mw1 by blast
    have "same_env t1 t \<Longrightarrow> same_env s t"
      using se by (simp add: same_env_def)
    then show ?thesis
      using ih dropped by auto
  next
    case refused
    then have "(r, t) = (COSIM_ERROR, t1)"
      using mr mw by (subst (asm) match_write.simps) simp
    then show ?thesis
      using refused by simp
  next
    case (adopted xs e ys)
    then show ?thesis
      using less(2) by (simp add: sound_def)
  qed
qed

text \<open>Replaying the parked writes after an instruction of the reference joined.\<close>

lemma replay_writes_agree:
  "sound s \<Longrightarrow> agree m dn rf s \<Longrightarrow> (parked_of (dut_w s) \<noteq> [] \<Longrightarrow> pend s = []) \<Longrightarrow>
   \<exists>t. replay_writes es s = Some t \<and> (c_err t \<noteq> None \<or>
     sound t \<and> same_env s t \<and> c_err t = c_err s \<and> (parked_of (dut_w t) \<noteq> [] \<longrightarrow> pend t = []) \<and>
     (\<exists>dn'. agree m dn' rf t \<and> dn' @ parked_of (dut_w t) = dn @ parked_of (dut_w s) @ map (\<lambda>e. (e_addr e, e_val e)) es))"
proof (induction es arbitrary: s dn)
  case (Cons e es)
  obtain r t where mw: "match_write (e_addr e) (e_val e) s = Some (r, t)"
    using match_write_total [of s "e_addr e" "e_val e"] Cons.prems(1) by (auto simp: sound_def)
  note ag = match_write_agree [OF Cons.prems(1,2) mw]
  show ?case
  proof (cases "r = COSIM_OK")
    case False
    then show ?thesis
      using ag mw by auto
  next
    case True
    then have t: "sound t" "same_env s t" "c_err t = c_err s"
      using ag by auto
    from ag True consider
        (fin) "pend s \<noteq> []" "agree m (dn @ [(e_addr e, e_val e)]) rf t" "dut_w t = dut_w s"
      | (park) "pend t = []" "agree m dn rf t" "parked_of (dut_w t) = parked_of (dut_w s) @ [(e_addr e, e_val e)]"
      by auto
    then show ?thesis
    proof cases
      case fin
      then have "parked_of (dut_w s) = []"
        using Cons.prems(3) by auto
      then show ?thesis
        using Cons.IH [OF t(1) fin(2)] fin(3) mw True t by (auto simp: same_env_def)
    next
      case park
      then show ?thesis
        using Cons.IH [OF t(1) park(2)] mw True t by (auto simp: same_env_def)
    qed
  qed
qed auto

lemma agree_frame:
  assumes "c_ram t = c_ram s" "rammask t = rammask s" "ram_bytes t = ram_bytes s" "exp_w t = exp_w s"
    "q_list (stage_w t) = q_list (stage_w s)"
  shows "agree m dn rf t = agree m dn rf s"
proof -
  have "in_ram t = in_ram s" "ram_at t = ram_at s" "open_views t = open_views s"
    using assms by (auto simp: in_ram_def ram_at_def open_views_def pend_def)
  then show ?thesis
    by (simp add: agree_def)
qed

lemma sound_frame:
  assumes "rammask t = rammask s" "ram_bytes t = ram_bytes s" "exp_w t = exp_w s" "dut_w t = dut_w s"
    "stage_w t = stage_w s" "x87_lenient t = x87_lenient s"
  shows "sound t = sound s"
  using assms by (simp add: sound_def exp_ok_def mem_ok_def)

lemma expect_writes: "foldl (expect_write n) q es = foldl q_push_ev q (map (\<lambda>e. e\<lparr>e_grp := n\<rparr>) es)"
  by (induction es arbitrary: q) (simp_all add: expect_write_def)

lemma join_staged_frames [simp]:
  "c_ram (join_staged s) = c_ram s" "rammask (join_staged s) = rammask s" "ram_bytes (join_staged s) = ram_bytes s"
  "dut_w (join_staged s) = dut_w s" "x87_lenient (join_staged s) = x87_lenient s" "c_err (join_staged s) = c_err s"
  "a20_on (join_staged s) = a20_on s"
  by (simp_all add: join_staged_def)

lemma join_staged_spec:
  assumes so: "sound s" and ag: "agree m dn rf s"
  shows "sound (join_staged s) \<and> agree m dn rf (join_staged s) \<and> q_list (stage_w (join_staged s)) = []"
proof -
  let ?t = "join_staged s"
  let ?es = "map (\<lambda>e. e\<lparr>e_grp := ninsn s\<rparr>) (q_list (stage_w s))"
  have w: "q_wf (exp_w s)" "q_wf (stage_w s)" and nd: "\<forall>e\<in>set (q_list (stage_w s)). \<not> e_done e"
    using so by (auto simp: sound_def exp_ok_def)
  have ex: "exp_w ?t = foldl q_push_ev (exp_w s) ?es"
    by (simp add: join_staged_def expect_writes)
  have q: "q_wf (exp_w ?t)" "q_list (exp_w ?t) = q_list (exp_w s) @ ?es"
    using evq.pushes [OF w(1), of ?es] by (simp_all add: ex)
  have st: "q_wf (stage_w ?t)" "q_list (stage_w ?t) = []"
    using w by (simp_all add: join_staged_def)
  have "pend ?t = pend s @ ?es"
    using nd by (simp add: pend_def pending_of_def q filter_id_conv)
  then have "open_views ?t = open_views s"
    using st by (simp add: open_views_def view_def comp_def)
  then have "agree m dn rf ?t"
    using ag by (simp add: agree_def in_ram_def ram_at_def)
  moreover have "sound ?t"
    using so q st by (simp add: sound_def exp_ok_def mem_ok_def)
  ultimately show ?thesis
    using st by simp
qed

lemma replay_io_frames:
  "c_ram (replay_io es s) = c_ram s \<and> rammask (replay_io es s) = rammask s \<and> ram_bytes (replay_io es s) = ram_bytes s \<and>
   exp_w (replay_io es s) = exp_w s \<and> stage_w (replay_io es s) = stage_w s \<and> dut_w (replay_io es s) = dut_w s \<and>
   x87_lenient (replay_io es s) = x87_lenient s \<and> a20_on (replay_io es s) = a20_on s \<and>
   (c_err s \<noteq> None \<longrightarrow> c_err (replay_io es s) \<noteq> None)"
proof (induction es arbitrary: s)
  case (Cons e es)
  have f: "c_ram (snd (match_io p v s)) = c_ram s \<and> rammask (snd (match_io p v s)) = rammask s \<and>
     ram_bytes (snd (match_io p v s)) = ram_bytes s \<and> exp_w (snd (match_io p v s)) = exp_w s \<and>
     stage_w (snd (match_io p v s)) = stage_w s \<and> dut_w (snd (match_io p v s)) = dut_w s \<and>
     x87_lenient (snd (match_io p v s)) = x87_lenient s \<and> a20_on (snd (match_io p v s)) = a20_on s \<and>
     (c_err s \<noteq> None \<longrightarrow> c_err (snd (match_io p v s)) \<noteq> None)" for p v
    by (auto simp: match_io_def Let_def fail_with_def)
  then show ?case
    using Cons.IH by (auto simp: Let_def split: prod.splits) (metis snd_conv)+
qed simp

lemma stage_io_frames: "\<exists>q. fold (\<lambda>b s. s\<lparr>stage_io := f b s\<rparr>) bs s = s\<lparr>stage_io := q\<rparr>"
proof (induction bs arbitrary: s)
  case Nil
  show ?case
    by (intro exI [of _ "stage_io s"]) simp
next
  case (Cons b bs)
  obtain q where "fold (\<lambda>b s. s\<lparr>stage_io := f b s\<rparr>) bs (s\<lparr>stage_io := f b s\<rparr>) = s\<lparr>stage_io := f b s, stage_io := q\<rparr>"
    using Cons.IH by blast
  then show ?case
    by auto
qed

lemma io_out_frames: "\<exists>q i. io_out pending port sz val s = s\<lparr>stage_io := q, ignne := i\<rparr>"
proof -
  have "\<exists>i. set_ignne pending port s = s\<lparr>ignne := i\<rparr>"
    by (rule exI [of _ "if port = 0xF0 then pending else ignne s"]) (simp add: set_ignne_def)
  then obtain i where i: "set_ignne pending port s = s\<lparr>ignne := i\<rparr>" ..
  have "\<exists>q. io_out pending port sz val s = s\<lparr>ignne := i, stage_io := q\<rparr>"
    unfolding io_out_def i by (rule stage_io_frames)
  then obtain q where "io_out pending port sz val s = s\<lparr>ignne := i, stage_io := q\<rparr>" ..
  then show ?thesis
    by (intro exI [of _ q] exI [of _ i]) simp
qed

lemma io_outs_frames: "\<exists>q i. fold (\<lambda>(pending, port, sz, val). io_out pending port sz val) outs s = s\<lparr>stage_io := q, ignne := i\<rparr>"
proof (induction outs arbitrary: s)
  case Nil
  show ?case
    by (intro exI [of _ "stage_io s"] exI [of _ "ignne s"]) simp
next
  case (Cons x xs)
  obtain e p n v where x: "x = (e, p, n, v)"
    by (cases x)
  obtain q i where q: "io_out e p n v s = s\<lparr>stage_io := q, ignne := i\<rparr>"
    using io_out_frames by blast
  obtain r j where "fold (\<lambda>(pending, port, sz, val). io_out pending port sz val) xs (s\<lparr>stage_io := q, ignne := i\<rparr>) =
      s\<lparr>stage_io := q, ignne := i, stage_io := r, ignne := j\<rparr>"
    using Cons.IH by blast
  then show ?case
    by (auto simp: x q)
qed

lemma store_bytes_frames:
  "(let t = fold (\<lambda>(pa, b). store_byte pa b) ws s in dut_w t = dut_w s \<and> a20_on t = a20_on s)"
  by (induction ws arbitrary: s) (simp_all add: Let_def split_beta store_byte_eq)

lemma ref_insn_spec:
  assumes so: "sound s" and ag: "agree m dn rf s" and st: "q_list (stage_w s) = []"
  shows "sound (ref_insn ws outs s) \<and> agree m dn (rf @ ws) (ref_insn ws outs s) \<and> pend (ref_insn ws outs s) = pend s \<and>
    dut_w (ref_insn ws outs s) = dut_w s \<and> a20_on (ref_insn ws outs s) = a20_on s"
proof -
  define d where "d = drop_step s"
  have wst: "q_wf (stage_w s)"
    using so by (simp add: sound_def)
  have d: "sound d" "agree m dn rf d" "pend d = pend s" "dut_w d = dut_w s" "a20_on d = a20_on s"
    using so wst agree_frame [of d s m dn rf] ag st
    by (simp_all add: d_def drop_step_def sound_def exp_ok_def mem_ok_def pend_def)
  define u where "u = fold (\<lambda>(pa, b). store_byte pa b) ws d"
  have u: "sound u" "agree m dn (rf @ ws) u" "pend u = pend s" "dut_w u = dut_w s" "a20_on u = a20_on s"
    using store_bytes_spec [OF d(1,2), of ws] store_bytes_frames [of ws d] d by (simp_all add: u_def Let_def)
  define t where "t = ref_insn ws outs s"
  have fr: "c_ram t = c_ram u" "rammask t = rammask u" "ram_bytes t = ram_bytes u" "exp_w t = exp_w u" "stage_w t = stage_w u"
    "dut_w t = dut_w u" "x87_lenient t = x87_lenient u" "a20_on t = a20_on u"
    using io_outs_frames [of outs u] by (auto simp: t_def ref_insn_def u_def d_def Let_def)
  have "sound t" "agree m dn (rf @ ws) t" "pend t = pend s"
    using sound_frame [OF fr(2,3,4,6,5,7)] agree_frame [OF fr(1-4)] u fr by (simp_all add: pend_def)
  then show ?thesis
    using u fr by (simp add: t_def)
qed

definition session_inv :: "bool \<Rightarrow> (u32 \<Rightarrow> u8) \<Rightarrow> (u32 \<times> u8) list \<Rightarrow> (u32 \<times> u8) list \<Rightarrow> cmp \<Rightarrow> bool" where
  "session_inv a20 m ws rf s \<longleftrightarrow> sound s \<and> q_list (stage_w s) = [] \<and> a20_on s = a20 \<and>
     (parked_of (dut_w s) \<noteq> [] \<longrightarrow> pend s = []) \<and> (\<exists>dn. agree m dn rf s \<and> dn @ parked_of (dut_w s) = ws)"

lemma ok_state_Some: "ok_state r = Some t \<longleftrightarrow> r = (COSIM_OK, t)"
  by (cases r) (auto simp: ok_state_def)

lemma commit_inv:
  assumes inv: "sound s" "agree m dn rf s" "a20_on s = a20"
    and c: "commit_writes s = Some (COSIM_OK, t)"
  shows "session_inv a20 m (dn @ parked_of (dut_w s)) rf t"
proof -
  define j where "j = (join_staged s)\<lparr>dut_w := q_none\<rparr>"
  have js: "sound (join_staged s)" "agree m dn rf (join_staged s)" "q_list (stage_w (join_staged s)) = []"
    using join_staged_spec [OF inv(1,2)] by auto
  have j: "sound j" "agree m dn rf j" "q_list (stage_w j) = []" "parked_of (dut_w j) = []" "a20_on j = a20"
    using js agree_frame [of j "join_staged s" m dn rf] inv(3)
    by (simp_all add: j_def sound_def exp_ok_def mem_ok_def parked_of_def)
  obtain u where u: "replay_writes (q_list (dut_w s)) j = Some u"
    and alt: "c_err u \<noteq> None \<or> sound u \<and> same_env j u \<and> c_err u = c_err j \<and> (parked_of (dut_w u) \<noteq> [] \<longrightarrow> pend u = []) \<and>
      (\<exists>dn'. agree m dn' rf u \<and> dn' @ parked_of (dut_w u) = dn @ parked_of (dut_w j) @ parked_of (dut_w s))"
    using replay_writes_agree [OF j(1,2), of "q_list (dut_w s)"] j(4) unfolding parked_of_def by auto
  define v where "v = replay_io (q_list (dut_io u)) (u\<lparr>dut_io := q_none\<rparr>)"
  have fr: "c_ram v = c_ram u" "rammask v = rammask u" "ram_bytes v = ram_bytes u" "exp_w v = exp_w u" "stage_w v = stage_w u"
    "dut_w v = dut_w u" "x87_lenient v = x87_lenient u" "a20_on v = a20_on u" "c_err u \<noteq> None \<longrightarrow> c_err v \<noteq> None"
    using replay_io_frames [of "q_list (dut_io u)" "u\<lparr>dut_io := q_none\<rparr>"] by (simp_all add: v_def)
  have cv: "t = v" "c_err v = None"
    using c u by (auto simp: commit_writes_def Let_def j_def v_def split: if_splits)
  then have alt2: "sound u" "same_env j u" "parked_of (dut_w u) \<noteq> [] \<longrightarrow> pend u = []"
    "\<exists>dn'. agree m dn' rf u \<and> dn' @ parked_of (dut_w u) = dn @ parked_of (dut_w s)"
    using alt fr(9) j(4) by auto
  have "sound v" "agree m dn' rf v = agree m dn' rf u" "pend v = pend u" for dn'
    using sound_frame [OF fr(2,3,4,6,5,7)] agree_frame [OF fr(1-4)] alt2(1) fr by (simp_all add: pend_def)
  moreover have "q_list (stage_w v) = []" "a20_on v = a20"
    using alt2(2) j fr by (simp_all add: same_env_def)
  ultimately show ?thesis
    using alt2 fr cv by (auto simp: session_inv_def)
qed

lemma cosim_act_inv:
  assumes inv: "session_inv a20 m ws rf s" and act: "cosim_act a s = Some t"
  shows "session_inv a20 m (ws @ dut_writes a20 [a]) (rf @ ref_writes [a]) t"
proof -
  obtain dn where so: "sound s" "q_list (stage_w s) = []" "a20_on s = a20" "parked_of (dut_w s) \<noteq> [] \<longrightarrow> pend s = []"
    and dn: "agree m dn rf s" "dn @ parked_of (dut_w s) = ws"
    using inv by (auto simp: session_inv_def)
  show ?thesis
  proof (cases a)
    case (RefInsn w outs)
    let ?r = "ref_insn w outs s"
    have r: "sound ?r" "agree m dn (rf @ w) ?r" "pend ?r = pend s" "dut_w ?r = dut_w s" "a20_on ?r = a20"
      using ref_insn_spec [OF so(1) dn(1) so(2), of w outs] so(3) by auto
    have "commit_writes ?r = Some (COSIM_OK, t)"
      using act RefInsn by (auto simp: cosim_act_def ok_state_Some bind_eq_Some_conv)
    then have "session_inv a20 m (dn @ parked_of (dut_w ?r)) (rf @ w) t"
      using commit_inv [OF r(1,2,5)] r so(4) by simp
    then show ?thesis
      using RefInsn dn(2) r(4) by simp
  next
    case (DutWrite p v)
    then have "match_write (platform_phys a20 p) v s = Some (COSIM_OK, t)"
      using act so(3) by (auto simp: cosim_act_def ok_state_Some bind_eq_Some_conv c86_dut_write_def)
    from match_write_agree [OF so(1) dn(1) this]
    have t: "sound t" "same_env s t" and alt: "pend s \<noteq> [] \<and> agree m (dn @ [(platform_phys a20 p, v)]) rf t \<and> dut_w t = dut_w s \<or>
         pend t = [] \<and> agree m dn rf t \<and> parked_of (dut_w t) = parked_of (dut_w s) @ [(platform_phys a20 p, v)]"
      by auto
    have "q_list (stage_w t) = []" "a20_on t = a20"
      using t so by (simp_all add: same_env_def)
    then show ?thesis
      using alt so(4) dn(2) t(1) DutWrite by (auto simp: session_inv_def)
  next
    case (DutOut p v)
    then have t: "match_io p v s = (COSIM_OK, t)"
      using act by (simp add: cosim_act_def ok_state_Some c86_dut_io_write_def)
    have fr: "c_ram t = c_ram s" "rammask t = rammask s" "ram_bytes t = ram_bytes s" "exp_w t = exp_w s" "stage_w t = stage_w s"
      "dut_w t = dut_w s" "x87_lenient t = x87_lenient s" "a20_on t = a20_on s"
      using t by (auto simp: match_io_def Let_def fail_with_def split: if_splits)
    have "sound t" "agree m dn rf t" "pend t = pend s"
      using sound_frame [OF fr(2,3,4,6,5,7)] agree_frame [OF fr(1-4)] so(1) dn(1) fr by (simp_all add: pend_def)
    then show ?thesis
      using so dn fr DutOut by (auto simp: session_inv_def)
  qed
qed

lemma dut_writes_Cons: "dut_writes a20 (a # as) = dut_writes a20 [a] @ dut_writes a20 as"
  and ref_writes_Cons: "ref_writes (a # as) = ref_writes [a] @ ref_writes as"
  by (cases a; simp)+

lemma session_keeps:
  "session_inv a20 m ws rf s \<Longrightarrow> session acts s = Some t \<Longrightarrow>
     session_inv a20 m (ws @ dut_writes a20 acts) (rf @ ref_writes acts) t"
proof (induction acts arbitrary: ws rf s)
  case (Cons a as)
  obtain u where u: "cosim_act a s = Some u" "session as u = Some t"
    using Cons.prems(2) by (auto split: option.splits)
  show ?case
    using Cons.IH [OF cosim_act_inv [OF Cons.prems(1) u(1)] u(2)] dut_writes_Cons [of a20 a as] ref_writes_Cons [of a as]
    by simp
qed simp

text \<open>A session begins with every queue empty and strict comparison, and RAM addresses that fit the mask.\<close>

definition fresh :: "cmp \<Rightarrow> bool" where
  "fresh s \<longleftrightarrow> \<not> x87_lenient s \<and> mem_ok s \<and>
     list_all (\<lambda>q. q_wf q \<and> q_empty q) [exp_w s, dut_w s, stage_w s, exp_io s, dut_io s, stage_io s]"

lemma fresh_inv: "fresh s \<Longrightarrow> session_inv (a20_on s) (ram_at s) [] [] s"
proof -
  assume f: "fresh s"
  then have "q_list (exp_w s) = []" "q_list (dut_w s) = []" "q_list (stage_w s) = []"
    by (simp_all add: fresh_def flip: q_empty_iff)
  then show ?thesis
    using f by (simp add: fresh_def session_inv_def sound_def exp_ok_def agree_def open_views_def pend_def pending_of_def
        parked_of_def mem_after_def)
qed

text \<open>Nothing is open on either side.\<close>

definition drained :: "cmp \<Rightarrow> bool" where
  "drained s \<longleftrightarrow> \<not> fst (c86_writes_pending s) \<and> q_empty (dut_w s) \<and> q_empty (dut_io s)"

lemma session_agree:
  assumes f: "fresh s" and r: "session acts s = Some t" and d: "drained t"
  shows "(in_ram t a \<longrightarrow> mem_after (dut_writes (a20_on s) acts) (ram_at s) a = ram_at t a) \<and>
    (\<not> in_ram t a \<longrightarrow> map snd (filter (\<lambda>w. fst w = a) (dut_writes (a20_on s) acts)) =
       map snd (filter (\<lambda>w. fst w = a) (ref_writes acts)))"
proof -
  have inv: "session_inv (a20_on s) (ram_at s) (dut_writes (a20_on s) acts) (ref_writes acts) t"
    using session_keeps [OF fresh_inv [OF f] r] by simp
  then have so: "exp_ok t" "q_list (stage_w t) = []"
    by (simp_all add: session_inv_def sound_def)
  have p: "pend t = []" "parked_of (dut_w t) = []"
    using d so by (auto simp: drained_def c86_writes_pending_def Let_def pend_def exp_ok_def advance_q_empty
        parked_of_def simp flip: q_empty_iff)
  then have "agree (ram_at s) (dut_writes (a20_on s) acts) (ref_writes acts) t" "open_views t = []"
    using inv so by (auto simp: session_inv_def open_views_def)
  then show ?thesis
    by (auto simp: agree_def)
qed

text \<open>
  C1: The comparison is sound for memory. When a session starts with empty queues and every write
  was accepted, and in the end nothing is open on either side, then every RAM byte the reference
  holds is the byte z486's own writes leave there, in whatever order within an instruction, however
  far ahead of each other the two sides ran, and with silent writes done by one side only.
\<close>

theorem cosim_memory_agrees:
  assumes "fresh s" and "session acts s = Some t" and "drained t" and "in_ram t a"
  shows "mem_after (dut_writes (a20_on s) acts) (ram_at s) a = ram_at t a"
  using session_agree [OF assms(1-3)] assms(4) by simp



lemma mem_ok_mask: "rammask s = mask n \<Longrightarrow> unat (ram_bytes s) \<le> 2 ^ n \<Longrightarrow> n < 32 \<Longrightarrow> mem_ok s"
  unfolding mem_ok_def
proof (intro allI impI)
  fix a
  assume m: "rammask s = mask n" "unat (ram_bytes s) \<le> 2 ^ n" "n < 32" and a: "a < ram_bytes s"
  have "unat a < 2 ^ n"
    using a m(2) by (simp add: word_less_nat_alt)
  then have "unat (take_bit n a) = unat a"
    by (simp add: unsigned_take_bit_eq take_bit_nat_eq_self)
  then have "take_bit n a = a"
    by (rule unsigned_word_eqI)
  then show "a AND rammask s = a"
    by (simp add: m(1) flip: take_bit_eq_mask)
qed

definition sample_q :: q_t where
  "sample_q = \<lparr>q_v = [ev_zero, ev_zero, ev_zero, ev_zero, ev_zero, ev_zero, ev_zero, ev_zero], q_head = 0, q_tail = 0, q_cap = 8\<rparr>"

definition sample_cmp :: cmp where
  "sample_cmp = \<lparr>c_ram = (\<lambda>_. 0), rammask = 0xFFFFFF, ram_bytes = 0x1000000, a20_on = True, c_err = None, ninsn = 7,
     c_stall = False, mem_log = [], partial_w = [], split_probe = None, cr0 = 0x10, cr2 = 0, cr3 = 0, cpl = 0,
     cpl_override = False, fetching = False, abrt = Fault_none, abrt_error = 0, cur_fpu = False, ignne = False, x87_lenient = False,
     x87_adopted = 0, dev_last = 0xFFFFFFFF, io_rd = sample_q, dev_rd = sample_q, io_cur = 0, dev_cur = 0,
     exp_w = sample_q, dut_w = sample_q, exp_io = sample_q, dut_io = sample_q, stage_w = sample_q, stage_io = sample_q\<rparr>"

lemma fresh_sample: "fresh sample_cmp"
proof -
  have "mem_ok sample_cmp"
    by (rule mem_ok_mask [where n = 24]) (simp_all add: sample_cmp_def mask_eq_exp_minus_1)
  then show ?thesis
    by (simp add: fresh_def) (simp add: sample_cmp_def sample_q_def q_wf_def q_empty_def)
qed

text \<open>A write of z486 ahead of the reference, a push in the other byte order, and a rewritten byte.\<close>

definition sample_session :: "cosim_act list" where
  "sample_session = [DutWrite 0x1000 0x12, RefInsn [(0x1000, 0x12), (0xA0005, 7)] [], DutWrite 0xA0005 7,
     RefInsn [(0x2001, 1), (0x2000, 2)] [], DutWrite 0x2000 2, DutWrite 0x1000 0x12, DutWrite 0x2001 1]"


lemma match_write_step:
  "match_round phys val s = (Some r, t) \<Longrightarrow> match_write phys val s = Some (r, t)"
  "match_round phys val s = (None, t) \<Longrightarrow> match_write phys val s = match_write phys val t"
  by (subst match_write.simps, simp)+

lemmas eval_defs = cosim_act_def c86_dut_write_def platform_phys_def match_round_def advance_exp_def commit_writes_def
  join_staged_def ref_insn_def drop_step_def store_byte_def wr_hook_def put_ram_def mem_log_write_def in_ram_def in_dev_def
  ram_at_def q_push_def q_push_ev_def q_grow_def q_compact_def q_empty_def q_reset_def q_pop_def q_list_def
  DEV_LO_def DEV_HI_def BIOS_ALIAS_def ok_state_def expect_write_def MAX_MEM_LOG_def only_silent_def mark_done_def
  c86_writes_pending_def drained_def Let_def advance_q.simps find_write.simps drop_bit_eq_div mark_all_done_def

lemma sample_session_runs:
  "case session sample_session sample_cmp of None \<Rightarrow> False | Some t \<Rightarrow> drained t \<and> in_ram t 0x2000 \<and> \<not> in_ram t 0xA0005"
  by (simp add: sample_session_def sample_cmp_def sample_q_def ev_zero_def q_none_def eval_defs match_write_step)


theorem cosim_memory_agrees_witness:
  "\<exists>t. session sample_session sample_cmp = Some t \<and> in_ram t 0x2000 \<and>
     mem_after (dut_writes (a20_on sample_cmp) sample_session) (ram_at sample_cmp) 0x2000 = ram_at t 0x2000"
proof -
  obtain t where "session sample_session sample_cmp = Some t" "drained t" "in_ram t 0x2000"
    using sample_session_runs by (auto split: option.splits)
  then show ?thesis
    using cosim_memory_agrees [OF fresh_sample] by blast
qed


text \<open>
  The reference has stored an x87 result (instruction 7) and then 5 (instruction 8) to one byte; z486
  has written neither yet.
\<close>

definition ahead_cmp :: cmp where
  "ahead_cmp = sample_cmp\<lparr>x87_lenient := True, c_ram := (\<lambda>_. 5), exp_w := \<lparr>q_v =
     [\<lparr>e_addr = 0x1000, e_val = 1, e_done = False, e_silent = False, e_fpu = True, e_grp = 7\<rparr>,
      \<lparr>e_addr = 0x1000, e_val = 5, e_done = False, e_silent = False, e_fpu = False, e_grp = 8\<rparr>],
     q_head = 0, q_tail = 2, q_cap = 2\<rparr>\<rparr>"

lemma adoption_overwrites_newer:
  "case Option.bind (match_write 0x1000 9 ahead_cmp) (\<lambda>(r, s). match_write 0x1000 5 s) of None \<Rightarrow> False
   | Some (r, s) \<Rightarrow> r = COSIM_OK \<and> drained s \<and> ram_at s 0x1000 = 9"
proof -
  let ?e = "\<lambda>d1 d2. [\<lparr>e_addr = 0x1000, e_val = 1, e_done = d1, e_silent = False, e_fpu = True, e_grp = 7\<rparr>,
      \<lparr>e_addr = 0x1000, e_val = 5, e_done = d2, e_silent = False, e_fpu = False, e_grp = 8\<rparr>]"
  let ?t = "\<lambda>h d2. ahead_cmp\<lparr>x87_adopted := 1, c_ram := (\<lambda>_. 5)(0x1000 := 9), exp_w := \<lparr>q_v = ?e True d2,
      q_head = h, q_tail = 2, q_cap = 2\<rparr>\<rparr>"
  have "match_round 0x1000 9 ahead_cmp = (Some COSIM_OK, ?t 1 False)"
    by (simp add: ahead_cmp_def sample_cmp_def sample_q_def ev_zero_def match_round_def advance_exp_def advance_q.simps
        q_empty_def find_write.simps in_ram_def in_dev_def DEV_LO_def DEV_HI_def put_ram_def mark_done_def q_pop_def
        drop_bit_eq_div)
  moreover have "match_round 0x1000 5 (?t 1 False) = (Some COSIM_OK, ?t 2 True)"
    by (simp add: ahead_cmp_def sample_cmp_def sample_q_def ev_zero_def match_round_def advance_exp_def advance_q.simps
        q_empty_def find_write.simps mark_done_def q_pop_def)
  ultimately have "Option.bind (match_write 0x1000 9 ahead_cmp) (\<lambda>(r, s). match_write 0x1000 5 s) = Some (COSIM_OK, ?t 2 True)"
    by (simp add: match_write_step)
  then show ?thesis
    by (simp add: ahead_cmp_def sample_cmp_def sample_q_def drained_def c86_writes_pending_def advance_exp_def
        advance_q.simps q_empty_def ram_at_def)
qed

lemma skip_replayed_steps:
  "i < lim \<Longrightarrow> e_addr (v ! i) \<noteq> phys \<Longrightarrow> e_addr (v ! i) = prev \<Longrightarrow>
     skip_replayed v lim phys prev i = skip_replayed v lim phys prev (i + 1)"
  "\<not> (i < lim \<and> e_addr (v ! i) \<noteq> phys \<and> e_addr (v ! i) = prev) \<Longrightarrow> skip_replayed v lim phys prev i = i"
  using skip_replayed.simps [of v lim phys prev i] by (simp_all only: simp_thms if_True if_False)

definition replayed_cmp :: cmp where
  "replayed_cmp = c86_dut_dev_read 0xA0010 2 (c86_dut_dev_read 0xA0000 1 (sample_cmp\<lparr>dev_last := 0xA0000\<rparr>))"

definition stalled_cmp :: cmp where
  "stalled_cmp = snd (rd_hook 0xA0020 (snd (rd_hook 0xA0010 replayed_cmp)))"

lemmas read_defs = sample_cmp_def sample_q_def ev_zero_def rd_hook_def c86_dut_dev_read_def q_push_def q_push_ev_def
  skip_replayed_steps fail_with_def Let_def in_dev_def DEV_LO_def DEV_HI_def drop_step_def

lemma stalled_step_loses_replay:
  "c_stall stalled_cmp \<and> c_err stalled_cmp = None \<and>
   c_err (snd (rd_hook 0xA0020 (snd (rd_hook 0xA0010 (c86_dut_dev_read 0xA0020 3 replayed_cmp))))) = None \<and>
   c_err (snd (rd_hook 0xA0010 (c86_dut_dev_read 0xA0020 3 (drop_step (stalled_cmp\<lparr>c_stall := False\<rparr>))))) =
     Some (DeviceRead 0xA0010 0xA0000)"
  by (simp add: stalled_cmp_def replayed_cmp_def read_defs)

text \<open>
  C11: Matching a write of z486 and committing an instruction's writes always return: a round of the matching loop that goes on has crossed off open writes of the reference, of which there are finitely many.
\<close>

theorem matching_terminates:
  assumes "exp_ok s"
  shows "(\<exists>r t. match_write phys val s = Some (r, t)) \<and> (\<exists>r t. commit_writes s = Some (r, t))"
  using match_write_total [OF assms] commit_writes_total [OF assms] by blast

lemma sample_exp_ok: "exp_ok sample_cmp"
  using fresh_sample by (simp add: fresh_def exp_ok_def)

theorem matching_terminates_witness:
  "(\<exists>r t. match_write 0x2000 5 sample_cmp = Some (r, t)) \<and> (\<exists>r t. commit_writes sample_cmp = Some (r, t))"
  by (rule matching_terminates) (rule sample_exp_ok)

end
