(* ===== verification/Cosim_Memory.thy ===== *)
theory Cosim_Memory
  imports Cosim_Sessions
begin

text \<open>
  Memory as the reference processor sees it: the page walk and the physical map of
  \<open>src/verilator/cosim/cosim86.c\<close>, and the byte-wise accesses and the undo log of
  \<open>src/verilator/cosim/stubs.c\<close> with the hooks of \<open>cosim_init\<close> installed.
\<close>

section \<open>Paging\<close>

definition ram32 :: "cmp \<Rightarrow> u32 \<Rightarrow> u32" where
  "ram32 s a = ucast (ram_at s a) OR push_bit 8 (ucast (ram_at s (a + 1))) OR
     push_bit 16 (ucast (ram_at s (a + 2))) OR push_bit 24 (ucast (ram_at s (a + 3)))"

definition user_mode :: "cmp \<Rightarrow> bool" where
  "user_mode s \<longleftrightarrow> cpl s = 3 \<and> \<not> cpl_override s"

definition page_fault :: "u32 \<Rightarrow> bool \<Rightarrow> u32 \<Rightarrow> cmp \<Rightarrow> u32 \<times> cmp" where
  "page_fault lin probe_only err_code s =
     (if probe_only then (0xFFFFFFFF, s)
      else (0, s\<lparr>cr2 := (if fetching s then lin AND NOT 0xF else lin), abrt_error := err_code, abrt := Fault_pf\<rparr>))"

definition pde_at :: "u32 \<Rightarrow> cmp \<Rightarrow> u32" where
  "pde_at lin s = ram32 s ((cr3 s AND NOT 0xFFF) + push_bit 2 (drop_bit 22 lin))"

definition pte_at :: "u32 \<Rightarrow> cmp \<Rightarrow> u32" where
  "pte_at lin s = ram32 s ((pde_at lin s AND NOT 0xFFF) + push_bit 2 (drop_bit 12 lin AND 0x3FF))"

definition walk :: "u32 \<Rightarrow> bool \<Rightarrow> bool \<Rightarrow> cmp \<Rightarrow> u32 \<times> cmp" where
  "walk lin wr probe_only s =
     (if \<not> bit (cr0 s) 31 then (platform_phys (a20_on s) lin, s)
      else let user = user_mode s;
               err_code = (if wr then 2 else 0) OR (if user then 4 else 0);
               pde = pde_at lin s
           in if \<not> bit pde 0 then page_fault lin probe_only err_code s
           else let pte = pte_at lin s
           in if \<not> bit pte 0 then page_fault lin probe_only err_code s
           else let err_code = err_code OR 1
           in if user \<and> \<not> bit (pde AND pte) 2 then page_fault lin probe_only err_code s
           else if wr \<and> (user \<or> bit (cr0 s) 16) \<and> \<not> bit (pde AND pte) 1 then page_fault lin probe_only err_code s
           else (platform_phys (a20_on s) ((pte AND NOT 0xFFF) OR (lin AND 0xFFF)), s))"

text \<open>\<open>iss_probe\<close>: translate \<open>n\<close> bytes ahead of an access, remembering a split write's first part.\<close>

fun iss_probe_from :: "nat \<Rightarrow> nat \<Rightarrow> u32 \<Rightarrow> bool \<Rightarrow> cmp \<Rightarrow> cmp" where
  "iss_probe_from 0 i lin wr s = s"
| "iss_probe_from (Suc n) i lin wr s =
     (if abrt s \<noteq> Fault_none then s
      else let a = lin + word_of_nat i; t = snd (walk a wr False s);
               u = (if abrt t \<noteq> Fault_none \<and> wr \<and> 0 < i \<and> a AND 0xFFF = 0 then t\<lparr>split_probe := Some (lin, i)\<rparr> else t)
           in iss_probe_from n (i + 1) lin wr u)"

definition iss_probe :: "u32 \<Rightarrow> nat \<Rightarrow> bool \<Rightarrow> cmp \<Rightarrow> cmp" where
  "iss_probe lin n wr s = iss_probe_from n 0 lin wr s"

definition peek_lin :: "cmp \<Rightarrow> u32 \<Rightarrow> u8" where
  "peek_lin s lin = (let p = fst (walk lin False True s)
     in if p = 0xFFFFFFFF \<or> ram_bytes s \<le> p then 0xFF else ram_at s p)"

section \<open>Memory accesses of the reference\<close>

text \<open>\<open>xl\<close> with the co-simulation's hooks installed; \<open>None\<close> for its result 0.\<close>

definition xl :: "u32 \<Rightarrow> bool \<Rightarrow> cmp \<Rightarrow> u32 option \<times> cmp" where
  "xl addr wr s =
     (if abrt s \<noteq> Fault_none then (None, s)
      else let (p, t) = walk addr wr False s
           in if abrt t \<noteq> Fault_none then (None, t) else (Some p, t))"

fun read_from :: "nat \<Rightarrow> nat \<Rightarrow> u32 \<Rightarrow> u32 \<Rightarrow> cmp \<Rightarrow> u32 \<times> cmp" where
  "read_from 0 i addr v s = (v, s)"
| "read_from (Suc n) i addr v s =
     (case xl (addr + word_of_nat i) False s of
        (None, t) \<Rightarrow> (0xFFFFFFFF, t)
      | (Some a, t) \<Rightarrow>
          let (h, u) = rd_hook a t; b = (case h of Some b \<Rightarrow> b | None \<Rightarrow> ram_at u a)
          in read_from n (i + 1) addr (v OR push_bit (8 * i) (ucast b)) u)"

definition read_n :: "u32 \<Rightarrow> nat \<Rightarrow> cmp \<Rightarrow> u32 \<times> cmp" where
  "read_n addr n s = read_from n 0 addr 0 s"

definition byte_at :: "u32 \<Rightarrow> nat \<Rightarrow> u8" where
  "byte_at val i = ucast (drop_bit (8 * i) val)"

fun store_partial :: "(u32 \<times> u8) list \<Rightarrow> cmp \<Rightarrow> cmp" where
  "store_partial [] s = s"
| "store_partial ((pa, b) # ws) s =
     (if length (partial_w s) < 4
      then let t = store_byte pa b s in store_partial ws (t\<lparr>partial_w := partial_w t @ [(pa, b)]\<rparr>)
      else s)"

fun store_all :: "(u32 \<times> u8) list \<Rightarrow> cmp \<Rightarrow> cmp" where
  "store_all [] s = s"
| "store_all ((pa, b) # ws) s = store_all ws (store_byte pa b s)"

text \<open>\<open>pas\<close> are the bytes translated so far, with their values.\<close>

fun write_from :: "nat \<Rightarrow> u32 \<Rightarrow> u32 \<Rightarrow> (u32 \<times> u8) list \<Rightarrow> cmp \<Rightarrow> cmp" where
  "write_from 0 addr val pas s = store_all pas s"
| "write_from (Suc n) addr val pas s =
     (let i = length pas; a = addr + word_of_nat i in
      case xl a True s of
        (None, t) \<Rightarrow> if 0 < i \<and> a AND 0xFFF = 0 then store_partial pas t else t
      | (Some pa, t) \<Rightarrow> write_from n addr val (pas @ [(pa, byte_at val i)]) t)"

definition write_n :: "u32 \<Rightarrow> u32 \<Rightarrow> nat \<Rightarrow> cmp \<Rightarrow> cmp" where
  "write_n addr val n s = write_from n addr val [] s"

definition readmemql :: "u32 \<Rightarrow> cmp \<Rightarrow> u64 \<times> cmp" where
  "readmemql addr s = (let (lo, t) = read_n addr 4 s; (hi, u) = read_n (addr + 4) 4 t
     in (ucast lo OR push_bit 32 (ucast hi), u))"

definition writememql :: "u32 \<Rightarrow> u64 \<Rightarrow> cmp \<Rightarrow> cmp" where
  "writememql addr val s = (let t = write_n addr (ucast val) 4 s
     in if abrt t = Fault_none then write_n (addr + 4) (ucast (drop_bit 32 val)) 4 t else t)"

text \<open>\<open>undo_ram\<close>: the log is undone from its end.\<close>

definition undo_ram :: "cmp \<Rightarrow> cmp" where
  "undo_ram s = fold (\<lambda>(addr, old_val, new_val) t. put_ram addr old_val t) (rev (mem_log s)) s"

definition mem_log_reset :: "cmp \<Rightarrow> cmp" where
  "mem_log_reset s = s\<lparr>mem_log := []\<rparr>"

section \<open>Translation\<close>

text \<open>What the two page-table entries permit.\<close>

definition page_allows :: "u32 \<Rightarrow> u32 \<Rightarrow> bool \<Rightarrow> bool \<Rightarrow> bool \<Rightarrow> bool" where
  "page_allows pde pte user wp wr \<longleftrightarrow> bit pde 0 \<and> bit pte 0 \<and> (user \<longrightarrow> bit pde 2 \<and> bit pte 2) \<and>
     (wr \<and> (user \<or> wp) \<longrightarrow> bit pde 1 \<and> bit pte 1)"

lemma walk_or_fault:
  "(\<exists>p. walk lin wr pr s = (p, s)) \<or> (\<exists>e. walk lin wr pr s = page_fault lin pr e s)"
  by (auto simp: walk_def Let_def)

lemma abrt_page_fault [simp]: "abrt (snd (page_fault lin False e s)) = Fault_pf"
  by (simp add: page_fault_def)

definition fault_code :: "u32 \<Rightarrow> u32 \<Rightarrow> bool \<Rightarrow> bool \<Rightarrow> u32" where
  "fault_code pde pte user wr = (if bit pde 0 \<and> bit pte 0 then 1 else 0) OR (if wr then 2 else 0) OR (if user then 4 else 0)"

lemma walk_verdict:
  "walk lin wr pr s =
    (if \<not> bit (cr0 s) 31 then (platform_phys (a20_on s) lin, s)
     else if page_allows (pde_at lin s) (pte_at lin s) (user_mode s) (bit (cr0 s) 16) wr
     then (platform_phys (a20_on s) ((pte_at lin s AND NOT 0xFFF) OR (lin AND 0xFFF)), s)
     else page_fault lin pr (fault_code (pde_at lin s) (pte_at lin s) (user_mode s) wr) s)"
proof -
  have c: "(2 :: u32) OR 1 = 3" "(4 :: u32) OR 1 = 5" "(6 :: u32) OR 1 = 7" "(2 :: u32) OR 4 = 6" "(1 :: u32) OR 2 = 3"
    "(1 :: u32) OR 4 = 5" "(3 :: u32) OR 4 = 7" "(1 :: u32) OR 6 = 7"
    by simp_all
  define pde pte user wp where "pde = pde_at lin s" and "pte = pte_at lin s" and "user = user_mode s" and "wp = bit (cr0 s) 16"
  show ?thesis
    unfolding walk_def Let_def pde_def [symmetric] pte_def [symmetric] user_def [symmetric] wp_def [symmetric]
      page_allows_def fault_code_def bit_and_iff
    by (cases wr; cases user) (auto simp: c)
qed

lemma walk_grants: "bit (cr0 s) 31 \<Longrightarrow> abrt s = Fault_none \<Longrightarrow>
    (abrt (snd (walk lin wr False s)) = Fault_none) =
      page_allows (pde_at lin s) (pte_at lin s) (user_mode s) (bit (cr0 s) 16) wr"
  by (simp add: walk_verdict)

lemma xl_verdict:
  "abrt s = Fault_none \<Longrightarrow> \<not> bit (cr0 s) 31 \<or> page_allows (pde_at a s) (pte_at a s) (user_mode s) (bit (cr0 s) 16) wr \<Longrightarrow>
     xl a wr s = (Some (fst (walk a wr False s)), s) \<and> snd (walk a wr False s) = s"
  "abrt s = Fault_none \<Longrightarrow> bit (cr0 s) 31 \<Longrightarrow> \<not> page_allows (pde_at a s) (pte_at a s) (user_mode s) (bit (cr0 s) 16) wr \<Longrightarrow>
     xl a wr s = (None, snd (page_fault a False (fault_code (pde_at a s) (pte_at a s) (user_mode s) wr) s))"
  using abrt_page_fault [of a "fault_code (pde_at a s) (pte_at a s) (user_mode s) wr" s]
  by (simp_all add: xl_def walk_verdict split_beta del: abrt_page_fault)

section \<open>Undoing a step\<close>

definition undo_log :: "u32 \<Rightarrow> (u32 \<times> u8 \<times> u8) list \<Rightarrow> (u32 \<Rightarrow> u8) \<Rightarrow> u32 \<Rightarrow> u8" where
  "undo_log msk lg r = fold (\<lambda>(addr, old_val, new_val) r. r(addr AND msk := old_val)) (rev lg) r"

lemma undo_ram_log: "c_ram (undo_ram s) = undo_log (rammask s) (mem_log s) (c_ram s)"
proof -
  have "c_ram (fold (\<lambda>(addr, ov, nv) t. put_ram addr ov t) lg s) =
      fold (\<lambda>(addr, ov, nv) r. r(addr AND rammask s := ov)) lg (c_ram s)" for lg s
    by (induction lg arbitrary: s) (auto simp: put_ram_def)
  then show ?thesis
    by (simp add: undo_ram_def undo_log_def)
qed

lemma undo_log_snoc [simp]: "undo_log msk (lg @ [(a, ov, nv)]) r = undo_log msk lg (r(a AND msk := ov))"
  by (simp add: undo_log_def)

lemma undo_store_byte:
  assumes "length (mem_log s) < MAX_MEM_LOG"
  shows "c_ram (undo_ram (store_byte pa b s)) = c_ram (undo_ram s)"
  using assms by (simp add: undo_ram_log store_byte_eq logged_def ram_at_def fun_upd_idem and.assoc)

lemma store_all_log: "length (mem_log (store_all ws s)) \<le> length (mem_log s) + length ws"
proof (induction ws arbitrary: s)
  case (Cons w ws)
  obtain pa b where w: "w = (pa, b)"
    by (cases w)
  have "length (mem_log (store_byte pa b s)) \<le> Suc (length (mem_log s))"
    by (simp add: store_byte_eq logged_def)
  then show ?case
    using Cons.IH [of "store_byte pa b s"] by (simp add: w)
qed simp

lemma undo_store_all:
  "length (mem_log s) + length ws \<le> MAX_MEM_LOG \<Longrightarrow> c_ram (undo_ram (store_all ws s)) = c_ram (undo_ram s)"
proof (induction ws arbitrary: s)
  case (Cons w ws)
  obtain pa b where w: "w = (pa, b)"
    by (cases w)
  have "length (mem_log (store_byte pa b s)) \<le> Suc (length (mem_log s))"
    by (simp add: store_byte_eq logged_def)
  then show ?case
    using Cons undo_store_byte [of s pa b] by (simp add: w)
qed simp



text \<open>Once the log is full a changed byte is not restored.\<close>

lemma undo_ram_full_log:
  assumes "mem_log s = replicate MAX_MEM_LOG (0, 0, 0)" and "in_ram s pa" and "pa AND rammask s \<noteq> 0"
  shows "c_ram (undo_ram (store_byte pa b s)) (pa AND rammask s) = b"
proof -
  have "undo_log msk (replicate n (0, 0, 0)) r a = (if a = 0 then undo_log msk (replicate n (0, 0, 0)) r 0 else r a)" for msk n r a
    unfolding undo_log_def rev_replicate by (induction n arbitrary: r) auto
  then show ?thesis
    using assms by (simp add: undo_ram_log store_byte_eq logged_def)
qed

section \<open>Translation of an access\<close>

lemma walk_ok: "fst (xl a wr s) = Some p \<Longrightarrow> snd (xl a wr s) = s \<and> abrt s = Fault_none \<and> walk a wr False s = (p, s)"
proof -
  assume x: "fst (xl a wr s) = Some p"
  then have n: "abrt s = Fault_none"
    by (simp add: xl_def split: if_splits)
  show ?thesis
  proof (cases "\<not> bit (cr0 s) 31 \<or> page_allows (pde_at a s) (pte_at a s) (user_mode s) (bit (cr0 s) 16) wr")
    case True
    then show ?thesis
      using xl_verdict(1) [OF n True] x by (metis fst_conv option.inject prod.collapse snd_conv n)
  next
    case False
    then show ?thesis
      using xl_verdict(2) [OF n] x by simp
  qed
qed

lemma xl_fault:
  assumes "fst (xl a wr s) = None" and n: "abrt s = Fault_none"
  shows "\<exists>c e. snd (xl a wr s) = s\<lparr>cr2 := c, abrt_error := e, abrt := Fault_pf\<rparr>"
proof (cases "\<not> bit (cr0 s) 31 \<or> page_allows (pde_at a s) (pte_at a s) (user_mode s) (bit (cr0 s) 16) wr")
  case True
  then show ?thesis
    using xl_verdict(1) [OF n True] assms(1) by simp
next
  case False
  then have "snd (xl a wr s) = snd (page_fault a False (fault_code (pde_at a s) (pte_at a s) (user_mode s) wr) s)"
    using xl_verdict(2) [OF n] by simp
  then show ?thesis
    by (metis page_fault_def snd_conv)
qed

text \<open>Two addresses of one page are both translated or both fault.\<close>

lemma same_page: "(a + 1 :: u32) AND 0xFFF \<noteq> 0 \<Longrightarrow> drop_bit 12 (a + 1) = drop_bit 12 a"
proof -
  assume m: "(a + 1) AND 0xFFF \<noteq> 0"
  have tb: "(a + 1) AND 0xFFF = take_bit 12 (a + 1)"
    by (simp add: take_bit_eq_mask mask_eq_exp_minus_1)
  have "unat (take_bit 12 (a + 1)) = unat (a + 1) mod 4096"
    by (simp only: unsigned_take_bit_eq) (simp add: take_bit_eq_mod)
  then have nz: "unat (a + 1) mod 4096 \<noteq> 0"
    using m tb by (metis unat_eq_zero)
  then have "a + 1 \<noteq> 0"
    by auto
  then have s: "unat (a + 1) = Suc (unat a)"
    by (simp add: unatSuc add.commute)
  have u: "unat (drop_bit 12 x) = unat x div 4096" for x :: u32
    by (simp only: unat_drop_bit_eq) (simp add: drop_bit_eq_div)
  have "unat (drop_bit 12 (a + 1)) = Suc (unat a) div 4096"
    by (simp only: u s)
  also have "\<dots> = unat (drop_bit 12 a)"
    using nz unfolding u s by (simp add: div_Suc)
  finally show ?thesis
    by (rule unsigned_word_eqI)
qed

lemma page_entries: "drop_bit 12 b = drop_bit 12 a \<Longrightarrow> pde_at b s = pde_at a s \<and> pte_at b s = pte_at a s"
proof -
  assume d: "drop_bit 12 b = drop_bit 12 a"
  have "drop_bit 22 b = drop_bit 22 a"
    using arg_cong [OF d, of "drop_bit 10"] by simp
  then show ?thesis
    using d by (simp add: pde_at_def pte_at_def)
qed

lemma xl_same_page:
  assumes d: "drop_bit 12 b = drop_bit 12 a" and "fst (xl a wr s) \<noteq> None"
  shows "fst (xl b wr s) \<noteq> None"
proof -
  have n: "abrt s = Fault_none"
    using assms(2) by (cases "abrt s = Fault_none") (simp_all add: xl_def)
  have "\<not> bit (cr0 s) 31 \<or> page_allows (pde_at a s) (pte_at a s) (user_mode s) (bit (cr0 s) 16) wr"
    using xl_verdict(2) [OF n] assms(2) by fastforce
  then show ?thesis
    using xl_verdict(1) [OF n, of b wr] page_entries [OF d, of s] by simp
qed

text \<open>The bytes of a write with the addresses they go to, and how many of them translate.\<close>

definition target :: "u32 \<Rightarrow> u32 \<Rightarrow> cmp \<Rightarrow> nat \<Rightarrow> u32 \<times> u8" where
  "target addr val s i = (the (fst (xl (addr + word_of_nat i) True s)), byte_at val i)"

definition translates :: "u32 \<Rightarrow> cmp \<Rightarrow> nat \<Rightarrow> bool" where
  "translates addr s i \<longleftrightarrow> fst (xl (addr + word_of_nat i) True s) \<noteq> None"

definition fault_at :: "u32 \<Rightarrow> u32 \<Rightarrow> cmp \<Rightarrow> nat \<Rightarrow> cmp" where
  "fault_at addr val s k = (let t = snd (xl (addr + word_of_nat k) True s); ps = map (target addr val s) [0..<k]
     in if 0 < k \<and> (addr + word_of_nat k) AND 0xFFF = 0 then store_partial ps t else t)"

lemma write_from_spec:
  "write_from n addr val (map (target addr val s) [0..<i]) s =
     (let k = i + length (takeWhile (translates addr s) [i..<i + n])
      in if k = i + n then store_all (map (target addr val s) [0..<k]) s else fault_at addr val s k)"
proof (induction n arbitrary: i)
  case (Suc n)
  let ?x = "xl (addr + word_of_nat i) True s"
  have up: "[i..<i + Suc n] = i # [Suc i..<Suc i + n]"
    by (simp add: upt_conv_Cons)
  show ?case
  proof (cases "fst ?x")
    case (Some pa)
    then have x: "?x = (Some pa, s)"
      using walk_ok [OF Some] by (metis prod.collapse)
    have "map (target addr val s) [0..<i] @ [(pa, byte_at val i)] = map (target addr val s) [0..<Suc i]"
      by (simp add: target_def x)
    then have "write_from (Suc n) addr val (map (target addr val s) [0..<i]) s =
        write_from n addr val (map (target addr val s) [0..<Suc i]) s"
      by (simp add: x Let_def)
    moreover have "translates addr s i"
      by (simp add: translates_def x)
    ultimately show ?thesis
      using Suc.IH [of "Suc i"] by (simp only: up Let_def) simp
  next
    case None
    obtain t where x: "?x = (None, t)"
      using None by (metis prod.collapse)
    have "\<not> translates addr s i"
      by (simp add: translates_def x)
    then show ?thesis
      by (simp only: up Let_def) (simp add: x fault_at_def)
  qed
qed simp

lemma write_n_spec:
  "write_n addr val n s =
     (let k = length (takeWhile (translates addr s) [0..<n])
      in if k = n then store_all (map (target addr val s) [0..<k]) s else fault_at addr val s k)"
  using write_from_spec [of n addr val s 0] by (simp add: write_n_def)

lemma store_frames:
  "abrt (store_byte pa b s) = abrt s" "partial_w (store_byte pa b s) = partial_w s"
  "store_byte pa b (s\<lparr>partial_w := x\<rparr>) = (store_byte pa b s)\<lparr>partial_w := x\<rparr>"
  "store_byte pa b (s\<lparr>cr2 := c, abrt_error := e, abrt := f\<rparr>) = (store_byte pa b s)\<lparr>cr2 := c, abrt_error := e, abrt := f\<rparr>"
  by (simp_all add: store_byte_eq in_ram_def ram_at_def)

lemma store_all_frames:
  "abrt (store_all ws s) = abrt s \<and> partial_w (store_all ws s) = partial_w s \<and>
   store_all ws (s\<lparr>partial_w := x\<rparr>) = (store_all ws s)\<lparr>partial_w := x\<rparr> \<and>
   store_all ws (s\<lparr>cr2 := c, abrt_error := e, abrt := f\<rparr>) = (store_all ws s)\<lparr>cr2 := c, abrt_error := e, abrt := f\<rparr>"
proof (induction ws arbitrary: s)
  case (Cons w ws)
  then show ?case
    by (cases w) (simp add: store_frames)
qed simp

lemma store_partial_all:
  "length (partial_w s) + length ws \<le> 4 \<Longrightarrow> store_partial ws s = (store_all ws s)\<lparr>partial_w := partial_w s @ ws\<rparr>"
proof (induction ws arbitrary: s)
  case (Cons w ws)
  obtain pa b where w: "w = (pa, b)"
    by (cases w)
  show ?case
    using Cons by (simp add: w Let_def store_frames store_all_frames)
qed simp

text \<open>
  C21: A memory write that faults changes nothing, or exactly the bytes on its first page. The fault
  comes at the first byte or at a page boundary; all bytes before it were stored through the write
  hook and recorded for the caller, none after it, and the state is otherwise the faulting one.
\<close>

theorem faulting_write:
  assumes "abrt s = Fault_none" and "partial_w s = []" and "n \<le> 4" and "abrt (write_n addr val n s) \<noteq> Fault_none"
  shows "\<exists>k c e. k < n \<and> (k = 0 \<or> (addr + word_of_nat k) AND 0xFFF = 0) \<and> (\<forall>j<k. translates addr s j) \<and>
    write_n addr val n s = (let ps = map (target addr val s) [0..<k] in
      (store_all ps s)\<lparr>partial_w := ps, cr2 := c, abrt_error := e, abrt := Fault_pf\<rparr>)"
proof -
  define k where "k = length (takeWhile (translates addr s) [0..<n])"
  let ?ps = "map (target addr val s) [0..<k]"
  have kn: "k \<le> n"
    using length_takeWhile_le [of "translates addr s" "[0..<n]"] by (simp add: k_def)
  have "k \<noteq> n"
  proof
    assume "k = n"
    then have "write_n addr val n s = store_all ?ps s"
      by (simp add: write_n_spec k_def [symmetric])
    then show False
      using assms(1,4) store_all_frames by metis
  qed
  then have k: "k < n" "write_n addr val n s = fault_at addr val s k"
    using kn by (simp_all add: write_n_spec k_def [symmetric])
  have nt: "\<not> translates addr s k"
    using k(1) nth_length_takeWhile [of "translates addr s" "[0..<n]"] by (simp add: k_def [symmetric])
  have tr: "translates addr s j" if "j < k" for j
  proof -
    have "takeWhile (translates addr s) [0..<n] ! j \<in> set (takeWhile (translates addr s) [0..<n])"
      using that by (simp add: k_def)
    then have "translates addr s (takeWhile (translates addr s) [0..<n] ! j)"
      by (blast dest: set_takeWhileD)
    then show ?thesis
      using that k(1) takeWhile_nth [of j "translates addr s" "[0..<n]"] by (simp add: k_def)
  qed
  have pg: "k = 0 \<or> (addr + word_of_nat k) AND 0xFFF = 0"
  proof (rule ccontr)
    assume "\<not> ?thesis"
    then obtain j where j: "k = Suc j" "(addr + word_of_nat j + 1) AND 0xFFF \<noteq> 0"
      by (cases k) (auto simp: ac_simps)
    then have "drop_bit 12 (addr + word_of_nat k) = drop_bit 12 (addr + word_of_nat j)"
      using same_page [OF j(2)] by (simp add: ac_simps)
    then show False
      using xl_same_page tr [of j] nt j(1) by (auto simp: translates_def)
  qed
  obtain c e where f: "snd (xl (addr + word_of_nat k) True s) = s\<lparr>cr2 := c, abrt_error := e, abrt := Fault_pf\<rparr>"
    using xl_fault [of "addr + word_of_nat k" True s] nt assms(1) by (auto simp: translates_def)
  have "fault_at addr val s k = (store_all ?ps s)\<lparr>partial_w := ?ps, cr2 := c, abrt_error := e, abrt := Fault_pf\<rparr>"
  proof (cases "k = 0")
    case True
    have "s\<lparr>partial_w := []\<rparr> = s"
      using assms(2) by (cases s) simp
    then show ?thesis
      using f True by (simp add: fault_at_def)
  next
    case False
    then show ?thesis
      using pg k(1) assms(2,3) by (simp add: fault_at_def Let_def f store_partial_all store_all_frames)
  qed
  then show ?thesis
    using k pg tr by (auto simp: Let_def)
qed

section \<open>Reading back\<close>

lemma store_byte_env:
  "cr0 (store_byte pa b s) = cr0 s" "a20_on (store_byte pa b s) = a20_on s" "ram_bytes (store_byte pa b s) = ram_bytes s"
  "rammask (store_byte pa b s) = rammask s" "abrt (store_byte pa b s) = abrt s" "mem_ok (store_byte pa b s) = mem_ok s"
  "in_ram (store_byte pa b s) a = in_ram s a"
  by (simp_all add: store_byte_eq mem_ok_def in_ram_def)

lemma store_all_env:
  "cr0 (store_all ws s) = cr0 s \<and> a20_on (store_all ws s) = a20_on s \<and> ram_bytes (store_all ws s) = ram_bytes s \<and>
   abrt (store_all ws s) = abrt s \<and> in_ram (store_all ws s) a = in_ram s a"
  by (induction ws s rule: store_all.induct) (simp_all add: store_byte_env)

lemma ram_at_store_byte:
  "mem_ok s \<Longrightarrow> in_ram s pa \<Longrightarrow> in_ram s a \<Longrightarrow> ram_at (store_byte pa b s) a = (if a = pa then b else ram_at s a)"
  using in_ram_mask [of s a] in_ram_mask [of s pa] by (auto simp: store_byte_eq ram_at_def)

lemma ram_at_store_all:
  "mem_ok s \<Longrightarrow> \<forall>(pa, b)\<in>set ws. in_ram s pa \<Longrightarrow> in_ram s a \<Longrightarrow> distinct (map fst ws) \<Longrightarrow>
     ram_at (store_all ws s) a = (case map_of ws a of Some b \<Rightarrow> b | None \<Rightarrow> ram_at s a)"
proof (induction ws s rule: store_all.induct)
  case (2 pa b ws s)
  have "map_of ws pa = None"
    using 2(5) by (simp add: map_of_eq_None_iff)
  moreover have "ram_at (store_all ws (store_byte pa b s)) a =
      (case map_of ws a of Some b \<Rightarrow> b | None \<Rightarrow> ram_at (store_byte pa b s) a)"
    using 2 by (auto simp: store_byte_env)
  ultimately show ?case
    using 2 by (auto simp: ram_at_store_byte split: option.splits)
qed simp

lemma platform_phys_id: "a < BIOS_ALIAS \<Longrightarrow> platform_phys True a = a"
  by (auto simp: platform_phys_def Let_def dest: leD)

text \<open>Little-endian assembly of the bytes of a value.\<close>

lemma read_from_ram:
  assumes env: "\<not> bit (cr0 s) 31" "a20_on s" "abrt s = Fault_none"
    and a: "\<And>j. i \<le> j \<Longrightarrow> j < i + n \<Longrightarrow> addr + word_of_nat j < BIOS_ALIAS \<and> in_ram s (addr + word_of_nat j) \<and>
      ram_at s (addr + word_of_nat j) = byte_at val j"
  shows "read_from n i addr (take_bit (8 * i) val) s = (take_bit (8 * (i + n)) val, s)"
  using a
proof (induction n arbitrary: i)
  case (Suc n)
  let ?a = "addr + word_of_nat i"
  have ai: "?a < BIOS_ALIAS" "in_ram s ?a" "ram_at s ?a = byte_at val i"
    using Suc.prems [of i] by auto
  have x: "xl ?a False s = (Some ?a, s)"
    using env ai(1) by (simp add: xl_def walk_def platform_phys_id)
  have h: "rd_hook ?a s = (None, s)"
    using ai(2) by (auto simp: rd_hook_def in_ram_def)
  have v: "take_bit (8 * i) val OR push_bit (8 * i) (ucast (byte_at val i)) = take_bit (8 * Suc i) val"
    by (rule bit_word_eqI) (auto simp: bit_or_iff bit_take_bit_iff bit_push_bit_iff byte_at_def bit_ucast_iff bit_drop_bit_eq)
  have "read_from (Suc n) i addr (take_bit (8 * i) val) s = read_from n (Suc i) addr (take_bit (8 * Suc i) val) s"
    by (simp add: x h ai(3) v)
  also have "\<dots> = (take_bit (8 * (Suc i + n)) val, s)"
    using Suc.IH [of "Suc i"] Suc.prems by auto
  finally show ?case
    by simp
qed simp

text \<open>
  Without paging, reading a value of up to four bytes back from RAM after writing it gives its
  low bytes, little-endian and also across page boundaries, and the read leaves the state alone.
\<close>

theorem write_read_roundtrip:
  assumes env: "\<not> bit (cr0 s) 31" "a20_on s" "abrt s = Fault_none" "mem_ok s" and n: "n \<le> 4"
    and inside: "\<forall>j<n. in_ram s (addr + word_of_nat j)" and low: "ram_bytes s \<le> BIOS_ALIAS"
  shows "read_n addr n (write_n addr val n s) = (take_bit (8 * n) val, write_n addr val n s)"
proof -
  have lo: "addr + word_of_nat j < BIOS_ALIAS" if "j < n" for j
    using inside low that by (force simp: in_ram_def)
  have x: "xl (addr + word_of_nat j) True s = (Some (addr + word_of_nat j), s)" if "j < n" for j
    using env lo [OF that] by (simp add: xl_def walk_def platform_phys_id)
  define ws where "ws = map (\<lambda>j. (addr + word_of_nat j, byte_at val j)) [0..<n]"
  have tw: "takeWhile (translates addr s) [0..<n] = [0..<n]"
    by (simp add: takeWhile_eq_all_conv translates_def x)
  have mt: "map (target addr val s) [0..<n] = ws"
    by (auto simp: ws_def target_def x)
  have w: "write_n addr val n s = store_all ws s"
    by (simp add: write_n_spec tw mt)
  have inj: "word_of_nat j = (word_of_nat k :: u32) \<longleftrightarrow> j = k" if "j < n" "k < n" for j k
    using that n by (simp add: word_of_nat_eq_iff take_bit_nat_eq_self)
  have ds: "distinct (map fst ws)"
    by (auto simp: ws_def comp_def distinct_map inj_on_def inj)
  have "ram_at (write_n addr val n s) (addr + word_of_nat j) = byte_at val j" if "j < n" for j
  proof -
    have "map_of ws (addr + word_of_nat j) = Some (byte_at val j)"
      using ds that by (simp add: ws_def)
    then show ?thesis
      using ram_at_store_all [OF env(4), of ws "addr + word_of_nat j"] inside that ds by (auto simp: w ws_def)
  qed
  then show ?thesis
    using read_from_ram [of "write_n addr val n s" 0 n addr val] env inside lo
    by (simp add: read_n_def w store_all_env)
qed

theorem write_read_roundtrip_witness:
  "read_n 0x1FFE 4 (write_n 0x1FFE 0x12345678 4 sample_cmp) = (take_bit (8 * 4) 0x12345678, write_n 0x1FFE 0x12345678 4 sample_cmp)"
proof (rule write_read_roundtrip)
  show "mem_ok sample_cmp"
    using fresh_sample by (simp add: fresh_def)
  show "\<forall>j<4. in_ram sample_cmp (0x1FFE + word_of_nat j)"
  proof (intro allI impI)
    fix j :: nat
    assume "j < 4"
    then consider "j = 0" | "j = 1" | "j = 2" | "j = 3"
      by linarith
    then show "in_ram sample_cmp (0x1FFE + word_of_nat j)"
      by cases (simp_all add: in_ram_def sample_cmp_def in_dev_def DEV_LO_def DEV_HI_def drop_bit_eq_div)
  qed
qed (simp_all add: sample_cmp_def BIOS_ALIAS_def bit_word_iff_drop_bit_and)

text \<open>Linear page 1 is mapped to frame 3, linear page 2 is absent.\<close>

definition paged_cmp :: cmp where
  "paged_cmp = sample_cmp\<lparr>cr0 := 0x80000010, cr3 := 0x1000,
     c_ram := (\<lambda>_. 0)(0x1000 := 3, 0x1001 := 0x20, 0x2004 := 3, 0x2005 := 0x30)\<rparr>"

lemma paged_entries:
  "pde_at 0x1FFE paged_cmp = 0x2003" "pte_at 0x1FFE paged_cmp = 0x3003" "pde_at 0x1FFF paged_cmp = 0x2003"
  "pte_at 0x1FFF paged_cmp = 0x3003" "pde_at 0x2000 paged_cmp = 0x2003" "pte_at 0x2000 paged_cmp = 0"
  by (simp_all add: pde_at_def pte_at_def ram32_def ram_at_def paged_cmp_def sample_cmp_def drop_bit_eq_div push_bit_eq_mult)

lemma abrt_store_partial: "abrt (store_partial ws s) = abrt s"
  by (induction ws s rule: store_partial.induct) (simp_all add: Let_def store_frames)

lemma abrt_fault_at: "abrt (fault_at addr val s k) = abrt (snd (xl (addr + word_of_nat k) True s))"
  by (simp add: fault_at_def Let_def abrt_store_partial)

lemma paged_write_faults: "abrt (write_n 0x1FFE 0x12345678 4 paged_cmp) = Fault_pf"
proof -
  have c: "bit (cr0 paged_cmp) 31" "abrt paged_cmp = Fault_none" "user_mode paged_cmp = False"
    by (simp_all add: paged_cmp_def sample_cmp_def user_mode_def bit_iff_odd)
  have x: "fst (xl (0x1FFE + word_of_nat 0) True paged_cmp) \<noteq> None" "fst (xl (0x1FFE + word_of_nat 1) True paged_cmp) \<noteq> None"
    using xl_verdict(1) [OF c(2)] by (simp_all add: paged_entries page_allows_def c bit_iff_odd)
  have f: "xl (0x1FFE + word_of_nat 2) True paged_cmp = (None, snd (page_fault 0x2000 False 2 paged_cmp))"
    using xl_verdict(2) [OF c(2,1), where a = "0x2000" and wr = True] by (simp add: paged_entries page_allows_def c fault_code_def)
  have "[0..<4] = [0, 1, 2, 3 :: nat]"
    by (simp add: upt_rec)
  then have k: "takeWhile (translates 0x1FFE paged_cmp) [0..<4] = [0, 1]"
    using x f by (simp add: translates_def)
  have "write_n 0x1FFE 0x12345678 4 paged_cmp = fault_at 0x1FFE 0x12345678 paged_cmp 2"
    by (simp only: write_n_spec k) (simp add: numeral_2_eq_2)
  then show ?thesis
    by (simp only: abrt_fault_at f) simp
qed

theorem faulting_write_witness:
  "\<exists>k c e. k < 4 \<and> (k = 0 \<or> (0x1FFE + word_of_nat k) AND 0xFFF = (0 :: u32)) \<and> (\<forall>j<k. translates 0x1FFE paged_cmp j) \<and>
    write_n 0x1FFE 0x12345678 4 paged_cmp = (let ps = map (target 0x1FFE 0x12345678 paged_cmp) [0..<k] in
      (store_all ps paged_cmp)\<lparr>partial_w := ps, cr2 := c, abrt_error := e, abrt := Fault_pf\<rparr>)"
  by (rule faulting_write) (use paged_write_faults in \<open>simp_all add: paged_cmp_def sample_cmp_def\<close>)


end
