(* ===== verification/Cosim_Insn.thy ===== *)
theory Cosim_Insn
  imports Prelude "HOL-Library.Signed_Division"
begin

text \<open>
  What the co-simulation reference knows about instructions: the decoder and the flag table of
  \<open>src/verilator/cosim/iss_glue.h\<close>, the opcode classes, the undefined-flag window and the segment
  attributes of \<open>cosim86.c\<close>, and the opcode map, segment loading and division of \<open>stubs.c\<close>. Execution
  itself is 86Box's and not part of the repository.
\<close>

section \<open>Decoding\<close>

record insn_t =
  d_op32 :: bool
  d_a32 :: bool
  d_rep :: u8
  d_nprefix :: nat
  d_op :: u8
  d_op2 :: u8
  d_has_modrm :: bool
  d_mod :: u8
  d_reg :: u8
  d_rm :: u8

definition modrm_1byte :: "u8 \<Rightarrow> bool" where
  "modrm_1byte op =
     (if op < 0x40 then op AND 7 < 4
      else if op = 0x62 \<or> op = 0x63 \<or> op = 0x69 \<or> op = 0x6B then True
      else if 0x80 \<le> op \<and> op \<le> 0x8F then True
      else if op = 0xC0 \<or> op = 0xC1 \<or> 0xC4 \<le> op \<and> op \<le> 0xC7 then True
      else if 0xD0 \<le> op \<and> op \<le> 0xD3 then True
      else if 0xD8 \<le> op \<and> op \<le> 0xDF then True
      else op = 0xF6 \<or> op = 0xF7 \<or> op = 0xFE \<or> op = 0xFF)"

definition modrm_0f :: "u8 \<Rightarrow> bool" where
  "modrm_0f op =
     (if op \<le> 0x03 then True
      else if 0x20 \<le> op \<and> op \<le> 0x23 then True
      else if 0x90 \<le> op \<and> op \<le> 0x9F then True
      else op \<in> set [0xA3, 0xA4, 0xA5, 0xAB, 0xAC, 0xAD, 0xAF, 0xB0, 0xB1, 0xB2, 0xB3, 0xB4, 0xB5, 0xB6, 0xB7,
        0xBA, 0xBB, 0xBC, 0xBD, 0xBE, 0xBF, 0xC0, 0xC1])"

definition is_prefix :: "u8 \<Rightarrow> bool" where
  "is_prefix b \<longleftrightarrow> b \<in> set [0x66, 0x67, 0xF2, 0xF3, 0xF0, 0x26, 0x2E, 0x36, 0x3E, 0x64, 0x65]"

definition take_prefix :: "u8 \<Rightarrow> insn_t \<Rightarrow> insn_t" where
  "take_prefix b d = (let d1 =
      (if b = 0x66 then d\<lparr>d_op32 := \<not> d_op32 d\<rparr>
       else if b = 0x67 then d\<lparr>d_a32 := \<not> d_a32 d\<rparr>
       else if b = 0xF2 \<or> b = 0xF3 then d\<lparr>d_rep := b\<rparr>
       else d)
     in d1\<lparr>d_nprefix := d_nprefix d1 + 1\<rparr>)"

text \<open>The prefix loop ends at the first byte that is no prefix; when there is none it does not.\<close>

partial_function (option) prefixes :: "(u32 \<Rightarrow> u8) \<Rightarrow> u32 \<Rightarrow> insn_t \<Rightarrow> insn_t option" where
  "prefixes rd lin d = (let b = rd (lin + word_of_nat (d_nprefix d))
     in if is_prefix b then prefixes rd lin (take_prefix b d) else Some d)"

definition decode_fields :: "(u32 \<Rightarrow> u8) \<Rightarrow> u32 \<Rightarrow> insn_t \<Rightarrow> insn_t" where
  "decode_fields rd lin d0 =
     (let p = lin + word_of_nat (d_nprefix d0);
          d = d0\<lparr>d_op := rd p\<rparr>;
          (p, d) = (if d_op d = 0x0F
             then (p + 2, let o2 = rd (p + 1) in d\<lparr>d_op2 := o2, d_has_modrm := modrm_0f o2\<rparr>)
             else (p + 1, d\<lparr>d_has_modrm := modrm_1byte (d_op d)\<rparr>))
      in if d_has_modrm d
         then let m = rd p in d\<lparr>d_mod := drop_bit 6 m, d_reg := drop_bit 3 m AND 7, d_rm := m AND 7\<rparr>
         else d)"

definition insn_start :: "bool \<Rightarrow> insn_t" where
  "insn_start def32 = \<lparr>d_op32 = def32, d_a32 = def32, d_rep = 0, d_nprefix = 0, d_op = 0, d_op2 = 0,
     d_has_modrm = False, d_mod = 0, d_reg = 0, d_rm = 0\<rparr>"

definition decode_with :: "(u32 \<Rightarrow> u8) \<Rightarrow> u32 \<Rightarrow> bool \<Rightarrow> insn_t option" where
  "decode_with rd lin def32 = map_option (decode_fields rd lin) (prefixes rd lin (insn_start def32))"

section \<open>The opcode map of stubs.c\<close>

definition opcode_has_modrm :: "nat list" where
  "opcode_has_modrm = [
    1,1,1,1,0,0,0,0,1,1,1,1,0,0,0,0,
    1,1,1,1,0,0,0,0,1,1,1,1,0,0,0,0,
    1,1,1,1,0,0,0,0,1,1,1,1,0,0,0,0,
    1,1,1,1,0,0,0,0,1,1,1,1,0,0,0,0,
    0,0,0,0,0,0,0,0,0,0,0,0,0,0,0,0,
    0,0,0,0,0,0,0,0,0,0,0,0,0,0,0,0,
    0,0,1,1,0,0,0,0,0,1,0,1,0,0,0,0,
    0,0,0,0,0,0,0,0,0,0,0,0,0,0,0,0,
    1,1,1,1,1,1,1,1,1,1,1,1,1,1,1,1,
    0,0,0,0,0,0,0,0,0,0,0,0,0,0,0,0,
    0,0,0,0,0,0,0,0,0,0,0,0,0,0,0,0,
    0,0,0,0,0,0,0,0,0,0,0,0,0,0,0,0,
    1,1,0,0,1,1,1,1,0,0,0,0,0,0,0,0,
    1,1,1,1,0,0,0,0,1,1,1,1,1,1,1,1,
    0,0,0,0,0,0,0,0,0,0,0,0,0,0,0,0,
    0,0,0,0,0,0,1,1,0,0,0,0,0,0,1,1]"

definition modrm_row :: "nat \<Rightarrow> nat list" where
  "modrm_row h = map (\<lambda>n. if modrm_1byte (word_of_nat n) then 1 else 0) [16 * h..<16 * h + 16]"

lemma modrm_rows:
  "modrm_row 0 = [1, 1, 1, 1, 0, 0, 0, 0, 1, 1, 1, 1, 0, 0, 0, 0]"
  "modrm_row 1 = [1, 1, 1, 1, 0, 0, 0, 0, 1, 1, 1, 1, 0, 0, 0, 0]"
  "modrm_row 2 = [1, 1, 1, 1, 0, 0, 0, 0, 1, 1, 1, 1, 0, 0, 0, 0]"
  "modrm_row 3 = [1, 1, 1, 1, 0, 0, 0, 0, 1, 1, 1, 1, 0, 0, 0, 0]"
  "modrm_row 4 = [0, 0, 0, 0, 0, 0, 0, 0, 0, 0, 0, 0, 0, 0, 0, 0]"
  "modrm_row 5 = [0, 0, 0, 0, 0, 0, 0, 0, 0, 0, 0, 0, 0, 0, 0, 0]"
  "modrm_row 6 = [0, 0, 1, 1, 0, 0, 0, 0, 0, 1, 0, 1, 0, 0, 0, 0]"
  "modrm_row 7 = [0, 0, 0, 0, 0, 0, 0, 0, 0, 0, 0, 0, 0, 0, 0, 0]"
  "modrm_row 8 = [1, 1, 1, 1, 1, 1, 1, 1, 1, 1, 1, 1, 1, 1, 1, 1]"
  "modrm_row 9 = [0, 0, 0, 0, 0, 0, 0, 0, 0, 0, 0, 0, 0, 0, 0, 0]"
  "modrm_row 10 = [0, 0, 0, 0, 0, 0, 0, 0, 0, 0, 0, 0, 0, 0, 0, 0]"
  "modrm_row 11 = [0, 0, 0, 0, 0, 0, 0, 0, 0, 0, 0, 0, 0, 0, 0, 0]"
  "modrm_row 12 = [1, 1, 0, 0, 1, 1, 1, 1, 0, 0, 0, 0, 0, 0, 0, 0]"
  "modrm_row 13 = [1, 1, 1, 1, 0, 0, 0, 0, 1, 1, 1, 1, 1, 1, 1, 1]"
  "modrm_row 14 = [0, 0, 0, 0, 0, 0, 0, 0, 0, 0, 0, 0, 0, 0, 0, 0]"
  "modrm_row 15 = [0, 0, 0, 0, 0, 0, 1, 1, 0, 0, 0, 0, 0, 0, 1, 1]"
  by (simp_all add: modrm_row_def upt_rec modrm_1byte_def)

lemma rows_upt: "concat (map (\<lambda>h. [16 * h..<16 * h + 16]) [0..<k]) = [0..<16 * k]"
proof (induction k)
  case (Suc k)
  then show ?case
    using upt_add_eq_append [of 0 "16 * k" 16] by (simp add: add.commute)
qed simp

lemma modrm_table: "map (\<lambda>n. if modrm_1byte (word_of_nat n) then 1 else 0) [0..<256] = opcode_has_modrm"
proof -
  have u: "[0..<16] = [0, 1, 2, 3, 4, 5, 6, 7, 8, 9, 10, 11, 12, 13, 14, 15 :: nat]"
    by code_simp
  have "map (\<lambda>n. if modrm_1byte (word_of_nat n) then 1 else 0) [0..<16 * 16] = concat (map modrm_row [0..<16])"
    by (simp only: rows_upt [symmetric] map_concat map_map comp_def modrm_row_def [abs_def])
  also have "\<dots> = opcode_has_modrm"
    by (simp only: u) (simp add: modrm_rows [simplified] opcode_has_modrm_def)
  finally show ?thesis
    by simp
qed

text \<open>
  The decoder of the glue code and 86Box's opcode map in the stubs agree on every one-byte opcode: both
  or neither see a ModR/M byte.
\<close>

theorem modrm_tables_agree: "modrm_1byte op \<longleftrightarrow> opcode_has_modrm ! unat op = 1"
proof -
  have "unat op < 256"
    using unsigned_less [of op, where ?'a = nat] by simp
  then have "opcode_has_modrm ! unat op = (if modrm_1byte op then 1 else 0)"
    unfolding modrm_table [symmetric] by simp
  then show ?thesis
    by simp
qed

section \<open>The prefix loop\<close>

lemma take_prefix_count [simp]: "d_nprefix (take_prefix b d) = d_nprefix d + 1"
  by (simp add: take_prefix_def Let_def)

lemma prefixes_fold:
  "\<forall>j<m. is_prefix (rd (lin + word_of_nat (d_nprefix d + j))) \<Longrightarrow> \<not> is_prefix (rd (lin + word_of_nat (d_nprefix d + m))) \<Longrightarrow>
     prefixes rd lin d = Some (fold take_prefix (map (\<lambda>j. rd (lin + word_of_nat (d_nprefix d + j))) [0..<m]) d)"
proof (induction m arbitrary: d)
  case 0
  then show ?case
    by (subst prefixes.simps) (simp add: Let_def)
next
  case (Suc m)
  let ?b = "rd (lin + word_of_nat (d_nprefix d))"
  have p: "is_prefix ?b"
    using Suc.prems(1) by (metis add_0_right zero_less_Suc)
  have "\<forall>j<m. is_prefix (rd (lin + word_of_nat (d_nprefix (take_prefix ?b d) + j)))"
  proof (intro allI impI)
    fix j
    assume "j < m"
    then have "is_prefix (rd (lin + word_of_nat (d_nprefix d + Suc j)))"
      using Suc.prems(1) by blast
    then show "is_prefix (rd (lin + word_of_nat (d_nprefix (take_prefix ?b d) + j)))"
      by (simp add: algebra_simps)
  qed
  then have "prefixes rd lin (take_prefix ?b d) =
      Some (fold take_prefix (map (\<lambda>j. rd (lin + word_of_nat (d_nprefix (take_prefix ?b d) + j))) [0..<m]) (take_prefix ?b d))"
    using Suc.prems(2) by (intro Suc.IH) simp_all
  moreover have "map (\<lambda>j. rd (lin + word_of_nat (d_nprefix d + j))) [0..<Suc m] =
      ?b # map (\<lambda>j. rd (lin + word_of_nat (d_nprefix (take_prefix ?b d) + j))) [0..<m]"
    by (simp only: upt_conv_Cons zero_less_Suc map_Suc_upt [symmetric]) (simp add: comp_def ac_simps)
  ultimately show ?case
    using p by (subst prefixes.simps) (simp only: Let_def if_True fold_Cons comp_apply)
qed

lemma prefixes_end: "prefixes rd lin d = Some r \<Longrightarrow> \<exists>n. \<not> is_prefix (rd (lin + word_of_nat n))"
proof (rule prefixes.raw_induct [of "\<lambda>rd lin d r. \<exists>n. \<not> is_prefix (rd (lin + word_of_nat n))"])
  fix pf rd lin d r
  assume ih: "\<And>rd lin d r. pf rd lin d = Some r \<Longrightarrow> \<exists>n. \<not> is_prefix (rd (lin + word_of_nat n))"
    and st: "(let b = rd (lin + word_of_nat (d_nprefix d)) in if is_prefix b then pf rd lin (take_prefix b d) else Some d) = Some r"
  show "\<exists>n. \<not> is_prefix (rd (lin + word_of_nat n))"
    using ih [of rd lin "take_prefix (rd (lin + word_of_nat (d_nprefix d))) d" r] st by (auto simp: Let_def split: if_splits)
qed

text \<open>
  The decoder returns exactly when the code at the address ever reads as something other than a prefix,
  and then its prefix fields are those of all prefix bytes in order and the opcode is the first byte after
  them; on memory that is prefixes throughout it never returns (there is no 15-byte limit).
\<close>

theorem decode_with_returns:
  "decode_with rd lin def32 =
    (if \<exists>n. \<not> is_prefix (rd (lin + word_of_nat n))
     then let m = (LEAST n. \<not> is_prefix (rd (lin + word_of_nat n)))
          in Some (decode_fields rd lin (fold take_prefix (map (\<lambda>j. rd (lin + word_of_nat j)) [0..<m]) (insn_start def32)))
     else None)"
proof (cases "\<exists>n. \<not> is_prefix (rd (lin + word_of_nat n))")
  case True
  let ?m = "LEAST n. \<not> is_prefix (rd (lin + word_of_nat n))"
  have m: "\<not> is_prefix (rd (lin + word_of_nat ?m))"
    using True by (rule LeastI_ex)
  have "\<forall>j<?m. is_prefix (rd (lin + word_of_nat j))"
    using not_less_Least by blast
  then show ?thesis
    using m True prefixes_fold [of ?m rd lin "insn_start def32"] by (simp add: decode_with_def insn_start_def Let_def)
next
  case False
  then have "prefixes rd lin (insn_start def32) = None"
    using prefixes_end by (metis option.exhaust)
  then show ?thesis
    using False by (simp add: decode_with_def)
qed

section \<open>Flag effects\<close>

definition F_C :: u32 where "F_C = 0x001"
definition F_P :: u32 where "F_P = 0x004"
definition F_A :: u32 where "F_A = 0x010"
definition F_Z :: u32 where "F_Z = 0x040"
definition F_S :: u32 where "F_S = 0x080"
definition F_O :: u32 where "F_O = 0x800"
definition F_ARITH :: u32 where "F_ARITH = F_C OR F_P OR F_A OR F_Z OR F_S OR F_O"

lemmas flag_defs = F_C_def F_P_def F_A_def F_Z_def F_S_def F_O_def F_ARITH_def

record fx_t =
  fx_wr :: u32
  fx_ud :: u32
  fx_rd :: u32
  fx_dest_undef :: bool
  fx_branch :: bool

definition fx_none :: fx_t where
  "fx_none = \<lparr>fx_wr = 0, fx_ud = 0, fx_rd = 0, fx_dest_undef = False, fx_branch = False\<rparr>"

definition cc_flags :: "u8 \<Rightarrow> u32" where
  "cc_flags cc = [F_O, F_C, F_Z, F_C OR F_Z, F_S, F_P, F_S OR F_O, F_Z OR F_S OR F_O] ! unat (drop_bit 1 cc AND 7)"

definition fx_alu :: "u8 \<Rightarrow> fx_t" where
  "fx_alu k = fx_none\<lparr>fx_wr := F_ARITH, fx_ud := (if k = 1 \<or> k = 4 \<or> k = 6 then F_A else 0),
     fx_rd := (if k = 2 \<or> k = 3 then F_C else 0)\<rparr>"

definition fx_shift :: "insn_t \<Rightarrow> u32 \<Rightarrow> u32 \<Rightarrow> fx_t" where
  "fx_shift d pre_ecx imm_last =
     (let op = d_op d;
          cnt0 = (if op = 0xD0 \<or> op = 0xD1 then 1 else if op = 0xD2 \<or> op = 0xD3 then pre_ecx AND 0xFF else imm_last);
          w = (if bit op 0 then if d_op32 d then 32 else 16 else 8 :: u32);
          cnt = cnt0 AND 31
      in if cnt = 0 then fx_none
         else if d_reg d \<le> 3
         then fx_none\<lparr>fx_wr := F_C OR F_O, fx_ud := (if cnt \<noteq> 1 then F_O else 0), fx_rd := (if 2 \<le> d_reg d then F_C else 0)\<rparr>
         else fx_none\<lparr>fx_wr := F_ARITH,
           fx_ud := F_A OR (if cnt \<noteq> 1 then F_O else 0) OR (if w \<le> cnt then F_C else 0)\<rparr>)"

definition fx_group3 :: "u8 \<Rightarrow> fx_t" where
  "fx_group3 r =
     (if r = 0 \<or> r = 1 then fx_none\<lparr>fx_wr := F_ARITH, fx_ud := F_A\<rparr>
      else if r = 3 then fx_none\<lparr>fx_wr := F_ARITH\<rparr>
      else if r = 4 \<or> r = 5 then fx_none\<lparr>fx_wr := F_ARITH, fx_ud := F_S OR F_Z OR F_A OR F_P\<rparr>
      else if r = 6 \<or> r = 7 then fx_none\<lparr>fx_wr := F_ARITH, fx_ud := F_ARITH\<rparr>
      else fx_none)"

definition fx_1byte :: "insn_t \<Rightarrow> u32 \<Rightarrow> u32 \<Rightarrow> fx_t" where
  "fx_1byte d pre_ecx imm_last =
     (let op = d_op d in
      if op < 0x40 \<and> op AND 7 < 6 then fx_alu (drop_bit 3 op AND 7)
      else if op = 0x27 \<or> op = 0x2F then fx_none\<lparr>fx_wr := F_ARITH, fx_ud := F_O, fx_rd := F_C OR F_A\<rparr>
      else if op = 0x37 \<or> op = 0x3F then fx_none\<lparr>fx_wr := F_ARITH, fx_ud := F_O OR F_S OR F_Z OR F_P, fx_rd := F_A\<rparr>
      else if 0x40 \<le> op \<and> op \<le> 0x4F then fx_none\<lparr>fx_wr := F_O OR F_S OR F_Z OR F_A OR F_P\<rparr>
      else if op = 0x69 \<or> op = 0x6B then fx_none\<lparr>fx_wr := F_ARITH, fx_ud := F_S OR F_Z OR F_A OR F_P\<rparr>
      else if 0x70 \<le> op \<and> op \<le> 0x7F then fx_none\<lparr>fx_rd := cc_flags (op AND 0xF), fx_branch := True\<rparr>
      else if 0x80 \<le> op \<and> op \<le> 0x83 then fx_alu (d_reg d)
      else if op = 0x84 \<or> op = 0x85 \<or> op = 0xA8 \<or> op = 0xA9 then fx_none\<lparr>fx_wr := F_ARITH, fx_ud := F_A\<rparr>
      else if op = 0x9D then fx_none\<lparr>fx_wr := F_ARITH\<rparr>
      else if op = 0x9E then fx_none\<lparr>fx_wr := F_S OR F_Z OR F_A OR F_P OR F_C\<rparr>
      else if op = 0x9F then fx_none\<lparr>fx_rd := F_S OR F_Z OR F_A OR F_P OR F_C\<rparr>
      else if op = 0xA6 \<or> op = 0xA7 \<or> op = 0xAE \<or> op = 0xAF
      then if d_rep d \<noteq> 0 \<and> pre_ecx = 0 then fx_none else fx_none\<lparr>fx_wr := F_ARITH\<rparr>
      else if op = 0xC0 \<or> op = 0xC1 \<or> 0xD0 \<le> op \<and> op \<le> 0xD3 then fx_shift d pre_ecx imm_last
      else if op = 0xD4 \<or> op = 0xD5 then fx_none\<lparr>fx_wr := F_ARITH, fx_ud := F_O OR F_A OR F_C\<rparr>
      else if op = 0xE0 \<or> op = 0xE1 then fx_none\<lparr>fx_rd := F_Z, fx_branch := True\<rparr>
      else if op = 0xF5 then fx_none\<lparr>fx_wr := F_C, fx_rd := F_C\<rparr>
      else if op = 0xF8 \<or> op = 0xF9 then fx_none\<lparr>fx_wr := F_C\<rparr>
      else if op = 0xF6 \<or> op = 0xF7 then fx_group3 (d_reg d)
      else if (op = 0xFE \<or> op = 0xFF) \<and> d_reg d \<le> 1 then fx_none\<lparr>fx_wr := F_O OR F_S OR F_Z OR F_A OR F_P\<rparr>
      else fx_none)"

definition fx_0f :: "insn_t \<Rightarrow> u32 \<Rightarrow> u32 \<Rightarrow> bool \<Rightarrow> fx_t" where
  "fx_0f d pre_ecx imm_last zf_after =
     (let o2 = d_op2 d; width = (if d_op32 d then 32 else 16 :: u32) in
      if 0x80 \<le> o2 \<and> o2 \<le> 0x8F then fx_none\<lparr>fx_rd := cc_flags (o2 AND 0xF), fx_branch := True\<rparr>
      else if 0x90 \<le> o2 \<and> o2 \<le> 0x9F then fx_none\<lparr>fx_rd := cc_flags (o2 AND 0xF)\<rparr>
      else if o2 = 0xA3 \<or> o2 = 0xAB \<or> o2 = 0xB3 \<or> o2 = 0xBB \<or> o2 = 0xBA \<and> 4 \<le> d_reg d
      then fx_none\<lparr>fx_wr := F_C OR F_O OR F_S OR F_A OR F_P, fx_ud := F_O OR F_S OR F_A OR F_P\<rparr>
      else if o2 = 0xA4 \<or> o2 = 0xA5 \<or> o2 = 0xAC \<or> o2 = 0xAD
      then let cnt = (if o2 = 0xA4 \<or> o2 = 0xAC then imm_last else pre_ecx AND 0xFF) AND 31 in
        if cnt = 0 then fx_none
        else if width < cnt then fx_none\<lparr>fx_wr := F_ARITH, fx_ud := F_ARITH, fx_dest_undef := True\<rparr>
        else fx_none\<lparr>fx_wr := F_ARITH, fx_ud := F_A OR (if cnt \<noteq> 1 then F_O else 0)\<rparr>
      else if o2 = 0xAF then fx_none\<lparr>fx_wr := F_ARITH, fx_ud := F_S OR F_Z OR F_A OR F_P\<rparr>
      else if o2 = 0xB0 \<or> o2 = 0xB1 \<or> o2 = 0xC0 \<or> o2 = 0xC1 then fx_none\<lparr>fx_wr := F_ARITH\<rparr>
      else if o2 = 0xBC \<or> o2 = 0xBD
      then fx_none\<lparr>fx_wr := F_ARITH, fx_ud := F_C OR F_O OR F_S OR F_A OR F_P, fx_dest_undef := zf_after\<rparr>
      else if o2 = 0x02 \<or> o2 = 0x03 \<or> o2 = 0x00 \<and> (d_reg d = 4 \<or> d_reg d = 5) then fx_none\<lparr>fx_wr := F_Z\<rparr>
      else fx_none)"

definition flag_effect :: "insn_t \<Rightarrow> u32 \<Rightarrow> u32 \<Rightarrow> bool \<Rightarrow> fx_t" where
  "flag_effect d pre_ecx imm_last zf_after =
     (if d_op d \<noteq> 0x0F then fx_1byte d pre_ecx imm_last else fx_0f d pre_ecx imm_last zf_after)"

text \<open>Only arithmetic flags are tracked, and an undefined flag is one the instruction writes.\<close>

definition fx_ok :: "fx_t \<Rightarrow> bool" where
  "fx_ok f \<longleftrightarrow> fx_ud f AND NOT (fx_wr f) = 0 \<and> fx_wr f AND NOT F_ARITH = 0 \<and> fx_rd f AND NOT F_ARITH = 0"

lemma cc_flags_arith: "cc_flags cc AND NOT F_ARITH = 0"
proof -
  let ?t = "[F_O, F_C, F_Z, F_C OR F_Z, F_S, F_P, F_S OR F_O, F_Z OR F_S OR F_O]"
  have "unat (drop_bit 1 cc AND 7) < length ?t"
    using word_and_le1 [of "drop_bit 1 cc" 7] by (simp add: word_le_nat_alt)
  then have "cc_flags cc \<in> set ?t"
    unfolding cc_flags_def by (rule nth_mem)
  then show ?thesis
    by (auto simp: flag_defs)
qed

lemma fx_none_ok [simp]: "fx_ok fx_none"
  by (simp add: fx_ok_def fx_none_def)

lemma fx_parts_ok: "fx_ok (fx_alu k)" "fx_ok (fx_shift d c i)" "fx_ok (fx_group3 r)"
  by (simp_all add: fx_alu_def fx_shift_def fx_group3_def fx_ok_def fx_none_def flag_defs Let_def)

lemma fx_ok_if: "fx_ok a \<Longrightarrow> fx_ok b \<Longrightarrow> fx_ok (if c then a else b)"
  by simp

lemma fx_ok_upd:
  "wr AND NOT F_ARITH = 0 \<Longrightarrow> fx_ok (fx_none\<lparr>fx_wr := wr\<rparr>)"
  "rd AND NOT F_ARITH = 0 \<Longrightarrow> fx_ok (fx_none\<lparr>fx_rd := rd\<rparr>)"
  "rd AND NOT F_ARITH = 0 \<Longrightarrow> fx_ok (fx_none\<lparr>fx_rd := rd, fx_branch := b\<rparr>)"
  "wr AND NOT F_ARITH = 0 \<Longrightarrow> rd AND NOT F_ARITH = 0 \<Longrightarrow> fx_ok (fx_none\<lparr>fx_wr := wr, fx_rd := rd\<rparr>)"
  "wr AND NOT F_ARITH = 0 \<Longrightarrow> ud AND NOT wr = 0 \<Longrightarrow> fx_ok (fx_none\<lparr>fx_wr := wr, fx_ud := ud\<rparr>)"
  "wr AND NOT F_ARITH = 0 \<Longrightarrow> ud AND NOT wr = 0 \<Longrightarrow> fx_ok (fx_none\<lparr>fx_wr := wr, fx_ud := ud, fx_dest_undef := u\<rparr>)"
  "wr AND NOT F_ARITH = 0 \<Longrightarrow> ud AND NOT wr = 0 \<Longrightarrow> rd AND NOT F_ARITH = 0 \<Longrightarrow>
     fx_ok (fx_none\<lparr>fx_wr := wr, fx_ud := ud, fx_rd := rd\<rparr>)"
  by (simp_all add: fx_ok_def fx_none_def)

lemma fx_1byte_ok: "fx_ok (fx_1byte d c i)"
  unfolding fx_1byte_def Let_def
  by (intro fx_ok_if fx_parts_ok fx_none_ok fx_ok_upd cc_flags_arith; simp add: flag_defs)

lemma fx_0f_ok: "fx_ok (fx_0f d c i z)"
  unfolding fx_0f_def Let_def
  by (intro fx_ok_if fx_parts_ok fx_none_ok fx_ok_upd cc_flags_arith; simp add: flag_defs)

text \<open>
  The flag table is well formed for every instruction: it names arithmetic flags only, and a flag it
  calls undefined is one the instruction writes.
\<close>

theorem flag_effect_ok: "fx_ok (flag_effect d pre_ecx imm_last zf_after)"
  by (simp add: flag_effect_def fx_1byte_ok fx_0f_ok)

section \<open>Opcode classes\<close>

text \<open>\<open>peek_opcode\<close>: at most 15 bytes; the offset wraps at 64K in a 16-bit segment.\<close>

fun peek_from :: "(u32 \<Rightarrow> u8) \<Rightarrow> u32 \<Rightarrow> u32 \<Rightarrow> bool \<Rightarrow> nat \<Rightarrow> nat \<Rightarrow> bool \<Rightarrow> u8 \<times> bool" where
  "peek_from rd cs pc use32 0 i rep = (0x90, rep)"
| "peek_from rd cs pc use32 (Suc n) i rep =
     (let b = rd (cs + ((pc + word_of_nat i) AND (if use32 then 0xFFFFFFFF else 0xFFFF))) in
      if b = 0xF2 \<or> b = 0xF3 then peek_from rd cs pc use32 n (i + 1) True
      else if b \<in> set [0x26, 0x2E, 0x36, 0x3E, 0x64, 0x65, 0x66, 0x67, 0xF0] then peek_from rd cs pc use32 n (i + 1) rep
      else (b, rep))"

definition peek_opcode :: "(u32 \<Rightarrow> u8) \<Rightarrow> u32 \<Rightarrow> u32 \<Rightarrow> bool \<Rightarrow> u8 \<times> bool" where
  "peek_opcode rd cs pc use32 = peek_from rd cs pc use32 15 0 False"

definition is_string_op :: "u8 \<Rightarrow> bool" where
  "is_string_op op \<longleftrightarrow> 0xA4 \<le> op \<and> op \<le> 0xA7 \<or> 0xAA \<le> op \<and> op \<le> 0xAF \<or> 0x6C \<le> op \<and> op \<le> 0x6F"

definition c86_at_rep_string :: "(u32 \<Rightarrow> u8) \<Rightarrow> u32 \<Rightarrow> u32 \<Rightarrow> bool \<Rightarrow> bool" where
  "c86_at_rep_string rd cs pc use32 = (let (op, rep) = peek_opcode rd cs pc use32 in rep \<and> is_string_op op)"

definition is_logic_op :: "insn_t \<Rightarrow> bool" where
  "is_logic_op d =
     (let op = d_op d in
      if op < 0x40 \<and> op AND 7 < 6 then (let k = drop_bit 3 op AND 7 in k = 1 \<or> k = 4 \<or> k = 6)
      else if 0x80 \<le> op \<and> op \<le> 0x83 then d_reg d = 1 \<or> d_reg d = 4 \<or> d_reg d = 6
      else if op = 0x84 \<or> op = 0x85 \<or> op = 0xA8 \<or> op = 0xA9 then True
      else if op = 0xF6 \<or> op = 0xF7 then d_reg d = 0 \<or> d_reg d = 1
      else False)"

definition x87_waits :: "insn_t \<Rightarrow> bool" where
  "x87_waits d =
     (if d_op d = 0x9B then True
      else if d_op d AND 0xF8 \<noteq> 0xD8 then False
      else let esc = d_op d AND 7; modrm = push_bit 6 (d_mod d) OR push_bit 3 (d_reg d) OR d_rm d in
        if (esc = 1 \<or> esc = 5) \<and> d_mod d \<noteq> 3 \<and> 6 \<le> d_reg d then False
        else if esc = 7 \<and> modrm = 0xE0 then False
        else if esc = 3 \<and> 0xE0 \<le> modrm \<and> modrm \<le> 0xE4 then False
        else True)"

text \<open>The two scanners of prefixes see the same instruction.\<close>

lemma is_prefix_peek: "is_prefix b \<longleftrightarrow> b = 0xF2 \<or> b = 0xF3 \<or> b \<in> set [0x26, 0x2E, 0x36, 0x3E, 0x64, 0x65, 0x66, 0x67, 0xF0]"
  by (auto simp: is_prefix_def)

lemma and_max [simp]: "x AND (0xFFFFFFFF :: u32) = x"
proof -
  have "(0xFFFFFFFF :: u32) = - 1"
    by simp
  then show ?thesis
    by (simp only: and.right_neutral)
qed

lemma peek_from_spec:
  "\<forall>j<m. is_prefix (rd (cs + (pc + word_of_nat (i + j)))) \<Longrightarrow> \<not> is_prefix (rd (cs + (pc + word_of_nat (i + m)))) \<Longrightarrow> m < n \<Longrightarrow>
   peek_from rd cs pc True n i rep =
     (rd (cs + (pc + word_of_nat (i + m))), rep \<or> (\<exists>j<m. rd (cs + (pc + word_of_nat (i + j))) \<in> {0xF2, 0xF3}))"
proof (induction m arbitrary: n i rep)
  case 0
  then show ?case
    by (cases n) (auto simp: Let_def is_prefix_peek)
next
  case (Suc m)
  obtain n' where n: "n = Suc n'" "m < n'"
    using Suc.prems(3) by (cases n) auto
  let ?b = "rd (cs + (pc + word_of_nat i))"
  have p: "is_prefix ?b"
    using Suc.prems(1) by (metis add_0_right zero_less_Suc)
  have st: "peek_from rd cs pc True n i rep = peek_from rd cs pc True n' (Suc i) (rep \<or> ?b \<in> {0xF2, 0xF3})"
    using p by (auto simp: n(1) Let_def is_prefix_peek)
  have a: "\<forall>j<m. is_prefix (rd (cs + (pc + word_of_nat (Suc i + j))))"
    using Suc.prems(1) by (metis Suc_less_eq add_Suc_shift)
  have b: "\<not> is_prefix (rd (cs + (pc + word_of_nat (Suc i + m))))"
    using Suc.prems(2) by (metis add_Suc_shift)
  have ex: "(\<exists>j<Suc m. rd (cs + (pc + word_of_nat (i + j))) \<in> {0xF2, 0xF3}) \<longleftrightarrow>
      ?b \<in> {0xF2, 0xF3} \<or> (\<exists>j<m. rd (cs + (pc + word_of_nat (Suc i + j))) \<in> {0xF2, 0xF3})"
    by (subst Ex_less_Suc2) (simp only: add_0_right add_Suc_shift)
  show ?case
    unfolding st Suc.IH [OF a b n(2)] ex by (simp only: add_Suc_shift disj_assoc)
qed

lemma fold_rep: "d_rep (fold take_prefix bs d) \<noteq> 0 \<longleftrightarrow> d_rep d \<noteq> 0 \<or> (\<exists>b\<in>set bs. b = 0xF2 \<or> b = 0xF3)"
proof (induction bs arbitrary: d)
  case (Cons b bs)
  have "d_rep (take_prefix b d) \<noteq> 0 \<longleftrightarrow> d_rep d \<noteq> 0 \<or> b = 0xF2 \<or> b = 0xF3"
    by (auto simp: take_prefix_def Let_def)
  then show ?case
    using Cons.IH [of "take_prefix b d"] by auto
qed simp

lemma fold_nprefix: "d_nprefix (fold take_prefix bs d) = d_nprefix d + length bs"
  by (induction bs arbitrary: d) simp_all

lemma decode_fields_frames: "d_op (decode_fields rd lin d) = rd (lin + word_of_nat (d_nprefix d))"
  "d_rep (decode_fields rd lin d) = d_rep d" "d_nprefix (decode_fields rd lin d) = d_nprefix d"
  by (simp_all add: decode_fields_def Let_def)

text \<open>
  The two prefix scanners agree: in a 32-bit segment and below 15 prefixes, the opcode and repeat prefix
  \<open>peek_opcode\<close> finds are those of the decoded instruction.
\<close>

theorem peek_agrees_with_decode:
  assumes "decode_with rd (cs + pc) True = Some d" and "d_nprefix d < 15"
  shows "peek_opcode rd cs pc True = (d_op d, d_rep d \<noteq> 0)"
proof -
  let ?p = "\<lambda>n. is_prefix (rd (cs + pc + word_of_nat n))"
  have ex: "\<exists>n. \<not> ?p n"
    using assms(1) prefixes_end by (auto simp: decode_with_def)
  define m where "m = (LEAST n. \<not> ?p n)"
  have m: "\<not> ?p m" "\<forall>j<m. ?p j"
    using LeastI_ex [OF ex] not_less_Least unfolding m_def by blast+
  let ?d = "fold take_prefix (map (\<lambda>j. rd (cs + pc + word_of_nat j)) [0..<m]) (insn_start True)"
  have d: "d = decode_fields rd (cs + pc) ?d"
    using assms(1) m prefixes_fold [of m rd "cs + pc" "insn_start True"] by (simp add: decode_with_def insn_start_def)
  have n: "d_nprefix ?d = m"
    by (simp add: fold_nprefix insn_start_def)
  then have "m < 15"
    using assms(2) by (simp add: d decode_fields_frames)
  then have "peek_opcode rd cs pc True =
      (rd (cs + (pc + word_of_nat m)), \<exists>j<m. rd (cs + (pc + word_of_nat j)) \<in> {0xF2, 0xF3})"
    using peek_from_spec [of m rd cs pc 0 15 False] m by (simp add: peek_opcode_def add.assoc)
  moreover have "(\<exists>j<m. rd (cs + (pc + word_of_nat j)) \<in> {0xF2, 0xF3}) \<longleftrightarrow> d_rep d \<noteq> 0"
    by (auto simp: d decode_fields_frames fold_rep insn_start_def add.assoc)
  ultimately show ?thesis
    by (simp add: d decode_fields_frames fold_nprefix insn_start_def add.assoc)
qed

lemma fx_logic: "k \<in> {1, 4, 6} \<Longrightarrow> fx_ud (fx_alu k) = F_A \<and> fx_wr (fx_alu k) = F_ARITH"
  "k \<in> {0, 1} \<Longrightarrow> fx_ud (fx_group3 k) = F_A \<and> fx_wr (fx_group3 k) = F_ARITH"
  by (auto simp: fx_alu_def fx_group3_def fx_none_def)

definition rep_movsd :: "u32 \<Rightarrow> u8" where
  "rep_movsd a = (if a = 0x100 then 0xF3 else if a = 0x101 then 0x66 else 0xA5)"

theorem peek_agrees_with_decode_witness: "peek_opcode rep_movsd 0 0x100 True = (0xA5, True)"
proof -
  let ?d = "decode_fields rep_movsd 0x100 (take_prefix 0x66 (take_prefix 0xF3 (insn_start True)))"
  have d: "decode_with rep_movsd (0 + 0x100) True = Some ?d"
    by (simp add: decode_with_def prefixes.simps rep_movsd_def insn_start_def is_prefix_def take_prefix_def)
  have f: "d_nprefix ?d = 2" "d_op ?d = 0xA5" "d_rep ?d = 0xF3"
    by (simp_all add: decode_fields_def rep_movsd_def insn_start_def take_prefix_def Let_def modrm_1byte_def)
  show ?thesis
    using peek_agrees_with_decode [OF d] f by simp
qed

text \<open>
  An instruction \<open>is_logic_op\<close> recognises writes all arithmetic flags and leaves exactly AF undefined, so
  clearing AF after it leaves nothing to adopt.
\<close>

theorem logic_op_flags:
  assumes "is_logic_op d"
  shows "fx_ud (flag_effect d pre_ecx imm_last zf_after) = F_A \<and> fx_wr (flag_effect d pre_ecx imm_last zf_after) = F_ARITH"
proof -
  have op: "d_op d \<noteq> 0x0F"
    using assms by (auto simp: is_logic_op_def Let_def split: if_splits)
  consider (alu) "d_op d < 0x40" "d_op d AND 7 < 6" "drop_bit 3 (d_op d) AND 7 \<in> {1, 4, 6}"
    | (imm) "0x80 \<le> d_op d" "d_op d \<le> 0x83" "d_reg d \<in> {1, 4, 6}"
    | (test) "d_op d \<in> {0x84, 0x85, 0xA8, 0xA9}"
    | (unary) "d_op d \<in> {0xF6, 0xF7}" "d_reg d \<in> {0, 1}"
    using assms by (auto simp: is_logic_op_def Let_def split: if_splits)
  then show ?thesis
  proof cases
    case alu
    then have "flag_effect d pre_ecx imm_last zf_after = fx_alu (drop_bit 3 (d_op d) AND 7)"
      using op by (simp add: flag_effect_def fx_1byte_def Let_def)
    then show ?thesis
      using fx_logic(1) [OF alu(3)] by simp
  next
    case imm
    then have "d_op d \<in> {0x80, 0x81, 0x82, 0x83}"
      by (auto simp: word_le_nat_alt word_unat_eq_iff)
    then have "flag_effect d pre_ecx imm_last zf_after = fx_alu (d_reg d)"
      by (elim insertE emptyE) (simp_all add: flag_effect_def fx_1byte_def Let_def)
    then show ?thesis
      using fx_logic(1) [OF imm(3)] by simp
  next
    case test
    then show ?thesis
      by (elim insertE emptyE) (simp_all add: flag_effect_def fx_1byte_def Let_def fx_none_def)
  next
    case unary
    from unary(1) have "flag_effect d pre_ecx imm_last zf_after = fx_group3 (d_reg d)"
      by (elim insertE emptyE) (simp_all add: flag_effect_def fx_1byte_def Let_def)
    then show ?thesis
      using fx_logic(2) [OF unary(2)] by simp
  qed
qed

section \<open>Undefined flags\<close>

text \<open>
  \<open>udf\<close> holds the arithmetic flags the last instruction left undefined (low half) and those the one
  before it did and that were not written since (high half). \<open>run\<close> updates it after an instruction,
  \<open>cosim_adopt_flags\<close> takes the bits from z486 and ages the set.
\<close>

definition udf_step :: "u32 \<Rightarrow> fx_t \<Rightarrow> u32" where
  "udf_step udf f = (udf AND NOT (fx_wr f OR push_bit 16 (fx_wr f))) OR fx_ud f"

definition udf_age :: "u32 \<Rightarrow> u32" where
  "udf_age udf = push_bit 16 (udf AND 0xFFFF)"

definition adopt_mask :: "u32 \<Rightarrow> u32" where
  "adopt_mask udf = (udf OR drop_bit 16 udf) AND F_ARITH"

definition adopt_flags :: "u32 \<Rightarrow> u32 \<Rightarrow> u32 \<Rightarrow> u32 \<times> u32" where
  "adopt_flags dut_eflags flags udf =
     (let m = adopt_mask udf
      in (if m = 0 then flags else (flags AND NOT m) OR (dut_eflags AND m), udf_age udf))"

lemma bit_arith: "bit F_ARITH n \<longleftrightarrow> n \<in> {0, 2, 4, 6, 7, 11}"
proof -
  have "F_ARITH = 2 ^ 0 OR 2 ^ 2 OR 2 ^ 4 OR 2 ^ 6 OR 2 ^ 7 OR 2 ^ 11"
    by (simp add: flag_defs)
  then show ?thesis
    unfolding \<open>F_ARITH = _\<close> bit_or_iff bit_exp_iff by auto
qed

lemma sub_bits: "x AND NOT y = 0 \<Longrightarrow> bit x n \<Longrightarrow> bit y n" for x y :: u32
  by (metis bit_0_eq bit_and_iff bit_not_iff bit_imp_possible_bit bot_apply bot_bool_def)

lemma fx_bits:
  assumes "fx_ok f"
  shows "bit (fx_ud f) n \<Longrightarrow> bit (fx_wr f) n" "bit (fx_wr f) n \<Longrightarrow> bit F_ARITH n"
  using assms sub_bits by (auto simp: fx_ok_def)

lemma bit_udf_age: "bit (udf_age u) k \<longleftrightarrow> 16 \<le> k \<and> k < 32 \<and> bit u (k - 16)"
proof -
  have "udf_age u = push_bit 16 (take_bit 16 u)"
    unfolding udf_age_def take_bit_eq_mask by (simp add: mask_eq_exp_minus_1)
  then show ?thesis
    by (auto simp: bit_push_bit_iff bit_take_bit_iff)
qed

text \<open>
  Undefined flags are taken from z486 for two issues and no longer: after two instructions the bits to
  adopt are those the second left undefined and those the first left undefined that the second did not
  write, whatever was pending before.
\<close>

theorem adoption_window:
  assumes "fx_ok f" and "fx_ok g"
  shows "adopt_mask (udf_step (udf_age (udf_step (udf_age udf) f)) g) = fx_ud g OR (fx_ud f AND NOT (fx_wr g))"
proof (rule bit_word_eqI)
  fix n
  assume n: "n < LENGTH(32)"
  let ?u = "udf_step (udf_age udf) f"
  have up: "bit w (n + 16) = False" if "fx_ok h" "w = fx_ud h \<or> w = fx_wr h" for w h
    using that fx_bits [of h "n + 16"] by (auto simp: bit_arith)
  show "bit (adopt_mask (udf_step (udf_age ?u) g)) n = bit (fx_ud g OR (fx_ud f AND NOT (fx_wr g))) n"
  proof (cases "bit F_ARITH n")
    case True
    then have lo: "n < 16"
      by (auto simp: bit_arith)
    have u: "bit ?u n \<longleftrightarrow> bit (fx_ud f) n"
      using lo n by (auto simp: udf_step_def bit_udf_age bit_or_iff bit_and_iff bit_push_bit_iff bit_not_iff)
    have l: "bit (udf_step (udf_age ?u) g) n \<longleftrightarrow> bit (fx_ud g) n"
      using lo n by (auto simp: udf_step_def [of _ g] bit_udf_age bit_or_iff bit_and_iff bit_push_bit_iff bit_not_iff)
    have h: "bit (udf_step (udf_age ?u) g) (n + 16) \<longleftrightarrow> bit (fx_ud f) n \<and> \<not> bit (fx_wr g) n"
      using lo n up [OF assms(2)] u
      by (auto simp: udf_step_def [of _ g] bit_udf_age bit_or_iff bit_and_iff bit_push_bit_iff bit_not_iff)
    show ?thesis
      using True n l h by (auto simp: adopt_mask_def bit_or_iff bit_and_iff bit_drop_bit_eq bit_not_iff add.commute)
  next
    case False
    then show ?thesis
      using fx_bits [OF assms(1), of n] fx_bits [OF assms(2), of n]
      by (auto simp: adopt_mask_def bit_or_iff bit_and_iff)
  qed
qed

theorem adoption_window_witness:
  "adopt_mask (udf_step (udf_age (udf_step (udf_age 0xFFFFFFFF) (fx_group3 4))) (fx_alu 1)) =
     fx_ud (fx_alu 1) OR (fx_ud (fx_group3 4) AND NOT (fx_wr (fx_alu 1)))"
  by (rule adoption_window) (rule fx_parts_ok)+

section \<open>Segment descriptors\<close>

record x86seg =
  sg_seg :: u16
  sg_base :: u32
  sg_limit :: u32
  sg_limit_low :: u32
  sg_limit_high :: u32
  sg_access :: u8
  sg_ar_high :: u8
  sg_checked :: bool

definition init_seg :: "x86seg \<Rightarrow> u16 \<Rightarrow> u32 \<Rightarrow> u32 \<Rightarrow> u8 \<Rightarrow> u8 \<Rightarrow> x86seg" where
  "init_seg s sel base limit_20bit access ar_high =
     (let limit = (if ar_high AND 0x80 \<noteq> 0 then push_bit 12 limit_20bit OR 0xFFF else limit_20bit);
          s1 = s\<lparr>sg_seg := sel, sg_base := base, sg_access := access, sg_ar_high := ar_high, sg_limit := limit\<rparr>;
          s2 = (if access AND 0x18 \<noteq> 0x10 \<or> access AND 0x04 = 0
                then s1\<lparr>sg_limit_high := limit, sg_limit_low := 0\<rparr>
                else s1\<lparr>sg_limit_high := (if ar_high AND 0x40 \<noteq> 0 then 0xFFFFFFFF else 0xFFFF), sg_limit_low := limit + 1\<rparr>)
      in s2\<lparr>sg_checked := True\<rparr>)"

text \<open>The descriptor part of \<open>do_seg_load\<close>; the flat-segment flags it also keeps are 86Box's.\<close>

definition do_seg_load :: "bool \<Rightarrow> x86seg \<Rightarrow> u16 \<Rightarrow> u16 \<Rightarrow> u16 \<Rightarrow> u16 \<Rightarrow> x86seg" where
  "do_seg_load is386 s w0 w1 w2 w3 =
     (let lim = ucast w0 OR push_bit 16 (ucast (w3 AND 0xF));
          limit = (if w3 AND 0x80 \<noteq> 0 then push_bit 12 lim OR 0xFFF else lim);
          b24 = ucast w1 OR push_bit 16 (ucast (w2 AND 0xFF));
          base = (if is386 then b24 OR push_bit 24 (ucast (drop_bit 8 w3)) else b24);
          s1 = s\<lparr>sg_limit := limit, sg_base := base, sg_access := ucast (drop_bit 8 w2), sg_ar_high := ucast (w3 AND 0xFF)\<rparr>
      in if w2 AND 0x1800 \<noteq> 0x1000 \<or> w2 AND 0x400 = 0
         then s1\<lparr>sg_limit_high := limit, sg_limit_low := 0\<rparr>
         else s1\<lparr>sg_limit_high := (if w3 AND 0x40 \<noteq> 0 then 0xFFFFFFFF else 0xFFFF), sg_limit_low := limit + 1\<rparr>)"

lemma high_byte_test:
  "(w AND push_bit 8 (ucast m) = push_bit 8 (ucast k)) = ((ucast (drop_bit 8 w) :: u8) AND m = k)" for w :: u16
proof -
  have e: "w AND push_bit 8 (ucast m) = push_bit 8 (ucast ((ucast (drop_bit 8 w) :: u8) AND m))"
    by (rule bit_word_eqI) (auto simp: bit_and_iff bit_ucast_iff bit_drop_bit_eq bit_push_bit_iff)
  have inj: "(ucast (drop_bit 8 (push_bit 8 (ucast a) :: u16)) :: u8) = a" for a :: u8
    by (rule bit_word_eqI) (auto simp: bit_ucast_iff bit_drop_bit_eq bit_push_bit_iff)
  show ?thesis
    unfolding e by (metis inj)
qed

lemma low_byte_test: "(w AND ucast m = ucast k) = ((ucast (w AND 0xFF) :: u8) AND m = k)" for w :: u16
proof -
  have m: "(0xFF :: u16) = mask 8"
    by (simp add: mask_eq_exp_minus_1)
  have e: "w AND ucast m = ucast ((ucast (w AND 0xFF) :: u8) AND m)"
    unfolding m by (rule bit_word_eqI) (auto simp: bit_and_iff bit_ucast_iff bit_mask_iff dest: bit_imp_le_length)
  have inj: "(ucast (ucast a :: u16) :: u8) = a" for a :: u8
    by (rule bit_word_eqI) (auto simp: bit_ucast_iff)
  show ?thesis
    unfolding e by (metis inj)
qed

lemma descriptor_type_bits:
  "((ucast (drop_bit 8 w2) :: u8) AND 0x18 = 0x10) = (w2 AND 0x1800 = (0x1000 :: u16))"
  "((ucast (drop_bit 8 w2) :: u8) AND 0x04 = 0) = (w2 AND 0x400 = (0 :: u16))"
  "((ucast (w3 AND 0xFF) :: u8) AND 0x80 = 0) = (w3 AND 0x80 = (0 :: u16))"
  "((ucast (w3 AND 0xFF) :: u8) AND 0x40 = 0) = (w3 AND 0x40 = (0 :: u16))"
  using high_byte_test [where w = w2 and m = "0x18" and k = "0x10"] high_byte_test [where w = w2 and m = 4 and k = 0]
    low_byte_test [where w = w3 and m = "0x80" and k = 0] low_byte_test [where w = w3 and m = "0x40" and k = 0]
  by (simp_all add: push_bit_eq_mult)

text \<open>
  Loading a segment from a raw descriptor and initialising it from the decoded fields give the same
  segment: same effective limit, same expand-down bounds, same base and access bytes.
\<close>

theorem seg_load_is_init:
  "do_seg_load True s w0 w1 w2 w3 =
     (init_seg s (sg_seg s) (ucast w1 OR push_bit 16 (ucast (w2 AND 0xFF)) OR push_bit 24 (ucast (drop_bit 8 w3)))
       (ucast w0 OR push_bit 16 (ucast (w3 AND 0xF))) (ucast (drop_bit 8 w2)) (ucast (w3 AND 0xFF)))\<lparr>sg_checked := sg_checked s\<rparr>"
  by (cases s) (simp add: do_seg_load_def init_seg_def Let_def descriptor_type_bits or.assoc)

text \<open>\<open>seg_attr\<close>: \<open>pe\<close> is protected mode, \<open>vm\<close> virtual-8086 mode.\<close>

definition seg_attr :: "x86seg \<Rightarrow> bool \<Rightarrow> bool \<Rightarrow> bool \<Rightarrow> bool \<Rightarrow> u32" where
  "seg_attr s is_cs nullable pe vm =
     (let pm = pe \<and> \<not> vm in
      if pm \<and> nullable \<and> sg_seg s AND 0xFFFC = 0 then push_bit 27 1 OR 0xFFFFF
      else let access = (if \<not> pm \<and> sg_access s = 0xE2
               then (if vm then 0xE0 else 0x80) OR 0x10 OR (if is_cs then 0xB else 0x3) else sg_access s);
             g = (drop_bit 7 (sg_ar_high s) AND 1 \<noteq> 0 \<or> 0xFFFFF < sg_limit s);
             db = drop_bit 6 (sg_ar_high s) AND 1;
             raw = (if g then drop_bit 12 (sg_limit s) else sg_limit s) AND 0xFFFFF
      in push_bit 30 (ucast (access AND 1)) OR push_bit 29 (if g then 1 else 0) OR push_bit 28 (ucast db) OR
         push_bit 27 (ucast (drop_bit 7 access)) OR push_bit 25 (ucast (drop_bit 5 access AND 3)) OR
         push_bit 24 (ucast (drop_bit 4 access AND 1)) OR push_bit 20 (ucast (access AND 0xF)) OR raw)"

lemma mask_ands: "x AND 1 = take_bit 1 x" "x AND 3 = take_bit 2 x" "x AND 0xF = take_bit 4 x" "x AND 0xFFFFF = take_bit 20 x"
  for x :: "'a :: len word"
  by (simp_all add: take_bit_eq_mask mask_eq_exp_minus_1)

lemma raw_limit:
  fixes w0 w3 :: u16
  defines "lim \<equiv> ucast w0 OR push_bit 16 (ucast (w3 AND 0xF)) :: u32"
  shows "take_bit 20 lim = lim" "take_bit 20 (drop_bit 12 (push_bit 12 lim OR 0xFFF)) = lim" "\<not> 0xFFFFF < lim"
    "bit lim n = (if n < 16 then bit w0 n else n < 20 \<and> bit w3 (n - 16))"
proof -
  show b: "bit lim n = (if n < 16 then bit w0 n else n < 20 \<and> bit w3 (n - 16))" for n
    unfolding lim_def mask_ands by (auto simp: bit_or_iff bit_push_bit_iff bit_ucast_iff bit_take_bit_iff dest: bit_imp_le_length)
  show t: "take_bit 20 lim = lim"
    by (rule bit_word_eqI) (auto simp: bit_take_bit_iff b)
  have m: "(0xFFF :: u32) = mask 12"
    by (simp add: mask_eq_exp_minus_1)
  show "take_bit 20 (drop_bit 12 (push_bit 12 lim OR 0xFFF)) = lim"
    unfolding m by (rule bit_word_eqI) (auto simp: bit_take_bit_iff bit_drop_bit_eq bit_or_iff bit_push_bit_iff bit_mask_iff b)
  have "unat (take_bit 20 lim) < 2 ^ 20"
    by (simp only: unsigned_take_bit_eq take_bit_nat_less_exp)
  then show "\<not> 0xFFFFF < lim"
    unfolding t by (simp add: word_less_nat_alt)
qed

text \<open>
  The attribute word handed to the comparison is the descriptor's own: for a segment loaded in protected
  mode with a usable selector every bit of it is the descriptor bit z486 holds there, the limit
  unexpanded again.
\<close>

theorem descriptor_attributes:
  assumes "\<not> (nullable \<and> sg_seg s AND 0xFFFC = 0)"
  shows "bit (seg_attr (do_seg_load True s w0 w1 w2 w3) is_cs nullable True False) n \<longleftrightarrow>
    (if n < 16 then bit w0 n else if n < 20 then bit w3 (n - 16) else if n < 24 then bit w2 (n - 12)
     else if n < 28 then bit w2 (n - 12) else if n = 28 then bit w3 6 else if n = 29 then bit w3 7 else n = 30 \<and> bit w2 8)"
proof -
  define lim where "lim = (ucast w0 OR push_bit 16 (ucast (w3 AND 0xF)) :: u32)"
  note lim = raw_limit [of w0 w3, folded lim_def]
  let ?t = "do_seg_load True s w0 w1 w2 w3"
  have g7: "(w3 AND 0x80 \<noteq> 0) = bit w3 7"
    using and_exp_eq_0_iff_not_bit [of w3 7] by simp
  have t: "sg_seg ?t = sg_seg s" "sg_access ?t = ucast (drop_bit 8 w2)" "sg_ar_high ?t = ucast (w3 AND 0xFF)"
    "sg_limit ?t = (if bit w3 7 then push_bit 12 lim OR 0xFFF else lim)"
    by (simp_all add: do_seg_load_def Let_def g7 flip: lim_def)
  have b0: "(y AND 1 \<noteq> 0) = bit y 0" for y :: u8
    using and_exp_eq_0_iff_not_bit [of y 0] by simp
  have ar: "bit (sg_ar_high ?t) k = bit w3 k" if "k < 8" for k
  proof -
    have "w3 AND 0xFF = take_bit 8 w3"
      by (simp add: take_bit_eq_mask mask_eq_exp_minus_1)
    then show ?thesis
      using that by (simp add: t bit_ucast_iff bit_take_bit_iff)
  qed
  have ac: "bit (sg_access ?t) k = bit w2 (k + 8)" if "k < 8" for k
    using that by (simp add: t bit_ucast_iff bit_drop_bit_eq add.commute)
  have g: "(drop_bit 7 (sg_ar_high ?t) AND 1 \<noteq> 0 \<or> 0xFFFFF < sg_limit ?t) = bit w3 7"
    using lim(3) by (simp add: b0 bit_drop_bit_eq ar) (simp add: t)
  have raw: "(if bit w3 7 then drop_bit 12 (sg_limit ?t) else sg_limit ?t) AND 0xFFFFF = lim"
    using lim(1,2) by (simp add: t mask_ands)
  have at: "seg_attr ?t is_cs nullable True False =
      push_bit 30 (ucast (take_bit 1 (sg_access ?t))) OR push_bit 29 (if bit w3 7 then 1 else 0) OR
      push_bit 28 (ucast (take_bit 1 (drop_bit 6 (sg_ar_high ?t)))) OR push_bit 27 (ucast (drop_bit 7 (sg_access ?t))) OR
      push_bit 25 (ucast (take_bit 2 (drop_bit 5 (sg_access ?t)))) OR push_bit 24 (ucast (take_bit 1 (drop_bit 4 (sg_access ?t)))) OR
      push_bit 20 (ucast (take_bit 4 (sg_access ?t))) OR lim"
  proof -
    have nn: "(nullable \<and> sg_seg s AND 0xFFFC = 0) = False"
      using assms by blast
    show ?thesis
      by (simp only: seg_attr_def Let_def t(1) nn simp_thms if_False, simp only: g raw, simp only: mask_ands)
  qed
  have "n < 20 \<or> n = 20 \<or> n = 21 \<or> n = 22 \<or> n = 23 \<or> n = 24 \<or> n = 25 \<or> n = 26 \<or> n = 27 \<or> n = 28 \<or> n = 29 \<or> n = 30 \<or> 30 < n"
    by presburger
  then show ?thesis
    unfolding at bit_or_iff bit_push_bit_iff bit_ucast_iff bit_take_bit_iff bit_drop_bit_eq lim(4)
    by (elim disjE) (auto simp: bit_1_iff ar ac bit_ucast_iff bit_take_bit_iff bit_drop_bit_eq bit_push_bit_iff dest: bit_imp_le_length)
qed

theorem descriptor_attributes_witness:
  "bit (seg_attr (do_seg_load True \<lparr>sg_seg = 8, sg_base = 0, sg_limit = 0, sg_limit_low = 0, sg_limit_high = 0, sg_access = 0,
      sg_ar_high = 0, sg_checked = False\<rparr> 0xFFFF 0 0x9B00 0xCF) True True True False) 29 \<longleftrightarrow>
    (if 29 < (16 :: nat) then bit (0xFFFF :: u16) 29 else if 29 < (20 :: nat) then bit (0xCF :: u16) (29 - 16)
     else if 29 < (24 :: nat) then bit (0x9B00 :: u16) (29 - 12) else if 29 < (28 :: nat) then bit (0x9B00 :: u16) (29 - 12)
     else if 29 = (28 :: nat) then bit (0xCF :: u16) 6 else if 29 = (29 :: nat) then bit (0xCF :: u16) 7
     else 29 = (30 :: nat) \<and> bit (0x9B00 :: u16) 8)"
  by (rule descriptor_attributes) simp

section \<open>Division and parity\<close>

text \<open>
  A quotient with its remainder, the #DE exception, or a C division that is undefined and traps on the
  x86 host.
\<close>

datatype div_result = Divided u32 u32 | Divide_error | Host_trap

definition divl :: "u32 \<Rightarrow> u32 \<Rightarrow> u32 \<Rightarrow> div_result" where
  "divl edx eax val =
     (let num = (push_bit 32 (ucast edx) OR ucast eax :: u64) in
      if val = 0 then Divide_error
      else let quo = num div ucast val; rem = num mod ucast val
           in if 0xFFFFFFFF < quo then Divide_error else Divided (ucast quo) (ucast rem))"

definition dividend :: "u32 \<Rightarrow> u32 \<Rightarrow> int" where
  "dividend edx eax = sint (push_bit 32 (scast edx) OR ucast eax :: u64)"

definition idivl :: "u32 \<Rightarrow> u32 \<Rightarrow> u32 \<Rightarrow> div_result" where
  "idivl edx eax val =
     (let num = dividend edx eax; v = sint val in
      if v = 0 then Divide_error
      else if num = - (2 ^ 63) \<and> v = - 1 then Host_trap
      else let quo = num sdiv v; rem = num smod v
           in if 2147483647 < quo \<or> quo < - 2147483648 then Divide_error
              else Divided (word_of_int quo) (word_of_int rem))"

definition znptable :: "nat \<Rightarrow> u8" where
  "znptable i = (let p = foldl (\<lambda>p j. if bit i j then p + 1 else p) (0 :: nat) [0..<8] in if odd p then 0 else 4)"

lemma sint_back: "- (2 ^ 31) \<le> x \<Longrightarrow> x < 2 ^ 31 \<Longrightarrow> sint (word_of_int x :: u32) = x"
  by (simp add: sint_sbintrunc' signed_take_bit_int_eq_self)

lemma sint_range: "- (2 ^ 31) \<le> sint (w :: u32)" "sint w < 2 ^ 31"
  using sint_ge [of w] sint_lt [of w] by simp_all

lemma dividend_min:
  assumes "dividend edx eax = - (2 ^ 63)"
  shows "edx = 0x80000000" "eax = 0"
proof -
  define w where "w = (push_bit 32 (scast edx) OR ucast eax :: u64)"
  have m: "sint w = - (2 ^ 63)"
    using assms by (simp only: dividend_def flip: w_def)
  have "word_of_int (sint w) = w"
    by simp
  then have "w = word_of_int (- (2 ^ 63))"
    unfolding m by (rule sym)
  then have w: "w = 0x8000000000000000"
    by simp
  have "edx = ucast (drop_bit 32 w)"
    by (rule bit_word_eqI) (auto simp: w_def bit_ucast_iff bit_drop_bit_eq bit_or_iff bit_push_bit_iff bit_signed_iff
        dest: bit_imp_le_length)
  then show "edx = 0x80000000"
    by (simp add: w drop_bit_eq_div)
  have "eax = ucast w"
    by (rule bit_word_eqI) (auto simp: w_def bit_ucast_iff bit_or_iff bit_push_bit_iff)
  then show "eax = 0"
    by (simp add: w)
qed

lemma sint_minus_one: "sint (val :: u32) = - 1 \<Longrightarrow> val = 0xFFFFFFFF"
proof -
  assume "sint val = - 1"
  moreover have "val = word_of_int (sint val)"
    by simp
  ultimately have "val = word_of_int (- 1)"
    by metis
  then show ?thesis
    by simp
qed

text \<open>
  Signed division: a result satisfies dividend = quotient * divisor + remainder with the remainder smaller
  than the divisor and of the dividend's sign; #DE is raised only for a zero divisor or a quotient that does
  not fit; the one other outcome, for 8000000000000000h / -1, is a C division that traps on the host.
\<close>

theorem idivl_spec:
  "case idivl edx eax val of
     Divided q r \<Rightarrow> sint val \<noteq> 0 \<and> dividend edx eax = sint q * sint val + sint r \<and> \<bar>sint r\<bar> < \<bar>sint val\<bar> \<and>
        (sint r = 0 \<or> sgn (sint r) = sgn (dividend edx eax))
   | Divide_error \<Rightarrow> sint val = 0 \<or> dividend edx eax sdiv sint val \<notin> {- (2 ^ 31)..<2 ^ 31}
   | Host_trap \<Rightarrow> edx = 0x80000000 \<and> eax = 0 \<and> val = 0xFFFFFFFF"
proof -
  define n where "n = dividend edx eax"
  define v where "v = sint val"
  consider (zero) "v = 0" | (trap) "v = - 1" "n = - (2 ^ 63)"
    | (big) "v \<noteq> 0" "\<not> (n = - (2 ^ 63) \<and> v = - 1)" "2147483647 < n sdiv v \<or> n sdiv v < - 2147483648"
    | (fit) "v \<noteq> 0" "\<not> (n = - (2 ^ 63) \<and> v = - 1)" "- 2147483648 \<le> n sdiv v" "n sdiv v \<le> 2147483647"
    by linarith
  then show ?thesis
  proof cases
    case zero
    then show ?thesis
      by (simp add: idivl_def Let_def flip: n_def v_def)
  next
    case trap
    then have "idivl edx eax val = Host_trap"
      by (simp add: idivl_def Let_def flip: n_def v_def)
    then show ?thesis
      using trap dividend_min [of edx eax] sint_minus_one [of val] by (simp add: n_def v_def)
  next
    case big
    then show ?thesis
      by (auto simp: idivl_def Let_def simp flip: n_def v_def)
  next
    case fit
    have r: "\<bar>n smod v\<bar> < \<bar>v\<bar>"
      using smod_int_range [OF fit(1), of n] by auto
    have "\<bar>v\<bar> \<le> 2 ^ 31"
      using sint_range [of val] unfolding v_def by auto
    then have sr: "sint (word_of_int (n smod v) :: u32) = n smod v"
      using r by (intro sint_back) auto
    have sq: "sint (word_of_int (n sdiv v) :: u32) = n sdiv v"
      using fit by (intro sint_back) auto
    have "idivl edx eax val = Divided (word_of_int (n sdiv v)) (word_of_int (n smod v))"
      using fit by (auto simp: idivl_def Let_def simp flip: n_def v_def)
    moreover have "n smod v = 0 \<or> sgn (n smod v) = sgn n"
    proof -
      have "0 \<le> \<bar>n\<bar> mod \<bar>v\<bar>"
        using fit(1) by simp
      then consider "\<bar>n\<bar> mod \<bar>v\<bar> = 0" | "sgn (\<bar>n\<bar> mod \<bar>v\<bar>) = 1"
        by (metis sgn_1_pos order_le_less)
      then show ?thesis
        by cases (simp_all add: smod_int_alt_def sgn_mult)
    qed
    ultimately show ?thesis
      using r fit(1) by (simp add: sr sq sdiv_mult_smod_eq flip: n_def v_def)
  qed
qed

lemma idivl_traps: "idivl 0x80000000 0 0xFFFFFFFF = Host_trap"
  by (simp add: idivl_def dividend_def Let_def push_bit_eq_mult)

theorem idivl_spec_witness: "idivl 0xFFFFFFFF 0xFFFFFFF9 2 = Divided 0xFFFFFFFD 0xFFFFFFFF \<and> dividend 0xFFFFFFFF 0xFFFFFFF9 = - 7"
  using idivl_spec [of "0xFFFFFFFF" "0xFFFFFFF9" 2] by (simp add: idivl_def dividend_def mask_eq_exp_minus_1)

end
