(* ===== verification/Cosim_Run.thy ===== *)
theory Cosim_Run
  imports Cosim_Memory Cosim_Insn
begin

text \<open>
  One instruction of the reference (verilator/cosim/cosim86.c, \<open>run\<close> and what it calls): what the
  engine does before, around and after the interpreter. The interpreter is a parameter. The last
  section shows what a step that stalls leaves behind.
\<close>

section \<open>The processor behind the engine\<close>

text \<open>
  86Box's interpreter is not in the repository: it is a record of functions on its state \<open>'c\<close>. An
  executing function also takes and returns the engine's state, which it may change through the
  hooks. \<open>x_exec_one\<close> is \<open>exec_one\<close> with a fresh cycle budget, \<open>x_doabrt\<close> the delivery of a fault,
  \<open>x_interrupt\<close> that of an external interrupt; flags are the rebuilt ones.
\<close>

record 'c core =
  x_exec_one :: "'c \<times> cmp \<Rightarrow> bool \<times> 'c \<times> cmp"
  x_doabrt :: "fault \<Rightarrow> 'c \<times> cmp \<Rightarrow> 'c \<times> cmp"
  x_interrupt :: "int \<Rightarrow> 'c \<times> cmp \<Rightarrow> 'c \<times> cmp"
  x_pc :: "'c \<Rightarrow> u32"
  x_set_pc :: "u32 \<Rightarrow> 'c \<Rightarrow> 'c"
  x_cs :: "'c \<Rightarrow> u32"
  x_use32 :: "'c \<Rightarrow> bool"
  x_ecx :: "'c \<Rightarrow> u32"
  x_eax :: "'c \<Rightarrow> u32"
  x_trap :: "'c \<Rightarrow> bool"
  x_set_trap :: "bool \<Rightarrow> 'c \<Rightarrow> 'c"
  x_flags :: "'c \<Rightarrow> u32"
  x_set_flags :: "u32 \<Rightarrow> 'c \<Rightarrow> 'c"
  x_set_rf :: "bool \<Rightarrow> 'c \<Rightarrow> 'c"
  x_string_src :: "bool \<Rightarrow> 'c \<Rightarrow> u32"
  x_ea :: "'c \<Rightarrow> u32"
  x_stack_top :: "'c \<Rightarrow> u32"
  x_cwd :: "'c \<Rightarrow> u32"
  x_set_cwd :: "u32 \<Rightarrow> 'c \<Rightarrow> 'c"
  x_fpu_summary :: "'c \<Rightarrow> bool"

record 'c eng =
  g_cpu :: 'c
  g_cmp :: cmp
  g_last_fault :: "fault option"
  g_was_hlt :: bool
  g_udf :: u32
  g_x87_pc53 :: bool
  g_fpu_present :: bool
  g_hist :: "bytes list"

section \<open>Before the instruction\<close>

text \<open>\<open>hist_add\<close>: the bytes of the instruction, in the history ring, and whether it is an x87 one.\<close>

abbreviation HIST :: nat where
  "HIST \<equiv> 64"


fun esc_of :: "bytes \<Rightarrow> bool" where
  "esc_of [] = False"
| "esc_of (b # bs) = (if is_prefix b then esc_of bs else b AND 0xF8 = 0xD8)"

definition hist_slot :: "u64 \<Rightarrow> nat" where
  "hist_slot n = unat (n mod of_nat HIST)"

definition hist_add :: "u32 \<Rightarrow> 'c eng \<Rightarrow> 'c eng" where
  "hist_add lin e = (let bs = map (\<lambda>i. peek_lin (g_cmp e) (lin + word_of_nat i)) [0..<8]
     in e\<lparr>g_hist := (g_hist e)[hist_slot (ninsn (g_cmp e)) := bs], g_cmp := (g_cmp e)\<lparr>cur_fpu := esc_of bs\<rparr>\<rparr>)"

definition x87_frozen :: "'c core \<Rightarrow> insn_t \<Rightarrow> 'c eng \<Rightarrow> bool \<times> 'c eng" where
  "x87_frozen core d e =
     (let sum = x_fpu_summary core (g_cpu e); e1 = (if sum then e else e\<lparr>g_cmp := (g_cmp e)\<lparr>ignne := False\<rparr>\<rparr>)
      in (g_fpu_present e1 \<and> sum \<and> \<not> bit (cr0 (g_cmp e1)) 5 \<and> \<not> ignne (g_cmp e1) \<and> \<not> bit (cr0 (g_cmp e1)) 2 \<and> x87_waits d, e1))"

definition begin_step :: "cmp \<Rightarrow> cmp" where
  "begin_step s = (drop_step (mem_log_reset s))\<lparr>c_stall := False, partial_w := [], split_probe := None\<rparr>"

text \<open>The address-size prefix of a repeated string, found by the scan before the execution.\<close>

fun a32_scan :: "(u32 \<Rightarrow> u8) \<Rightarrow> u32 \<Rightarrow> u32 \<Rightarrow> bool \<Rightarrow> nat \<Rightarrow> nat \<Rightarrow> bool \<Rightarrow> bool" where
  "a32_scan rd cs pc use32 0 i a = a"
| "a32_scan rd cs pc use32 (Suc n) i a =
     (let b = rd (cs + ((pc + word_of_nat i) AND (if use32 then 0xFFFFFFFF else 0xFFFF))) in
      if b = 0x67 then a32_scan rd cs pc use32 n (i + 1) True
      else if is_prefix b then a32_scan rd cs pc use32 n (i + 1) a
      else a)"

section \<open>Executing\<close>

text \<open>A count register of the width the address size gives.\<close>

definition count_of :: "bool \<Rightarrow> u32 \<Rightarrow> u32" where
  "count_of ecx_count w = (if ecx_count then w else w AND 0xFFFF)"

partial_function (option) rep_loop ::
    "'c core \<Rightarrow> u32 \<Rightarrow> bool \<Rightarrow> u32 \<Rightarrow> bool \<times> 'c \<times> cmp \<Rightarrow> (bool \<times> 'c \<times> cmp) option" where
  "rep_loop core stop ecx_count pre_pc st =
     (let (f, c, s) = st in
      if count_of ecx_count (x_ecx core c) \<le> stop \<or> c_stall s then Some (f, c, s)
      else let (f', c', s') = x_exec_one core (c, s) in
        if x_pc core c' \<noteq> pre_pc then Some (f', c', s') else rep_loop core stop ecx_count pre_pc (f', c', s'))"

partial_function (option) chunk_loop ::
    "'c core \<Rightarrow> bool \<Rightarrow> u32 \<Rightarrow> bool \<times> 'c \<times> cmp \<Rightarrow> (bool \<times> 'c \<times> cmp) option" where
  "chunk_loop core rep_string pre_pc st =
     (let (f, c, s) = st in
      if \<not> f \<and> \<not> c_stall s \<and> rep_string \<and> x_pc core c = pre_pc
      then chunk_loop core rep_string pre_pc (x_exec_one core (c, s))
      else Some (f, c, s))"

text \<open>\<open>rep_left\<close> is \<open>None\<close> where the code passes -1. The second flag says that ENTER's stack probe faulted.\<close>

definition execute :: "'c core \<Rightarrow> u8 \<Rightarrow> insn_t \<Rightarrow> bool \<Rightarrow> bool \<Rightarrow> u32 option \<Rightarrow> 'c \<Rightarrow> cmp \<Rightarrow> (bool \<times> bool \<times> 'c \<times> cmp) option" where
  "execute core op d rep_string ecx_count rep_left c s =
     (let pre_pc = x_pc core c in
      case rep_left of
        Some stop \<Rightarrow>
          (case rep_loop core (count_of ecx_count stop) ecx_count pre_pc (False, x_set_trap core True c, s) of
             None \<Rightarrow> None
           | Some (f, c', s') \<Rightarrow> Some (f, False, x_set_trap core (x_trap core c) c', s'))
      | None \<Rightarrow>
          if op = 0xC8 then
            let (f, c', s') = x_exec_one core (c, s);
                s'' = (if f then s' else iss_probe (x_stack_top core c') (if d_op32 d then 4 else 2) True s');
                w = (\<not> f \<and> abrt s'' \<noteq> Fault_none)
            in Some (f \<or> w, w, c', s'')
          else map_option (\<lambda>(f, c', s'). (f, False, c', s')) (chunk_loop core rep_string pre_pc (x_exec_one core (c, s))))"

text \<open>\<open>snap_restore\<close>: everything of the processor, the part held in the engine's state included.\<close>

definition snap_restore :: "cmp \<Rightarrow> cmp \<Rightarrow> cmp" where
  "snap_restore s0 s = s\<lparr>cr0 := cr0 s0, cr2 := cr2 s0, cr3 := cr3 s0, cpl := cpl s0, cpl_override := cpl_override s0,
     abrt := abrt s0, abrt_error := abrt_error s0\<rparr>"

section \<open>After the instruction\<close>

text \<open>A store outside the undo log: through the write hook, then to RAM unless the hook keeps it.\<close>

definition direct_store :: "u32 \<Rightarrow> u8 \<Rightarrow> cmp \<Rightarrow> cmp" where
  "direct_store pa b s = (let (hooked, s1) = wr_hook pa b s in if hooked then s1 else put_ram pa b s1)"

fun split_stores :: "bool \<Rightarrow> u32 \<Rightarrow> nat \<Rightarrow> bytes \<Rightarrow> cmp \<Rightarrow> cmp" where
  "split_stores rep_string lin i [] s = s"
| "split_stores rep_string lin i (b # bs) s =
     (let pa = fst (walk (lin + word_of_nat i) True True s) in
      if pa = 0xFFFFFFFF then s
      else split_stores rep_string lin (i + 1) bs
        (if rep_string then direct_store pa b s
         else if length (partial_w s) < 4 then s\<lparr>partial_w := partial_w s @ [(pa, b)]\<rparr> else s))"

definition split_string_store :: "'c core \<Rightarrow> u8 \<Rightarrow> bool \<Rightarrow> bool \<Rightarrow> 'c \<Rightarrow> cmp \<Rightarrow> cmp" where
  "split_string_store core op a32 rep_string c s =
     (case split_probe s of
        None \<Rightarrow> s
      | Some (lin, n) \<Rightarrow>
          let data = (if op = 0xAB then map (byte_at (x_eax core c)) [0..<4]
                else map (\<lambda>i. peek_lin s (x_string_src core a32 c + word_of_nat i)) [0..<4])
          in split_stores rep_string lin 0 (take n data) s)"

text \<open>The state in which a fault is delivered: all but the marked traces of the instruction is gone.\<close>

definition fault_state :: "'c core \<Rightarrow> u8 \<Rightarrow> insn_t \<Rightarrow> bool \<Rightarrow> bool \<Rightarrow> 'c \<Rightarrow> cmp \<Rightarrow> 'c \<Rightarrow> cmp \<Rightarrow> 'c \<times> cmp" where
  "fault_state core op d rep_string enter_cw c0 s0 c s =
     (let s1 = (if abrt s = Fault_pf \<and> split_probe s \<noteq> None \<and> (op = 0xA5 \<or> op = 0xAB)
                then split_string_store core op (d_a32 d) rep_string c s else s)
      in if rep_string then (c, s1)
         else let s2 = (if enter_cw then s1 else undo_ram s1);
                  s3 = (snap_restore s0 s2)\<lparr>cr2 := cr2 s, abrt_error := abrt_error s\<rparr>;
                  s4 = (if enter_cw then s3 else s3\<lparr>stage_w := q_reset (stage_w s3)\<rparr>);
                  s5 = s4\<lparr>stage_io := q_reset (stage_io s4)\<rparr>
              in (c0, fold (\<lambda>(pa, b). direct_store pa b) (partial_w s5) s5))"

definition deliver_fault :: "'c core \<Rightarrow> fault \<Rightarrow> 'c \<times> cmp \<Rightarrow> 'c \<times> cmp" where
  "deliver_fault core vec st =
     (let (c, s) = st;
          (c1, s1) = x_doabrt core vec (if vec \<noteq> Fault_other 1 then x_set_rf core True c else c, s\<lparr>abrt := Fault_none\<rparr>)
      in (x_set_rf core False c1, s1))"

definition zero_shift_writes :: "'c core \<Rightarrow> insn_t \<Rightarrow> u32 \<Rightarrow> u32 \<Rightarrow> 'c \<Rightarrow> cmp \<Rightarrow> cmp" where
  "zero_shift_writes core d imm_last pre_ecx c s =
     (let op = d_op d in
      if (op = 0xC0 \<or> op = 0xC1 \<or> op = 0xD2 \<or> op = 0xD3) \<and> d_mod d \<noteq> 3 \<and> (if op \<le> 0xC1 then imm_last else pre_ecx) AND 31 = 0
      then let n = (if bit op 0 then if d_op32 d then 4 else 2 else 1) in
        fold (\<lambda>i s. let pa = fst (walk (x_ea core c + word_of_nat i) True True s)
              in if pa \<noteq> 0xFFFFFFFF \<and> in_ram s pa then snd (wr_hook pa (ram_at s pa) s) else s) [0..<n] s
      else s)"

definition finish_insn :: "'c core \<Rightarrow> u8 \<Rightarrow> insn_t \<Rightarrow> u32 \<Rightarrow> 'c eng \<Rightarrow> 'c eng" where
  "finish_insn core op d pre_ecx e =
     (let c = (if op \<noteq> 0xCF \<and> op \<noteq> 0x9D then x_set_rf core False (g_cpu e) else g_cpu e);
          imm_last = ucast (peek_lin (g_cmp e) (x_cs core c + x_pc core c - 1));
          f = flag_effect d pre_ecx imm_last (x_flags core c AND F_Z \<noteq> 0);
          s = zero_shift_writes core d imm_last pre_ecx c (g_cmp e);
          logic = is_logic_op d;
          c' = (if logic then x_set_flags core (x_flags core c AND NOT F_A) c else c);
          f' = (if logic then f\<lparr>fx_ud := fx_ud f AND NOT F_A\<rparr> else f)
      in e\<lparr>g_cpu := c', g_cmp := s, g_udf := udf_step (g_udf e) f'\<rparr>)"

definition bump :: "cmp \<Rightarrow> cmp" where
  "bump s = s\<lparr>ninsn := ninsn s + 1\<rparr>"

definition commit :: "'c eng \<Rightarrow> (cosim_result \<times> 'c eng) option" where
  "commit e = map_option (\<lambda>(r, s). (r, e\<lparr>g_cmp := s\<rparr>)) (commit_writes (bump (g_cmp e)))"

definition drop_reads :: "cmp \<Rightarrow> cmp" where
  "drop_reads s = s\<lparr>dev_rd := (dev_rd s)\<lparr>q_head := q_tail (dev_rd s)\<rparr>, io_rd := (io_rd s)\<lparr>q_head := q_tail (io_rd s)\<rparr>\<rparr>"

definition basic_x87 :: "u8 \<Rightarrow> insn_t \<Rightarrow> bool" where
  "basic_x87 op d \<longleftrightarrow> op = 0xD8 \<or> op = 0xDC \<or> op = 0xDE \<or> op = 0xDA \<and> d_mod d \<noteq> 3 \<or>
     op = 0xD9 \<and> d_mod d = 3 \<and> d_reg d = 7 \<and> d_rm d = 2"

definition set_cpu :: "'c eng \<Rightarrow> 'c \<times> cmp \<Rightarrow> 'c eng" where
  "set_cpu e st = e\<lparr>g_cpu := fst st, g_cmp := snd st\<rparr>"

text \<open>What \<open>run\<close> does once the instruction has executed; \<open>e0\<close> is the state before it.\<close>

definition after_exec :: "'c core \<Rightarrow> u8 \<Rightarrow> insn_t \<Rightarrow> bool \<Rightarrow> bool \<Rightarrow> bool \<Rightarrow> 'c eng \<Rightarrow> 'c eng \<Rightarrow> (cosim_result \<times> 'c eng) option" where
  "after_exec core op d rep_string enter_cw faulted e0 e =
     (let s = g_cmp e; c0 = g_cpu e0; pre_pc = x_pc core c0 in
      if c_stall s
      then Some (COSIM_STALL, e\<lparr>g_cpu := c0, g_cmp := drop_step (snap_restore (g_cmp e0) (undo_ram s))\<rparr>)
      else if faulted then
        let vec = abrt s;
            (c1, s1) = deliver_fault core vec (fault_state core op d rep_string enter_cw c0 (g_cmp e0) (g_cpu e) s)
        in if abrt s1 \<noteq> Fault_none
           then Some (COSIM_ERROR, set_cpu e (c1, fail_with (FaultNotDelivered (uint (x_pc core c0)) 0) s1))
           else let e1 = (set_cpu e (c1, s1))\<lparr>g_last_fault := Some vec, g_udf := g_udf e0\<rparr>
                in map_option (\<lambda>(r, e2). (r, e2\<lparr>g_cmp := drop_reads (g_cmp e2)\<rparr>)) (commit e1)
      else
        let e1 = (if op = 0xF4 then e\<lparr>g_cpu := x_set_pc core (pre_pc + 1) (g_cpu e), g_was_hlt := True\<rparr> else e)
        in commit (finish_insn core op d (x_ecx core c0) e1))"

text \<open>\<open>run\<close>; no result when decoding or a string loop does not end.\<close>

definition run :: "'c core \<Rightarrow> u32 option \<Rightarrow> 'c eng \<Rightarrow> (cosim_result \<times> 'c eng) option" where
  "run core rep_left e =
     (if c_err (g_cmp e) \<noteq> None then Some (COSIM_ERROR, e)
      else
        let e0 = e\<lparr>g_cmp := begin_step (g_cmp e), g_last_fault := None, g_was_hlt := False\<rparr>;
            c = g_cpu e0; rd = peek_lin (g_cmp e0); cs = x_cs core c; pre_pc = x_pc core c;
            (op, rep) = peek_opcode rd cs pre_pc (x_use32 core c);
            rep_string = (rep \<and> is_string_op op)
        in case decode_with rd (cs + pre_pc) (x_use32 core c) of
             None \<Rightarrow> None
           | Some d \<Rightarrow>
               let e1 = hist_add (cs + pre_pc) e0; (frozen, e2) = x87_frozen core d e1 in
               if frozen then commit e2
               else
                 let a32 = (rep_string \<and> a32_scan rd cs pre_pc (x_use32 core c) 15 0 False);
                     ecx_count = (x_use32 core c \<noteq> a32);
                     left = (if rep_string then rep_left else None);
                     left' = (case left of Some n \<Rightarrow> if count_of ecx_count n = 0 then None else Some n | None \<Rightarrow> None);
                     cw = x_cwd core c;
                     cap = (g_x87_pc53 e2 \<and> basic_x87 op d \<and> cw AND 0x300 \<noteq> 0);
                     c1 = (if cap then x_set_cwd core ((cw AND NOT 0x300) OR 0x200) c else c)
                 in case execute core op d rep_string ecx_count left' c1 ((g_cmp e2)\<lparr>abrt := Fault_none\<rparr>) of
                      None \<Rightarrow> None
                    | Some (faulted, enter_cw, c2, s2) \<Rightarrow>
                        after_exec core op d rep_string enter_cw faulted e2
                          (set_cpu e2 (if cap then x_set_cwd core cw c2 else c2, s2)))"

definition c86_step :: "'c core \<Rightarrow> 'c eng \<Rightarrow> (cosim_result \<times> 'c eng) option" where
  "c86_step core e = run core None e"

definition c86_step_rep_to :: "'c core \<Rightarrow> u32 \<Rightarrow> 'c eng \<Rightarrow> (cosim_result \<times> 'c eng) option" where
  "c86_step_rep_to core count_left e = run core (Some count_left) e"

definition c86_interrupt :: "'c core \<Rightarrow> int \<Rightarrow> 'c eng \<Rightarrow> (cosim_result \<times> 'c eng) option" where
  "c86_interrupt core vector e =
     (let s0 = (g_cmp e)\<lparr>cur_fpu := False\<rparr> in
      if c_err s0 \<noteq> None then Some (COSIM_ERROR, e\<lparr>g_cmp := s0\<rparr>)
      else let s1 = (drop_reads (drop_step (mem_log_reset s0)))\<lparr>abrt := Fault_none\<rparr>;
               (c, s2) = x_interrupt core vector (g_cpu e, s1);
               e1 = set_cpu e (c, s2)
           in if abrt s2 \<noteq> Fault_none then Some (COSIM_ERROR, e1\<lparr>g_cmp := fail_with (InterruptNotDelivered vector 0) s2\<rparr>)
              else commit e1)"

definition c86_adopt_flags :: "'c core \<Rightarrow> u32 \<Rightarrow> 'c eng \<Rightarrow> 'c eng" where
  "c86_adopt_flags core dut_eflags e =
     (let (fl, udf) = adopt_flags dut_eflags (x_flags core (g_cpu e)) (g_udf e)
      in e\<lparr>g_cpu := (if adopt_mask (g_udf e) = 0 then g_cpu e else x_set_flags core fl (g_cpu e)), g_udf := udf\<rparr>)"

text \<open>\<open>cosim_snapshot_ok\<close>: nothing outstanding, and the last instruction masks no interrupt.\<close>

fun no_shadow :: "bytes \<Rightarrow> bool" where
  "no_shadow [] = False"
| "no_shadow (b # bs) =
     (if is_prefix b then no_shadow bs
      else if b = 0xFB \<or> b = 0x17 then False
      else if b = 0x8E then (case bs of [] \<Rightarrow> False | m # _ \<Rightarrow> drop_bit 3 m AND 7 \<noteq> 2)
      else True)"

definition c86_snapshot_ok :: "'c eng \<Rightarrow> bool \<times> 'c eng" where
  "c86_snapshot_ok e =
     (let s = advance_exp (g_cmp e); e1 = e\<lparr>g_cmp := s\<rparr>
      in (q_empty (exp_w s) \<and> q_empty (exp_io s) \<and> q_empty (dut_w s) \<and> q_empty (dut_io s) \<and> q_empty (stage_w s) \<and>
          q_empty (stage_io s) \<and> \<not> g_was_hlt e \<and> ninsn s \<noteq> 0 \<and> no_shadow (g_hist e ! hist_slot (ninsn s - 1)), e1))"

section \<open>A stalled step leaves no trace\<close>

text \<open>
  What the interpreter can do to the engine while it executes: call the hooks, and change the
  processor registers the page walk reads.
\<close>

inductive hook_step :: "cmp \<Rightarrow> cmp \<Rightarrow> bool" where
  store: "hook_step s (store_byte pa b s)"
| device: "hook_step s (snd (rd_hook pa s))"
| port_in: "hook_step s (snd (io_in port n s))"
| port_out: "hook_step s (io_out pending port n v s)"
| translate: "hook_step s (snd (walk a wr False s))"
| probe: "hook_step s (iss_probe a n wr s)"
| partial: "hook_step s (s\<lparr>partial_w := ws\<rparr>)"
| registers: "hook_step s (s\<lparr>cr0 := r0, cr2 := r2, cr3 := r3, cpl := p, cpl_override := ov, fetching := fe, abrt := ab,
    abrt_error := er\<rparr>)"

abbreviation hook_steps :: "cmp \<Rightarrow> cmp \<Rightarrow> bool" where
  "hook_steps \<equiv> hook_step\<^sup>*\<^sup>*"

text \<open>The queues and counters such a step cannot touch.\<close>

definition same_queues :: "cmp \<Rightarrow> cmp \<Rightarrow> bool" where
  "same_queues s t \<longleftrightarrow> io_rd t = io_rd s \<and> dev_rd t = dev_rd s \<and> exp_w t = exp_w s \<and> dut_w t = dut_w s \<and>
     exp_io t = exp_io s \<and> dut_io t = dut_io s \<and> ninsn t = ninsn s \<and> rammask t = rammask s \<and> ram_bytes t = ram_bytes s \<and>
     a20_on t = a20_on s"

definition step_keeps :: "cmp \<Rightarrow> cmp \<Rightarrow> bool" where
  "step_keeps s t \<longleftrightarrow> same_queues s t \<and> length (mem_log s) \<le> length (mem_log t) \<and>
     (length (mem_log t) < MAX_MEM_LOG \<longrightarrow> c_ram (undo_ram t) = c_ram (undo_ram s))"

lemma step_keeps_refl [simp]: "step_keeps s s"
  by (simp add: step_keeps_def same_queues_def)

lemma step_keeps_trans: "step_keeps s t \<Longrightarrow> step_keeps t u \<Longrightarrow> step_keeps s u"
  by (auto simp: step_keeps_def same_queues_def)

lemma step_keeps_frame:
  "same_queues s t \<Longrightarrow> mem_log t = mem_log s \<Longrightarrow> c_ram t = c_ram s \<Longrightarrow> step_keeps s t"
  by (simp add: step_keeps_def undo_ram_log) (simp add: same_queues_def)

lemma fail_frames [simp]: "same_queues s (fail_with e t) = same_queues s t" "mem_log (fail_with e t) = mem_log t"
  by (simp_all add: same_queues_def fail_with_def)

lemma same_queues_refl [simp]: "same_queues s s"
  by (simp add: same_queues_def)

lemma rd_hook_keeps: "step_keeps s (snd (rd_hook pa s))"
  by (rule step_keeps_frame) (simp_all add: rd_hook_def Let_def same_queues_def fail_with_def)

lemma io_in_keeps: "step_keeps s (snd (io_in_from n b port v s))"
proof (induction n b port v s rule: io_in_from.induct)
  case (2 n b port val s)
  let ?e = "q_v (io_rd s) ! (q_head (io_rd s) + io_cur s)"
  let ?p = "port + word_of_nat b :: u16"
  let ?s1 = "if e_addr ?e \<noteq> ucast ?p then fail_with (IoRead ?p (e_addr ?e)) s else s"
  have k: "step_keeps s (?s1\<lparr>io_cur := io_cur ?s1 + 1\<rparr>)" "step_keeps s (s\<lparr>c_stall := True\<rparr>)"
    by (rule step_keeps_frame; simp add: same_queues_def fail_with_def)+
  show ?case
    using 2 step_keeps_trans [OF k(1)] k(2) by (simp add: Let_def)
qed simp

lemma walk_keeps: "step_keeps s (snd (walk a wr pr s))"
  using walk_or_fault [of a wr pr s]
  by (auto simp: page_fault_def intro!: step_keeps_frame) (simp_all add: same_queues_def)

lemma probe_keeps: "step_keeps s (iss_probe_from n i lin wr s)"
proof (induction n i lin wr s rule: iss_probe_from.induct)
  case (2 n i lin wr s)
  let ?a = "lin + word_of_nat i"
  let ?t = "snd (walk ?a wr False s)"
  let ?u = "if abrt ?t \<noteq> Fault_none \<and> wr \<and> 0 < i \<and> ?a AND 0xFFF = 0 then ?t\<lparr>split_probe := Some (lin, i)\<rparr> else ?t"
  have "step_keeps ?t ?u"
    by (rule step_keeps_frame) (simp_all add: same_queues_def)
  then have "step_keeps s ?u"
    using step_keeps_trans walk_keeps by blast
  then show ?case
    using 2 step_keeps_trans by (simp add: Let_def)
qed simp

lemma hook_step_keeps: "hook_step s t \<Longrightarrow> step_keeps s t"
proof (induction rule: hook_step.induct)
  case (store s pa b)
  then show ?case
    using undo_store_byte [of s pa b]
    by (auto simp: step_keeps_def same_queues_def store_byte_eq logged_def)
next
  case (port_out s pending port n v)
  then show ?case
    using io_out_frames [of pending port n v s] by (auto intro!: step_keeps_frame) (simp_all add: same_queues_def)
qed (simp_all add: rd_hook_keeps io_in_keeps io_in_def walk_keeps iss_probe_def probe_keeps,
     (rule step_keeps_frame; simp add: same_queues_def)+)

lemma hook_steps_keep: "hook_steps s t \<Longrightarrow> step_keeps s t"
  by (induction rule: rtranclp_induct) (auto intro: step_keeps_trans hook_step_keeps)

text \<open>The interpreter acts on the engine through the hooks only.\<close>

definition hooks_only :: "'c core \<Rightarrow> bool" where
  "hooks_only core \<longleftrightarrow> (\<forall>c s. hook_steps s (snd (snd (x_exec_one core (c, s)))))"

lemma exec_keeps: "hooks_only core \<Longrightarrow> x_exec_one core (c, s) = (f, c', s') \<Longrightarrow> step_keeps s s'"
  using hook_steps_keep by (metis hooks_only_def snd_conv)

definition keeps3 :: "'c core \<Rightarrow> 'c core \<Rightarrow> bool \<times> 'c \<times> cmp \<Rightarrow> bool \<times> 'c \<times> cmp \<Rightarrow> bool" where
  "keeps3 core core' st r \<longleftrightarrow> core' = core \<longrightarrow> step_keeps (snd (snd st)) (snd (snd r))"

lemma rep_loop_keeps:
  assumes h: "hooks_only core" and r: "rep_loop core stop ec pc (f, c, s) = Some (f', c', s')"
  shows "step_keeps s s'"
proof -
  have "keeps3 core core (f, c, s) (f', c', s')"
  proof (rule rep_loop.raw_induct [OF _ r, of "\<lambda>core' stop ec pc st r. keeps3 core core' st r"])
    fix loop core' stop ec pc st r
    assume ih: "\<And>core' stop ec pc st r. loop core' stop ec pc st = Some r \<Longrightarrow> keeps3 core core' st r"
      and eq: "(let (f, c, s) = st in
        if count_of ec (x_ecx core' c) \<le> stop \<or> c_stall s then Some (f, c, s)
        else let (f', c', s') = x_exec_one core' (c, s) in
          if x_pc core' c' \<noteq> pc then Some (f', c', s') else loop core' stop ec pc (f', c', s')) = Some r"
    obtain f c s where st: "st = (f, c, s)"
      by (cases st)
    obtain g d t where ex: "x_exec_one core' (c, s) = (g, d, t)"
      by (cases "x_exec_one core' (c, s)")
    show "keeps3 core core' st r"
      unfolding keeps3_def
    proof
      assume c: "core' = core"
      have ex': "x_exec_one core (c, s) = (g, d, t)"
        using ex by (simp only: c)
      have k: "step_keeps s t"
        by (rule exec_keeps [OF h ex'])
      show "step_keeps (snd (snd st)) (snd (snd r))"
        using eq ih [of core' stop ec pc "(g, d, t)" r] k unfolding st c
        by (auto simp: ex' keeps3_def split: if_splits intro: step_keeps_trans)
    qed
  qed
  then show ?thesis
    by (simp add: keeps3_def)
qed

lemma chunk_loop_keeps:
  assumes h: "hooks_only core" and r: "chunk_loop core rs pc (f, c, s) = Some (f', c', s')"
  shows "step_keeps s s'"
proof -
  have "keeps3 core core (f, c, s) (f', c', s')"
  proof (rule chunk_loop.raw_induct [OF _ r, of "\<lambda>core' rs pc st r. keeps3 core core' st r"])
    fix loop core' rs pc st r
    assume ih: "\<And>core' rs pc st r. loop core' rs pc st = Some r \<Longrightarrow> keeps3 core core' st r"
      and eq: "(let (f, c, s) = st in
        if \<not> f \<and> \<not> c_stall s \<and> rs \<and> x_pc core' c = pc then loop core' rs pc (x_exec_one core' (c, s))
        else Some (f, c, s)) = Some r"
    obtain f c s where st: "st = (f, c, s)"
      by (cases st)
    obtain g d t where ex: "x_exec_one core' (c, s) = (g, d, t)"
      by (cases "x_exec_one core' (c, s)")
    show "keeps3 core core' st r"
      unfolding keeps3_def
    proof
      assume c: "core' = core"
      have ex': "x_exec_one core (c, s) = (g, d, t)"
        using ex by (simp only: c)
      have k: "step_keeps s t"
        by (rule exec_keeps [OF h ex'])
      show "step_keeps (snd (snd st)) (snd (snd r))"
        using eq ih [of core' rs pc "(g, d, t)" r] k unfolding st c
        by (auto simp: ex' keeps3_def split: if_splits intro: step_keeps_trans)
    qed
  qed
  then show ?thesis
    by (simp add: keeps3_def)
qed

lemma execute_keeps:
  assumes h: "hooks_only core" and r: "execute core op d rs ec left c s = Some (f, w, c', s')"
  shows "step_keeps s s'"
proof (cases left)
  case (Some stop)
  then show ?thesis
    using r rep_loop_keeps [OF h] by (auto simp: execute_def Let_def split: option.splits prod.splits)
next
  case None
  obtain g d1 t where ex: "x_exec_one core (c, s) = (g, d1, t)"
    by (cases "x_exec_one core (c, s)")
  note k = exec_keeps [OF h ex]
  show ?thesis
  proof (cases "op = 0xC8")
    case True
    then show ?thesis
      using r None ex k step_keeps_trans [OF k probe_keeps] by (auto simp: execute_def Let_def iss_probe_def split: if_splits)
  next
    case False
    then show ?thesis
      using r None ex step_keeps_trans [OF k chunk_loop_keeps [OF h]] by (auto simp: execute_def Let_def)
  qed
qed

lemma x87_frozen_frames: "g_cpu (snd (x87_frozen core d e)) = g_cpu e"
  "g_udf (snd (x87_frozen core d e)) = g_udf e" "\<exists>i. g_cmp (snd (x87_frozen core d e)) = (g_cmp e)\<lparr>ignne := i\<rparr>"
  by (auto simp: x87_frozen_def Let_def intro: exI [of _ "ignne (g_cmp e)"])

lemma commit_no_stall: "commit e = Some (r, e') \<Longrightarrow> r \<noteq> COSIM_STALL"
  by (auto simp: commit_def commit_writes_def Let_def split: option.splits if_splits)

lemma after_exec_stall:
  assumes "after_exec core op d rs w f e0 e = Some (COSIM_STALL, e')"
  shows "e' = e\<lparr>g_cpu := g_cpu e0, g_cmp := drop_step (snap_restore (g_cmp e0) (undo_ram (g_cmp e)))\<rparr>"
proof (cases "c_stall (g_cmp e)")
  case True
  then show ?thesis
    using assms by (simp add: after_exec_def Let_def)
next
  case False
  then show ?thesis
    using assms commit_no_stall by (auto simp: after_exec_def Let_def split: if_splits prod.splits)
qed

lemma run_stall_parts:
  assumes r: "run core rep_left e = Some (COSIM_STALL, e')"
  obtains d op rs ec left c1 f w c2 s2 e2 c3 lin where
    "e2 = snd (x87_frozen core d (hist_add lin (e\<lparr>g_cmp := begin_step (g_cmp e), g_last_fault := None, g_was_hlt := False\<rparr>)))"
    "execute core op d rs ec left c1 ((g_cmp e2)\<lparr>abrt := Fault_none\<rparr>) = Some (f, w, c2, s2)"
    "after_exec core op d rs w f e2 (set_cpu e2 (c3, s2)) = Some (COSIM_STALL, e')"
  using r commit_no_stall unfolding run_def Let_def
  by (auto split: if_splits option.splits prod.splits) (metis snd_conv)+

lemma hist_add_frames: "g_cpu (hist_add lin e) = g_cpu e" "g_udf (hist_add lin e) = g_udf e" "g_last_fault (hist_add lin e) = g_last_fault e"
  "\<exists>b. g_cmp (hist_add lin e) = (g_cmp e)\<lparr>cur_fpu := b\<rparr>"
  by (auto simp: hist_add_def Let_def)

text \<open>What a step that stalls hands back, besides the error text and the device byte read last.\<close>

definition rolled_back :: "'c eng \<Rightarrow> 'c eng \<Rightarrow> bool" where
  "rolled_back e e' \<longleftrightarrow> g_cpu e' = g_cpu e \<and> g_udf e' = g_udf e \<and>
     c_ram (g_cmp e') = c_ram (g_cmp e) \<and> same_queues (g_cmp e) (g_cmp e') \<and>
     cr0 (g_cmp e') = cr0 (g_cmp e) \<and> cr2 (g_cmp e') = cr2 (g_cmp e) \<and> cr3 (g_cmp e') = cr3 (g_cmp e) \<and>
     cpl (g_cmp e') = cpl (g_cmp e) \<and> abrt (g_cmp e') = abrt (g_cmp e) \<and>
     io_cur (g_cmp e') = 0 \<and> dev_cur (g_cmp e') = 0 \<and> q_empty (stage_w (g_cmp e')) \<and> q_empty (stage_io (g_cmp e'))"

lemma put_ram_frame: "\<exists>r. put_ram a v s = s\<lparr>c_ram := r\<rparr>"
  by (auto simp: put_ram_def)

lemma fold_put_frame: "\<exists>r. fold (\<lambda>(a, ov, nv) t. put_ram a ov t) lg s = s\<lparr>c_ram := r\<rparr>"
proof (induction lg arbitrary: s)
  case Nil
  show ?case
    by (rule exI [of _ "c_ram s"]) simp
next
  case (Cons x xs)
  obtain a ov nv where x: "x = (a, ov, nv)"
    by (cases x)
  obtain r where r: "put_ram a ov s = s\<lparr>c_ram := r\<rparr>"
    using put_ram_frame by blast
  obtain r' where "fold (\<lambda>(a, ov, nv) t. put_ram a ov t) xs (s\<lparr>c_ram := r\<rparr>) = s\<lparr>c_ram := r, c_ram := r'\<rparr>"
    using Cons.IH by blast
  then show ?case
    by (auto simp: x r)
qed

lemma undo_ram_frame: "\<exists>r. undo_ram s = s\<lparr>c_ram := r\<rparr>"
  unfolding undo_ram_def by (rule fold_put_frame)

lemma undo_ram_mem_log [simp]: "mem_log (undo_ram s) = mem_log s"
  using undo_ram_frame [of s] by auto

lemma stall_keeps:
  assumes k: "step_keeps (b\<lparr>abrt := Fault_none\<rparr>) s2" and b: "b = (begin_step s)\<lparr>cur_fpu := fp, ignne := ig\<rparr>"
    and t: "t = drop_step (snap_restore b (undo_ram s2))" and few: "length (mem_log t) < MAX_MEM_LOG"
  shows "c_ram t = c_ram s \<and> same_queues s t \<and> cr0 t = cr0 s \<and> cr2 t = cr2 s \<and> cr3 t = cr3 s \<and> cpl t = cpl s \<and>
    abrt t = abrt s \<and> io_cur t = 0 \<and> dev_cur t = 0 \<and> q_empty (stage_w t) \<and> q_empty (stage_io t)"
proof -
  obtain r where u: "undo_ram s2 = s2\<lparr>c_ram := r\<rparr>"
    using undo_ram_frame by blast
  have log: "mem_log t = mem_log s2"
    by (simp add: t u drop_step_def snap_restore_def)
  have z: "mem_log (b\<lparr>abrt := Fault_none\<rparr>) = []"
    by (simp add: b begin_step_def drop_step_def mem_log_reset_def)
  have "r = c_ram (undo_ram s2)"
    by (simp add: u)
  also have "\<dots> = c_ram (undo_ram (b\<lparr>abrt := Fault_none\<rparr>))"
    using k few log by (simp add: step_keeps_def)
  also have "\<dots> = c_ram s"
    using z by (simp add: undo_ram_def b begin_step_def drop_step_def mem_log_reset_def)
  finally have r: "r = c_ram s" .
  have q: "same_queues (b\<lparr>abrt := Fault_none\<rparr>) s2"
    using k by (simp add: step_keeps_def)
  show ?thesis
    using q by (simp add: t u r drop_step_def snap_restore_def b begin_step_def mem_log_reset_def same_queues_def
        q_empty_def q_reset_def)
qed

lemma stalled_run:
  assumes h: "hooks_only core" and r: "run core rep_left e = Some (COSIM_STALL, e')"
    and few: "length (mem_log (g_cmp e')) < MAX_MEM_LOG"
  shows "rolled_back e e'"
proof -
  obtain d op rs ec left c1 f w c2 s2 e2 c3 lin where
    e2: "e2 = snd (x87_frozen core d (hist_add lin (e\<lparr>g_cmp := begin_step (g_cmp e), g_last_fault := None, g_was_hlt := False\<rparr>)))"
    and ex: "execute core op d rs ec left c1 ((g_cmp e2)\<lparr>abrt := Fault_none\<rparr>) = Some (f, w, c2, s2)"
    and af: "after_exec core op d rs w f e2 (set_cpu e2 (c3, s2)) = Some (COSIM_STALL, e')"
    by (rule run_stall_parts [OF r])
  define ea where "ea = e\<lparr>g_cmp := begin_step (g_cmp e), g_last_fault := None, g_was_hlt := False\<rparr>"
  obtain fp where "g_cmp (hist_add lin ea) = (g_cmp ea)\<lparr>cur_fpu := fp\<rparr>"
    using hist_add_frames(4) [of lin ea] by (rule exE)
  moreover obtain ig where "g_cmp e2 = (g_cmp (hist_add lin ea))\<lparr>ignne := ig\<rparr>"
    using x87_frozen_frames(3) [of core d "hist_add lin ea"] unfolding e2 ea_def by (rule exE)
  ultimately have b: "g_cmp e2 = (begin_step (g_cmp e))\<lparr>cur_fpu := fp, ignne := ig\<rparr>"
    by (simp add: ea_def)
  have cpu: "g_cpu e2 = g_cpu e" "g_udf e2 = g_udf e"
    by (simp_all add: e2 x87_frozen_frames(1, 2) hist_add_frames(1, 2))
  have e': "e' = (set_cpu e2 (c3, s2))\<lparr>g_cpu := g_cpu e2, g_cmp := drop_step (snap_restore (g_cmp e2) (undo_ram s2))\<rparr>"
    using after_exec_stall [OF af] by (simp add: set_cpu_def)
  have t: "g_cmp e' = drop_step (snap_restore (g_cmp e2) (undo_ram s2))"
    by (simp add: e')
  have g: "g_cpu e' = g_cpu e" "g_udf e' = g_udf e"
    by (simp_all add: e' cpu set_cpu_def)
  show ?thesis
    using stall_keeps [OF execute_keeps [OF h ex] b t few] by (simp add: rolled_back_def g)
qed


text \<open>IN AL, DX with no read data yet, in an interpreter that also stores a byte before it reads the port.\<close>

definition in_core :: "u32 core" where
  "in_core = \<lparr>x_exec_one = (\<lambda>(c, s). (False, c + 1, snd (io_in 0x60 1 (store_byte 0x1000 5 s)))), x_doabrt = (\<lambda>v st. st),
     x_interrupt = (\<lambda>v st. st), x_pc = (\<lambda>c. c), x_set_pc = (\<lambda>p c. p), x_cs = (\<lambda>c. 0), x_use32 = (\<lambda>c. True),
     x_ecx = (\<lambda>c. 0), x_eax = (\<lambda>c. 0), x_trap = (\<lambda>c. False), x_set_trap = (\<lambda>t c. c), x_flags = (\<lambda>c. 2),
     x_set_flags = (\<lambda>f c. c), x_set_rf = (\<lambda>b c. c), x_string_src = (\<lambda>a c. 0), x_ea = (\<lambda>c. 0), x_stack_top = (\<lambda>c. 0),
     x_cwd = (\<lambda>c. 0x37F), x_set_cwd = (\<lambda>w c. c), x_fpu_summary = (\<lambda>c. False)\<rparr>"

definition in_eng :: "u32 eng" where
  "in_eng = \<lparr>g_cpu = 0x100, g_cmp = sample_cmp\<lparr>c_ram := (\<lambda>_. 0xEC)\<rparr>, g_last_fault = None, g_was_hlt = False, g_udf = 0,
     g_x87_pc53 = False, g_fpu_present = True, g_hist = replicate HIST (replicate 8 0)\<rparr>"

lemma in_core_hooks: "hooks_only in_core"
proof -
  have "hook_steps s (snd (io_in 0x60 1 (store_byte 0x1000 5 s)))" for s
    by (meson hook_step.store hook_step.port_in rtranclp.rtrancl_into_rtrancl rtranclp.rtrancl_refl)
  then show ?thesis
    by (simp add: hooks_only_def in_core_def)
qed

lemma in_eng_bytes:
  assumes "bit (cr0 s) 31 = False" "a20_on s" "ram_bytes s = 0x1000000" "c_ram s = (\<lambda>_. 0xEC)" "a < 0x1000"
  shows "peek_lin s a = 0xEC"
proof -
  have "\<not> (0xFFFC0000 \<le> a)" "a \<noteq> 0xFFFFFFFF" "\<not> (0x1000000 \<le> a)"
    using assms(5) by (auto simp: word_less_nat_alt word_le_nat_alt)
  then show ?thesis
    using assms by (simp add: peek_lin_def walk_def platform_phys_def ram_at_def BIOS_ALIAS_def)
qed

lemma in_eng_stalls: "\<exists>e'. run in_core None in_eng = Some (COSIM_STALL, e') \<and> length (mem_log (g_cmp e')) < MAX_MEM_LOG"
proof -
  define b where "b = begin_step (g_cmp in_eng)"
  have bytes: "a < 0x1000 \<Longrightarrow> peek_lin b a = 0xEC" for a
    by (rule in_eng_bytes) (simp_all add: b_def begin_step_def drop_step_def mem_log_reset_def in_eng_def sample_cmp_def)
  have dec: "decode_with (peek_lin b) 0x100 True = Some (decode_fields (peek_lin b) 0x100 (insn_start True))"
    using bytes [of "0x100"] by (simp add: decode_with_def prefixes.simps insn_start_def is_prefix_def)
  have "15 = Suc 14"
    by simp
  then have op: "peek_opcode (peek_lin b) 0 0x100 True = (0xEC, False)"
    using bytes [of "0x100"] by (simp only: peek_opcode_def peek_from.simps) simp
  define m where "m = io_in 0x60 1 (store_byte 0x1000 5 (b\<lparr>cur_fpu := False, ignne := False, abrt := Fault_none\<rparr>))"
  have m: "c_stall (snd m)" "length (mem_log (snd m)) < MAX_MEM_LOG"
    by (simp_all add: m_def b_def in_eng_def sample_cmp_def sample_q_def io_in_def eval_defs begin_step_def mem_log_reset_def)
  have h: "g_cmp (hist_add 0x100 (in_eng\<lparr>g_cmp := b, g_last_fault := None, g_was_hlt := False\<rparr>)) = b\<lparr>cur_fpu := False\<rparr>"
    using bytes [of "0x100"] by (simp add: hist_add_def upt_rec is_prefix_def)
  let ?e0 = "in_eng\<lparr>g_cmp := b, g_last_fault := None, g_was_hlt := False\<rparr>"
  let ?e1 = "hist_add 0x100 ?e0"
  let ?e2 = "?e1\<lparr>g_cmp := (g_cmp ?e1)\<lparr>ignne := False\<rparr>\<rparr>"
  have fz: "x87_frozen in_core d (hist_add 0x100 ?e0) = (False, ?e2)" for d
    by (simp add: x87_frozen_def in_core_def)
  have cm: "g_cmp ?e2 = b\<lparr>cur_fpu := False, ignne := False\<rparr>" "g_cpu ?e2 = 0x100" "g_cpu ?e0 = 0x100" "g_x87_pc53 ?e2 = False"
    using h by (simp_all add: hist_add_def Let_def in_eng_def)
  have ex: "execute in_core 0xEC d False True None 0x100 (b\<lparr>cur_fpu := False, ignne := False, abrt := Fault_none\<rparr>) =
      Some (False, False, 0x101, snd m)" for d
    by (simp add: execute_def in_core_def m_def chunk_loop.simps [of _ False])
  have none: "c_err (g_cmp in_eng) = None"
    by (simp add: in_eng_def sample_cmp_def)
  have sel: "x_cs in_core c = 0" "x_pc in_core c = c" "x_use32 in_core c = True" for c
    by (simp_all add: in_core_def)
  have "run in_core None in_eng =
      after_exec in_core 0xEC (decode_fields (peek_lin b) 0x100 (insn_start True)) False False False ?e2 (set_cpu ?e2 (0x101, snd m))"
    by (simp add: run_def none Let_def sel cm dec op fz ex flip: b_def)
  then have "run in_core None in_eng = Some (COSIM_STALL, (set_cpu ?e2 (0x101, snd m))\<lparr>g_cpu := 0x100,
      g_cmp := drop_step (snap_restore (g_cmp ?e2) (undo_ram (snd m)))\<rparr>)"
    using m(1) by (simp add: after_exec_def set_cpu_def Let_def cm)
  then show ?thesis
    using m(2) by (simp add: drop_step_def snap_restore_def)
qed


text \<open>
  An interrupt counts as an instruction but adds no history entry: the next test for a checkpoint
  reads the slot an instruction 64 steps older left there.
\<close>

lemma interrupt_leaves_history: "c86_interrupt core vector e = Some (r, e') \<Longrightarrow> g_hist e' = g_hist e"
  by (auto simp: c86_interrupt_def commit_def set_cpu_def Let_def split: if_splits prod.splits)

end
