(* ===== verification/Cosim_Arch.thy ===== *)
theory Cosim_Arch
  imports Cosim_Run
begin

text \<open>
  The processor state the co-simulation engine shares with 86Box, and the address fetching \<open>iss_glue.h\<close> puts in the
  place of 86Box's own (\<open>fetch_ea_32\<close>, \<open>fetch_ea_16\<close> and the tables of \<open>init_mod1_tables\<close>), against the addressing
  modes of the processor. The operations that read code bytes are 86Box's and enter as arguments; the path where such a
  read faults (\<open>cpu_state.abrt\<close>) is not modelled.
\<close>

section \<open>The processor state the source names\<close>

text \<open>
  The globals of 86Box that \<open>cosim86.c\<close> and \<open>iss_glue.h\<close> read and set themselves. \<open>p_ea_seg\<close> is the register the
  pointer \<open>cpu_state.ea_seg\<close> designates; x87 registers are significand and sign with exponent.
\<close>

datatype segreg = ES | CS | SS | DS | FS | GS

record cpu86 =
  p_regs :: "u32 list"
  p_pc :: u32
  p_oldpc :: u32
  p_flags :: u16
  p_eflags :: u16
  p_segs :: "segreg \<Rightarrow> x86seg"
  p_gdt :: x86seg
  p_ldt :: x86seg
  p_idt :: x86seg
  p_tr :: x86seg
  p_cr4 :: u32
  p_dr :: "u32 list"
  p_use32 :: bool
  p_stack32 :: bool
  p_trap :: u32
  p_ssegs :: bool
  p_ea_seg :: segreg
  p_easeg :: u32
  p_eaaddr :: u32
  p_mod :: u8
  p_reg :: u8
  p_rm :: u8
  p_cwd :: u16
  p_swd :: u16
  p_tag :: u16
  p_tos :: u8
  p_st :: "(u64 \<times> u16) list"

definition reg :: "cpu86 \<Rightarrow> u8 \<Rightarrow> u32" where
  "reg c i = p_regs c ! unat i"

definition seg_base :: "cpu86 \<Rightarrow> segreg \<Rightarrow> u32" where
  "seg_base c r = sg_base (p_segs c r)"

section \<open>Effective addresses\<close>

text \<open>
  \<open>rd\<close> gives the byte of the instruction stream at a linear address; the fetching macros of 86Box read it at
  CS:pc and advance pc.
\<close>

definition code_byte :: "(u32 \<Rightarrow> u8) \<Rightarrow> cpu86 \<Rightarrow> nat \<Rightarrow> u8" where
  "code_byte rd c i = rd (seg_base c CS + p_pc c + word_of_nat i)"

definition code_word :: "(u32 \<Rightarrow> u8) \<Rightarrow> cpu86 \<Rightarrow> nat \<Rightarrow> u32" where
  "code_word rd c i = ucast (code_byte rd c i) OR push_bit 8 (ucast (code_byte rd c (i + 1)))"

definition code_long :: "(u32 \<Rightarrow> u8) \<Rightarrow> cpu86 \<Rightarrow> nat \<Rightarrow> u32" where
  "code_long rd c i = code_word rd c i OR push_bit 16 (code_word rd c (i + 2))"

definition advance :: "u32 \<Rightarrow> cpu86 \<Rightarrow> cpu86" where
  "advance n c = c\<lparr>p_pc := p_pc c + n\<rparr>"

text \<open>
  86Box's \<open>getbyte\<close>, \<open>getword\<close>, \<open>getlong\<close> and \<open>fastreadl\<close> are arguments. What the address fetching relies on is that they
  read the instruction stream at CS:pc, the first three moving pc past what they read.
\<close>

record fetchers =
  f_byte :: "cpu86 \<Rightarrow> u8 \<times> cpu86"
  f_word :: "cpu86 \<Rightarrow> u16 \<times> cpu86"
  f_long :: "cpu86 \<Rightarrow> u32 \<times> cpu86"
  f_readl :: "u32 \<Rightarrow> u32"

definition reads_code :: "(u32 \<Rightarrow> u8) \<Rightarrow> fetchers \<Rightarrow> bool" where
  "reads_code rd F \<longleftrightarrow> (\<forall>c. f_byte F c = (code_byte rd c 0, advance 1 c) \<and>
     f_word F c = (ucast (code_word rd c 0), advance 2 c) \<and> f_long F c = (code_long rd c 0, advance 4 c) \<and>
     f_readl F (seg_base c CS + p_pc c + 1) = code_long rd c 1)"

definition use_stack :: "cpu86 \<Rightarrow> cpu86" where
  "use_stack c = c\<lparr>p_easeg := seg_base c SS, p_ea_seg := SS\<rparr>"

definition sib_base :: "fetchers \<Rightarrow> u8 \<Rightarrow> cpu86 \<Rightarrow> cpu86" where
  "sib_base F sib c =
     (let b = reg c (sib AND 7)
      in if p_mod c = 0 then advance 1 (c\<lparr>p_eaaddr := b\<rparr>)
         else if p_mod c = 1 then (case f_byte F (advance 1 c) of (d, c') \<Rightarrow> c'\<lparr>p_eaaddr := scast d + b\<rparr>)
         else if p_mod c = 2 then advance 5 (c\<lparr>p_eaaddr := f_readl F (seg_base c CS + p_pc c + 1) + b\<rparr>)
         else c)"

definition sib_segment :: "fetchers \<Rightarrow> u8 \<Rightarrow> cpu86 \<Rightarrow> cpu86" where
  "sib_segment F sib c =
     (if sib AND 7 = 5 \<and> p_mod c = 0 then (case f_long F c of (d, c') \<Rightarrow> c'\<lparr>p_eaaddr := d\<rparr>)
      else if sib AND 6 = 4 \<and> \<not> p_ssegs c then use_stack c else c)"

definition sib_index :: "u8 \<Rightarrow> cpu86 \<Rightarrow> cpu86" where
  "sib_index sib c =
     (let i = drop_bit 3 sib AND 7
      in if i \<noteq> 4 then c\<lparr>p_eaaddr := p_eaaddr c + push_bit (unat (drop_bit 6 sib)) (reg c i)\<rparr> else c)"

definition fetch_sib :: "fetchers \<Rightarrow> u8 \<Rightarrow> cpu86 \<Rightarrow> cpu86" where
  "fetch_sib F sib c = sib_index sib (sib_segment F sib (sib_base F sib c))"

definition plain_disp :: "fetchers \<Rightarrow> u32 \<Rightarrow> cpu86 \<Rightarrow> cpu86" where
  "plain_disp F rmdat c =
     (if p_mod c = 1 then advance 1 (c\<lparr>p_eaaddr := p_eaaddr c + scast (ucast (drop_bit 8 rmdat) :: u8)\<rparr>)
      else (case f_long F c of (d, c') \<Rightarrow> c'\<lparr>p_eaaddr := p_eaaddr c' + d\<rparr>))"

definition fetch_plain :: "fetchers \<Rightarrow> u32 \<Rightarrow> cpu86 \<Rightarrow> cpu86" where
  "fetch_plain F rmdat c =
     (if p_mod c \<noteq> 0 then plain_disp F rmdat (if p_rm c = 5 \<and> \<not> p_ssegs c then use_stack c else c)
      else if p_rm c = 5 then (case f_long F c of (d, c') \<Rightarrow> c'\<lparr>p_eaaddr := d\<rparr>)
      else c)"

definition fetch_ea_32_long :: "fetchers \<Rightarrow> u32 \<Rightarrow> cpu86 \<Rightarrow> cpu86" where
  "fetch_ea_32_long F rmdat c0 =
     (let c = c0\<lparr>p_easeg := seg_base c0 (p_ea_seg c0)\<rparr>
      in if p_rm c = 4 then fetch_sib F (ucast (drop_bit 8 rmdat)) c
         else fetch_plain F rmdat (c\<lparr>p_eaaddr := reg c (p_rm c)\<rparr>))"

text \<open>\<open>init_mod1_tables\<close>: the registers of the 16-bit forms, \<open>None\<close> for the constant 0, and their segment.\<close>

definition mod1add0 :: "u8 \<Rightarrow> u8" where
  "mod1add0 rm = [3, 3, 5, 5, 6, 7, 5, 3] ! unat rm"

definition mod1add1 :: "u8 \<Rightarrow> u8 option" where
  "mod1add1 rm = [Some 6, Some 7, Some 6, Some 7, None, None, None, None] ! unat rm"

definition mod1seg :: "u8 \<Rightarrow> segreg" where
  "mod1seg rm = [DS, DS, SS, SS, DS, DS, SS, DS] ! unat rm"

definition reg16 :: "cpu86 \<Rightarrow> u8 \<Rightarrow> u32" where
  "reg16 c i = take_bit 16 (reg c i)"

definition ea16_disp :: "fetchers \<Rightarrow> u32 \<Rightarrow> cpu86 \<Rightarrow> cpu86" where
  "ea16_disp F rmdat c =
     (if p_mod c = 0 then c\<lparr>p_eaaddr := 0\<rparr>
      else if p_mod c = 1 then advance 1 (c\<lparr>p_eaaddr := ucast (scast (ucast (drop_bit 8 rmdat) :: u8) :: u16)\<rparr>)
      else if p_mod c = 2 then (case f_word F c of (d, c') \<Rightarrow> c'\<lparr>p_eaaddr := ucast d\<rparr>)
      else c)"

definition add_mod1 :: "cpu86 \<Rightarrow> cpu86" where
  "add_mod1 c = c\<lparr>p_eaaddr := p_eaaddr c + (reg16 c (mod1add0 (p_rm c)) +
     (case mod1add1 (p_rm c) of None \<Rightarrow> 0 | Some r \<Rightarrow> reg16 c r))\<rparr>"

definition fetch_ea_16_long :: "fetchers \<Rightarrow> u32 \<Rightarrow> cpu86 \<Rightarrow> cpu86" where
  "fetch_ea_16_long F rmdat c0 =
     (let c = c0\<lparr>p_easeg := seg_base c0 (p_ea_seg c0)\<rparr>
      in if p_mod c = 0 \<and> p_rm c = 6 then (case f_word F c of (d, c') \<Rightarrow> c'\<lparr>p_eaaddr := ucast d\<rparr>)
         else let c1 = add_mod1 (ea16_disp F rmdat c);
                  c2 = (if mod1seg (p_rm c1) = SS \<and> \<not> p_ssegs c1 then use_stack c1 else c1)
           in c2\<lparr>p_eaaddr := p_eaaddr c2 AND 0xFFFF\<rparr>)"

definition take_modrm :: "u32 \<Rightarrow> cpu86 \<Rightarrow> cpu86" where
  "take_modrm rmdat c = (advance 1 c)\<lparr>p_mod := ucast (drop_bit 6 rmdat AND 3), p_reg := ucast (drop_bit 3 rmdat AND 7),
     p_rm := ucast (rmdat AND 7)\<rparr>"

definition fetch_ea_32 :: "fetchers \<Rightarrow> u32 \<Rightarrow> cpu86 \<Rightarrow> cpu86" where
  "fetch_ea_32 F rmdat c = (let c1 = take_modrm rmdat c in if p_mod c1 \<noteq> 3 then fetch_ea_32_long F rmdat c1 else c1)"

definition fetch_ea_16 :: "fetchers \<Rightarrow> u32 \<Rightarrow> cpu86 \<Rightarrow> cpu86" where
  "fetch_ea_16 F rmdat c = (let c1 = take_modrm rmdat c in if p_mod c1 \<noteq> 3 then fetch_ea_16_long F rmdat c1 else c1)"

section \<open>The addressing modes of the processor\<close>

text \<open>
  The processor's definition of a memory operand: from the fields of the ModR/M and SIB bytes, the base and index
  registers, the size and place of the displacement, the length, and whether the stack segment is the default.
\<close>

definition base_field :: "u8 \<Rightarrow> u8 \<Rightarrow> u8" where
  "base_field rm sib = (if rm = 4 then sib AND 7 else rm)"

definition no_base :: "u8 \<Rightarrow> u8 \<Rightarrow> u8 \<Rightarrow> bool" where
  "no_base m rm sib \<longleftrightarrow> m = 0 \<and> base_field rm sib = 5"

definition ea32_length :: "u8 \<Rightarrow> u8 \<Rightarrow> u8 \<Rightarrow> nat" where
  "ea32_length m rm sib = 1 + (if rm = 4 then 1 else 0) + (if m = 1 then 1 else if m = 2 \<or> no_base m rm sib then 4 else 0)"

definition ea32_addr :: "(u32 \<Rightarrow> u8) \<Rightarrow> cpu86 \<Rightarrow> u8 \<Rightarrow> u8 \<Rightarrow> u8 \<Rightarrow> u32" where
  "ea32_addr rd c m rm sib =
     (let at = (if rm = 4 then 2 else 1) in
      (if no_base m rm sib then 0 else reg c (base_field rm sib)) +
      (if rm = 4 \<and> drop_bit 3 sib AND 7 \<noteq> 4 then push_bit (unat (drop_bit 6 sib)) (reg c (drop_bit 3 sib AND 7)) else 0) +
      (if m = 1 then scast (code_byte rd c at) else if m = 2 \<or> no_base m rm sib then code_long rd c at else 0))"

definition ea32_stack :: "u8 \<Rightarrow> u8 \<Rightarrow> u8 \<Rightarrow> bool" where
  "ea32_stack m rm sib \<longleftrightarrow> \<not> no_base m rm sib \<and> (base_field rm sib = 4 \<or> base_field rm sib = 5)"

definition ea16_length :: "u8 \<Rightarrow> u8 \<Rightarrow> nat" where
  "ea16_length m rm = 1 + (if m = 1 then 1 else if m = 2 \<or> m = 0 \<and> rm = 6 then 2 else 0)"

definition ea16_regs :: "cpu86 \<Rightarrow> u8 \<Rightarrow> u32" where
  "ea16_regs c rm =
     (let bx = reg c 3; bp = reg c 5; si = reg c 6; di = reg c 7
      in if rm = 0 then bx + si else if rm = 1 then bx + di else if rm = 2 then bp + si else if rm = 3 then bp + di
         else if rm = 4 then si else if rm = 5 then di else if rm = 6 then bp else bx)"

definition ea16_addr :: "(u32 \<Rightarrow> u8) \<Rightarrow> cpu86 \<Rightarrow> u8 \<Rightarrow> u8 \<Rightarrow> u32" where
  "ea16_addr rd c m rm =
     (if m = 0 \<and> rm = 6 then ucast (code_word rd c 1)
      else take_bit 16 (ea16_regs c rm + (if m = 1 then scast (code_byte rd c 1) else if m = 2 then ucast (code_word rd c 1) else 0)))"

definition ea16_stack :: "u8 \<Rightarrow> u8 \<Rightarrow> bool" where
  "ea16_stack m rm \<longleftrightarrow> rm = 2 \<or> rm = 3 \<or> rm = 6 \<and> m \<noteq> 0"

section \<open>Bits of the encoding\<close>

lemma small_word: "w < 8 \<Longrightarrow> w = 0 \<or> w = 1 \<or> w = 2 \<or> w = 3 \<or> w = 4 \<or> w = 5 \<or> w = 6 \<or> w = 7" for w :: u8
proof -
  assume "w < 8"
  then have "unat w = 0 \<or> unat w = 1 \<or> unat w = 2 \<or> unat w = 3 \<or> unat w = 4 \<or> unat w = 5 \<or> unat w = 6 \<or> unat w = 7"
    by (auto simp: word_less_nat_alt)
  then show ?thesis
    by (simp add: word_unat_eq_iff)
qed

lemma low_fields: "(ucast (drop_bit 6 w AND 3) :: u8) < 4" for w :: u32
proof -
  have three: "(3 :: u32) = mask 2"
    by (simp add: mask_eq_exp_minus_1)
  have "(ucast (drop_bit 6 w AND 3) :: u8) = take_bit 2 (ucast (drop_bit 6 w AND 3))"
    unfolding three by (rule bit_word_eqI) (auto simp: bit_take_bit_iff bit_ucast_iff bit_and_iff bit_mask_iff)
  then show ?thesis
    using take_bit_nat_less_exp [of 2 "unat (ucast (drop_bit 6 w AND 3) :: u8)"]
    by (simp add: word_less_nat_alt flip: unsigned_take_bit_eq)
qed

lemma and_7_less: "w AND 7 < 8" for w :: u8
  using word_and_le1 [of w 7] by (simp add: word_le_nat_alt word_less_nat_alt)

lemma sib_stack: "(sib AND 6 = 4) = (sib AND 7 = 4 \<or> sib AND 7 = 5)" for sib :: u8
proof -
  have e: "sib AND 6 = (sib AND 7) AND 6"
    by (simp add: and.assoc)
  show ?thesis
    using small_word [OF and_7_less, of sib] unfolding e by auto
qed

lemma code_long_byte1: "(ucast (drop_bit 8 (code_long rd c 0)) :: u8) = code_byte rd c 1"
  by (rule bit_word_eqI)
    (auto simp: code_long_def code_word_def bit_ucast_iff bit_drop_bit_eq bit_or_iff bit_push_bit_iff dest: bit_imp_le_length)

lemma code_advance:
  "code_byte rd (advance (word_of_nat n) c) i = code_byte rd c (n + i)"
  "code_word rd (advance (word_of_nat n) c) i = code_word rd c (n + i)"
  "code_long rd (advance (word_of_nat n) c) i = code_long rd c (n + i)"
  by (simp_all add: code_byte_def code_word_def code_long_def advance_def seg_base_def ac_simps)

definition same_code :: "cpu86 \<Rightarrow> cpu86 \<Rightarrow> bool" where
  "same_code c d \<longleftrightarrow> p_pc c = p_pc d \<and> p_segs c = p_segs d"

lemma code_word_16: "ucast (ucast (code_word rd c i) :: u16) = code_word rd c i"
  by (rule bit_word_eqI)
    (auto simp: code_word_def bit_ucast_iff bit_or_iff bit_push_bit_iff dest: bit_imp_le_length)

lemma fetched:
  assumes "reads_code rd F"
  shows "f_byte F c = (code_byte rd c 0, advance 1 c)" and "f_word F c = (ucast (code_word rd c 0), advance 2 c)"
    and "f_long F c = (code_long rd c 0, advance 4 c)" and "f_readl F (seg_base c CS + p_pc c + 1) = code_long rd c 1"
  using assms by (simp_all add: reads_code_def)

lemma code_same: "same_code c d \<Longrightarrow> code_byte rd c i = code_byte rd d i" "same_code c d \<Longrightarrow> code_word rd c i = code_word rd d i"
  "same_code c d \<Longrightarrow> code_long rd c i = code_long rd d i"
  by (simp_all add: code_byte_def code_word_def code_long_def same_code_def seg_base_def)

section \<open>A sample instruction\<close>


definition sample_code :: "u32 \<Rightarrow> u8" where
  "sample_code a = (if a = 0x100 then 0x44 else if a = 0x101 then 0x8B else if a = 0x102 then 0x10 else 0)"

definition zero_seg :: x86seg where
  "zero_seg = \<lparr>sg_seg = 0, sg_base = 0, sg_limit = 0, sg_limit_low = 0, sg_limit_high = 0, sg_access = 0, sg_ar_high = 0,
     sg_checked = False\<rparr>"

definition sample_cpu :: cpu86 where
  "sample_cpu = \<lparr>p_regs = [0, 2, 0, 0x2000, 0, 0, 0, 0], p_pc = 0x100, p_oldpc = 0x100, p_flags = 2, p_eflags = 0,
     p_segs = (\<lambda>r. zero_seg), p_gdt = zero_seg, p_ldt = zero_seg, p_idt = zero_seg, p_tr = zero_seg, p_cr4 = 0,
     p_dr = replicate 8 0, p_use32 = True, p_stack32 = True, p_trap = 0, p_ssegs = False, p_ea_seg = DS,
     p_easeg = 0, p_eaaddr = 0, p_mod = 0, p_reg = 0, p_rm = 0, p_cwd = 0x37F, p_swd = 0, p_tag = 0xFFFF, p_tos = 0,
     p_st = replicate 8 (0, 0)\<rparr>"

text \<open>Fetching operations that do read the stream.\<close>

definition stream :: "(u32 \<Rightarrow> u8) \<Rightarrow> fetchers" where
  "stream rd = \<lparr>f_byte = (\<lambda>c. (code_byte rd c 0, advance 1 c)), f_word = (\<lambda>c. (ucast (code_word rd c 0), advance 2 c)),
     f_long = (\<lambda>c. (code_long rd c 0, advance 4 c)),
     f_readl = (\<lambda>a. ucast (rd a) OR push_bit 8 (ucast (rd (a + 1))) OR
       push_bit 16 (ucast (rd (a + 2)) OR push_bit 8 (ucast (rd (a + 3)))))\<rparr>"

lemma reads_stream: "reads_code rd (stream rd)"
  by (simp add: reads_code_def stream_def code_long_def code_word_def code_byte_def ac_simps or.assoc)

section \<open>The 32-bit forms\<close>

text \<open>What an address depends on, and the state a fetch leaves of a state that differs in it.\<close>

definition operand :: "cpu86 \<Rightarrow> u32 \<times> u32 \<times> segreg \<times> u32" where
  "operand c = (p_eaaddr c, p_pc c, p_ea_seg c, p_easeg c)"

lemma sib_index_operand:
  "operand (sib_index sib c) = (p_eaaddr c + (if drop_bit 3 sib AND 7 \<noteq> 4
     then push_bit (unat (drop_bit 6 sib)) (reg c (drop_bit 3 sib AND 7)) else 0), p_pc c, p_ea_seg c, p_easeg c)"
  by (simp add: sib_index_def operand_def Let_def)

lemma code_at:
  "code_byte rd (x\<lparr>p_pc := q\<rparr>) i = rd (sg_base (p_segs x CS) + q + word_of_nat i)"
  "code_word rd (x\<lparr>p_pc := q\<rparr>) i = ucast (rd (sg_base (p_segs x CS) + q + word_of_nat i)) OR
     push_bit 8 (ucast (rd (sg_base (p_segs x CS) + q + word_of_nat (i + 1))))"
  by (simp_all add: code_byte_def code_word_def seg_base_def)

lemma fetch_sib_operand:
  assumes "reads_code rd F" and "p_easeg x = seg_base x (p_ea_seg x)" and "p_mod x < 3"
  shows "operand (fetch_sib F sib x) =
    ((if p_mod x = 0 \<and> sib AND 7 = 5 then code_long rd x 1
      else reg x (sib AND 7) + (if p_mod x = 1 then scast (code_byte rd x 1) else if p_mod x = 2 then code_long rd x 1 else 0)) +
     (if drop_bit 3 sib AND 7 \<noteq> 4 then push_bit (unat (drop_bit 6 sib)) (reg x (drop_bit 3 sib AND 7)) else 0),
     p_pc x + (if p_mod x = 0 \<and> sib AND 7 = 5 then 5 else if p_mod x = 0 then 1 else if p_mod x = 1 then 2 else 5),
     if \<not> (p_mod x = 0 \<and> sib AND 7 = 5) \<and> sib AND 6 = 4 \<and> \<not> p_ssegs x then SS else p_ea_seg x,
     seg_base x (if \<not> (p_mod x = 0 \<and> sib AND 7 = 5) \<and> sib AND 6 = 4 \<and> \<not> p_ssegs x then SS else p_ea_seg x))"
proof -
  have m: "p_mod x = 0 \<or> p_mod x = 1 \<or> p_mod x = 2"
    using small_word [of "p_mod x"] assms(3) by (auto simp: word_less_nat_alt)
  have long: "code_long rd (advance 1 y) 0 = code_long rd y 1" and byte: "code_byte rd (advance 1 y) 0 = code_byte rd y 1" for y
    using code_advance [of rd 1 y 0] by simp_all
  have upd: "code_long rd (y\<lparr>p_eaaddr := a\<rparr>) i = code_long rd y i" for y a i
    by (rule code_same) (simp add: same_code_def)
  consider "p_mod x = 0" "sib AND 7 = 5" | "p_mod x = 0" "sib AND 7 \<noteq> 5" | "p_mod x = 1" | "p_mod x = 2"
    using m by blast
  then show ?thesis
    unfolding fetch_sib_def sib_index_operand
    by cases (simp_all add: sib_base_def sib_segment_def Let_def fetched [OF assms(1)] long byte upd reg_def use_stack_def
      assms(2), auto simp: advance_def seg_base_def assms(2) [unfolded seg_base_def])
qed

lemma fetch_plain_operand:
  assumes "reads_code rd F" and "p_easeg x = seg_base x (p_ea_seg x)" and "p_mod x < 3"
  shows "operand (fetch_plain F rmdat x) =
    ((if p_mod x = 0 \<and> p_rm x = 5 then code_long rd x 0
      else p_eaaddr x + (if p_mod x = 1 then scast (ucast (drop_bit 8 rmdat) :: u8) else if p_mod x = 2 then code_long rd x 0 else 0)),
     p_pc x + (if p_mod x = 0 \<and> p_rm x \<noteq> 5 then 0 else if p_mod x = 1 then 1 else 4),
     if p_mod x \<noteq> 0 \<and> p_rm x = 5 \<and> \<not> p_ssegs x then SS else p_ea_seg x,
     seg_base x (if p_mod x \<noteq> 0 \<and> p_rm x = 5 \<and> \<not> p_ssegs x then SS else p_ea_seg x))"
proof -
  have m: "p_mod x = 0 \<or> p_mod x = 1 \<or> p_mod x = 2"
    using small_word [of "p_mod x"] assms(3) by (auto simp: word_less_nat_alt)
  have same: "code_long rd (use_stack x) 0 = code_long rd x 0"
    by (rule code_same) (simp add: same_code_def use_stack_def)
  consider "p_mod x = 0" "p_rm x = 5" | "p_mod x = 0" "p_rm x \<noteq> 5" | "p_mod x = 1" | "p_mod x = 2"
    using m by blast
  then show ?thesis
    by cases (auto simp: fetch_plain_def plain_disp_def operand_def fetched [OF assms(1)] same,
      auto simp: use_stack_def advance_def seg_base_def assms(2) [unfolded seg_base_def])
qed

text \<open>
  C23: The replacement of 86Box's address fetching computes the processor's 32-bit addressing modes: base, scaled index and
  displacement, the default segment, and exactly the bytes of the operand passed over.
\<close>

theorem fetch_ea_32_spec:
  assumes "reads_code rd F" and "rmdat = code_long rd c 0" and "m = ucast (drop_bit 6 rmdat AND 3)" and "rm = ucast (rmdat AND 7)"
    and "sib = code_byte rd c 1" and "m \<noteq> 3"
  shows "p_eaaddr (fetch_ea_32 F rmdat c) = ea32_addr rd c m rm sib \<and>
    p_pc (fetch_ea_32 F rmdat c) = p_pc c + word_of_nat (ea32_length m rm sib) \<and>
    p_ea_seg (fetch_ea_32 F rmdat c) = (if ea32_stack m rm sib \<and> \<not> p_ssegs c then SS else p_ea_seg c) \<and>
    p_easeg (fetch_ea_32 F rmdat c) = seg_base c (if ea32_stack m rm sib \<and> \<not> p_ssegs c then SS else p_ea_seg c)"
proof -
  have m: "m = 0 \<or> m = 1 \<or> m = 2"
    using small_word [of m] low_fields [of rmdat] assms(3,6) by (auto simp: word_less_nat_alt)
  have s1: "(ucast (drop_bit 8 rmdat) :: u8) = sib"
    by (simp add: assms(2,5) code_long_byte1)
  let ?x = "take_modrm rmdat c"
  note m2 = assms(3) [symmetric] and rm2 = assms(4) [symmetric]
  have f: "fetch_ea_32 F rmdat c = fetch_ea_32_long F rmdat ?x"
    using assms(6) by (simp add: fetch_ea_32_def take_modrm_def m2 advance_def)
  have d: "p_mod ?x = m" "p_rm ?x = rm" "p_pc ?x = p_pc c + 1" "p_ssegs ?x = p_ssegs c" "p_ea_seg ?x = p_ea_seg c"
      "reg ?x i = reg c i" "seg_base ?x r = seg_base c r" for i r
    by (simp_all add: take_modrm_def advance_def m2 rm2 reg_def seg_base_def)
  have dr: "p_regs ?x = p_regs c"
    by (simp add: take_modrm_def advance_def)
  have mm: "p_mod ?x < 3"
    using m d(1) by auto
  have code: "code_long rd ?x i = code_long rd c (1 + i)" "code_byte rd ?x i = code_byte rd c (1 + i)" for i
    using code_advance [of rd 1 c i] code_same [of ?x "advance 1 c"] by (simp_all add: take_modrm_def same_code_def)
  have "operand (fetch_ea_32 F rmdat c) = (ea32_addr rd c m rm sib, p_pc c + word_of_nat (ea32_length m rm sib),
      if ea32_stack m rm sib \<and> \<not> p_ssegs c then SS else p_ea_seg c,
      seg_base c (if ea32_stack m rm sib \<and> \<not> p_ssegs c then SS else p_ea_seg c))"
  proof (cases "rm = 4")
    case True
    define y where "y = ?x\<lparr>p_easeg := seg_base ?x (p_ea_seg ?x)\<rparr>"
    have yd: "p_mod y = m" "p_pc y = p_pc c + 1" "p_ssegs y = p_ssegs c" "p_ea_seg y = p_ea_seg c"
        "reg y i = reg c i" "seg_base y r = seg_base c r" "code_long rd y i' = code_long rd c (1 + i')"
        "code_byte rd y i' = code_byte rd c (1 + i')" for i r i'
      using d code code_same [of y ?x] by (simp_all add: y_def reg_def seg_base_def same_code_def)
    have "fetch_ea_32 F rmdat c = fetch_sib F sib y"
      using True by (simp add: f fetch_ea_32_long_def Let_def d(2) s1 y_def)
    moreover have "p_easeg y = seg_base y (p_ea_seg y)"
      by (simp add: y_def seg_base_def)
    ultimately show ?thesis
      using fetch_sib_operand [of rd F y sib, OF assms(1)] mm m True
      by (auto simp: yd d(1) ea32_addr_def ea32_length_def ea32_stack_def base_field_def no_base_def sib_stack Let_def numeral_2_eq_2)
  next
    case False
    define y where "y = ?x\<lparr>p_easeg := seg_base ?x (p_ea_seg ?x), p_eaaddr := reg c rm\<rparr>"
    have yd: "p_mod y = m" "p_rm y = rm" "p_pc y = p_pc c + 1" "p_ssegs y = p_ssegs c" "p_ea_seg y = p_ea_seg c"
        "p_eaaddr y = reg c rm" "seg_base y r = seg_base c r" "code_long rd y i' = code_long rd c (1 + i')" for i r i'
      using d code code_same [of y ?x] by (simp_all add: y_def reg_def seg_base_def same_code_def)
    have "fetch_ea_32 F rmdat c = fetch_plain F rmdat y"
      using False by (simp add: f fetch_ea_32_long_def Let_def d y_def) (simp add: dr reg_def)
    moreover have "p_easeg y = seg_base y (p_ea_seg y)"
      by (simp add: y_def seg_base_def)
    ultimately show ?thesis
      using fetch_plain_operand [of rd F y rmdat, OF assms(1)] mm m False
      by (auto simp: yd d(1) s1 assms(5) ea32_addr_def ea32_length_def ea32_stack_def base_field_def no_base_def Let_def)
  qed
  then show ?thesis
    by (simp add: operand_def)
qed

theorem fetch_ea_32_spec_witness:
  "p_eaaddr (fetch_ea_32 (stream sample_code) 0x00108B44 sample_cpu) = 0x2018 \<and>
   p_pc (fetch_ea_32 (stream sample_code) 0x00108B44 sample_cpu) = 0x103"
proof -
  have c: "0x00108B44 = code_long sample_code sample_cpu 0" "code_byte sample_code sample_cpu 1 = 0x8B"
    by code_simp+
  have m: "(1 :: u8) = ucast (drop_bit 6 (0x00108B44 :: u32) AND 3)" "(4 :: u8) = ucast ((0x00108B44 :: u32) AND 7)"
    by code_simp+
  have "ea32_addr sample_code sample_cpu 1 4 0x8B = 0x2018" "0x100 + word_of_nat (ea32_length 1 4 0x8B) = (0x103 :: u32)"
      "p_pc sample_cpu = 0x100"
    by code_simp+
  then show ?thesis
    using fetch_ea_32_spec [OF reads_stream c(1) m c(2) [symmetric]] by simp
qed

section \<open>The 16-bit forms\<close>

lemma ea16_disp_spec:
  assumes "reads_code rd F" and "p_mod x < 3"
  shows "ea16_disp F rmdat x = x\<lparr>p_eaaddr := (if p_mod x = 1 then ucast (scast (ucast (drop_bit 8 rmdat) :: u8) :: u16)
      else if p_mod x = 2 then code_word rd x 0 else 0), p_pc := p_pc x + (if p_mod x = 1 then 1 else if p_mod x = 2 then 2 else 0)\<rparr>"
proof -
  have "p_mod x = 0 \<or> p_mod x = 1 \<or> p_mod x = 2"
    using small_word [of "p_mod x"] assms by (auto simp: word_less_nat_alt)
  then consider "p_mod x = 0" | "p_mod x = 1" | "p_mod x = 2"
    by blast
  then show ?thesis
    by cases (simp_all add: ea16_disp_def fetched [OF assms(1)] code_word_16 advance_def)
qed

lemma low_scast: "take_bit 16 (ucast (scast (b :: u8) :: u16) :: u32) = take_bit 16 (scast b)"
  by (rule bit_word_eqI) (auto simp: bit_take_bit_iff bit_unsigned_iff bit_word_scast_iff)

lemma low_add: "take_bit 16 (take_bit 16 p + q) = take_bit 16 (p + q)" "take_bit 16 (q + take_bit 16 p) = take_bit 16 (q + p)"
  for p q :: u32
proof -
  show "take_bit 16 (take_bit 16 p + q) = take_bit 16 (p + q)"
    by transfer (simp add: take_bit_eq_mod mod_simps)
  then show "take_bit 16 (q + take_bit 16 p) = take_bit 16 (q + p)"
    by (simp add: add.commute)
qed

lemma low_add3: "take_bit 16 (d + (take_bit 16 p + take_bit 16 q)) = take_bit 16 (p + q + d)" for p q d :: u32
  using low_add(1) [of p "d + take_bit 16 q"] low_add(2) [of "p + d" q] by (simp add: ac_simps)

text \<open>The tables name the registers of the form, and the sum wraps at 16 bits whatever their upper halves hold.\<close>

lemma mod1_tables:
  assumes "rm < 8"
  shows "take_bit 16 (d + (reg16 c (mod1add0 rm) + (case mod1add1 rm of None \<Rightarrow> 0 | Some r \<Rightarrow> reg16 c r)))
      = take_bit 16 (ea16_regs c rm + d)" and "mod1seg rm = SS \<longleftrightarrow> rm = 2 \<or> rm = 3 \<or> rm = 6"
proof -
  consider "rm = 0" | "rm = 1" | "rm = 2" | "rm = 3" | "rm = 4" | "rm = 5" | "rm = 6" | "rm = 7"
    using small_word [OF assms] by blast
  note cases = this
  from cases show "take_bit 16 (d + (reg16 c (mod1add0 rm) + (case mod1add1 rm of None \<Rightarrow> 0 | Some r \<Rightarrow> reg16 c r)))
      = take_bit 16 (ea16_regs c rm + d)"
    by cases (simp_all add: mod1add0_def mod1add1_def reg16_def ea16_regs_def low_add3 low_add add.commute [of _ d])
  from cases show "mod1seg rm = SS \<longleftrightarrow> rm = 2 \<or> rm = 3 \<or> rm = 6"
    by cases (simp_all add: mod1seg_def)
qed

text \<open>
  The 16-bit addressing modes: the sum of the form's registers and the displacement modulo 64K, BP forms in the stack
  segment, and exactly the bytes of the operand passed over.
\<close>

theorem fetch_ea_16_spec:
  assumes "reads_code rd F" and "rmdat = code_long rd c 0" and "m = ucast (drop_bit 6 rmdat AND 3)" and "rm = ucast (rmdat AND 7)" and "m \<noteq> 3"
  shows "p_eaaddr (fetch_ea_16 F rmdat c) = ea16_addr rd c m rm \<and>
    p_pc (fetch_ea_16 F rmdat c) = p_pc c + word_of_nat (ea16_length m rm) \<and>
    p_ea_seg (fetch_ea_16 F rmdat c) = (if ea16_stack m rm \<and> \<not> p_ssegs c then SS else p_ea_seg c) \<and>
    p_easeg (fetch_ea_16 F rmdat c) = seg_base c (if ea16_stack m rm \<and> \<not> p_ssegs c then SS else p_ea_seg c)"
proof -
  have "m = 0 \<or> m = 1 \<or> m = 2"
    using small_word [of m] low_fields [of rmdat] assms(3,5) by (auto simp: word_less_nat_alt)
  then have mm: "m < 3"
    by auto
  have rl: "rm < 8"
    unfolding assms(4) using and_7_less [of "ucast rmdat"] by (simp add: unsigned_and_eq)
  have s1: "(ucast (drop_bit 8 rmdat) :: u8) = code_byte rd c 1"
    by (simp add: assms(2) code_long_byte1)
  define x where "x = (take_modrm rmdat c)\<lparr>p_easeg := seg_base c (p_ea_seg c)\<rparr>"
  note m2 = assms(3) [symmetric] and rm2 = assms(4) [symmetric]
  have d: "p_mod x = m" "p_rm x = rm" "p_pc x = p_pc c + 1" "p_ssegs x = p_ssegs c" "p_ea_seg x = p_ea_seg c"
      "p_easeg x = seg_base c (p_ea_seg c)" "p_regs x = p_regs c" "p_segs x = p_segs c"
    by (simp_all add: x_def take_modrm_def advance_def m2 rm2)
  have code: "code_word rd x 0 = code_word rd c 1"
    using code_advance [of rd 1 c 0] code_same [of x "advance 1 c"] by (simp add: x_def take_modrm_def same_code_def)
  have f: "fetch_ea_16 F rmdat c =
      (if m = 0 \<and> rm = 6 then (case f_word F x of (d, c') \<Rightarrow> c'\<lparr>p_eaaddr := ucast d\<rparr>)
       else let c1 = add_mod1 (ea16_disp F rmdat x);
                c2 = (if mod1seg (p_rm c1) = SS \<and> \<not> p_ssegs c1 then use_stack c1 else c1)
         in c2\<lparr>p_eaaddr := p_eaaddr c2 AND 0xFFFF\<rparr>)"
    using assms(5) d(1,2) by (simp add: fetch_ea_16_def fetch_ea_16_long_def x_def take_modrm_def advance_def seg_base_def Let_def m2 rm2)
  show ?thesis
  proof (cases "m = 0 \<and> rm = 6")
    case True
    then show ?thesis
      by (simp add: f fetched [OF assms(1)] code_word_16 advance_def d code ea16_addr_def ea16_length_def ea16_stack_def)
  next
    case False
    define y where "y = ea16_disp F rmdat x"
    have y: "p_eaaddr y = (if m = 1 then ucast (scast (code_byte rd c 1) :: u16) else if m = 2 then code_word rd c 1 else 0)"
        "p_pc y = p_pc c + word_of_nat (ea16_length m rm)" "p_rm y = rm" "p_ssegs y = p_ssegs c" "p_segs y = p_segs c"
        "p_ea_seg y = p_ea_seg c" "p_easeg y = seg_base c (p_ea_seg c)" "ea16_regs y rm = ea16_regs c rm"
      using mm False unfolding y_def by (simp_all add: ea16_disp_spec [OF assms(1)] d s1 code ea16_length_def ea16_regs_def reg_def Let_def)
    have low: "w AND 0xFFFF = take_bit 16 w" for w :: u32
      by (simp add: take_bit_eq_mask mask_eq_exp_minus_1)
    have "p_eaaddr (add_mod1 y) AND 0xFFFF = take_bit 16 (ea16_regs c rm + p_eaaddr y)"
      using mod1_tables(1) [OF rl, of "p_eaaddr y" y] by (simp add: low add_mod1_def y(3,8))
    moreover have "take_bit 16 (ea16_regs c rm + p_eaaddr y) = ea16_addr rd c m rm"
      using False low_add(2) [of "ea16_regs c rm" "ucast (scast (code_byte rd c 1) :: u16)"]
        low_add(2) [of "ea16_regs c rm" "scast (code_byte rd c 1)"]
      by (auto simp: y ea16_addr_def low_scast)
    moreover have "ea16_stack m rm \<longleftrightarrow> mod1seg rm = SS"
      using False by (auto simp: mod1_tables(2) [OF rl] ea16_stack_def)
    ultimately show ?thesis
      using False by (auto simp: f y_def [symmetric] Let_def y add_mod1_def use_stack_def seg_base_def)
  qed
qed

theorem fetch_ea_16_spec_witness:
  "p_eaaddr (fetch_ea_16 (stream sample_code) 0x00108B44 sample_cpu) = 0xFF8B \<and> p_pc (fetch_ea_16 (stream sample_code) 0x00108B44 sample_cpu) = 0x102"
proof -
  have c: "0x00108B44 = code_long sample_code sample_cpu 0"
    by code_simp
  have m: "(1 :: u8) = ucast (drop_bit 6 (0x00108B44 :: u32) AND 3)" "(4 :: u8) = ucast ((0x00108B44 :: u32) AND 7)"
    by code_simp+
  have "ea16_addr sample_code sample_cpu 1 4 = 0xFF8B" "0x100 + word_of_nat (ea16_length 1 4) = (0x102 :: u32)"
      "p_pc sample_cpu = 0x100"
    by code_simp+
  then show ?thesis
    using fetch_ea_16_spec [OF reads_stream c m] by simp
qed

end
