(* ===== verification/Cosim_Reset.thy ===== *)
theory Cosim_Reset
  imports Cosim_Arch
begin

text \<open>
  The start of the co-simulation engine and its interrupts: the allocation of RAM in \<open>cosim_init\<close>, \<open>cosim_reset\<close>, the
  architectural state as \<open>cosim_arch\<close> exports it, and \<open>x86_int\<close> with the delivery in real mode. What these call in 86Box (memory
  accesses, protected-mode delivery, the lazily kept flags, the class of an x87 value) enters as arguments.
\<close>

section \<open>Allocating RAM\<close>

text \<open>
  \<open>cosim_init\<close> allocates a power of two of bytes and keeps the mask: \<open>while (pow2 < bytes) pow2 <<= 1\<close> on 32-bit integers.
\<close>

partial_function (option) pow2_from :: "u32 \<Rightarrow> u32 \<Rightarrow> u32 option" where
  "pow2_from bytes p = (if p < bytes then pow2_from bytes (push_bit 1 p) else Some p)"

definition init_ram :: "u32 \<Rightarrow> cmp \<Rightarrow> cmp option" where
  "init_ram bytes s = (case pow2_from bytes 1 of None \<Rightarrow> None
     | Some p \<Rightarrow> Some (s\<lparr>c_ram := (\<lambda>a. 0), ram_bytes := bytes, rammask := p - 1\<rparr>))"

section \<open>Reset\<close>

text \<open>\<open>memset(&cpu_state, 0)\<close>. The pointer \<open>ea_seg\<close>, which it leaves null, has no such value here: it is \<open>DS\<close>.\<close>

definition clear_cpu :: "cpu86 \<Rightarrow> cpu86" where
  "clear_cpu c = c\<lparr>p_regs := replicate 8 0, p_pc := 0, p_oldpc := 0, p_flags := 0, p_eflags := 0, p_segs := (\<lambda>r. zero_seg),
     p_ssegs := False, p_ea_seg := DS, p_eaaddr := 0, p_mod := 0, p_reg := 0, p_rm := 0\<rparr>"

definition reset_segs :: "cpu86 \<Rightarrow> cpu86" where
  "reset_segs c = c\<lparr>p_segs := (\<lambda>r. init_seg (p_segs c r) (if r = CS then 0xF000 else 0) (if r = CS then 0xFFFF0000 else 0) 0xFFFF 0x93 0)\<rparr>"

definition reset_tables :: "cpu86 \<Rightarrow> cpu86" where
  "reset_tables c = c\<lparr>p_cr4 := 0, p_dr := replicate 8 0, p_gdt := zero_seg, p_ldt := zero_seg, p_tr := zero_seg,
     p_idt := zero_seg\<lparr>sg_limit := 0x3FF\<rparr>, p_use32 := False, p_stack32 := False, p_trap := 0\<rparr>"

definition reset_start :: "cpu86 \<Rightarrow> cpu86" where
  "reset_start c = c\<lparr>p_flags := 2, p_eflags := 0, p_pc := 0xFFF0, p_regs := (p_regs c)[2 := 0x0303]\<rparr>"

definition reset_x87 :: "cpu86 \<Rightarrow> cpu86" where
  "reset_x87 c = c\<lparr>p_cwd := 0x037F, p_swd := 0, p_tag := 0xFFFF, p_tos := 0, p_st := replicate 8 (0, 0)\<rparr>"

definition reset_cmp :: "cmp \<Rightarrow> cmp" where
  "reset_cmp s = s\<lparr>io_rd := q_reset (io_rd s), dev_rd := q_reset (dev_rd s), exp_w := q_reset (exp_w s), dut_w := q_reset (dut_w s),
     exp_io := q_reset (exp_io s), dut_io := q_reset (dut_io s), stage_w := q_reset (stage_w s), stage_io := q_reset (stage_io s),
     io_cur := 0, dev_cur := 0, cr0 := 0x10, cr2 := 0, cr3 := 0, cpl := 0, abrt := Fault_none, ignne := False\<rparr>"

record engine86 =
  r_cpu :: cpu86
  r_cmp :: cmp
  r_last_fault :: int
  r_udf :: u32
  r_was_hlt :: bool

definition engine_reset :: "engine86 \<Rightarrow> engine86" where
  "engine_reset e = e\<lparr>r_cpu := reset_x87 (reset_start (reset_tables (reset_segs (clear_cpu (r_cpu e))))), r_cmp := reset_cmp (r_cmp e),
     r_last_fault := - 1, r_udf := 0, r_was_hlt := False\<rparr>"

section \<open>The architectural state\<close>

text \<open>
  \<open>cosim_arch\<close>: the words z486 is compared with and restored from. 86Box's \<open>flags_rebuild\<close> (the flags of the last operation)
  and \<open>FPU_tagof\<close> (the class of an x87 value) are arguments.
\<close>

definition VM_FLAG :: u16 where "VM_FLAG = 2"

definition seg_words :: "engine86 \<Rightarrow> x86seg \<Rightarrow> bool \<Rightarrow> bool \<Rightarrow> u32 list" where
  "seg_words e s is_cs nullable = [ucast (sg_seg s), sg_base s,
     seg_attr s is_cs nullable (cr0 (r_cmp e) AND 1 \<noteq> 0) (p_eflags (r_cpu e) AND VM_FLAG \<noteq> 0)]"

definition arch_segs :: "engine86 \<Rightarrow> u32 list" where
  "arch_segs e = (let c = r_cpu e in
     seg_words e (p_segs c ES) False True @ seg_words e (p_segs c CS) True False @ seg_words e (p_segs c SS) False False @
     seg_words e (p_segs c DS) False True @ seg_words e (p_segs c FS) False True @ seg_words e (p_segs c GS) False True @
     seg_words e (p_tr c) False True @ seg_words e (p_ldt c) False True)"

definition tag_word :: "(u64 \<times> u16 \<Rightarrow> u16) \<Rightarrow> cpu86 \<Rightarrow> u16" where
  "tag_word tagof c = foldl (OR) 0 (map (\<lambda>i. let tag = drop_bit (2 * i) (p_tag c) AND 3
     in push_bit (2 * i) (if tag \<noteq> 3 then tagof (p_st c ! i) else tag)) [0, 1, 2, 3, 4, 5, 6, 7])"

definition arch_x87 :: "(u64 \<times> u16 \<Rightarrow> u16) \<Rightarrow> cpu86 \<Rightarrow> u32 list" where
  "arch_x87 tagof c = [ucast (p_cwd c), (ucast (p_swd c) AND NOT 0x3800) OR push_bit 11 (ucast (p_tos c) AND 7), ucast (tag_word tagof c)] @
     concat (map (\<lambda>(signif, exp). [ucast signif, ucast (drop_bit 32 signif), ucast exp]) (p_st c))"

definition cosim_arch :: "(cpu86 \<Rightarrow> u16) \<Rightarrow> (u64 \<times> u16 \<Rightarrow> u16) \<Rightarrow> engine86 \<Rightarrow> u32 list" where
  "cosim_arch rebuild tagof e =
     (let c = (r_cpu e)\<lparr>p_flags := rebuild (r_cpu e)\<rparr>; s = r_cmp e in
      p_regs c @ [p_pc c, ((ucast (p_flags c) OR push_bit 16 (ucast (p_eflags c))) AND 0x77fd5) OR 2, cr0 s, cr2 s, cr3 s,
        p_dr c ! 6, p_dr c ! 7, sg_base (p_gdt c), sg_limit (p_gdt c), sg_base (p_idt c), sg_limit (p_idt c)] @
      arch_segs e @ arch_x87 tagof c)"

section \<open>Interrupts and faults\<close>

text \<open>
  Memory accesses, the loading of CS and protected-mode delivery are 86Box's and the argument \<open>M\<close>. A state is the processor
  and the rest, \<open>'m\<close>.
\<close>

record 'm int_ops =
  m_writew :: "u32 \<Rightarrow> u32 \<Rightarrow> u16 \<Rightarrow> cpu86 \<times> 'm \<Rightarrow> cpu86 \<times> 'm"
  m_readw :: "u32 \<Rightarrow> u32 \<Rightarrow> cpu86 \<times> 'm \<Rightarrow> u16 \<times> cpu86 \<times> 'm"
  m_loadcs :: "u16 \<Rightarrow> cpu86 \<times> 'm \<Rightarrow> cpu86 \<times> 'm"
  m_pmodeint :: "nat \<Rightarrow> bool \<Rightarrow> cpu86 \<times> 'm \<Rightarrow> cpu86 \<times> 'm"
  m_rebuild :: "cpu86 \<Rightarrow> u16"
  m_pe :: "'m \<Rightarrow> bool"
  m_fail :: "nat \<Rightarrow> 'm \<Rightarrow> 'm"

definition RF_FLAG :: u16 where "RF_FLAG = 1"
definition I_FLAG :: u16 where "I_FLAG = 0x200"
definition T_FLAG :: u16 where "T_FLAG = 0x100"

definition set_sp16 :: "u16 \<Rightarrow> u32 \<Rightarrow> u32" where
  "set_sp16 v esp = (esp AND NOT 0xFFFF) OR ucast v"

text \<open>One word pushed below the stack pointer, which \<open>real_mode_int\<close> moves only after the third.\<close>

definition push_below :: "'m int_ops \<Rightarrow> u32 \<Rightarrow> (cpu86 \<Rightarrow> u16) \<Rightarrow> cpu86 \<times> 'm \<Rightarrow> cpu86 \<times> 'm" where
  "push_below M d f st = (let c = fst st; esp = reg c 4
     in m_writew M (seg_base c SS) (if p_stack32 c then esp - d else (take_bit 16 esp - d) AND 0xFFFF) (f c) st)"

definition drop_sp :: "cpu86 \<Rightarrow> cpu86" where
  "drop_sp c = c\<lparr>p_regs := (p_regs c)[4 := (if p_stack32 c then reg c 4 - 6 else set_sp16 (ucast (reg c 4) - 6) (reg c 4))]\<rparr>"

definition real_mode_int :: "'m int_ops \<Rightarrow> nat \<Rightarrow> cpu86 \<times> 'm \<Rightarrow> cpu86 \<times> 'm" where
  "real_mode_int M num st =
     (let addr = word_of_nat (4 * num) + sg_base (p_idt (fst st));
          st = push_below M 2 p_flags st;
          st = push_below M 4 (\<lambda>c. sg_seg (p_segs c CS)) st;
          st = push_below M 6 (\<lambda>c. ucast (p_pc c)) st;
          st = apfst drop_sp st;
          st = apfst (\<lambda>c. c\<lparr>p_flags := p_flags c AND NOT (I_FLAG OR T_FLAG)\<rparr>) st;
          (ip, st) = m_readw M 0 addr st;
          st = apfst (\<lambda>c. c\<lparr>p_pc := ucast ip\<rparr>) st;
          (sel, st) = m_readw M 0 (addr + 2) st
      in m_loadcs M sel st)"

definition set_rf :: "bool \<Rightarrow> cpu86 \<Rightarrow> cpu86" where
  "set_rf on c = c\<lparr>p_eflags := (if on then p_eflags c OR RF_FLAG else p_eflags c AND NOT RF_FLAG)\<rparr>"

definition beyond_table :: "nat \<Rightarrow> cpu86 \<Rightarrow> bool" where
  "beyond_table num c \<longleftrightarrow> unat (sg_limit (p_idt c)) < 4 * num + 3"

definition fault_entry :: "'m int_ops \<Rightarrow> cpu86 \<Rightarrow> cpu86" where
  "fault_entry M c = set_rf True (c\<lparr>p_flags := m_rebuild M c, p_pc := p_oldpc c\<rparr>)"

lemma beyond_entry [simp]: "beyond_table num (fault_entry M c) = beyond_table num c" "p_idt (fault_entry M c) = p_idt c"
  by (simp_all add: beyond_table_def fault_entry_def set_rf_def)

function x86_int :: "'m int_ops \<Rightarrow> nat \<Rightarrow> cpu86 \<times> 'm \<Rightarrow> cpu86 \<times> 'm" where
  "x86_int M num (c, m) =
     apfst (set_rf False)
      (let c = fault_entry M c in
       if m_pe M m then m_pmodeint M num False (c, m)
       else if beyond_table num c
         then if sg_limit (p_idt c) < 35 then (c, m_fail M num m) else x86_int M 8 (c, m)
       else real_mode_int M num (c, m))"
  by pat_completeness auto
termination
  by (relation "measure (\<lambda>(M, num, c, m). if beyond_table num c then 1 else 0)")
    (auto simp: beyond_table_def word_less_nat_alt)

definition x86_int_sw :: "'m int_ops \<Rightarrow> nat \<Rightarrow> cpu86 \<times> 'm \<Rightarrow> cpu86 \<times> 'm" where
  "x86_int_sw M num st =
     (let (c, m) = st; c = c\<lparr>p_flags := m_rebuild M c\<rparr>;
          st = (if m_pe M m then m_pmodeint M num True (c, m)
                else if beyond_table num c then x86_int M 0x0d (c, m) else real_mode_int M num (c, m))
      in apfst (\<lambda>c. c\<lparr>p_trap := p_trap c AND NOT 1\<rparr>) st)"

definition x86illegal :: "'m int_ops \<Rightarrow> cpu86 \<times> 'm \<Rightarrow> cpu86 \<times> 'm" where
  "x86illegal M st = x86_int M 6 st"

section \<open>RAM\<close>

lemma pow2_from_step:
  assumes "k < 32" and "bytes \<le> 2 ^ 31"
  shows "\<exists>j. pow2_from bytes (2 ^ k) = Some (2 ^ j) \<and> k \<le> j \<and> j < 32 \<and> bytes \<le> 2 ^ j \<and> (j = k \<or> 2 ^ (j - 1) < bytes)"
  using assms
proof (induction "31 - k" arbitrary: k)
  case 0
  then have "k = 31" by simp
  moreover have "\<not> (2 ^ 31 :: u32) < bytes"
    using 0(3) by simp
  ultimately show ?case
    using 0(3) pow2_from.simps [of bytes "2 ^ 31"] by (intro exI [of _ 31]) simp
next
  case (Suc n)
  show ?case
  proof (cases "(2 :: u32) ^ k < bytes")
    case True
    have "pow2_from bytes (2 ^ k) = pow2_from bytes (2 ^ Suc k)"
      using True pow2_from.simps [of bytes "2 ^ k"] by (simp add: push_bit_eq_mult mult.commute)
    moreover have k: "n = 31 - Suc k" "Suc k < 32"
      using Suc(2) by arith+
    moreover obtain j where "pow2_from bytes (2 ^ Suc k) = Some (2 ^ j)" "Suc k \<le> j" "j < 32" "bytes \<le> 2 ^ j"
        "j = Suc k \<or> 2 ^ (j - 1) < bytes"
      using Suc(1) [OF k Suc(4)] by blast
    ultimately show ?thesis
      using True by (intro exI [of _ j]) auto
  next
    case False
    then show ?thesis
      using pow2_from.simps [of bytes "2 ^ k"] Suc(3) by (intro exI [of _ k]) auto
  qed
qed

lemma unat_exp: "j < 32 \<Longrightarrow> unat (2 ^ j :: u32) = 2 ^ j"
proof -
  assume "j < 32"
  then have "(2 :: nat) ^ j < 2 ^ LENGTH(32)"
    by (intro power_strict_increasing) simp_all
  then show ?thesis
    using unat_word_of_nat_small [of "2 ^ j", where 'a = 32] by simp
qed

text \<open>
  C26: For every size up to 2 GB the allocation loop ends with the least power of two that holds it: no masked address leaves the
  block, and no address of RAM is an alias of another.
\<close>

theorem init_ram_exact:
  assumes "bytes \<le> 2 ^ 31"
  shows "\<exists>s' j. init_ram bytes s = Some s' \<and> rammask s' = mask j \<and> unat bytes \<le> 2 ^ j \<and> (j = 0 \<or> 2 ^ (j - 1) < unat bytes) \<and>
    ram_bytes s' = bytes \<and> (\<forall>a. unat (a AND rammask s') < 2 ^ j) \<and> (\<forall>a<bytes. a AND rammask s' = a)"
proof -
  obtain j where j: "pow2_from bytes 1 = Some (2 ^ j)" "j < 32" "bytes \<le> 2 ^ j" "j = 0 \<or> 2 ^ (j - 1) < bytes"
    using pow2_from_step [of 0 bytes] assms by auto
  have m: "(2 :: u32) ^ j - 1 = mask j"
    by (simp add: mask_eq_exp_minus_1)
  have le: "unat bytes \<le> 2 ^ j" "j = 0 \<or> 2 ^ (j - 1) < unat bytes"
    using j unat_exp [of j] unat_exp [of "j - 1"] by (auto simp: word_le_nat_alt word_less_nat_alt)
  have "unat (a AND mask j) < 2 ^ j" for a :: u32
    by (simp add: take_bit_eq_mask [symmetric] unsigned_take_bit_eq)
  moreover have "a AND mask j = a" if "a < bytes" for a :: u32
    using that le(1) by (simp add: take_bit_eq_mask [symmetric] word_unat_eq_iff unsigned_take_bit_eq take_bit_nat_eq_self word_less_nat_alt)
  ultimately show ?thesis
    using j(1) le by (intro exI [of _ "s\<lparr>c_ram := (\<lambda>a. 0), ram_bytes := bytes, rammask := mask j\<rparr>"] exI [of _ j])
      (simp add: init_ram_def m)
qed

text \<open>Past 2 GB the power of two wraps to 0 and the loop never ends.\<close>

lemma init_ram_hangs:
  assumes "2 ^ 31 < bytes"
  shows "init_ram bytes s = None"
proof -
  have "\<not> (2 ^ 31 < b \<and> (p = 0 \<or> (\<exists>k<32. p = 2 ^ k)))" if "pow2_from b p = Some y" for b p y
  proof (rule pow2_from.raw_induct [OF _ that])
    fix f b p and y :: u32
    assume f: "\<And>b p y. f b p = Some y \<Longrightarrow> \<not> (2 ^ 31 < b \<and> (p = 0 \<or> (\<exists>k<32. p = 2 ^ k)))"
      and e: "(if p < b then f b (push_bit 1 p) else Some p) = Some y"
    show "\<not> (2 ^ 31 < b \<and> (p = 0 \<or> (\<exists>k<32. p = 2 ^ k)))"
    proof
      assume a: "2 ^ 31 < b \<and> (p = 0 \<or> (\<exists>k<32. p = 2 ^ k))"
      have "p \<le> 2 ^ 31"
        using a
      proof (elim conjE disjE exE)
        fix k assume k: "k < 32" "p = 2 ^ k"
        then have "(2 :: nat) ^ k \<le> 2 ^ 31"
          by (intro power_increasing) auto
        then show ?thesis
          using k unat_exp [of k] unat_exp [of 31] by (simp add: word_le_nat_alt)
      qed simp
      then have "p < b"
        using a le_less_trans by blast
      then have "f b (push_bit 1 p) = Some y"
        using e by simp
      moreover have "push_bit 1 p = 0 \<or> (\<exists>k<32. push_bit 1 p = 2 ^ k)"
        using a
      proof (elim conjE disjE exE)
        fix k assume "k < 32" "p = 2 ^ k"
        then show ?thesis
          by (cases "k = 31") (auto simp: push_bit_eq_mult intro!: exI [of _ "Suc k"])
      qed simp
      ultimately show False
        using f a by blast
    qed
  qed
  note hang = this
  have "pow2_from bytes 1 = None"
  proof (cases "pow2_from bytes 1")
    case (Some y)
    then have "\<not> (\<exists>k<32. (1 :: u32) = 2 ^ k)"
      using hang assms by blast
    moreover have "(1 :: u32) = 2 ^ 0" "(0 :: nat) < 32"
      by simp_all
    ultimately show ?thesis
      by blast
  qed simp
  then show ?thesis
    by (simp add: init_ram_def)
qed

section \<open>Reset\<close>

text \<open>The words of z486's reset state: EDX holds the signature, CS the reset vector, every segment is writable data of 64K.\<close>

definition reset_arch :: "u32 list" where
  "reset_arch = [0, 0, 0x303, 0, 0, 0, 0, 0, 0xFFF0, 2, 0x10, 0, 0, 0, 0, 0, 0, 0, 0x3FF] @
     [0, 0, 0x4930FFFF] @ [0xF000, 0xFFFF0000, 0x4930FFFF, 0, 0, 0x4930FFFF, 0, 0, 0x4930FFFF, 0, 0, 0x4930FFFF,
      0, 0, 0x4930FFFF, 0, 0, 0, 0, 0, 0] @ [0x37F, 0, 0xFFFF] @ replicate 24 0"

lemma eight: "replicate 8 x = [x, x, x, x, x, x, x, x]"
  by (simp add: eval_nat_numeral)

lemma twenty_four: "replicate 24 x = [x, x, x, x, x, x, x, x, x, x, x, x, x, x, x, x, x, x, x, x, x, x, x, x]"
  by (simp add: eval_nat_numeral)

lemma reset_fields:
  "p_regs (r_cpu (engine_reset e)) = [0, 0, 0x303, 0, 0, 0, 0, 0]" "p_pc (r_cpu (engine_reset e)) = 0xFFF0"
  "p_flags (r_cpu (engine_reset e)) = 2" "p_eflags (r_cpu (engine_reset e)) = 0" "p_dr (r_cpu (engine_reset e)) = [0, 0, 0, 0, 0, 0, 0, 0]"
  "p_gdt (r_cpu (engine_reset e)) = zero_seg" "p_ldt (r_cpu (engine_reset e)) = zero_seg" "p_tr (r_cpu (engine_reset e)) = zero_seg"
  "p_idt (r_cpu (engine_reset e)) = zero_seg\<lparr>sg_limit := 0x3FF\<rparr>" "p_cwd (r_cpu (engine_reset e)) = 0x37F"
  "p_swd (r_cpu (engine_reset e)) = 0" "p_tag (r_cpu (engine_reset e)) = 0xFFFF" "p_tos (r_cpu (engine_reset e)) = 0"
  "p_st (r_cpu (engine_reset e)) = replicate 8 (0, 0)" "r_cmp (engine_reset e) = reset_cmp (r_cmp e)"
  "p_segs (r_cpu (engine_reset e)) r = init_seg zero_seg (if r = CS then 0xF000 else 0) (if r = CS then 0xFFFF0000 else 0) 0xFFFF 0x93 0"
  by (simp_all add: engine_reset_def reset_x87_def reset_start_def reset_tables_def reset_segs_def clear_cpu_def eight)

lemma reset_seg_words:
  "seg_words (engine_reset e) (init_seg zero_seg sel base 0xFFFF 0x93 0) is_cs nullable = [ucast sel, base, 0x4930FFFF]"
  "seg_words (engine_reset e) zero_seg is_cs nullable = [0, 0, 0]"
proof -
  have "seg_attr (init_seg zero_seg sel base 0xFFFF 0x93 0) is_cs nullable False False = 0x4930FFFF"
      "seg_attr zero_seg is_cs nullable False False = 0"
    by (simp_all add: seg_attr_def init_seg_def zero_seg_def Let_def)
  then show "seg_words (engine_reset e) (init_seg zero_seg sel base 0xFFFF 0x93 0) is_cs nullable = [ucast sel, base, 0x4930FFFF]"
      "seg_words (engine_reset e) zero_seg is_cs nullable = [0, 0, 0]"
    by (simp_all add: seg_words_def reset_fields reset_cmp_def init_seg_def zero_seg_def)
qed

text \<open>
  C25: Whatever the engine was doing, a reset brings the architectural state z486 starts from, drops every access in flight and
  keeps RAM and the first error.
\<close>

theorem engine_reset_exact:
  assumes "rebuild (r_cpu (engine_reset e)) = p_flags (r_cpu (engine_reset e))"
  shows "cosim_arch rebuild tagof (engine_reset e) = reset_arch \<and>
    (\<forall>q\<in>{io_rd, dev_rd, exp_w, dut_w, exp_io, dut_io, stage_w, stage_io}. q_list (q (r_cmp (engine_reset e))) = []) \<and>
    c_ram (r_cmp (engine_reset e)) = c_ram (r_cmp e) \<and> c_err (r_cmp (engine_reset e)) = c_err (r_cmp e)"
proof -
  have segs: "arch_segs (engine_reset e) = [0, 0, 0x4930FFFF] @ [0xF000, 0xFFFF0000, 0x4930FFFF, 0, 0, 0x4930FFFF, 0, 0, 0x4930FFFF, 0, 0, 0x4930FFFF,
      0, 0, 0x4930FFFF, 0, 0, 0, 0, 0, 0]"
    by (simp add: arch_segs_def Let_def reset_fields reset_seg_words)
  have x87: "arch_x87 tagof (r_cpu (engine_reset e)\<lparr>p_flags := f\<rparr>) = [0x37F, 0, 0xFFFF] @ replicate 24 0" for f
    by (simp add: arch_x87_def tag_word_def Let_def reset_fields eight twenty_four)
  show ?thesis
    by (simp add: cosim_arch_def Let_def segs x87 assms reset_fields reset_arch_def reset_cmp_def zero_seg_def)
qed

definition sample_engine86 :: engine86 where
  "sample_engine86 = \<lparr>r_cpu = sample_cpu, r_cmp = sample_cmp, r_last_fault = 14, r_udf = 0x10, r_was_hlt = True\<rparr>"

theorem engine_reset_exact_witness:
  "cosim_arch p_flags (\<lambda>v. 0) (engine_reset sample_engine86) ! 9 = 2 \<and> length (cosim_arch p_flags (\<lambda>v. 0) (engine_reset sample_engine86)) = 70"
  using engine_reset_exact [where rebuild = p_flags and e = sample_engine86 and tagof = "\<lambda>v. 0"] by (simp add: reset_arch_def)

theorem init_ram_exact_witness:
  "\<exists>s'. init_ram 0x1100000 sample_cmp = Some s' \<and> (0x10FFFFF :: u32) AND rammask s' = 0x10FFFFF"
  using init_ram_exact [where bytes = "0x1100000" and s = sample_cmp] by auto

section \<open>Faults in real mode\<close>

text \<open>The vector a fault ends in: its own, the double fault's when the table is too short for it, or none.\<close>

definition real_vector :: "nat \<Rightarrow> cpu86 \<Rightarrow> nat option" where
  "real_vector num c = (if \<not> beyond_table num c then Some num else if beyond_table 8 c then None else Some 8)"

lemma set_rf_off: "set_rf False (set_rf on c) = set_rf False c" "set_rf False \<circ> set_rf on = set_rf False"
proof -
  have "(w OR RF_FLAG) AND NOT RF_FLAG = w AND NOT RF_FLAG" for w
    by (rule bit_word_eqI) (auto simp: bit_and_iff bit_or_iff bit_not_iff)
  then show "set_rf False (set_rf on c) = set_rf False c" for c :: cpu86
    by (simp add: set_rf_def and.assoc)
  then show "set_rf False \<circ> set_rf on = set_rf False"
    by (simp add: fun_eq_iff)
qed


text \<open>Flat memory in real mode.\<close>

definition flat_ops :: "(u32 \<Rightarrow> u8) int_ops" where
  "flat_ops = \<lparr>m_writew = (\<lambda>b a v (c, m). (c, m(b + a := ucast v, b + a + 1 := ucast (drop_bit 8 v)))),
     m_readw = (\<lambda>b a (c, m). (ucast (m (b + a)) OR push_bit 8 (ucast (m (b + a + 1))), c, m)),
     m_loadcs = (\<lambda>sel (c, m). (c\<lparr>p_segs := (p_segs c)(CS := (p_segs c CS)\<lparr>sg_seg := sel, sg_base := push_bit 4 (ucast sel)\<rparr>)\<rparr>, m)),
     m_pmodeint = (\<lambda>num soft st. st), m_rebuild = p_flags, m_pe = (\<lambda>m. False), m_fail = (\<lambda>num m. m)\<rparr>"


end
