(* ===== verification/Cosim_Ports.thy ===== *)
theory Cosim_Ports
  imports Cosim_Memory
begin

text \<open>
  The rest of the memory and port interface \<open>cosim/stubs.c\<close> gives 86Box: the log of port accesses without the co-simulation's
  hooks, the accesses through them, and the page pointer instruction fetches go through.
\<close>

section \<open>Port accesses\<close>

record io_access =
  io_port :: u16
  io_val :: u32
  io_size :: nat
  io_is_write :: bool

definition MAX_IO_LOG :: nat where "MAX_IO_LOG = 256"

text \<open>The hooks of the co-simulation, when they are set, and the log.\<close>

record 'h ports =
  iss_io_in_hook :: "(u16 \<Rightarrow> nat \<Rightarrow> 'h \<Rightarrow> u32 \<times> 'h) option"
  iss_io_out_hook :: "(u16 \<Rightarrow> nat \<Rightarrow> u32 \<Rightarrow> 'h \<Rightarrow> 'h) option"
  io_log :: "io_access list"
  io_host :: 'h

definition io_log_reset :: "'h ports \<Rightarrow> 'h ports" where
  "io_log_reset p = p\<lparr>io_log := []\<rparr>"

definition io_log_add :: "u16 \<Rightarrow> u32 \<Rightarrow> nat \<Rightarrow> bool \<Rightarrow> 'h ports \<Rightarrow> 'h ports" where
  "io_log_add port val sz wr p = (if length (io_log p) < MAX_IO_LOG
     then p\<lparr>io_log := io_log p @ [\<lparr>io_port = port, io_val = val, io_size = sz, io_is_write = wr\<rparr>]\<rparr> else p)"

text \<open>The bodies of \<open>inb\<close>, \<open>inw\<close> and \<open>inl\<close> before the cast to their width, and of the three writes.\<close>

definition port_in :: "nat \<Rightarrow> u32 \<Rightarrow> u16 \<Rightarrow> 'h ports \<Rightarrow> u32 \<times> 'h ports" where
  "port_in sz ones port p = (case iss_io_in_hook p of
     Some h \<Rightarrow> (case h port sz (io_host p) of (v, s) \<Rightarrow> (v, p\<lparr>io_host := s\<rparr>))
   | None \<Rightarrow> (ones, io_log_add port ones sz False p))"

definition port_out :: "nat \<Rightarrow> u16 \<Rightarrow> u32 \<Rightarrow> 'h ports \<Rightarrow> 'h ports" where
  "port_out sz port val p = (case iss_io_out_hook p of
     Some h \<Rightarrow> p\<lparr>io_host := h port sz val (io_host p)\<rparr>
   | None \<Rightarrow> io_log_add port val sz True p)"

definition inb :: "u16 \<Rightarrow> 'h ports \<Rightarrow> u8 \<times> 'h ports" where
  "inb port p = apfst ucast (port_in 1 0xFF port p)"

definition inw :: "u16 \<Rightarrow> 'h ports \<Rightarrow> u16 \<times> 'h ports" where
  "inw port p = apfst ucast (port_in 2 0xFFFF port p)"

definition inl :: "u16 \<Rightarrow> 'h ports \<Rightarrow> u32 \<times> 'h ports" where
  "inl port p = port_in 4 0xFFFFFFFF port p"

definition outb :: "u16 \<Rightarrow> u8 \<Rightarrow> 'h ports \<Rightarrow> 'h ports" where
  "outb port val p = port_out 1 port (ucast val) p"

definition outw :: "u16 \<Rightarrow> u16 \<Rightarrow> 'h ports \<Rightarrow> 'h ports" where
  "outw port val p = port_out 2 port (ucast val) p"

definition outl :: "u16 \<Rightarrow> u32 \<Rightarrow> 'h ports \<Rightarrow> 'h ports" where
  "outl port val p = port_out 4 port val p"

section \<open>The log is the first 256 accesses\<close>

datatype port_op = Inb u16 | Inw u16 | Inl u16 | Outb u16 u8 | Outw u16 u16 | Outl u16 u32

definition port_do :: "'h ports \<Rightarrow> port_op \<Rightarrow> 'h ports" where
  "port_do p a = (case a of Inb q \<Rightarrow> snd (inb q p) | Inw q \<Rightarrow> snd (inw q p) | Inl q \<Rightarrow> snd (inl q p)
     | Outb q v \<Rightarrow> outb q v p | Outw q v \<Rightarrow> outw q v p | Outl q v \<Rightarrow> outl q v p)"

definition access_of :: "port_op \<Rightarrow> io_access" where
  "access_of a = (case a of
     Inb q \<Rightarrow> \<lparr>io_port = q, io_val = 0xFF, io_size = 1, io_is_write = False\<rparr>
   | Inw q \<Rightarrow> \<lparr>io_port = q, io_val = 0xFFFF, io_size = 2, io_is_write = False\<rparr>
   | Inl q \<Rightarrow> \<lparr>io_port = q, io_val = 0xFFFFFFFF, io_size = 4, io_is_write = False\<rparr>
   | Outb q v \<Rightarrow> \<lparr>io_port = q, io_val = ucast v, io_size = 1, io_is_write = True\<rparr>
   | Outw q v \<Rightarrow> \<lparr>io_port = q, io_val = ucast v, io_size = 2, io_is_write = True\<rparr>
   | Outl q v \<Rightarrow> \<lparr>io_port = q, io_val = v, io_size = 4, io_is_write = True\<rparr>)"

definition unhooked :: "'h ports \<Rightarrow> bool" where
  "unhooked p \<longleftrightarrow> iss_io_in_hook p = None \<and> iss_io_out_hook p = None"

lemma port_do_log:
  assumes "unhooked p" and "length (io_log p) \<le> MAX_IO_LOG"
  shows "unhooked (port_do p a) \<and> io_log (port_do p a) = take MAX_IO_LOG (io_log p @ [access_of a])"
  using assms
  by (cases a) (auto simp: unhooked_def port_do_def access_of_def inb_def inw_def inl_def outb_def outw_def outl_def port_in_def
    port_out_def io_log_add_def)

text \<open>Without hooks the log holds exactly the first 256 accesses, in order, and no more.\<close>

theorem io_log_exact:
  assumes "unhooked p" and "length (io_log p) \<le> MAX_IO_LOG"
  shows "io_log (foldl port_do p ops) = take MAX_IO_LOG (io_log p @ map access_of ops)"
  using assms
proof (induction ops arbitrary: p)
  case (Cons a ops)
  then have "io_log (foldl port_do (port_do p a) ops) = take MAX_IO_LOG (io_log (port_do p a) @ map access_of ops)"
    using port_do_log [OF Cons.prems, of a] by (intro Cons.IH) simp_all
  also have "\<dots> = take MAX_IO_LOG (take MAX_IO_LOG (io_log p @ [access_of a]) @ map access_of ops)"
    using port_do_log [OF Cons.prems, of a] by simp
  also have "\<dots> = take MAX_IO_LOG (io_log p @ map access_of (a # ops))"
    by (cases "length (io_log p) < MAX_IO_LOG") (use Cons.prems in simp_all)
  finally show ?case
    by simp
qed simp

theorem io_log_exact_witness:
  "length (io_log (foldl port_do \<lparr>iss_io_in_hook = None, iss_io_out_hook = None, io_log = [], io_host = ()\<rparr>
     (replicate 300 (Inb 0x60)))) = 256"
proof -
  let ?p = "\<lparr>iss_io_in_hook = None, iss_io_out_hook = None, io_log = [], io_host = ()\<rparr>"
  have "unhooked ?p" "length (io_log ?p) \<le> MAX_IO_LOG"
    by (simp_all add: unhooked_def)
  then show ?thesis
    using io_log_exact [where p = ?p and ops = "replicate 300 (Inb 0x60)"] by (simp add: MAX_IO_LOG_def)
qed

section \<open>Port accesses of the co-simulation\<close>

definition engine_ports :: "bool \<Rightarrow> cmp \<Rightarrow> cmp ports" where
  "engine_ports pending s = \<lparr>iss_io_in_hook = Some io_in, iss_io_out_hook = Some (io_out pending), io_log = [], io_host = s\<rparr>"

text \<open>The bytes z486 returned for the next \<open>n\<close> reads from \<open>port\<close> on are at hand.\<close>

definition returned :: "u16 \<Rightarrow> bytes \<Rightarrow> cmp \<Rightarrow> bool" where
  "returned port vs s \<longleftrightarrow> q_wf (io_rd s) \<and> q_head (io_rd s) + io_cur s + length vs \<le> q_tail (io_rd s) \<and>
     (\<forall>k<length vs. let e = q_list (io_rd s) ! (io_cur s + k) in e_val e = vs ! k \<and> e_addr e = ucast (port + word_of_nat k))"

lemma io_in_from_returned:
  assumes "q_wf (io_rd s)" and "q_head (io_rd s) + io_cur s + length vs \<le> q_tail (io_rd s)"
    and "\<And>k. k < length vs \<Longrightarrow> e_val (q_list (io_rd s) ! (io_cur s + k)) = vs ! k \<and>
      e_addr (q_list (io_rd s) ! (io_cur s + k)) = ucast (port + word_of_nat (b + k))"
  shows "io_in_from (length vs) b port val s = (val OR push_bit (8 * b) (le_word vs), s\<lparr>io_cur := io_cur s + length vs\<rparr>)"
  using assms
proof (induction vs arbitrary: b val s)
  case (Cons v vs)
  let ?e = "q_v (io_rd s) ! (q_head (io_rd s) + io_cur s)"
  have e: "e_val ?e = v" "e_addr ?e = ucast (port + word_of_nat b)"
    using Cons.prems(3) [of 0] q_list_nth [OF Cons.prems(1), of "io_cur s"] Cons.prems(2) by simp_all
  have "io_in_from (length vs) (b + 1) port (val OR push_bit (8 * b) (ucast v)) (s\<lparr>io_cur := io_cur s + 1\<rparr>) =
      (val OR push_bit (8 * b) (ucast v) OR push_bit (8 * (b + 1)) (le_word vs), s\<lparr>io_cur := io_cur s + 1 + length vs\<rparr>)"
  proof (rule trans [OF Cons.IH])
    fix k assume "k < length vs"
    then show "e_val (q_list (io_rd (s\<lparr>io_cur := io_cur s + 1\<rparr>)) ! (io_cur (s\<lparr>io_cur := io_cur s + 1\<rparr>) + k)) = vs ! k \<and>
        e_addr (q_list (io_rd (s\<lparr>io_cur := io_cur s + 1\<rparr>)) ! (io_cur (s\<lparr>io_cur := io_cur s + 1\<rparr>) + k)) =
        ucast (port + word_of_nat (b + 1 + k))"
      using Cons.prems(3) [of "Suc k"] by (simp add: ac_simps)
  qed (use Cons.prems(1,2) in \<open>simp_all add: or.assoc\<close>)
  then show ?case
    using Cons.prems(2) e by (simp add: Let_def push_bit_or or.assoc ac_simps)
qed simp

text \<open>
  Through the engine's hooks a port read takes exactly the bytes z486 returned for it, low byte first, consumes them, reports
  nothing and logs nothing; the widths of \<open>inb\<close>, \<open>inw\<close> and \<open>inl\<close> are the cases of one, two and four bytes.
\<close>

theorem port_read_exact:
  assumes "returned port vs s" and "length vs = n"
  shows "port_in n ones port (engine_ports pending s) =
    (le_word vs, engine_ports pending (s\<lparr>io_cur := io_cur s + n\<rparr>))"
proof -
  have "io_in port n s = (le_word vs, s\<lparr>io_cur := io_cur s + n\<rparr>)"
    using assms io_in_from_returned [of s vs port 0 0] by (simp add: io_in_def returned_def Let_def)
  then show ?thesis
    by (simp add: port_in_def engine_ports_def)
qed

definition sample_reads :: q_t where
  "sample_reads = q_push False (q_push False sample_q 0x1F0 0x34 0) 0x1F1 0x12 0"

lemma sample_reads: "q_wf sample_reads" "map e_val (q_list sample_reads) = [0x34, 0x12]"
    "map e_addr (q_list sample_reads) = [0x1F0, 0x1F1]"
proof -
  have "q_wf sample_q" "q_list sample_q = []"
    by (simp_all add: sample_q_def q_wf_def q_list_def)
  then show "q_wf sample_reads" "map e_val (q_list sample_reads) = [0x34, 0x12]" "map e_addr (q_list sample_reads) = [0x1F0, 0x1F1]"
    by (simp_all add: sample_reads_def)
qed

theorem port_read_exact_witness:
  "port_in 2 0xFFFF 0x1F0 (engine_ports False (sample_cmp\<lparr>io_rd := sample_reads\<rparr>)) =
     (0x1234, engine_ports False (sample_cmp\<lparr>io_rd := sample_reads, io_cur := 2\<rparr>))"
proof -
  have l: "length (q_list sample_reads) = 2"
    using arg_cong [OF sample_reads(2), of length] by simp
  have v: "e_val (q_list sample_reads ! k) = [0x34, 0x12] ! k" "e_addr (q_list sample_reads ! k) = [0x1F0, 0x1F1] ! k" if "k < 2" for k
    using that l arg_cong [OF sample_reads(2), of "\<lambda>xs. xs ! k"] arg_cong [OF sample_reads(3), of "\<lambda>xs. xs ! k"]
    by (simp_all only: nth_map)
  have "q_tail sample_reads - q_head sample_reads = 2"
    using length_q_list [OF sample_reads(1)] l by simp
  moreover have "[0x1F0, 0x1F1] ! k = (ucast (0x1F0 + word_of_nat k :: u16) :: u32)" if "k < 2" for k :: nat
  proof -
    from that consider "k = 0" | "k = 1"
      by linarith
    then show ?thesis
      by cases simp_all
  qed
  moreover have "io_rd (sample_cmp\<lparr>io_rd := sample_reads\<rparr>) = sample_reads" "io_cur (sample_cmp\<lparr>io_rd := sample_reads\<rparr>) = 0"
    by (simp_all add: sample_cmp_def)
  moreover have "length [0x34 :: u8, 0x12] = 2"
    by simp
  ultimately have "returned 0x1F0 [0x34, 0x12] (sample_cmp\<lparr>io_rd := sample_reads\<rparr>)"
    using sample_reads(1) v unfolding returned_def by (simp only: add_0 Let_def simp_thms) simp
  from port_read_exact [OF this, where n = 2 and ones = "0xFFFF" and pending = False] show ?thesis
    by (simp add: sample_cmp_def numeral_2_eq_2 [symmetric])
qed

section \<open>The page pointer of instruction fetches\<close>

text \<open>\<open>getpccache\<close>: the pointer, relative to \<open>ram\<close>, that is indexed with linear addresses of the page.\<close>

definition getpccache :: "u32 \<Rightarrow> cmp \<Rightarrow> int \<times> cmp" where
  "getpccache a s =
     (let page = a AND NOT 0xFFF; (r, t) = xl page False (s\<lparr>fetching := True\<rparr>); t = t\<lparr>fetching := False\<rparr>
      in case r of None \<Rightarrow> (0, t) | Some p \<Rightarrow> (uint (p AND rammask s) - uint page, t))"

lemma same_page_bits: "drop_bit 12 x = drop_bit 12 y \<longleftrightarrow> (\<forall>n\<ge>12. bit x n = bit y n)" for x y :: u32
proof
  assume d: "drop_bit 12 x = drop_bit 12 y"
  show "\<forall>n\<ge>12. bit x n = bit y n"
  proof (intro allI impI)
    fix n :: nat assume "12 \<le> n"
    then show "bit x n = bit y n"
      using arg_cong [OF d, of "\<lambda>w. bit w (n - 12)"] by (simp add: bit_drop_bit_eq)
  qed
qed (rule bit_word_eqI, simp add: bit_drop_bit_eq)

lemma in_bios_alias: "BIOS_ALIAS \<le> p \<longleftrightarrow> drop_bit 18 p = 0x3FFF"
proof -
  have "unat (drop_bit 18 p) = unat p div 2 ^ 18"
    by (simp only: unat_drop_bit_eq) (simp add: drop_bit_eq_div)
  then have "drop_bit 18 p = 0x3FFF \<longleftrightarrow> unat p div 2 ^ 18 = 0x3FFF"
    by (simp only: word_unat_eq_iff) simp
  moreover have "unat p < 2 ^ 32"
    using unsigned_less [of p] by simp
  ultimately show ?thesis
    by (auto simp: BIOS_ALIAS_def word_le_nat_alt)
qed

lemma platform_bits:
  "bit (platform_phys a20 x) n \<longleftrightarrow> n < 32 \<and>
    (let p = (if a20 then x else x AND NOT 0x00100000)
     in if drop_bit 18 p = 0x3FFF then 18 \<le> n \<and> n < 24 \<or> n < 18 \<and> bit p n else bit p n)"
proof -
  define p where "p = (if a20 then x else x AND NOT 0x00100000)"
  have m: "BIOS_MIRROR = push_bit 18 (mask 6)" "(0x3FFFF :: u32) = mask 18"
    by (simp_all add: BIOS_MIRROR_def mask_eq_exp_minus_1 push_bit_eq_mult)
  have "BIOS_MIRROR + (p AND 0x3FFFF) = BIOS_MIRROR OR (p AND 0x3FFFF)"
    unfolding m by (rule disjunctive_add_eq_or, rule bit_word_eqI) (auto simp: bit_and_iff bit_push_bit_iff bit_mask_iff)
  then have "bit (BIOS_MIRROR + (p AND 0x3FFFF)) n \<longleftrightarrow> n < 32 \<and> (18 \<le> n \<and> n < 24 \<or> n < 18 \<and> bit p n)"
    unfolding m by (auto simp: bit_or_iff bit_and_iff bit_push_bit_iff bit_mask_iff)
  then show ?thesis
    using bit_imp_le_length [of p n] by (auto simp: platform_phys_def Let_def p_def [symmetric] in_bios_alias)
qed

lemma platform_page:
  assumes "drop_bit 12 x = drop_bit 12 y"
  shows "drop_bit 12 (platform_phys a20 x) = drop_bit 12 (platform_phys a20 y)" and "take_bit 12 (platform_phys a20 x) = take_bit 12 x"
proof -
  define g where "g = (\<lambda>x :: u32. x AND NOT 0x00100000)"
  have "(0x00100000 :: u32) = push_bit 20 1"
    by (simp add: push_bit_eq_mult)
  then have b: "bit (g x) n \<longleftrightarrow> bit x n \<and> n \<noteq> 20" for x n
    using bit_imp_le_length [of x n]
    by (auto simp only: g_def bit_and_iff bit_not_iff bit_push_bit_iff bit_1_iff possible_bit_word)
  have pb: "bit (platform_phys a20 x) n \<longleftrightarrow> n < 32 \<and>
      (if drop_bit 18 (if a20 then x else g x) = 0x3FFF then 18 \<le> n \<and> n < 24 \<or> n < 18 \<and> bit (if a20 then x else g x) n
       else bit (if a20 then x else g x) n)" for x n
    by (simp only: platform_bits g_def Let_def)
  have p: "bit (if a20 then x else g x) n = bit (if a20 then y else g y) n" if "12 \<le> n" for n
    using assms that by (simp add: same_page_bits b)
  have d: "drop_bit 18 (if a20 then x else g x) = drop_bit 18 (if a20 then y else g y)"
  proof (rule bit_word_eqI)
    fix n show "bit (drop_bit 18 (if a20 then x else g x)) n = bit (drop_bit 18 (if a20 then y else g y)) n"
      using p [of "18 + n"] by (simp only: bit_drop_bit_eq comp_def)
  qed
  show "drop_bit 12 (platform_phys a20 x) = drop_bit 12 (platform_phys a20 y)"
    unfolding same_page_bits pb d
  proof (intro allI impI)
    fix n :: nat assume "12 \<le> n"
    then show "(n < 32 \<and> (if drop_bit 18 (if a20 then y else g y) = 0x3FFF
          then 18 \<le> n \<and> n < 24 \<or> n < 18 \<and> bit (if a20 then x else g x) n else bit (if a20 then x else g x) n)) =
        (n < 32 \<and> (if drop_bit 18 (if a20 then y else g y) = 0x3FFF
          then 18 \<le> n \<and> n < 24 \<or> n < 18 \<and> bit (if a20 then y else g y) n else bit (if a20 then y else g y) n))"
      by (simp only: p)
  qed
  show "take_bit 12 (platform_phys a20 x) = take_bit 12 x"
    by (rule bit_word_eqI) (auto simp: bit_take_bit_iff pb b)
qed

text \<open>An address that translates has its whole page translate, and by the same page.\<close>

lemma xl_in_page:
  assumes n: "abrt s = Fault_none" and d: "drop_bit 12 b = drop_bit 12 a" and a: "fst (xl a wr s) = Some p"
  shows "\<exists>q. xl b wr s = (Some q, s) \<and> drop_bit 12 q = drop_bit 12 p \<and> take_bit 12 q = take_bit 12 b"
proof -
  have ok: "\<not> bit (cr0 s) 31 \<or> page_allows (pde_at a s) (pte_at a s) (user_mode s) (bit (cr0 s) 16) wr"
    using xl_verdict(2) [OF n] a by fastforce
  then have ok': "\<not> bit (cr0 s) 31 \<or> page_allows (pde_at b s) (pte_at b s) (user_mode s) (bit (cr0 s) 16) wr"
    by (simp add: page_entries [OF d])
  have p: "p = fst (walk a wr False s)"
    using xl_verdict(1) [OF n ok] a by simp
  have x: "xl b wr s = (Some (fst (walk b wr False s)), s)"
    using xl_verdict(1) [OF n ok'] by simp
  define t where "t = (\<lambda>c. if \<not> bit (cr0 s) 31 then c else (pte_at a s AND NOT 0xFFF) OR (c AND 0xFFF))"
  have w: "fst (walk a wr False s) = platform_phys (a20_on s) (t a)" "fst (walk b wr False s) = platform_phys (a20_on s) (t b)"
    using ok ok' page_entries [OF d] by (auto simp: walk_verdict t_def)
  have mask12: "(0xFFF :: u32) = mask 12"
    by (simp add: mask_eq_exp_minus_1)
  have t1: "drop_bit 12 (t b) = drop_bit 12 (t a)"
    using d unfolding same_page_bits t_def mask12 by (auto simp: bit_or_iff bit_and_iff bit_not_iff bit_mask_iff)
  have t2: "take_bit 12 (t b) = take_bit 12 b"
    unfolding t_def mask12
    by (rule bit_word_eqI) (auto simp: bit_or_iff bit_and_iff bit_not_iff bit_mask_iff bit_take_bit_iff)
  show ?thesis
    using platform_page [OF t1, of "a20_on s"] t2 by (simp add: x p w)
qed

lemma fetching_xl: "fst (xl a wr (s\<lparr>fetching := f\<rparr>)) = fst (xl a wr s)"
  by (cases "abrt s = Fault_none")
    (simp_all add: xl_def walk_verdict user_mode_def pde_at_def pte_at_def ram32_def ram_at_def page_fault_def)

lemma page_sum: "drop_bit 12 w = drop_bit 12 u \<Longrightarrow> take_bit 12 u = 0 \<Longrightarrow> uint w = uint u + uint (take_bit 12 w)" for w u :: u32
proof -
  assume d: "drop_bit 12 w = drop_bit 12 u" and z: "take_bit 12 u = 0"
  have "unat w div 2 ^ 12 = unat u div 2 ^ 12"
    using arg_cong [OF d, of unat] by (simp only: unat_drop_bit_eq) (simp add: drop_bit_eq_div)
  moreover have "unat u mod 2 ^ 12 = 0"
    using arg_cong [OF z, of unat] by (simp only: unsigned_take_bit_eq unsigned_0) (simp add: take_bit_eq_mod)
  moreover have "unat (take_bit 12 w) = unat w mod 2 ^ 12"
    by (simp only: unsigned_take_bit_eq) (simp add: take_bit_eq_mod)
  ultimately have "unat w = unat u + unat (take_bit 12 w)"
    by (metis add.right_neutral div_mult_mod_eq)
  then show "uint w = uint u + uint (take_bit 12 w)"
    by (simp only: uint_nat of_nat_add)
qed

text \<open>
  C24: The page pointer of instruction fetches reads the byte of RAM a data read of the same address reads: for every address of
  the page, pointer plus address is the place its own translation designates.
\<close>

theorem code_pointer_exact:
  assumes n: "abrt s = Fault_none" and m: "rammask s = mask j" "12 \<le> j" and f: "fst (xl a False s) \<noteq> None"
    and b: "drop_bit 12 b = drop_bit 12 a"
  shows "\<exists>q. xl b False s = (Some q, s) \<and> fst (getpccache a s) + uint b = uint (q AND rammask s)"
proof -
  define page where "page = a AND NOT 0xFFF"
  have mask12: "(0xFFF :: u32) = mask 12"
    by (simp add: mask_eq_exp_minus_1)
  have pg: "drop_bit 12 page = drop_bit 12 a" "take_bit 12 page = 0"
  proof -
    show "drop_bit 12 page = drop_bit 12 a"
      unfolding page_def mask12 same_page_bits using bit_imp_le_length [of a] by (auto simp: bit_and_iff bit_not_iff bit_mask_iff)
    show "take_bit 12 page = 0"
      unfolding page_def mask12 by (rule bit_word_eqI) (auto simp: bit_and_iff bit_not_iff bit_mask_iff bit_take_bit_iff)
  qed
  obtain p where p: "xl page False s = (Some p, s)" "take_bit 12 p = 0"
    using xl_in_page [OF n pg(1)] f pg(2) by fastforce
  obtain q where q: "xl b False s = (Some q, s)" "drop_bit 12 q = drop_bit 12 p" "take_bit 12 q = take_bit 12 b"
    using xl_in_page [OF n, of b page False p] b pg(1) p(1) by auto
  have g: "fst (getpccache a s) = uint (p AND rammask s) - uint page"
  proof -
    obtain r t where x: "xl page False (s\<lparr>fetching := True\<rparr>) = (r, t)"
      by fastforce
    then have "r = Some p"
      using fetching_xl [of page False True s] p(1) by simp
    then show ?thesis
      unfolding getpccache_def page_def [symmetric] Let_def by (simp only: x prod.case option.case fst_conv)
  qed
  have "drop_bit 12 (q AND mask j) = drop_bit 12 (p AND mask j)"
    using q(2) unfolding same_page_bits by (simp add: bit_and_iff)
  moreover have "take_bit 12 (p AND mask j) = 0" "take_bit 12 (q AND mask j) = take_bit 12 b"
    using p(2) q(3) m(2) by (simp_all add: take_bit_and min_def flip: take_bit_eq_mask)
  ultimately have "uint (q AND mask j) = uint (p AND mask j) + uint (take_bit 12 b)"
    using page_sum [of "q AND mask j" "p AND mask j"] by simp
  moreover have "uint b = uint page + uint (take_bit 12 b)"
    using page_sum [of b page] b pg by simp
  ultimately show ?thesis
    using q(1) by (simp add: g m(1))
qed

theorem code_pointer_exact_witness:
  "fst (getpccache 0x7C10 sample_cmp) + uint (0x7C05 :: u32) = 0x7C05"
proof -
  have t: "xl a False sample_cmp = (Some (platform_phys True a), sample_cmp)" for a
    by (simp add: xl_def walk_def sample_cmp_def)
  have "rammask sample_cmp = mask 24" "abrt sample_cmp = Fault_none" "drop_bit 12 (0x7C05 :: u32) = drop_bit 12 0x7C10"
    by (simp_all add: sample_cmp_def mask_eq_exp_minus_1)
  then obtain q where "xl 0x7C05 False sample_cmp = (Some q, sample_cmp)"
      "fst (getpccache 0x7C10 sample_cmp) + uint (0x7C05 :: u32) = uint (q AND rammask sample_cmp)"
    using code_pointer_exact [of sample_cmp 24 "0x7C10" "0x7C05"] t by auto
  moreover from this have "q = 0x7C05"
    using t [of "0x7C05"] by (simp add: platform_phys_def BIOS_ALIAS_def Let_def)
  ultimately show ?thesis
    by (simp add: sample_cmp_def)
qed

end
