(* ===== verification/Cosim_Checkpoint.thy ===== *)
theory Cosim_Checkpoint
  imports Cosim_Host Cosim_Queue
begin

text \<open>
  The checkpoint of a co-simulation: \<open>save_ex\<close> and \<open>load_ex\<close> of \<open>cosim86.c\<close> (with and without RAM), wrapped by \<open>host_write\<close> and
  \<open>host_read\<close> of \<open>cosim_host.cpp\<close>. A load that fails in the middle ends in an error; what it leaves of the loading program is
  not modelled, and neither are write errors of the file system.
\<close>

section \<open>Reading a file\<close>

text \<open>
  \<open>rd\<close> of \<open>cosim86.c\<close> and \<open>get\<close> of \<open>cosim_host.cpp\<close>: the value and what is left of the file, or \<open>None\<close> for a short read,
  which ends the load with an error.
\<close>

type_synonym 'a reader = "bytes \<Rightarrow> ('a \<times> bytes) option"

definition rd_done :: "'a \<Rightarrow> 'a reader" where
  "rd_done x bs = Some (x, bs)"

definition rd_then :: "'a reader \<Rightarrow> ('a \<Rightarrow> 'b reader) \<Rightarrow> 'b reader" where
  "rd_then r k bs = (case r bs of None \<Rightarrow> None | Some (x, rest) \<Rightarrow> k x rest)"

definition rd_bytes :: "nat \<Rightarrow> bytes reader" where
  "rd_bytes n bs = (if n \<le> length bs then Some (take n bs, drop n bs) else None)"

definition rd_map :: "('a \<Rightarrow> 'b) \<Rightarrow> 'a reader \<Rightarrow> 'b reader" where
  "rd_map f r = rd_then r (\<lambda>x. rd_done (f x))"

definition wr_word :: "'a::len word \<Rightarrow> bytes" where
  "wr_word w = le_bytes (LENGTH('a) div 8) w"

definition rd_word :: "'a::len word reader" where
  "rd_word = rd_map le_word (rd_bytes (LENGTH('a) div 8))"

definition wr_bool :: "bool \<Rightarrow> bytes" where
  "wr_bool b = [if b then 1 else 0]"

definition rd_bool :: "bool reader" where
  "rd_bool = rd_map (\<lambda>bs. bs \<noteq> [0]) (rd_bytes 1)"

primrec rd_many :: "nat \<Rightarrow> 'a reader \<Rightarrow> 'a list reader" where
  "rd_many 0 r = rd_done []"
| "rd_many (Suc n) r = rd_then r (\<lambda>x. rd_then (rd_many n r) (\<lambda>xs. rd_done (x # xs)))"

text \<open>
  A reader is exact for what was written when it takes just that from any longer file and refuses every shorter one.
\<close>

definition exact :: "'a reader \<Rightarrow> bytes \<Rightarrow> 'a \<Rightarrow> bool" where
  "exact r bs x \<longleftrightarrow> (\<forall>rest. r (bs @ rest) = Some (x, rest)) \<and> (\<forall>n<length bs. r (take n bs) = None)"

lemma exact_done: "exact (rd_done x) [] x"
  by (simp add: exact_def rd_done_def)

lemma exact_doneI: "x = y \<Longrightarrow> exact (rd_done x) [] y"
  by (simp add: exact_done)

lemma exact_then:
  assumes "exact r bs x" and "exact (k x) cs y"
  shows "exact (rd_then r k) (bs @ cs) y"
  unfolding exact_def
proof (intro conjI allI impI)
  show "rd_then r k ((bs @ cs) @ rest) = Some (y, rest)" for rest
    using assms by (simp add: exact_def rd_then_def)
next
  fix n assume "n < length (bs @ cs)"
  then show "rd_then r k (take n (bs @ cs)) = None"
    using assms by (cases "n < length bs") (simp_all add: exact_def rd_then_def)
qed

lemma exact_thenI: "exact r bs x \<Longrightarrow> exact (k x) cs y \<Longrightarrow> ds = bs @ cs \<Longrightarrow> exact (rd_then r k) ds y"
  by (simp add: exact_then)

lemma exact_map: "exact r bs x \<Longrightarrow> y = f x \<Longrightarrow> exact (rd_map f r) bs y"
  using exact_then [OF _ exact_done, of r bs x f] by (simp add: rd_map_def)

lemma exact_bytes: "n = length bs \<Longrightarrow> exact (rd_bytes n) bs bs"
  by (simp add: exact_def rd_bytes_def)

lemma exact_word: "LENGTH('a) mod 8 = 0 \<Longrightarrow> exact rd_word (wr_word w) (w :: 'a::len word)"
  unfolding rd_word_def wr_word_def by (rule exact_map, rule exact_bytes) auto

lemma exact_words: "exact rd_word (wr_word w8) (w8 :: u8)" "exact rd_word (wr_word w16) (w16 :: u16)"
    "exact rd_word (wr_word w32) (w32 :: u32)" "exact rd_word (wr_word w64) (w64 :: u64)"
  by (rule exact_word, simp)+

lemma exact_bool: "exact rd_bool (wr_bool b) b"
  unfolding rd_bool_def wr_bool_def by (rule exact_map, rule exact_bytes) auto

text \<open>\<open>put_dq\<close> and \<open>get_dq\<close>: a queue is its length and its elements.\<close>

definition put_dq :: "('a \<Rightarrow> bytes) \<Rightarrow> 'a list \<Rightarrow> bytes" where
  "put_dq w xs = wr_word (word_of_nat (length xs) :: u64) @ concat (map w xs)"

definition get_dq :: "'a reader \<Rightarrow> 'a list reader" where
  "get_dq r = rd_then rd_word (\<lambda>n :: u64. rd_many (unat n) r)"

text \<open>
  What the files rely on for each type of object: its reader is exact for what its writer wrote. Arrays and queues of such
  objects follow.
\<close>

locale file_codec =
  fixes r :: "'a reader" and w :: "'a \<Rightarrow> bytes" and valid :: "'a \<Rightarrow> bool"
  assumes element: "valid x \<Longrightarrow> exact r (w x) x"
begin

lemma many: "n = length xs \<Longrightarrow> list_all valid xs \<Longrightarrow> exact (rd_many n r) (concat (map w xs)) xs"
proof (induction xs arbitrary: n)
  case (Cons x xs)
  then show ?case
    using exact_then [OF element [of x] exact_then [OF Cons.IH [of "length xs"] exact_done]] by simp
qed (simp add: exact_done)

lemma deque: "length xs < 2 ^ 64 \<Longrightarrow> list_all valid xs \<Longrightarrow> exact (get_dq r) (put_dq w xs) xs"
  unfolding get_dq_def put_dq_def by (intro exact_then [OF exact_words(4)] many) (simp_all add: unat_word_of_nat_small)

end

interpretation byte_codec: file_codec "rd_word :: u8 reader" wr_word "\<lambda>_. True"
  by unfold_locales (rule exact_words)

interpretation dword_codec: file_codec "rd_word :: u32 reader" wr_word "\<lambda>_. True"
  by unfold_locales (rule exact_words)

section \<open>The engine's checkpoint\<close>

text \<open>
  The statics of \<open>cosim86.c\<close> a checkpoint holds, at their width; \<open>k_err\<close> and \<open>k_hist\<close> are the arrays written as they lie in
  memory. \<open>k_core\<close> and \<open>k_fpu\<close> are the two parts of \<open>snap_t\<close>: 86Box's processor state with the descriptor tables and
  modes, and the x87.
\<close>

record ('s, 'f) engine =
  k_core :: 's
  k_fpu :: 'f
  k_fpu_present :: u32
  k_ram_bytes :: u32
  k_a20_on :: u32
  k_ninsn :: u64
  k_last_fault :: u32
  k_was_hlt :: u32
  k_udf :: u32
  k_err :: bytes
  k_hist :: bytes
  k_ram :: bytes
  k_ignne :: bool
  k_pccache :: u32
  k_io_rd :: q_t
  k_dev_rd :: q_t
  k_exp_w :: q_t
  k_dut_w :: q_t
  k_exp_io :: q_t
  k_dut_io :: q_t
  k_io_cur :: nat
  k_dev_cur :: nat
  k_stage_w :: q_t
  k_stage_io :: q_t

text \<open>
  The bytes of the two parts in memory belong to 86Box's headers and enter as an argument. What the checkpoint relies on is
  that copying the bytes of an object back gives the object.
\<close>

record ('s, 'f) snap_layout =
  l_core_size :: nat
  l_core :: "'s \<Rightarrow> bytes"
  l_core_of :: "bytes \<Rightarrow> 's"
  l_fpu_size :: nat
  l_fpu :: "'f \<Rightarrow> bytes"
  l_fpu_of :: "bytes \<Rightarrow> 'f"
  l_fninit :: 'f

definition layout_ok :: "('s, 'f) snap_layout \<Rightarrow> bool" where
  "layout_ok L \<longleftrightarrow> (\<forall>s. length (l_core L s) = l_core_size L \<and> l_core_of L (l_core L s) = s) \<and>
     (\<forall>f. length (l_fpu L f) = l_fpu_size L \<and> l_fpu_of L (l_fpu L f) = f)"

definition COSIM_CKPT_MAGIC :: u32 where "COSIM_CKPT_MAGIC = 0x43534D38"
definition COSIM_CKPT_NORAM :: u32 where "COSIM_CKPT_NORAM = 0x43534D39"
definition COSIM_CKPT_FPU :: u32 where "COSIM_CKPT_FPU = 0x100"

definition ckpt_base :: "bool \<Rightarrow> u32" where
  "ckpt_base with_ram = (if with_ram then COSIM_CKPT_MAGIC else COSIM_CKPT_NORAM)"

text \<open>\<open>ev_t\<close> has no padding; its marks are bytes.\<close>

definition wr_ev :: "ev_t \<Rightarrow> bytes" where
  "wr_ev e = wr_word (e_addr e) @ wr_word (e_val e) @ wr_bool (e_done e) @ wr_bool (e_silent e) @ wr_bool (e_fpu e) @
     wr_word (e_grp e)"

definition rd_ev :: "ev_t reader" where
  "rd_ev = rd_then rd_word (\<lambda>a. rd_then rd_word (\<lambda>v. rd_then rd_bool (\<lambda>d. rd_then rd_bool (\<lambda>s. rd_then rd_bool (\<lambda>f.
     rd_then rd_word (\<lambda>g. rd_done \<lparr>e_addr = a, e_val = v, e_done = d, e_silent = s, e_fpu = f, e_grp = g\<rparr>))))))"

definition save_q :: "q_t \<Rightarrow> bytes" where
  "save_q q = wr_word (word_of_nat (q_tail q - q_head q) :: u64) @ concat (map wr_ev (q_list q))"

primrec load_events :: "nat \<Rightarrow> q_t \<Rightarrow> q_t reader" where
  "load_events 0 q = rd_done q"
| "load_events (Suc n) q = rd_then rd_ev (\<lambda>e. load_events n (q_push_ev q e))"

definition load_q :: "q_t \<Rightarrow> q_t reader" where
  "load_q q = rd_then rd_word (\<lambda>n :: u64. load_events (unat n) (q_reset q))"

definition save_status :: "('s, 'f) engine \<Rightarrow> bytes" where
  "save_status s = wr_word (k_a20_on s) @ wr_word (k_ninsn s) @ wr_word (k_last_fault s) @ wr_word (k_was_hlt s) @
     wr_word (k_udf s) @ k_err s @ k_hist s"

definition load_status :: "('s, 'f) engine \<Rightarrow> ('s, 'f) engine reader" where
  "load_status s = rd_then rd_word (\<lambda>a. rd_then rd_word (\<lambda>n. rd_then rd_word (\<lambda>l. rd_then rd_word (\<lambda>h. rd_then rd_word (\<lambda>u.
     rd_then (rd_bytes (length (k_err s))) (\<lambda>e. rd_then (rd_bytes (length (k_hist s))) (\<lambda>hs.
       rd_done (s\<lparr>k_a20_on := a, k_ninsn := n, k_last_fault := l, k_was_hlt := h, k_udf := u, k_err := e, k_hist := hs\<rparr>))))))))"

definition save_queues :: "('s, 'f) engine \<Rightarrow> bytes" where
  "save_queues s = save_q (k_io_rd s) @ save_q (k_dev_rd s) @ save_q (k_exp_w s) @ save_q (k_dut_w s) @ save_q (k_exp_io s) @
     save_q (k_dut_io s)"

definition load_queues :: "('s, 'f) engine \<Rightarrow> ('s, 'f) engine reader" where
  "load_queues s = rd_then (load_q (k_io_rd s)) (\<lambda>q1. rd_then (load_q (k_dev_rd s)) (\<lambda>q2. rd_then (load_q (k_exp_w s)) (\<lambda>q3.
     rd_then (load_q (k_dut_w s)) (\<lambda>q4. rd_then (load_q (k_exp_io s)) (\<lambda>q5. rd_then (load_q (k_dut_io s)) (\<lambda>q6.
       rd_done (s\<lparr>k_io_rd := q1, k_dev_rd := q2, k_exp_w := q3, k_dut_w := q4, k_exp_io := q5, k_dut_io := q6\<rparr>)))))))"

definition save_ex :: "('s, 'f) snap_layout \<Rightarrow> bool \<Rightarrow> ('s, 'f) engine \<Rightarrow> bytes" where
  "save_ex L with_ram s = wr_word (ckpt_base with_ram + COSIM_CKPT_FPU) @ l_core L (k_core s) @
     (l_fpu L (k_fpu s) @ wr_word (k_fpu_present s)) @ wr_word (k_ram_bytes s) @ save_status s @
     (if with_ram then k_ram s else []) @ save_queues s"

text \<open>The x87 part: absent from old files. The saved \<open>fpu_present\<close> is read and dropped.\<close>

definition load_x87 :: "('s, 'f) snap_layout \<Rightarrow> bool \<Rightarrow> 'f reader" where
  "load_x87 L old = (if old then rd_done (l_fninit L)
     else rd_then (rd_bytes (l_fpu_size L)) (\<lambda>f. rd_then (rd_word :: u32 reader) (\<lambda>p. rd_done (l_fpu_of L f))))"

definition load_ram :: "bool \<Rightarrow> ('s, 'f) engine \<Rightarrow> ('s, 'f) engine reader" where
  "load_ram with_ram s = (if with_ram then rd_then (rd_bytes (unat (k_ram_bytes s))) (\<lambda>m. rd_done (s\<lparr>k_ram := m\<rparr>)) else rd_done s)"

definition load_ex :: "('s, 'f) snap_layout \<Rightarrow> bool \<Rightarrow> ('s, 'f) engine \<Rightarrow> ('s, 'f) engine reader" where
  "load_ex L with_ram t =
     rd_then rd_word (\<lambda>magic :: u32.
       if magic \<noteq> ckpt_base with_ram \<and> magic \<noteq> ckpt_base with_ram + COSIM_CKPT_FPU then (\<lambda>bs. None)
       else rd_then (rd_bytes (l_core_size L)) (\<lambda>c. rd_then (load_x87 L (magic = ckpt_base with_ram)) (\<lambda>f.
         rd_then rd_word (\<lambda>bytes :: u32. if bytes \<noteq> k_ram_bytes t then (\<lambda>bs. None)
         else rd_then (load_status t) (\<lambda>s. rd_then (load_ram with_ram s) (\<lambda>s.
           rd_then (load_queues (s\<lparr>k_core := l_core_of L c, k_fpu := f, k_pccache := 0xFFFFFFFF\<rparr>)) (\<lambda>s.
             rd_done (s\<lparr>k_io_cur := 0, k_dev_cur := 0, k_stage_w := q_reset (k_stage_w s), k_stage_io := q_reset (k_stage_io s)\<rparr>))))))))"

section \<open>What a load restores\<close>

definition queues_ok :: "('s, 'f) engine \<Rightarrow> bool" where
  "queues_ok s \<longleftrightarrow> (\<forall>q\<in>{k_io_rd s, k_dev_rd s, k_exp_w s, k_dut_w s, k_exp_io s, k_dut_io s}.
     q_wf q \<and> q_tail q - q_head q < 2 ^ 64)"

definition engine_ok :: "('s, 'f) engine \<Rightarrow> bool" where
  "engine_ok s \<longleftrightarrow> queues_ok s \<and> length (k_ram s) = unat (k_ram_bytes s) \<and> length (k_err s) = 2048 \<and> length (k_hist s) = 64 * 56"

text \<open>\<open>HIST\<close> entries of 56 bytes: \<open>n\<close>, \<open>sel\<close> with two bytes of padding, \<open>eip\<close>, \<open>bytes\<close>, \<open>regs\<close>.\<close>

lemma exact_ev: "exact rd_ev (wr_ev e) e"
  unfolding rd_ev_def wr_ev_def
  by (rule exact_thenI, rule exact_words, rule exact_thenI, rule exact_words, rule exact_thenI, rule exact_bool,
      rule exact_thenI, rule exact_bool, rule exact_thenI, rule exact_bool, rule exact_thenI, rule exact_words,
      rule exact_doneI) simp_all

lemma exact_events: "exact (load_events (length es) q) (concat (map wr_ev es)) (foldl q_push_ev q es)"
  by (induction es arbitrary: q) (auto intro: exact_done exact_then exact_ev)

definition reloaded :: "q_t \<Rightarrow> q_t \<Rightarrow> q_t" where
  "reloaded q old = foldl q_push_ev (q_reset old) (q_list q)"

lemma reloaded:
  assumes "q_wf old"
  shows "q_wf (reloaded q old)" and "q_list (reloaded q old) = q_list q"
  using evq.pushes [of "q_reset old" "q_list q"] assms by (simp_all add: reloaded_def)

lemma exact_q:
  assumes "q_wf q" and "q_tail q - q_head q < 2 ^ 64"
  shows "exact (load_q old) (save_q q) (reloaded q old)"
proof -
  have "unat (word_of_nat (q_tail q - q_head q) :: u64) = length (q_list q)"
    using assms by (simp add: unat_word_of_nat_small)
  then show ?thesis
    unfolding load_q_def save_q_def reloaded_def
    using exact_events [of "q_list q" "q_reset old"] by (intro exact_then [OF exact_words(4)]) simp
qed

lemma exact_status:
  assumes "length (k_err t) = length (k_err s)" and "length (k_hist t) = length (k_hist s)"
  shows "exact (load_status t) (save_status s) (t\<lparr>k_a20_on := k_a20_on s, k_ninsn := k_ninsn s, k_last_fault := k_last_fault s,
     k_was_hlt := k_was_hlt s, k_udf := k_udf s, k_err := k_err s, k_hist := k_hist s\<rparr>)"
  unfolding load_status_def save_status_def assms
  by (rule exact_thenI, rule exact_words, rule exact_thenI, rule exact_words, rule exact_thenI, rule exact_words,
      rule exact_thenI, rule exact_words, rule exact_thenI, rule exact_words, rule exact_thenI, rule exact_bytes, rule refl,
      rule exact_thenI, rule exact_bytes, rule refl, rule exact_done) simp_all

lemma exact_queues:
  assumes "queues_ok s"
  shows "exact (load_queues t) (save_queues s) (t\<lparr>k_io_rd := reloaded (k_io_rd s) (k_io_rd t),
     k_dev_rd := reloaded (k_dev_rd s) (k_dev_rd t), k_exp_w := reloaded (k_exp_w s) (k_exp_w t),
     k_dut_w := reloaded (k_dut_w s) (k_dut_w t), k_exp_io := reloaded (k_exp_io s) (k_exp_io t),
     k_dut_io := reloaded (k_dut_io s) (k_dut_io t)\<rparr>)"
proof -
  have q: "exact (load_q old) (save_q q) (reloaded q old)"
    if "q \<in> {k_io_rd s, k_dev_rd s, k_exp_w s, k_dut_w s, k_exp_io s, k_dut_io s}" for q old
    using assms that by (intro exact_q) (auto simp: queues_ok_def)
  show ?thesis
    unfolding load_queues_def save_queues_def
    by (rule exact_then, rule q, simp, rule exact_then, rule q, simp, rule exact_then, rule q, simp,
        rule exact_then, rule q, simp, rule exact_then, rule q, simp, rule exact_thenI, rule q [of "k_dut_io s"], simp, rule exact_done) simp
qed

definition restored :: "bool \<Rightarrow> ('s, 'f) engine \<Rightarrow> ('s, 'f) engine \<Rightarrow> ('s, 'f) engine" where
  "restored with_ram s t = t\<lparr>k_core := k_core s, k_fpu := k_fpu s, k_a20_on := k_a20_on s, k_ninsn := k_ninsn s,
     k_last_fault := k_last_fault s, k_was_hlt := k_was_hlt s, k_udf := k_udf s, k_err := k_err s, k_hist := k_hist s,
     k_ram := (if with_ram then k_ram s else k_ram t), k_pccache := 0xFFFFFFFF,
     k_io_rd := reloaded (k_io_rd s) (k_io_rd t), k_dev_rd := reloaded (k_dev_rd s) (k_dev_rd t),
     k_exp_w := reloaded (k_exp_w s) (k_exp_w t), k_dut_w := reloaded (k_dut_w s) (k_dut_w t),
     k_exp_io := reloaded (k_exp_io s) (k_exp_io t), k_dut_io := reloaded (k_dut_io s) (k_dut_io t),
     k_io_cur := 0, k_dev_cur := 0, k_stage_w := q_reset (k_stage_w t), k_stage_io := q_reset (k_stage_io t)\<rparr>"

lemma load_x87_exact:
  assumes "layout_ok L"
  shows "exact (load_x87 L False) (l_fpu L f @ wr_word (p :: u32)) f"
proof -
  have "exact (rd_done (l_fpu_of L (l_fpu L f))) [] f"
    using assms by (simp add: layout_ok_def exact_done)
  moreover have "l_fpu_size L = length (l_fpu L f)"
    using assms by (simp add: layout_ok_def)
  ultimately show ?thesis
    unfolding load_x87_def by (auto intro!: exact_then exact_thenI [of rd_word "wr_word p"] exact_bytes exact_words)
qed

lemma load_ex_exact:
  assumes L: "layout_ok L" and ok: "engine_ok s" "engine_ok t" and same: "k_ram_bytes t = k_ram_bytes s"
  shows "exact (load_ex L w t) (save_ex L w s) (restored w s t)"
proof -
  let ?t1 = "t\<lparr>k_a20_on := k_a20_on s, k_ninsn := k_ninsn s, k_last_fault := k_last_fault s,
     k_was_hlt := k_was_hlt s, k_udf := k_udf s, k_err := k_err s, k_hist := k_hist s\<rparr>"
  let ?t2 = "if w then ?t1\<lparr>k_ram := k_ram s\<rparr> else ?t1"
  let ?t3 = "?t2\<lparr>k_core := k_core s, k_fpu := k_fpu s, k_pccache := 0xFFFFFFFF\<rparr>"
  have st: "exact (load_status t) (save_status s) ?t1"
    using ok by (intro exact_status) (simp_all add: engine_ok_def)
  have ram: "exact (load_ram w ?t1) (if w then k_ram s else []) ?t2"
    using ok same unfolding load_ram_def
    by (auto intro!: exact_done exact_thenI [of _ "k_ram s" "k_ram s"] exact_bytes simp: engine_ok_def)
  have core: "exact (rd_bytes (l_core_size L)) (l_core L (k_core s)) (l_core L (k_core s))" "l_core_of L (l_core L (k_core s)) = k_core s"
    using L by (auto intro: exact_bytes simp: layout_ok_def)
  have old: "ckpt_base w + COSIM_CKPT_FPU \<noteq> ckpt_base w"
    by (simp add: COSIM_CKPT_FPU_def)
  have qs: "queues_ok s"
    using ok by (simp add: engine_ok_def)
  show ?thesis
    unfolding load_ex_def save_ex_def
    apply (rule exact_then, rule exact_words)
    apply (simp only: old simp_thms if_False)
    apply (rule exact_then, rule core(1))
    apply (rule exact_then, rule load_x87_exact [OF L])
    apply (rule exact_then, rule exact_words)
    apply (simp only: same simp_thms if_False core(2))
    apply (rule exact_then, rule st)
    apply (rule exact_then, rule ram)
    apply (rule exact_thenI, rule exact_queues [OF qs], rule exact_doneI)
    apply (simp_all add: restored_def)
    done
qed

text \<open>
  A checkpoint of the engine restores the processor, the counters, the reports, the RAM and the contents of every queue,
  and takes exactly its own bytes of the file; a file cut short anywhere is refused.
\<close>

lemma engine_checkpoint:
  assumes "layout_ok L" and "engine_ok s" and "engine_ok t" and "k_ram_bytes t = k_ram_bytes s"
  shows "load_ex L w t (save_ex L w s @ rest) = Some (restored w s t, rest)"
    and "n < length (save_ex L w s) \<Longrightarrow> load_ex L w t (take n (save_ex L w s)) = None"
  using load_ex_exact [OF assms, of w] by (simp_all add: exact_def)

text \<open>A file of the other kind (with RAM or without) and one made for another memory size are refused.\<close>

lemma other_kind_refused: "load_ex L (\<not> w) t (save_ex L w s @ rest) = None"
proof -
  have "rd_word (save_ex L w s @ rest) = Some (ckpt_base w + COSIM_CKPT_FPU, drop 4 (save_ex L w s @ rest))"
    using exact_words(3) [of "ckpt_base w + COSIM_CKPT_FPU"] by (simp add: exact_def save_ex_def wr_word_def)
  moreover have "ckpt_base w + COSIM_CKPT_FPU \<noteq> ckpt_base (\<not> w)" "ckpt_base w \<noteq> ckpt_base (\<not> w)"
    by (cases w; simp add: ckpt_base_def COSIM_CKPT_MAGIC_def COSIM_CKPT_NORAM_def COSIM_CKPT_FPU_def)+
  ultimately show ?thesis
    by (simp add: load_ex_def rd_then_def)
qed

section \<open>The host's checkpoint\<close>

text \<open>
  \<open>put\<close> and \<open>put_dq\<close> write the bytes of the objects. \<open>ReadReq\<close> and \<open>WriteLog\<close> end in two bytes of padding, whose value the
  language leaves open; they are zero here, and no reader looks at them.
\<close>

definition put_issue :: "issue_ev \<Rightarrow> bytes" where
  "put_issue e = wr_word (ev_eip e) @ wr_word (ev_ecx e) @ wr_word (ev_eflags e) @ wr_word (ev_cs e) @ wr_word (ev_t e) @
     concat (map wr_word (ev_gpr e))"

definition get_issue :: "issue_ev reader" where
  "get_issue = rd_then rd_word (\<lambda>a. rd_then rd_word (\<lambda>b. rd_then rd_word (\<lambda>c. rd_then rd_word (\<lambda>d. rd_then rd_word (\<lambda>t.
     rd_then (rd_many 8 rd_word) (\<lambda>g. rd_done \<lparr>ev_eip = a, ev_ecx = b, ev_eflags = c, ev_cs = d, ev_t = t, ev_gpr = g\<rparr>))))))"

definition put_read :: "read_req \<Rightarrow> bytes" where
  "put_read r = wr_word (rq_addr r) @ wr_word (rq_be r) @ wr_word (rq_kind r) @ [0, 0]"

definition get_read :: "read_req reader" where
  "get_read = rd_then rd_word (\<lambda>a. rd_then rd_word (\<lambda>b. rd_then rd_word (\<lambda>k. rd_then (rd_bytes 2) (\<lambda>p.
     rd_done \<lparr>rq_addr = a, rq_be = b, rq_kind = k\<rparr>))))"

definition put_wlog :: "write_log \<Rightarrow> bytes" where
  "put_wlog w = wr_word (wl_t w) @ wr_word (wl_addr w) @ wr_word (wl_val w) @ wr_word (byte_of_char (wl_port w)) @ [0, 0]"

definition get_wlog :: "write_log reader" where
  "get_wlog = rd_then rd_word (\<lambda>t. rd_then rd_word (\<lambda>a. rd_then rd_word (\<lambda>v. rd_then rd_word (\<lambda>c. rd_then (rd_bytes 2) (\<lambda>p.
     rd_done \<lparr>wl_t = t, wl_addr = a, wl_val = v, wl_port = char_of_byte c\<rparr>)))))"

lemma exact_pad: "exact (rd_bytes 2) [0, 0] [0, 0]"
  by (rule exact_bytes) simp

lemma exact_issue:
  assumes "length (ev_gpr e) = 8"
  shows "exact get_issue (put_issue e) e"
proof -
  have g: "exact (rd_many 8 rd_word) (concat (map wr_word (ev_gpr e))) (ev_gpr e)"
    using assms by (intro dword_codec.many) (simp_all add: list_all_iff)
  show ?thesis
    unfolding get_issue_def put_issue_def
    by (rule exact_then, rule exact_words, rule exact_then, rule exact_words, rule exact_then, rule exact_words,
        rule exact_then, rule exact_words, rule exact_then, rule exact_words, rule exact_thenI, rule g, rule exact_doneI) simp_all
qed

lemma exact_read: "exact get_read (put_read r) r"
  unfolding get_read_def put_read_def
  by (rule exact_then, rule exact_words, rule exact_then, rule exact_words, rule exact_then, rule exact_words,
      rule exact_thenI, rule exact_pad, rule exact_doneI) simp_all

lemma exact_wlog: "exact get_wlog (put_wlog w) w"
  unfolding get_wlog_def put_wlog_def
  by (rule exact_then, rule exact_words, rule exact_then, rule exact_words, rule exact_then, rule exact_words,
      rule exact_then, rule exact_words, rule exact_thenI, rule exact_pad, rule exact_doneI) simp_all

interpretation issue_codec: file_codec get_issue put_issue "\<lambda>e. length (ev_gpr e) = 8"
  by unfold_locales (rule exact_issue)

interpretation read_codec: file_codec get_read put_read "\<lambda>_. True"
  by unfold_locales (rule exact_read)

interpretation wlog_codec: file_codec get_wlog put_wlog "\<lambda>_. True"
  by unfold_locales (rule exact_wlog)

definition host_write :: "('s, 'f) snap_layout \<Rightarrow> bool \<Rightarrow> ('s, 'f) engine cosim_host \<Rightarrow> bytes" where
  "host_write L with_ram h = save_ex L with_ram (g_ref h) @ wr_bool (g_running h) @ wr_bool (g_failed h) @ wr_bool (g_have_cur h) @
     wr_bool (g_squash_ok h) @ put_dq put_issue (g_issues h) @ put_dq put_read (g_reads h) @ put_dq wr_word (g_vectors h) @
     wr_word (g_issued h) @ wr_word (g_irqs h) @ wr_word (g_stalls h) @ wr_word (g_squashed h) @ wr_word (g_resets h) @
     concat (map put_wlog (g_wlog h)) @ wr_word (g_wlog_n h)"

definition read_flags :: "('r) cosim_host \<Rightarrow> 'r cosim_host reader" where
  "read_flags h = rd_then rd_bool (\<lambda>a. rd_then rd_bool (\<lambda>b. rd_then rd_bool (\<lambda>c. rd_then rd_bool (\<lambda>d.
     rd_done (h\<lparr>g_running := a, g_failed := b, g_have_cur := c, g_squash_ok := d\<rparr>)))))"

definition read_queues :: "('r) cosim_host \<Rightarrow> 'r cosim_host reader" where
  "read_queues h = rd_then (get_dq get_issue) (\<lambda>i. rd_then (get_dq get_read) (\<lambda>r. rd_then (get_dq rd_word) (\<lambda>v.
     rd_done (h\<lparr>g_issues := i, g_reads := r, g_vectors := v\<rparr>))))"

definition read_counts :: "('r) cosim_host \<Rightarrow> 'r cosim_host reader" where
  "read_counts h = rd_then rd_word (\<lambda>a. rd_then rd_word (\<lambda>b. rd_then rd_word (\<lambda>c. rd_then rd_word (\<lambda>d. rd_then rd_word (\<lambda>e.
     rd_done (h\<lparr>g_issued := a, g_irqs := b, g_stalls := c, g_squashed := d, g_resets := e\<rparr>))))))"

definition read_wlogs :: "('r) cosim_host \<Rightarrow> 'r cosim_host reader" where
  "read_wlogs h = rd_then (rd_many 16 get_wlog) (\<lambda>w. rd_then rd_word (\<lambda>n. rd_done (h\<lparr>g_wlog := w, g_wlog_n := n\<rparr>)))"

definition host_read :: "('s, 'f) snap_layout \<Rightarrow> bool \<Rightarrow> ('s, 'f) engine cosim_host \<Rightarrow> ('s, 'f) engine cosim_host reader" where
  "host_read L with_ram h = rd_then (load_ex L with_ram (g_ref h)) (\<lambda>e. rd_then (read_flags (h\<lparr>g_ref := e\<rparr>)) (\<lambda>h.
     rd_then (read_queues h) (\<lambda>h. rd_then (read_counts h) read_wlogs)))"

section \<open>What the host restores\<close>

definition host_ok :: "('s, 'f) engine cosim_host \<Rightarrow> bool" where
  "host_ok h \<longleftrightarrow> engine_ok (g_ref h) \<and> (\<forall>e\<in>set (g_issues h). length (ev_gpr e) = 8) \<and> length (g_issues h) < 2 ^ 64 \<and>
     length (g_reads h) < 2 ^ 64 \<and> length (g_vectors h) < 2 ^ 64 \<and> length (g_wlog h) = 16"

definition host_restored :: "bool \<Rightarrow> ('s, 'f) engine cosim_host \<Rightarrow> ('s, 'f) engine cosim_host \<Rightarrow> ('s, 'f) engine cosim_host" where
  "host_restored w h g = g\<lparr>g_ref := restored w (g_ref h) (g_ref g), g_running := g_running h, g_failed := g_failed h,
     g_have_cur := g_have_cur h, g_squash_ok := g_squash_ok h, g_issues := g_issues h, g_reads := g_reads h,
     g_vectors := g_vectors h, g_issued := g_issued h, g_irqs := g_irqs h, g_stalls := g_stalls h,
     g_squashed := g_squashed h, g_resets := g_resets h, g_wlog := g_wlog h, g_wlog_n := g_wlog_n h\<rparr>"

lemma read_flags_exact: "exact (read_flags g) (wr_bool a @ wr_bool b @ wr_bool c @ wr_bool d)
    (g\<lparr>g_running := a, g_failed := b, g_have_cur := c, g_squash_ok := d\<rparr>)"
  unfolding read_flags_def
  by (rule exact_then, rule exact_bool, rule exact_then, rule exact_bool, rule exact_then, rule exact_bool,
      rule exact_thenI, rule exact_bool, rule exact_done) simp

lemma read_queues_exact:
  assumes "host_ok h"
  shows "exact (read_queues g) (put_dq put_issue (g_issues h) @ put_dq put_read (g_reads h) @ put_dq wr_word (g_vectors h))
    (g\<lparr>g_issues := g_issues h, g_reads := g_reads h, g_vectors := g_vectors h\<rparr>)"
proof -
  have i: "exact (get_dq get_issue) (put_dq put_issue (g_issues h)) (g_issues h)"
    using assms by (intro issue_codec.deque) (simp_all add: host_ok_def list_all_iff)
  have r: "exact (get_dq get_read) (put_dq put_read (g_reads h)) (g_reads h)"
    using assms by (intro read_codec.deque) (simp_all add: host_ok_def list_all_iff)
  have v: "exact (get_dq rd_word) (put_dq wr_word (g_vectors h)) (g_vectors h)"
    using assms by (intro byte_codec.deque) (simp_all add: host_ok_def list_all_iff)
  show ?thesis
    unfolding read_queues_def
    by (rule exact_then, rule i, rule exact_then, rule r, rule exact_thenI, rule v, rule exact_done) simp
qed

lemma read_counts_exact: "exact (read_counts g) (wr_word a @ wr_word b @ wr_word c @ wr_word d @ wr_word e)
    (g\<lparr>g_issued := a, g_irqs := b, g_stalls := c, g_squashed := d, g_resets := e\<rparr>)"
  unfolding read_counts_def
  by (rule exact_then, rule exact_words, rule exact_then, rule exact_words, rule exact_then, rule exact_words,
      rule exact_then, rule exact_words, rule exact_thenI, rule exact_words, rule exact_done) simp

lemma read_wlogs_exact:
  assumes "length ws = 16"
  shows "exact (read_wlogs g) (concat (map put_wlog ws) @ wr_word n) (g\<lparr>g_wlog := ws, g_wlog_n := n\<rparr>)"
proof -
  have w: "exact (rd_many 16 get_wlog) (concat (map put_wlog ws)) ws"
    using assms by (intro wlog_codec.many) (simp_all add: list_all_iff)
  show ?thesis
    unfolding read_wlogs_def by (rule exact_then, rule w, rule exact_thenI, rule exact_words, rule exact_done) simp
qed

lemma host_read_exact:
  assumes L: "layout_ok L" and ok: "host_ok h" "engine_ok (g_ref g)" and same: "k_ram_bytes (g_ref g) = k_ram_bytes (g_ref h)"
  shows "exact (host_read L w g) (host_write L w h) (host_restored w h g)"
proof -
  have e: "exact (load_ex L w (g_ref g)) (save_ex L w (g_ref h)) (restored w (g_ref h) (g_ref g))"
    using ok by (intro load_ex_exact [OF L]) (simp_all add: host_ok_def same)
  have l: "length (g_wlog h) = 16"
    using ok by (simp add: host_ok_def)
  have "exact (host_read L w g) (save_ex L w (g_ref h) @
      (wr_bool (g_running h) @ wr_bool (g_failed h) @ wr_bool (g_have_cur h) @ wr_bool (g_squash_ok h)) @
      (put_dq put_issue (g_issues h) @ put_dq put_read (g_reads h) @ put_dq wr_word (g_vectors h)) @
      (wr_word (g_issued h) @ wr_word (g_irqs h) @ wr_word (g_stalls h) @ wr_word (g_squashed h) @ wr_word (g_resets h)) @
      (concat (map put_wlog (g_wlog h)) @ wr_word (g_wlog_n h))) (host_restored w h g)"
    unfolding host_read_def
    apply (rule exact_then, rule e)
    apply (rule exact_then, rule read_flags_exact)
    apply (rule exact_then, rule read_queues_exact [OF ok(1)])
    apply (rule exact_then, rule read_counts_exact)
    using read_wlogs_exact [OF l, of _ "g_wlog_n h"] by (simp add: host_restored_def)
  then show ?thesis
    by (simp add: host_write_def)
qed

section \<open>Checkpoints\<close>

text \<open>What a checkpoint is to keep: the reference's state with the contents of its queues, and the host's.\<close>

definition engine_view where
  "engine_view s = ((k_core s, k_fpu s, k_a20_on s, k_ninsn s, k_last_fault s, k_was_hlt s, k_udf s, k_err s, k_hist s),
     map q_list [k_io_rd s, k_dev_rd s, k_exp_w s, k_dut_w s, k_exp_io s, k_dut_io s])"

definition host_view where
  "host_view h = (engine_view (g_ref h), (g_running h, g_failed h, g_have_cur h, g_squash_ok h),
     (g_issues h, g_reads h, g_vectors h), (g_issued h, g_irqs h, g_stalls h, g_squashed h, g_resets h), g_wlog h, g_wlog_n h)"

lemma restored_view:
  assumes "engine_ok t"
  shows "engine_view (restored w s t) = engine_view s"
  using assms by (simp add: engine_view_def restored_def engine_ok_def queues_ok_def reloaded)

lemma reloaded_size: "q_wf q \<Longrightarrow> q_wf old \<Longrightarrow> q_tail (reloaded q old) - q_head (reloaded q old) = q_tail q - q_head q"
  using reloaded [of old q] length_q_list [of "reloaded q old"] length_q_list [of q] by simp

lemma restored_ok:
  assumes "engine_ok s" and "engine_ok t" and "k_ram_bytes t = k_ram_bytes s"
  shows "engine_ok (restored w s t)"
  using assms by (simp add: engine_ok_def queues_ok_def restored_def reloaded reloaded_size)

text \<open>
  C32: A checkpoint of the co-simulation restores the reference and the host: processor, counters, reports, the contents of all
  queues, the pending issues and the write log, and with RAM in the file the memory too; nothing stays staged, and what
  follows in the file is left alone.
\<close>

theorem cosim_checkpoint_roundtrip:
  assumes "layout_ok L" and "host_ok h" and "host_ok g" and "k_ram_bytes (g_ref g) = k_ram_bytes (g_ref h)"
  shows "\<exists>g'. host_read L w g (host_write L w h @ rest) = Some (g', rest) \<and> host_view g' = host_view h \<and>
    k_ram (g_ref g') = k_ram (g_ref (if w then h else g)) \<and> q_list (k_stage_w (g_ref g')) = [] \<and>
    q_list (k_stage_io (g_ref g')) = [] \<and> k_io_cur (g_ref g') = 0 \<and> k_dev_cur (g_ref g') = 0 \<and> host_ok g'"
proof (intro exI conjI)
  have e: "engine_ok (g_ref h)" "engine_ok (g_ref g)"
    using assms by (simp_all add: host_ok_def)
  show "host_read L w g (host_write L w h @ rest) = Some (host_restored w h g, rest)"
    using host_read_exact [OF assms(1,2) e(2) assms(4)] by (simp add: exact_def)
  show "host_view (host_restored w h g) = host_view h"
    by (simp add: host_view_def host_restored_def restored_view [OF e(2)])
  show "host_ok (host_restored w h g)"
    using assms(2) restored_ok [OF e assms(4), of w] by (simp add: host_ok_def host_restored_def)
qed (simp_all add: host_restored_def restored_def)

definition plain_layout :: "(u32, u16) snap_layout" where
  "plain_layout = \<lparr>l_core_size = 4, l_core = wr_word, l_core_of = le_word, l_fpu_size = 2, l_fpu = wr_word, l_fpu_of = le_word,
     l_fninit = 0x37F\<rparr>"

lemma plain_layout_ok: "layout_ok plain_layout"
  by (simp add: layout_ok_def plain_layout_def wr_word_def)

definition sample_engine :: "bytes \<Rightarrow> q_t \<Rightarrow> u32 \<Rightarrow> (u32, u16) engine" where
  "sample_engine m q p = \<lparr>k_core = p, k_fpu = 0x37F, k_fpu_present = 1, k_ram_bytes = 4, k_a20_on = 1, k_ninsn = 9, k_last_fault = - 1,
     k_was_hlt = 0, k_udf = 0, k_err = replicate 2048 0, k_hist = replicate (64 * 56) 0, k_ram = m, k_ignne = False, k_pccache = 0,
     k_io_rd = q, k_dev_rd = q_none, k_exp_w = q_none, k_dut_w = q_none, k_exp_io = q_none, k_dut_io = q_none, k_io_cur = 0,
     k_dev_cur = 0, k_stage_w = q_none, k_stage_io = q_none\<rparr>"

definition sample_host :: "(u32, u16) engine \<Rightarrow> issue_ev list \<Rightarrow> bool \<Rightarrow> (u32, u16) engine cosim_host" where
  "sample_host e evs rpt = \<lparr>g_enabled = True, g_ram_mb = 0, g_running = True, g_failed = False, g_have_cur = True,
     g_squash_ok = False, g_ram_copied = True, g_snap_candidate = False, g_x87_on = True, g_rpti_prev = rpt,
     g_cur_restarted = rpt, g_issues = evs, g_reads = [], g_vectors = [8],
     g_wlog = replicate 16 \<lparr>wl_t = 0, wl_addr = 0, wl_val = 0, wl_port = CHR 0x00\<rparr>, g_wlog_n = 0,
     g_issued = 9, g_irqs = 0, g_stalls = 0, g_squashed = 0, g_resets = 1, g_cycles = 0, g_reset_cycles = 0,
     g_issue_raw = 0, g_reg_miss = replicate 8 0, g_reg_first = replicate 8 0, g_now = 0,
     g_x87_ref_last = replicate 27 0, g_x87_dirty = False, g_x87_miss = 0, g_x87_period = 0,
     g_x87_values = True, g_x87_precision = True, g_x87_checks = 0, g_ref = e\<rparr>"

definition sample_queue :: q_t where
  "sample_queue = \<lparr>q_v = [\<lparr>e_addr = 0x60, e_val = 0x1C, e_done = False, e_silent = False, e_fpu = False, e_grp = 0\<rparr>],
     q_head = 0, q_tail = 1, q_cap = 1\<rparr>"

definition running_host :: "(u32, u16) engine cosim_host" where
  "running_host = sample_host (sample_engine [1, 2, 3, 4] sample_queue 0x1234)
     [\<lparr>ev_eip = 0x100, ev_ecx = 0, ev_eflags = 2, ev_cs = 0xF000, ev_t = 40, ev_gpr = replicate 8 0\<rparr>] True"

definition fresh_host :: "(u32, u16) engine cosim_host" where
  "fresh_host = sample_host (sample_engine [0, 0, 0, 0] q_none 0xFFF0) [] False"

lemma sample_hosts_ok:
  "host_ok running_host" "host_ok fresh_host" "k_ram_bytes (g_ref fresh_host) = k_ram_bytes (g_ref running_host)"
proof -
  have "q_wf sample_queue"
    by (simp add: q_wf_def sample_queue_def)
  then show "host_ok running_host" "host_ok fresh_host" "k_ram_bytes (g_ref fresh_host) = k_ram_bytes (g_ref running_host)"
    by (simp_all add: host_ok_def engine_ok_def queues_ok_def running_host_def fresh_host_def sample_host_def sample_engine_def,
        simp_all add: sample_queue_def q_none_def)
qed

theorem cosim_checkpoint_roundtrip_witness:
  "\<exists>g'. host_read plain_layout True fresh_host (host_write plain_layout True running_host) = Some (g', []) \<and>
    k_core (g_ref g') = 0x1234 \<and> k_ram (g_ref g') = [1, 2, 3, 4] \<and> map e_val (q_list (k_io_rd (g_ref g'))) = [0x1C]"
proof -
  obtain g' where g: "host_read plain_layout True fresh_host (host_write plain_layout True running_host) = Some (g', [])"
      "host_view g' = host_view running_host" "k_ram (g_ref g') = k_ram (g_ref running_host)"
    using cosim_checkpoint_roundtrip [OF plain_layout_ok sample_hosts_ok, of True "[]"] by auto
  have "k_core (g_ref g') = k_core (g_ref running_host)" "q_list (k_io_rd (g_ref g')) = q_list (k_io_rd (g_ref running_host))"
    using g(2) by (simp_all add: host_view_def engine_view_def)
  then show ?thesis
    using g(1,3) by (simp add: running_host_def sample_host_def sample_engine_def sample_queue_def q_list_def)
qed

text \<open>
  C33: A checkpoint of the co-simulation that was cut short anywhere is refused.\<close>

theorem cosim_checkpoint_truncated:
  assumes "layout_ok L" and "host_ok h" and "host_ok g" and "k_ram_bytes (g_ref g) = k_ram_bytes (g_ref h)"
    and "n < length (host_write L w h)"
  shows "host_read L w g (take n (host_write L w h)) = None"
  using host_read_exact [OF assms(1,2) _ assms(4), of w] assms(3,5) by (simp add: exact_def host_ok_def)

theorem cosim_checkpoint_truncated_witness:
  "host_read plain_layout False fresh_host (take 5 (host_write plain_layout False running_host)) = None"
proof -
  have "5 < length (host_write plain_layout False running_host)"
    by (simp add: host_write_def save_ex_def wr_word_def)
  then show ?thesis
    by (rule cosim_checkpoint_truncated [OF plain_layout_ok sample_hosts_ok])
qed

text \<open>
  What a checkpoint leaves out: whether IGNNE# is set in the engine, and in the host that z486 restarted the pending
  instruction and how often registers have differed. A load keeps the values of the program that loads.
\<close>

lemma checkpoint_leaves_out:
  assumes "layout_ok L" and "host_ok h" and "host_ok g" and "k_ram_bytes (g_ref g) = k_ram_bytes (g_ref h)"
    and "host_read L w g (host_write L w h @ rest) = Some (g', rest')"
  shows "k_ignne (g_ref g') = k_ignne (g_ref g) \<and> g_cur_restarted g' = g_cur_restarted g \<and> g_reg_miss g' = g_reg_miss g"
proof -
  have "g' = host_restored w h g"
    using host_read_exact [OF assms(1,2) _ assms(4), of w] assms(3,5) by (simp add: exact_def host_ok_def)
  then show ?thesis
    by (simp add: host_restored_def restored_def)
qed

lemma restart_forgotten:
  "\<exists>g'. host_read plain_layout True fresh_host (host_write plain_layout True running_host) = Some (g', []) \<and>
     g_have_cur g' \<and> g_cur_restarted running_host \<and> \<not> g_cur_restarted g'"
proof -
  have "exact (host_read plain_layout True fresh_host) (host_write plain_layout True running_host)
      (host_restored True running_host fresh_host)"
    using sample_hosts_ok host_read_exact [OF plain_layout_ok] by (simp add: host_ok_def)
  then have "host_read plain_layout True fresh_host (host_write plain_layout True running_host @ []) =
      Some (host_restored True running_host fresh_host, [])"
    unfolding exact_def by blast
  then show ?thesis
    by (simp add: host_restored_def running_host_def fresh_host_def sample_host_def)
qed

end
