(* ===== verification/Snapshot_State.thy ===== *)
theory Snapshot_State
  imports Cosim_Host
begin

text \<open>
  The state file of a portable snapshot, \<open>src/verilator/snapshot.cpp\<close>, which restores the model's fields
  by name. The generated field table is an argument; compression is not modelled.
\<close>

section \<open>The state file\<close>

text \<open>
  \<open>SnapshotField\<close>: a name and the bytes at its pointer, the size being their number. The table comes
  from the generated \<open>snapshot_state_table\<close> and is an argument.
\<close>

record snapshot_field =
  sf_name :: string
  sf_bytes :: bytes

definition kMagic :: u32 where "kMagic = 0x504E535A"
definition kVersion :: u32 where "kVersion = 1"

fun strstr :: "string \<Rightarrow> string \<Rightarrow> bool" where
  "strstr [] needle = (needle = [])"
| "strstr (c # cs) needle = (take (length needle) (c # cs) = needle \<or> strstr cs needle)"

definition kept_field :: "string list \<Rightarrow> snapshot_field \<Rightarrow> bool" where
  "kept_field skip fd = list_all (\<lambda>k. \<not> strstr (sf_name fd) k) skip"

definition put_field :: "snapshot_field \<Rightarrow> bytes" where
  "put_field fd = (let len = of_nat (length (sf_name fd)) :: u16
     in le_bytes 2 len @ take (unat len) (bytes_of (sf_name fd)) @ le_bytes 8 (of_nat (length (sf_bytes fd)) :: u64) @ sf_bytes fd)"

text \<open>The bytes \<open>snapshot_save_state\<close> writes when every write succeeds.\<close>

definition snapshot_save_state :: "snapshot_field list \<Rightarrow> string list \<Rightarrow> bytes" where
  "snapshot_save_state tb skip =
     (let fields = filter (kept_field skip) tb
      in le_bytes 4 kMagic @ le_bytes 4 kVersion @ le_bytes 4 (of_nat (length fields) :: u32) @ concat (map put_field fields))"

definition get_u16 :: "bytes \<Rightarrow> (u16 \<times> bytes) option" where
  "get_u16 f = (if 2 \<le> length f then Some (le_word (take 2 f), drop 2 f) else None)"

text \<open>
  \<open>by_name\<close>: the position in the table of the last field of each name that is still to be restored.
\<close>

definition by_name :: "snapshot_field list \<Rightarrow> string \<rightharpoonup> nat" where
  "by_name tb = foldl (\<lambda>m (i, fd). m(sf_name fd \<mapsto> i)) Map.empty (enumerate 0 tb)"

datatype snapshot_load = Loaded | Load_failed | Load_bad_alloc

text \<open>
  The loop over the saved fields. A failing read returns at once: what was restored so far stays. A
  short \<open>fread\<close> into a field leaves its first bytes. Beyond \<open>lim\<close> bytes the buffer of a skipped field
  cannot be allocated.
\<close>

definition get_field :: "bytes \<Rightarrow> (string \<times> nat \<times> bytes) option" where
  "get_field f =
     (case get_u16 f of None \<Rightarrow> None | Some (len, f) \<Rightarrow>
      case get_bytes (unat len) f of None \<Rightarrow> None | Some (name, f) \<Rightarrow>
      case get_u64 f of None \<Rightarrow> None | Some (sz, f) \<Rightarrow> Some (map char_of_byte name, unat sz, f))"

definition restore_field :: "nat \<Rightarrow> nat \<Rightarrow> bytes \<Rightarrow> snapshot_field list \<Rightarrow> snapshot_field list \<times> bytes option" where
  "restore_field i sz f tb = (case get_bytes sz f of
      None \<Rightarrow> (tb[i := (tb ! i)\<lparr>sf_bytes := f @ drop (length f) (sf_bytes (tb ! i))\<rparr>], None)
    | Some (bs, f) \<Rightarrow> (tb[i := (tb ! i)\<lparr>sf_bytes := bs\<rparr>], Some f))"

definition skip_field :: "nat \<Rightarrow> bytes \<Rightarrow> bytes option" where
  "skip_field sz f = map_option snd (get_bytes sz f)"

fun load_fields :: "nat \<Rightarrow> nat \<Rightarrow> bytes \<Rightarrow> (string \<rightharpoonup> nat) \<Rightarrow> snapshot_field list \<Rightarrow> snapshot_load \<times> snapshot_field list" where
  "load_fields lim 0 f names tb = (Loaded, tb)"
| "load_fields lim (Suc n) f names tb =
     (case get_field f of None \<Rightarrow> (Load_failed, tb) | Some (key, sz, g) \<Rightarrow>
      (let fits = (case names key of None \<Rightarrow> False | Some i \<Rightarrow> length (sf_bytes (tb ! i)) = sz);
           (tb1, next) = (if fits then restore_field (the (names key)) sz g tb else (tb, if lim < sz then None else skip_field sz g))
       in case next of
            None \<Rightarrow> (if \<not> fits \<and> lim < sz then Load_bad_alloc else Load_failed, tb1)
          | Some h \<Rightarrow> load_fields lim n h (names(key := None)) tb1))"

definition snapshot_load_state :: "nat \<Rightarrow> bytes option \<Rightarrow> snapshot_field list \<Rightarrow> snapshot_load \<times> snapshot_field list" where
  "snapshot_load_state lim file tb =
     (case file of None \<Rightarrow> (Load_failed, tb) | Some f \<Rightarrow>
      case get_u32 f of None \<Rightarrow> (Load_failed, tb) | Some (magic, f) \<Rightarrow>
      case get_u32 f of None \<Rightarrow> (Load_failed, tb) | Some (version, f) \<Rightarrow>
      case get_u32 f of None \<Rightarrow> (Load_failed, tb) | Some (count, f) \<Rightarrow>
      if magic \<noteq> kMagic \<or> version \<noteq> kVersion then (Load_failed, tb)
      else load_fields lim (unat count) f (by_name tb) tb)"

section \<open>A state file restores by name\<close>

text \<open>What the saved fields make of a table: the bytes of the field of the same name and size.\<close>

definition restore_from :: "snapshot_field list \<Rightarrow> snapshot_field \<Rightarrow> snapshot_field" where
  "restore_from saved fd =
     (case List.find (\<lambda>g. sf_name g = sf_name fd) saved of
        None \<Rightarrow> fd | Some g \<Rightarrow> if length (sf_bytes g) = length (sf_bytes fd) then fd\<lparr>sf_bytes := sf_bytes g\<rparr> else fd)"

definition saveable :: "nat \<Rightarrow> snapshot_field \<Rightarrow> bool" where
  "saveable lim fd \<longleftrightarrow> length (sf_name fd) < 2 ^ 16 \<and> length (sf_bytes fd) < 2 ^ 64 \<and> length (sf_bytes fd) \<le> lim"

lemma get_u16_append [simp]: "get_u16 (le_bytes 2 (w :: u16) @ f) = Some (w, f)"
  by (simp add: get_u16_def)

lemma by_name_snoc: "by_name (tb @ [fd]) = (by_name tb)(sf_name fd \<mapsto> length tb)"
  by (simp add: by_name_def enumerate_append_eq)

lemma by_name_Some: "by_name tb s = Some i \<Longrightarrow> i < length tb \<and> sf_name (tb ! i) = s"
proof (induction tb rule: rev_induct)
  case Nil
  then show ?case
    by (simp add: by_name_def)
next
  case (snoc fd tb)
  then show ?case
    by (cases "s = sf_name fd") (auto simp: by_name_snoc nth_append)
qed

lemma by_name_index: "distinct (map sf_name tb) \<Longrightarrow> i < length tb \<Longrightarrow> by_name tb (sf_name (tb ! i)) = Some i"
proof (induction tb rule: rev_induct)
  case (snoc fd tb)
  then show ?case
  proof (cases "i < length tb")
    case True
    then have "sf_name (tb ! i) \<noteq> sf_name fd"
      using snoc.prems(1) by (metis distinct.simps(2) distinct_append imageI list.set_map map_append nth_mem not_distinct_conv_prefix
          append_Cons append_Nil list.simps(9) disjoint_iff list.set_intros(1))
    then show ?thesis
      using True snoc by (simp add: by_name_snoc nth_append)
  next
    case False
    then show ?thesis
      using snoc.prems(2) by (simp add: by_name_snoc nth_append less_Suc_eq)
  qed
qed simp

lemma restore_cons:
  "restore_from (g # gs) fd = (if sf_name g = sf_name fd
     then if length (sf_bytes g) = length (sf_bytes fd) then fd\<lparr>sf_bytes := sf_bytes g\<rparr> else fd
     else restore_from gs fd)"
  by (simp add: restore_from_def)

lemma restore_nil: "restore_from [] fd = fd"
  by (simp add: restore_from_def)

lemma find_none: "sf_name fd \<notin> sf_name ` set gs \<Longrightarrow> restore_from gs fd = fd"
  by (induction gs) (auto simp: restore_cons restore_nil)

definition names_for :: "snapshot_field list \<Rightarrow> (string \<rightharpoonup> nat) \<Rightarrow> snapshot_field list \<Rightarrow> bool" where
  "names_for gs names tb \<longleftrightarrow> (\<forall>s i. names s = Some i \<longrightarrow> i < length tb \<and> sf_name (tb ! i) = s) \<and>
     (\<forall>g\<in>set gs. \<forall>i<length tb. sf_name (tb ! i) = sf_name g \<longrightarrow> names (sf_name g) = Some i)"

lemma names_for_tail: "names_for (g # gs) names tb \<Longrightarrow> names_for gs names tb"
  unfolding names_for_def by (meson list.set_intros(2))

lemma names_for_Some: "names_for gs names tb \<Longrightarrow> names s = Some i \<Longrightarrow> i < length tb \<and> sf_name (tb ! i) = s"
  unfolding names_for_def by blast

lemma names_for_None: "names_for (g # gs) names tb \<Longrightarrow> names (sf_name g) = None \<Longrightarrow> fd \<in> set tb \<Longrightarrow> sf_name fd \<noteq> sf_name g"
  unfolding names_for_def by (metis in_set_conv_nth list.set_intros(1) option.distinct(1))

lemma names_for_erase:
  assumes "names_for (g # gs) names tb" "sf_name g \<notin> sf_name ` set gs" "map sf_name tb' = map sf_name tb"
  shows "names_for gs (names(sf_name g := None)) tb'"
proof -
  have l: "length tb' = length tb"
    using assms(3) map_eq_imp_length_eq by blast
  have n: "sf_name (tb' ! j) = sf_name (tb ! j)" if "j < length tb" for j
    using assms(3) that l by (metis nth_map)
  show ?thesis
    unfolding names_for_def
  proof (intro conjI allI impI ballI)
    fix s i
    assume "(names(sf_name g := None)) s = Some i"
    then have "names s = Some i"
      by (simp split: if_splits)
    then show "i < length tb'" "sf_name (tb' ! i) = s"
      using names_for_Some [OF assms(1)] l n by metis+
  next
    fix h i
    assume h: "h \<in> set gs" "i < length tb'" "sf_name (tb' ! i) = sf_name h"
    then have "names (sf_name h) = Some i"
      using assms(1) l n unfolding names_for_def by (metis list.set_intros(2))
    moreover have "sf_name h \<noteq> sf_name g"
      using h(1) assms(2) by (metis image_eqI)
    ultimately show "(names(sf_name g := None)) (sf_name h) = Some i"
      by simp
  qed
qed

lemma restored_field:
  assumes d: "distinct (map sf_name tb)" "sf_name g \<notin> sf_name ` set gs"
    and i: "i < length tb" "sf_name (tb ! i) = sf_name g"
    and sz: "length (sf_bytes (tb ! i)) = length (sf_bytes g)"
  shows "map (restore_from gs) (tb[i := (tb ! i)\<lparr>sf_bytes := sf_bytes g\<rparr>]) = map (restore_from (g # gs)) tb"
proof (rule nth_equalityI)
  fix j
  assume "j < length (map (restore_from gs) (tb[i := (tb ! i)\<lparr>sf_bytes := sf_bytes g\<rparr>]))"
  then have j: "j < length tb"
    by simp
  show "map (restore_from gs) (tb[i := (tb ! i)\<lparr>sf_bytes := sf_bytes g\<rparr>]) ! j = map (restore_from (g # gs)) tb ! j"
  proof (cases "j = i")
    case True
    then show ?thesis
      using i d(2) sz by (simp add: restore_cons find_none)
  next
    case False
    then have "sf_name (tb ! j) \<noteq> sf_name g"
      using d(1) i j by (metis distinct_conv_nth length_map nth_map)
    then show ?thesis
      using False j by (simp add: restore_cons)
  qed
qed simp

lemma unrestored_field:
  assumes "\<forall>fd\<in>set tb. sf_name fd = sf_name g \<longrightarrow> length (sf_bytes fd) \<noteq> length (sf_bytes g) \<and> sf_name g \<notin> sf_name ` set gs"
  shows "map (restore_from (g # gs)) tb = map (restore_from gs) tb"
  using assms by (auto simp: restore_cons find_none)

lemma load_fields_restores:
  assumes "distinct (map sf_name gs)" "distinct (map sf_name tb)" "\<forall>g\<in>set gs. saveable lim g" "names_for gs names tb"
  shows "load_fields lim (length gs) (concat (map put_field gs) @ rest) names tb = (Loaded, map (restore_from gs) tb)"
  using assms
proof (induction gs arbitrary: names tb)
  case Nil
  show ?case
    by (simp add: restore_nil [abs_def])
next
  case (Cons g gs)
  have g: "unat (of_nat (length (sf_name g)) :: u16) = length (sf_name g)"
    "unat (of_nat (length (sf_bytes g)) :: u64) = length (sf_bytes g)" "length (sf_bytes g) \<le> lim"
    using Cons.prems(3) by (simp_all add: saveable_def unat_of_nat)
  have ng: "sf_name g \<notin> sf_name ` set gs"
    using Cons.prems(1) by simp
  have d: "distinct (map sf_name gs)" "\<forall>g\<in>set gs. saveable lim g"
    using Cons.prems(1, 3) by simp_all
  have b: "length (bytes_of (sf_name g)) = length (sf_name g)" "map char_of_byte (bytes_of (sf_name g)) = sf_name g"
    by (simp_all add: bytes_of_def o_def map_idI)
  show ?case
  proof (cases "names (sf_name g)")
    case None
    then have n: "\<forall>fd\<in>set tb. sf_name fd \<noteq> sf_name g"
      using names_for_None [OF Cons.prems(4)] by blast
    have "load_fields lim (length gs) (concat (map put_field gs) @ rest) names tb = (Loaded, map (restore_from gs) tb)"
      by (rule Cons.IH [OF d(1) Cons.prems(2) d(2) names_for_tail [OF Cons.prems(4)]])
    moreover have "map (restore_from (g # gs)) tb = map (restore_from gs) tb"
      using unrestored_field [of tb g gs] n by blast
    ultimately show ?thesis
      using None g b by (simp add: fun_upd_idem put_field_def [of g] get_field_def restore_field_def skip_field_def)
  next
    case (Some i)
    then have i: "i < length tb" "sf_name (tb ! i) = sf_name g"
      using names_for_Some [OF Cons.prems(4)] by blast+
    let ?n = "names(sf_name g := None)"
    show ?thesis
    proof (cases "length (sf_bytes (tb ! i)) = length (sf_bytes g)")
      case True
      let ?t = "tb[i := (tb ! i)\<lparr>sf_bytes := sf_bytes g\<rparr>]"
      have nm: "map sf_name ?t = map sf_name tb"
        using i by (simp add: map_update list_update_same_conv)
      then have dt: "distinct (map sf_name ?t)"
        using Cons.prems(2) by simp
      have "load_fields lim (length gs) (concat (map put_field gs) @ rest) ?n ?t = (Loaded, map (restore_from gs) ?t)"
        by (rule Cons.IH [OF d(1) dt d(2) names_for_erase [OF Cons.prems(4) ng nm]])
      then show ?thesis
        using True Some g b restored_field [OF Cons.prems(2) ng i True] by (simp add: put_field_def [of g] get_field_def restore_field_def skip_field_def)
    next
      case False
      have "load_fields lim (length gs) (concat (map put_field gs) @ rest) ?n tb = (Loaded, map (restore_from gs) tb)"
        by (rule Cons.IH [OF d(1) Cons.prems(2) d(2) names_for_erase [OF Cons.prems(4) ng refl]])
      moreover have "\<forall>fd\<in>set tb. sf_name fd = sf_name g \<longrightarrow> length (sf_bytes fd) \<noteq> length (sf_bytes g) \<and> sf_name g \<notin> sf_name ` set gs"
        using False i ng Cons.prems(2) by (metis distinct_conv_nth in_set_conv_nth length_map nth_map)
      ultimately show ?thesis
        using False Some g b unrestored_field [of tb g gs] by (simp add: put_field_def [of g] get_field_def restore_field_def skip_field_def)
    qed
  qed
qed

lemma kept_distinct: "distinct (map sf_name tb) \<Longrightarrow> distinct (map sf_name (filter P tb))"
  by (rule distinct_map_filter)

lemma by_name_names_for: "distinct (map sf_name tb) \<Longrightarrow> names_for gs (by_name tb) tb"
  unfolding names_for_def using by_name_Some by_name_index by metis

lemma load_saved:
  assumes "distinct (map sf_name st)" "distinct (map sf_name tb)" "\<forall>fd\<in>set st. saveable lim fd" "length st < 2 ^ 32"
  shows "snapshot_load_state lim (Some (snapshot_save_state st skip)) tb = (Loaded, map (restore_from (filter (kept_field skip) st)) tb)"
proof -
  let ?gs = "filter (kept_field skip) st"
  have n: "unat (of_nat (length ?gs) :: u32) = length ?gs"
    using le_less_trans [OF length_filter_le assms(4)] by (simp add: unat_of_nat)
  have "load_fields lim (length ?gs) (concat (map put_field ?gs) @ []) (by_name tb) tb = (Loaded, map (restore_from ?gs) tb)"
    by (rule load_fields_restores [OF kept_distinct [OF assms(1)] assms(2) _ by_name_names_for [OF assms(2)]]) (use assms(3) in simp)
  then show ?thesis
    using n by (simp add: snapshot_load_state_def snapshot_save_state_def Let_def)
qed

text \<open>
  C31: A state file restores by name: loading what was saved from a model into any model, of the same build or
  another, gives exactly the fields whose name and size match their saved bytes and leaves every other
  field, the skipped ones included, as it was.
\<close>

theorem snapshot_state_roundtrip:
  assumes "distinct (map sf_name st)" "distinct (map sf_name tb)" "\<forall>fd\<in>set st. saveable lim fd" "length st < 2 ^ 32"
  shows "snapshot_load_state lim (Some (snapshot_save_state st skip)) tb =
    (Loaded, map (\<lambda>fd. case List.find (\<lambda>g. sf_name g = sf_name fd) (filter (kept_field skip) st) of
        None \<Rightarrow> fd
      | Some g \<Rightarrow> if length (sf_bytes g) = length (sf_bytes fd) then fd\<lparr>sf_bytes := sf_bytes g\<rparr> else fd) tb)"
  using load_saved [OF assms] by (simp add: restore_from_def [abs_def])

definition old_model :: "snapshot_field list" where
  "old_model = [\<lparr>sf_name = ''a.x'', sf_bytes = [1, 2]\<rparr>, \<lparr>sf_name = ''mem'', sf_bytes = [7]\<rparr>, \<lparr>sf_name = ''b'', sf_bytes = [3]\<rparr>]"

definition new_model :: "snapshot_field list" where
  "new_model = [\<lparr>sf_name = ''b'', sf_bytes = [0, 0]\<rparr>, \<lparr>sf_name = ''mem'', sf_bytes = [9]\<rparr>, \<lparr>sf_name = ''c'', sf_bytes = [4]\<rparr>,
     \<lparr>sf_name = ''a.x'', sf_bytes = [0, 0]\<rparr>]"

theorem snapshot_state_roundtrip_witness:
  "snapshot_load_state 100 (Some (snapshot_save_state old_model [''mem''])) new_model =
     (Loaded, new_model[3 := \<lparr>sf_name = ''a.x'', sf_bytes = [1, 2]\<rparr>])"
proof -
  have "distinct (map sf_name old_model)" "distinct (map sf_name new_model)" "\<forall>fd\<in>set old_model. saveable 100 fd" "length old_model < 2 ^ 32"
    by (simp_all add: old_model_def new_model_def saveable_def)
  note r = snapshot_state_roundtrip [OF this, of "[''mem'']"]
  show ?thesis
    unfolding r by (simp add: old_model_def new_model_def kept_field_def)
qed

end
