(* ===== verification/Text_Io.thy ===== *)
theory Text_Io
  imports Prelude
begin

text \<open>
  Text as the harness's streams read and write it: white space, decimal numbers, and the formatted
  extraction of words and integers from a \<open>std::istringstream\<close>.
\<close>

section \<open>Words and numbers\<close>

definition is_space :: "char \<Rightarrow> bool" where
  "is_space c \<longleftrightarrow> c \<in> set [CHR 0x09, CHR 0x0A, CHR 0x0B, CHR 0x0C, CHR 0x0D, CHR 0x20]"

fun dec :: "nat \<Rightarrow> string" where
  "dec n = (if n < 10 then [char_of (48 + n)] else dec (n div 10) @ [char_of (48 + n mod 10)])"

declare dec.simps [simp del]

definition plain :: "string \<Rightarrow> bool" where
  "plain w \<longleftrightarrow> w \<noteq> [] \<and> list_all (\<lambda>c. \<not> is_space c) w"

lemma plain_dec: "plain (dec n)"
proof (induction n rule: dec.induct)
  case (1 n)
  have d: "\<not> is_space (char_of (48 + k))" if "k < 10" for k :: nat
  proof -
    have "k \<in> set [0..<10]"
      using that by simp
    moreover have "list_all (\<lambda>k. \<not> is_space (char_of (48 + k))) [0..<10]"
      by code_simp
    ultimately show ?thesis
      by (simp add: list_all_iff)
  qed
  show ?case
    using 1 d [of "n mod 10"] d [of n] by (subst dec.simps) (simp add: plain_def)
qed

section \<open>Formatted extraction\<close>

text \<open>
  A string stream: the characters to come, and whether it is still good. Reading past the end ends it,
  as does an extraction that fails; nothing is extracted after that.
\<close>

record text_in =
  tx_rest :: string
  tx_good :: bool

definition text_of :: "string \<Rightarrow> text_in" where
  "text_of cs = \<lparr>tx_rest = cs, tx_good = True\<rparr>"

text \<open>\<open>>>\<close> into a string: the second result says whether it succeeded; the target keeps its value otherwise.\<close>

definition read_word :: "string \<Rightarrow> text_in \<Rightarrow> string \<times> bool \<times> text_in" where
  "read_word old s =
     (let cs = dropWhile is_space (tx_rest s); w = takeWhile (\<lambda>c. \<not> is_space c) cs; r = drop (length w) cs
      in if \<not> tx_good s \<or> cs = [] then (old, False, s\<lparr>tx_good := False\<rparr>)
         else (w, True, \<lparr>tx_rest = r, tx_good = (r \<noteq> [])\<rparr>))"

definition is_digit :: "char \<Rightarrow> bool" where
  "is_digit c \<longleftrightarrow> c \<in> set ''0123456789''"

definition digits_value :: "string \<Rightarrow> nat" where
  "digits_value ds = foldl (\<lambda>v c. 10 * v + (of_char c - 48)) 0 ds"

text \<open>
  \<open>>>\<close> into an integer: a sign, then decimal digits. Without digits the target becomes 0, out of range it
  becomes the nearest bound, and both fail; \<open>accept\<close> turns the sign and the magnitude into the value
  and whether it is in range.
\<close>

definition read_number :: "(bool \<Rightarrow> nat \<Rightarrow> 'a \<times> bool) \<Rightarrow> 'a \<Rightarrow> 'a \<Rightarrow> text_in \<Rightarrow> 'a \<times> bool \<times> text_in" where
  "read_number accept zero old s =
     (let cs = dropWhile is_space (tx_rest s);
          neg = (cs \<noteq> [] \<and> hd cs = CHR ''-'');
          body = (if cs \<noteq> [] \<and> (hd cs = CHR ''-'' \<or> hd cs = CHR ''+'') then drop 1 cs else cs);
          ds = takeWhile is_digit body; r = drop (length ds) body; (v, ok) = accept neg (digits_value ds)
      in if \<not> tx_good s \<or> cs = [] then (old, False, s\<lparr>tx_good := False\<rparr>)
         else if ds = [] then (zero, False, \<lparr>tx_rest = r, tx_good = False\<rparr>)
         else (v, ok, \<lparr>tx_rest = r, tx_good = (ok \<and> r \<noteq> [])\<rparr>))"

definition accept_int :: "bool \<Rightarrow> nat \<Rightarrow> int \<times> bool" where
  "accept_int neg n = (let i = (if neg then - int n else int n)
     in if i < - (2 ^ 31) then (- (2 ^ 31), False) else if 2 ^ 31 \<le> i then (2 ^ 31 - 1, False) else (i, True))"

definition accept_unsigned :: "bool \<Rightarrow> nat \<Rightarrow> u32 \<times> bool" where
  "accept_unsigned neg n = (if 2 ^ 32 \<le> n then (- 1, False) else (if neg then - of_nat n else of_nat n, True))"

definition int_text :: "int \<Rightarrow> string" where
  "int_text i = (if i < 0 then CHR ''-'' # dec (nat (- i)) else dec (nat i))"

lemma digit_char: "k < 10 \<Longrightarrow> is_digit (char_of (48 + k)) \<and> of_char (char_of (48 + k)) - 48 = k" for k :: nat
proof -
  assume "k < 10"
  then have "k \<in> set [0..<10]"
    by simp
  moreover have "list_all (\<lambda>k :: nat. is_digit (char_of (48 + k)) \<and> of_char (char_of (48 + k)) - 48 = k) [0..<10]"
    by code_simp
  ultimately show ?thesis
    by (simp add: list_all_iff)
qed

lemma dec_digits: "list_all is_digit (dec n) \<and> digits_value (dec n) = n \<and> dec n \<noteq> []"
proof (induction n rule: dec.induct)
  case (1 n)
  show ?case
  proof (cases "n < 10")
    case True
    then show ?thesis
      using digit_char [of n] by (subst (1 2 3) dec.simps) (simp add: digits_value_def)
  next
    case False
    then show ?thesis
      using 1 digit_char [of "n mod 10"] by (subst (1 2 3) dec.simps) (simp add: digits_value_def)
  qed
qed

end
