(* ===== verification/Snapshot_Dir.thy ===== *)
theory Snapshot_Dir
  imports Snapshot_State Text_Io "HOL-Library.List_Lexorder" "HOL-Library.Char_ord"
begin

text \<open>
  What \<open>save_snapshot\<close> and \<open>prune_checkpoints\<close> of \<open>src/verilator/main.cpp\<close> keep of a directory of
  snapshots or checkpoints: the newest entries, and the keyframes they name in their \<open>meta.txt\<close>.
\<close>

section \<open>The snapshot directory\<close>

text \<open>
  What \<open>save_snapshot\<close> leaves of a snapshot directory: the subdirectories, each with the text of its
  \<open>meta.txt\<close>, and the keyframe files.
\<close>

record snap_dir =
  sd_entries :: "(string \<times> string) list"
  sd_keys :: "string list"

text \<open>What \<open>>>\<close> into a string reads, until the end of the stream.\<close>

fun tokens_from :: "string \<Rightarrow> string \<Rightarrow> string list" where
  "tokens_from w [] = (if w = [] then [] else [w])"
| "tokens_from w (c # cs) =
     (if is_space c then (if w = [] then tokens_from [] cs else w # tokens_from [] cs) else tokens_from (w @ [c]) cs)"

definition tokens :: "string \<Rightarrow> string list" where
  "tokens = tokens_from []"

definition meta_text :: "u64 \<Rightarrow> u64 \<Rightarrow> string \<Rightarrow> string \<Rightarrow> nat \<Rightarrow> string" where
  "meta_text cycle time disk ram_key ram_diffs =
     ''cycle '' @ dec (unat cycle) @ [CHR 0x0A] @ ''sim_time '' @ dec (unat time) @ [CHR 0x0A] @ ''disk '' @ disk @ [CHR 0x0A] @
     ''ram_key '' @ ram_key @ [CHR 0x0A] @ ''ram_diffs '' @ dec ram_diffs @ [CHR 0x0A]"

text \<open>\<open>while (meta >> k >> v)\<close>.\<close>

fun keys_used :: "string list \<Rightarrow> string list" where
  "keys_used (k # v # ws) = (if k = ''ram_key'' then v # keys_used ws else keys_used ws)"
| "keys_used ws = []"

definition dir_entry :: "string \<Rightarrow> string \<Rightarrow> bool" where
  "dir_entry kind name \<longleftrightarrow> take (length kind) name = kind \<and> \<not> strstr name ''.tmp''"

fun drop_oldest :: "nat \<Rightarrow> string list \<Rightarrow> string list" where
  "drop_oldest keep [] = []"
| "drop_oldest keep (e # es) = (if keep < length (e # es) then drop_oldest keep es else e # es)"

text \<open>The names the pruning loop keeps, of checkpoints and of snapshots alike; 0 keeps them all.\<close>

definition prune_entries :: "string \<Rightarrow> nat \<Rightarrow> string list \<Rightarrow> string list" where
  "prune_entries kind keep names =
     (let es = sort (filter (dir_entry kind) names) in if keep = 0 then es else drop_oldest keep es)"

definition prune_snapshots :: "nat \<Rightarrow> snap_dir \<Rightarrow> snap_dir" where
  "prune_snapshots keep d =
     (let names = map fst (sd_entries d);
          kept = prune_entries ''snap_'' keep names;
          entries = filter (\<lambda>(n, m). \<not> dir_entry ''snap_'' n \<or> n \<in> set kept) (sd_entries d);
          used = concat (map (\<lambda>(n, m). if n \<in> set kept then keys_used (tokens m) else []) entries)
      in d\<lparr>sd_entries := entries, sd_keys := filter (\<lambda>k. k \<in> set used) (sd_keys d)\<rparr>)"

text \<open>The part of \<open>save_snapshot\<close> after the files are written: the rename, then the pruning.\<close>

definition publish_snapshot :: "nat \<Rightarrow> string \<Rightarrow> string \<Rightarrow> string \<Rightarrow> snap_dir \<Rightarrow> snap_dir" where
  "publish_snapshot keep name meta key d =
     prune_snapshots keep (d\<lparr>sd_entries := (name, meta) # filter (\<lambda>(n, m). n \<noteq> name) (sd_entries d), sd_keys := List.insert key (sd_keys d)\<rparr>)"

section \<open>A kept snapshot keeps its keyframe\<close>

lemma tokens_from_word: "list_all (\<lambda>c. \<not> is_space c) w \<Longrightarrow> tokens_from v (w @ cs) = tokens_from (v @ w) cs"
  by (induction w arbitrary: v) simp_all

lemma tokens_word:
  assumes "plain w" "is_space c"
  shows "tokens (w @ c # cs) = w # tokens cs"
  using assms by (simp add: tokens_def plain_def tokens_from_word)

lemma meta_tokens:
  assumes "plain disk" "plain key"
  shows "tokens (meta_text c t disk key n) =
    [''cycle'', dec (unat c), ''sim_time'', dec (unat t), ''disk'', disk, ''ram_key'', key, ''ram_diffs'', dec n]"
proof -
  have sp: "is_space (CHR 0x0A)" "is_space (CHR 0x20)"
    by (simp_all add: is_space_def)
  have w: "plain ''cycle''" "plain ''sim_time''" "plain ''disk''" "plain ''ram_key''" "plain ''ram_diffs''"
    by (simp_all add: plain_def is_space_def)
  have e: "meta_text c t disk key n = ''cycle'' @ CHR 0x20 # dec (unat c) @ CHR 0x0A # ''sim_time'' @ CHR 0x20 # dec (unat t) @
      CHR 0x0A # ''disk'' @ CHR 0x20 # disk @ CHR 0x0A # ''ram_key'' @ CHR 0x20 # key @ CHR 0x0A # ''ram_diffs'' @ CHR 0x20 #
      dec n @ CHR 0x0A # []"
    by (simp add: meta_text_def)
  have "tokens [] = []"
    by (simp add: tokens_def)
  then show ?thesis
    unfolding e by (simp only: tokens_word [OF w(1) sp(2)] tokens_word [OF w(2) sp(2)] tokens_word [OF w(3) sp(2)]
        tokens_word [OF w(4) sp(2)] tokens_word [OF w(5) sp(2)] tokens_word [OF plain_dec sp(1)] tokens_word [OF assms(1) sp(1)]
        tokens_word [OF assms(2) sp(1)])
qed

lemma drop_oldest_drop: "drop_oldest keep es = drop (length es - keep) es"
  by (induction es) (auto simp: Suc_diff_le not_less)

definition keyframe_of :: "string \<Rightarrow> string \<Rightarrow> bool" where
  "keyframe_of meta key \<longleftrightarrow> (\<exists>c t disk n. meta = meta_text c t disk key n \<and> plain disk \<and> plain key)"

lemma keyframe_used: "keyframe_of meta key \<Longrightarrow> keys_used (tokens meta) = [key]"
  by (auto simp: keyframe_of_def meta_tokens)

text \<open>Every snapshot of the directory has its keyframe there.\<close>

definition snap_dir_ok :: "snap_dir \<Rightarrow> bool" where
  "snap_dir_ok d \<longleftrightarrow> distinct (map fst (sd_entries d)) \<and>
     (\<forall>(n, m)\<in>set (sd_entries d). dir_entry ''snap_'' n \<longrightarrow> (\<exists>key\<in>set (sd_keys d). keyframe_of m key))"

lemma set_prune_entries: "set (prune_entries kind keep names) \<subseteq> {n \<in> set names. dir_entry kind n}"
  using set_drop_subset [of _ "sort (filter (dir_entry kind) names)"] by (auto simp: prune_entries_def drop_oldest_drop Let_def)

lemma prune_snapshots_ok:
  assumes "snap_dir_ok d"
  shows "snap_dir_ok (prune_snapshots keep d)"
proof -
  define kept where "kept = prune_entries ''snap_'' keep (map fst (sd_entries d))"
  define es where "es = filter (\<lambda>(n, m). \<not> dir_entry ''snap_'' n \<or> n \<in> set kept) (sd_entries d)"
  define used where "used = concat (map (\<lambda>(n, m). if n \<in> set kept then keys_used (tokens m) else []) es)"
  have p: "prune_snapshots keep d = d\<lparr>sd_entries := es, sd_keys := filter (\<lambda>k. k \<in> set used) (sd_keys d)\<rparr>"
    by (simp add: prune_snapshots_def Let_def kept_def es_def used_def)
  have "distinct (map fst es)"
    using assms by (simp add: es_def snap_dir_ok_def distinct_map_filter)
  moreover have "\<exists>key\<in>set (filter (\<lambda>k. k \<in> set used) (sd_keys d)). keyframe_of m key"
    if nm: "(n, m) \<in> set es" "dir_entry ''snap_'' n" for n m
  proof -
    have k: "n \<in> set kept" "(n, m) \<in> set (sd_entries d)"
      using nm by (auto simp: es_def)
    then obtain key where key: "key \<in> set (sd_keys d)" "keyframe_of m key"
      using assms nm(2) unfolding snap_dir_ok_def by blast
    have "key \<in> set (keys_used (tokens m))"
      using keyframe_used [OF key(2)] by simp
    then have "key \<in> set used"
      using nm(1) k(1) unfolding used_def by force
    then show ?thesis
      using key by auto
  qed
  ultimately show ?thesis
    by (auto simp: p snap_dir_ok_def)
qed

lemma publish_ok:
  assumes "snap_dir_ok d" "keyframe_of meta key"
  shows "snap_dir_ok (publish_snapshot keep name meta key d)"
  unfolding publish_snapshot_def
proof (rule prune_snapshots_ok)
  let ?es = "filter (\<lambda>(n, m). n \<noteq> name) (sd_entries d)"
  have "distinct (map fst ?es)"
    using assms(1) by (simp add: snap_dir_ok_def distinct_map_filter)
  moreover have "name \<notin> set (map fst ?es)"
    by auto
  moreover have "\<exists>key'\<in>set (List.insert key (sd_keys d)). keyframe_of m key'"
    if "(n, m) \<in> set ((name, meta) # ?es)" "dir_entry ''snap_'' n" for n m
    using that assms unfolding snap_dir_ok_def by fastforce
  ultimately show "snap_dir_ok (d\<lparr>sd_entries := (name, meta) # ?es, sd_keys := List.insert key (sd_keys d)\<rparr>)"
    unfolding snap_dir_ok_def by simp blast
qed

lemma prune_entries_bound: "keep \<noteq> 0 \<Longrightarrow> length (prune_entries kind keep names) \<le> keep"
  by (simp add: prune_entries_def drop_oldest_drop)

lemma prune_entries_newest:
  assumes "n \<in> set names" "dir_entry kind n" "n \<notin> set (prune_entries kind keep names)" "m \<in> set (prune_entries kind keep names)"
  shows "n \<le> m"
proof (cases "keep = 0")
  case True
  then show ?thesis
    using assms by (simp add: prune_entries_def)
next
  case False
  define es where "es = sort (filter (dir_entry kind) names)"
  define k where "k = length es - keep"
  have p: "prune_entries kind keep names = drop k es"
    using False by (simp add: prune_entries_def drop_oldest_drop es_def k_def)
  have "n \<in> set es"
    using assms(1,2) by (simp add: es_def)
  then have "n \<in> set (take k es)"
    using assms(3) p by (metis Un_iff append_take_drop_id set_append)
  moreover have "sorted (take k es @ drop k es)"
    by (simp add: es_def)
  ultimately show ?thesis
    using assms(4) [unfolded p] unfolding sorted_append by blast
qed


definition sample_meta :: string where
  "sample_meta = meta_text 5 10 ''dos.img'' ''key_5'' 0"

lemma sample_keyframe: "keyframe_of sample_meta ''key_5''"
  unfolding keyframe_of_def sample_meta_def by (intro exI conjI) (rule refl, simp_all add: plain_def is_space_def)


text \<open>
  A space in the disk path shifts the pairs of words the clean-up reads: the keyframe of the snapshot
  just saved is not recognised and deleted.
\<close>

lemma space_in_disk_path_drops_keyframe:
  "sd_keys (publish_snapshot 0 ''snap_5'' (meta_text 5 10 ''my disk.img'' ''key_5'' 0) ''key_5'' \<lparr>sd_entries = [], sd_keys = []\<rparr>) = []"
  by code_simp

end
