(* ===== verification/Checkpoint_Dir.thy ===== *)
theory Checkpoint_Dir
  imports Snapshot_Dir
begin

text \<open>
  The directory of \<open>--checkpoint-dir\<close>: \<open>save_checkpoint\<close> (write a temporary directory, rename it, point \<open>latest.txt\<close> at it,
  prune), \<open>prune_checkpoints\<close>, and \<open>resolve_restore_path\<close>. The contents of a checkpoint are a value of any type; failures of the
  file system are not modelled.
\<close>

section \<open>The directory\<close>

text \<open>
  The subdirectories by name, the first line of \<open>latest.txt\<close> (the name below the directory), and whether the directory is a
  checkpoint itself (\<open>model.vlt\<close> lies in it).
\<close>

record 'a ckpt_dir =
  cd_entries :: "(string \<times> 'a) list"
  cd_latest :: "string option"
  cd_model :: bool

definition ckpt_name :: "u64 \<Rightarrow> string" where
  "ckpt_name cycle = (let n = dec (unat cycle) in ''ckpt_'' @ replicate (16 - length n) (CHR ''0'') @ n)"

definition prune_checkpoints :: "nat \<Rightarrow> 'a ckpt_dir \<Rightarrow> 'a ckpt_dir" where
  "prune_checkpoints keep d = (if keep = 0 then d else
     let kept = prune_entries ''ckpt_'' keep (map fst (cd_entries d))
     in d\<lparr>cd_entries := filter (\<lambda>(n, c). dir_entry ''ckpt_'' n \<longrightarrow> n \<in> set kept) (cd_entries d)\<rparr>)"

text \<open>The temporary directory is gone after the rename; one of the same name is replaced.\<close>

definition save_checkpoint :: "nat \<Rightarrow> u64 \<Rightarrow> 'a \<Rightarrow> 'a ckpt_dir \<Rightarrow> 'a ckpt_dir" where
  "save_checkpoint keep cycle c d =
     (let name = ckpt_name cycle; tmp = name @ ''.tmp''
      in prune_checkpoints keep (d\<lparr>cd_entries := (name, c) # filter (\<lambda>(n, c). n \<noteq> name \<and> n \<noteq> tmp) (cd_entries d), cd_latest := Some name\<rparr>))"

text \<open>What \<open>--restore\<close> reads when it is given the directory: nothing, when what \<open>latest.txt\<close> names is not there.\<close>

definition resolve_restore :: "'a ckpt_dir \<Rightarrow> 'a option" where
  "resolve_restore d = (if cd_model d then None else case cd_latest d of None \<Rightarrow> None | Some n \<Rightarrow> map_of (cd_entries d) n)"

section \<open>The latest checkpoint can be restored\<close>

lemma no_needle: "c \<notin> set hay \<Longrightarrow> \<not> strstr hay (c # cs)"
  by (induction hay) auto

lemma ckpt_entry: "dir_entry ''ckpt_'' (ckpt_name cycle)"
proof -
  have dot: "\<not> is_digit (CHR ''.'')"
    by code_simp
  have "CHR ''.'' \<notin> set (dec n)" for n
    using dec_digits [of n] dot by (metis list_all_iff)
  moreover have "CHR ''.'' \<notin> set ''ckpt_''" "CHR ''.'' \<noteq> CHR ''0''"
    by simp_all
  ultimately have "CHR ''.'' \<notin> set (ckpt_name cycle)"
    unfolding ckpt_name_def Let_def set_append set_replicate_conv_if by (simp only: Un_iff if_split singleton_iff empty_iff) blast
  then have "\<not> strstr (ckpt_name cycle) ''.tmp''"
    by (rule no_needle)
  moreover have "take (length ''ckpt_'') (ckpt_name cycle) = ''ckpt_''"
    by (simp add: ckpt_name_def Let_def)
  ultimately show ?thesis
    unfolding dir_entry_def by blast
qed

lemma kept_if_few_newer:
  assumes n: "n \<in> set names" "dir_entry kind n" and d: "distinct names"
    and few: "keep = 0 \<or> length (filter (\<lambda>m. dir_entry kind m \<and> n < m) names) < keep"
  shows "n \<in> set (prune_entries kind keep names)"
proof (rule ccontr)
  assume out: "n \<notin> set (prune_entries kind keep names)"
  let ?es = "filter (dir_entry kind) names" and ?kept = "prune_entries kind keep names"
  have k: "keep \<noteq> 0"
    using out n by (cases "keep = 0") (auto simp: prune_entries_def Let_def)
  then have "?kept = drop (length ?es - keep) (sort ?es)"
    by (simp add: prune_entries_def drop_oldest_drop Let_def)
  then have "length ?kept = keep"
    using out n by (cases "length ?es \<le> keep") auto
  moreover have "distinct ?kept"
    using d by (simp add: prune_entries_def drop_oldest_drop Let_def)
  moreover have "set ?kept \<subseteq> set (filter (\<lambda>m. dir_entry kind m \<and> n < m) names)"
  proof
    fix m assume m: "m \<in> set ?kept"
    then have "n \<le> m" "n \<noteq> m"
      using prune_entries_newest [OF n out] out by auto
    then show "m \<in> set (filter (\<lambda>m. dir_entry kind m \<and> n < m) names)"
      using m set_prune_entries [of kind keep names] by auto
  qed
  ultimately have "keep \<le> length (filter (\<lambda>m. dir_entry kind m \<and> n < m) names)"
    using card_mono [of "set (filter (\<lambda>m. dir_entry kind m \<and> n < m) names)" "set ?kept"] d
      distinct_card [of "filter (\<lambda>m. dir_entry kind m \<and> n < m) names"] distinct_card [of ?kept]
    by simp
  then show False
    using few k by simp
qed

text \<open>
  C29: A checkpoint just saved is the one a restore from the directory finds, as long as fewer than \<open>keep\<close> checkpoints of later
  cycles lie there.
\<close>

theorem latest_checkpoint_restorable:
  assumes "distinct (map fst (cd_entries d))" and "\<not> cd_model d"
    and "keep = 0 \<or> length (filter (\<lambda>m. dir_entry ''ckpt_'' m \<and> ckpt_name cycle < m) (map fst (cd_entries d))) < keep"
  shows "resolve_restore (save_checkpoint keep cycle c d) = Some c \<and>
    (keep = 0 \<or> length (filter (\<lambda>(n, c). dir_entry ''ckpt_'' n) (cd_entries (save_checkpoint keep cycle c d))) \<le> keep)"
proof -
  define name others where "name = ckpt_name cycle"
    and "others = filter (\<lambda>(n, c). n \<noteq> name \<and> n \<noteq> name @ ''.tmp'') (cd_entries d)"
  let ?names = "name # map fst others"
  have e: "dir_entry ''ckpt_'' name"
    unfolding name_def by (rule ckpt_entry)
  have sub: "map fst others = filter (\<lambda>n. n \<noteq> name \<and> n \<noteq> name @ ''.tmp'') (map fst (cd_entries d))"
    by (simp add: others_def filter_map comp_def case_prod_beta')
  then have ds: "distinct ?names"
    using assms(1) by simp
  have "filter (\<lambda>m. dir_entry ''ckpt_'' m \<and> name < m) ?names =
      filter (\<lambda>n. n \<noteq> name \<and> n \<noteq> name @ ''.tmp'') (filter (\<lambda>m. dir_entry ''ckpt_'' m \<and> name < m) (map fst (cd_entries d)))"
    by (simp add: sub conj_ac)
  then have "length (filter (\<lambda>m. dir_entry ''ckpt_'' m \<and> name < m) ?names) \<le>
      length (filter (\<lambda>m. dir_entry ''ckpt_'' m \<and> name < m) (map fst (cd_entries d)))"
    by (simp only: length_filter_le)
  then have kept: "name \<in> set (prune_entries ''ckpt_'' keep ?names)"
    using assms(3) e ds by (intro kept_if_few_newer) (auto simp: name_def)
  define d' where "d' = d\<lparr>cd_entries := (name, c) # others, cd_latest := Some name\<rparr>"
  have s: "save_checkpoint keep cycle c d = prune_checkpoints keep d'"
    by (simp add: save_checkpoint_def Let_def d'_def name_def [symmetric] others_def)
  have names: "map fst (cd_entries d') = ?names"
    by (simp add: d'_def)
  have "resolve_restore (prune_checkpoints keep d') = Some c"
    using kept assms(2) by (simp add: prune_checkpoints_def resolve_restore_def names Let_def) (simp add: d'_def)
  moreover have "length (filter (\<lambda>(n, c). dir_entry ''ckpt_'' n) (cd_entries (prune_checkpoints keep d'))) \<le> keep" if "keep \<noteq> 0"
  proof -
    let ?kept = "prune_entries ''ckpt_'' keep ?names"
    let ?left = "filter (\<lambda>n. dir_entry ''ckpt_'' n \<and> (dir_entry ''ckpt_'' n \<longrightarrow> n \<in> set ?kept)) ?names"
    have "length (filter (\<lambda>(n, c). dir_entry ''ckpt_'' n) (cd_entries (prune_checkpoints keep d'))) = length ?left"
      using that unfolding names [symmetric]
      by (simp add: prune_checkpoints_def Let_def names filter_map comp_def case_prod_beta' conj_ac) (simp add: d'_def)
    also have "\<dots> = card (set ?left)"
      using ds distinct_card [of ?left] by simp
    also have "\<dots> \<le> card (set ?kept)"
      by (rule card_mono) auto
    also have "\<dots> \<le> keep"
      using card_length [of ?kept] prune_entries_bound [OF that, of "''ckpt_''" ?names] by simp
    finally show ?thesis .
  qed
  ultimately show ?thesis
    unfolding s by blast
qed

theorem latest_checkpoint_restorable_witness:
  "resolve_restore (save_checkpoint 2 250 (7 :: nat) \<lparr>cd_entries = [(ckpt_name 200, 5), (ckpt_name 300, 6)], cd_latest = Some (ckpt_name 300), cd_model = False\<rparr>) = Some 7"
proof -
  let ?d = "\<lparr>cd_entries = [(ckpt_name 200, 5 :: nat), (ckpt_name 300, 6)], cd_latest = Some (ckpt_name 300), cd_model = False\<rparr>"
  have "distinct (map fst (cd_entries ?d))" "\<not> cd_model ?d"
    by (simp_all, code_simp)
  moreover have "length (filter (\<lambda>m. dir_entry ''ckpt_'' m \<and> ckpt_name 250 < m) [ckpt_name 200, ckpt_name 300]) < 2"
    by code_simp
  ultimately show ?thesis
    using latest_checkpoint_restorable [of ?d 2 250 7] by simp
qed

text \<open>
  Otherwise the checkpoint is deleted as soon as it is made, and \<open>latest.txt\<close> names a directory that is gone: a run started
  from an earlier checkpoint, saving into a directory that holds later ones, cannot be restored from it.
\<close>

lemma early_checkpoint_lost:
  "resolve_restore (save_checkpoint 2 60 c \<lparr>cd_entries = [(ckpt_name 200, c), (ckpt_name 300, c)], cd_latest = Some (ckpt_name 300), cd_model = False\<rparr>) = None"
  by code_simp

end
