(* ===== verification/Boot_Image.thy ===== *)
theory Boot_Image
  imports Ddr
begin

text \<open>
  \<open>--load-ram\<close>: a whole-memory image in the place of the staged ROMs. The boot copier of the core moves C0000h to FFFFFh from
  the DDR into the guest's RAM, so the image goes into the DDR, and all of it but that window into the RAM model.
\<close>

definition load_guest :: "bytes \<Rightarrow> u16 list \<Rightarrow> u16 list" where
  "load_guest img guest =
     (let limit = min (length img) 0xFC0000
      in fold (\<lambda>k g. if 0xC0000 \<le> 2 * k \<and> 2 * k < 0x100000 then g
           else g[k := ucast (img ! (2 * k)) OR push_bit 8 (ucast (img ! (2 * k + 1)))]) [0..<limit div 2] guest)"

definition load_ram_image :: "bytes \<Rightarrow> memory \<times> u16 list \<Rightarrow> memory \<times> u16 list" where
  "load_ram_image img = (\<lambda>(m, guest). (ddr_write 0 img m, load_guest img guest))"

lemma fold_updates:
  "length (fold (\<lambda>k g. if P k then g else g[k := f k]) [0..<n] g) = length g"
  "w < length g \<Longrightarrow> fold (\<lambda>k g. if P k then g else g[k := f k]) [0..<n] g ! w = (if w < n \<and> \<not> P w then f w else g ! w)"
proof -
  have l: "length (fold (\<lambda>k g. if P k then g else g[k := f k]) [0..<n] g) = length g" for n
    by (induction n) simp_all
  then show "length (fold (\<lambda>k g. if P k then g else g[k := f k]) [0..<n] g) = length g" .
  show "w < length g \<Longrightarrow> fold (\<lambda>k g. if P k then g else g[k := f k]) [0..<n] g ! w = (if w < n \<and> \<not> P w then f w else g ! w)"
    using l by (induction n) (auto simp: nth_list_update less_Suc_eq)
qed

text \<open>
  Loading an image sets exactly the words of RAM it covers outside the window of the boot copier, low byte first, and keeps the
  rest; a last odd byte is left out.
\<close>

theorem load_guest_exact:
  assumes "w < length guest"
  shows "length (load_guest img guest) = length guest \<and>
    load_guest img guest ! w = (if 2 * w + 1 < min (length img) 0xFC0000 \<and> \<not> (0xC0000 \<le> 2 * w \<and> 2 * w < 0x100000)
      then ucast (img ! (2 * w)) OR push_bit 8 (ucast (img ! (2 * w + 1))) else guest ! w)"
proof -
  have "w < n div 2 \<longleftrightarrow> 2 * w + 1 < n" for n
    by presburger
  then show ?thesis
    using assms by (simp only: load_guest_def Let_def fold_updates)
qed

theorem load_guest_exact_witness:
  "load_guest [0xEA, 0x5B, 0xE0] [7, 7] = [0x5BEA, 7]"
proof -
  have "length (load_guest [0xEA, 0x5B, 0xE0] [7, 7]) = 2" "load_guest [0xEA, 0x5B, 0xE0] [7, 7] ! 0 = 0x5BEA"
      "load_guest [0xEA, 0x5B, 0xE0] [7, 7] ! 1 = 7"
    using load_guest_exact [of 0 "[7, 7]" "[0xEA, 0x5B, 0xE0]"] load_guest_exact [of 1 "[7, 7]" "[0xEA, 0x5B, 0xE0]"]
    by (simp_all add: min_def)
  note l = this
  have two: "xs = [xs ! 0, xs ! 1]" if "length xs = 2" for xs :: "u16 list"
    using that by (cases xs; cases "tl xs") simp_all
  show ?thesis
    using two [OF l(1)] unfolding l(2,3) .
qed

end
