(* ===== verification/Management.thy ===== *)
theory Management
  imports Floppy
begin

text \<open>
  Setting the core up before it runs (\<open>src/verilator/main.cpp\<close>): the pulses on the management bus, the
  registers of the two floppy slots, and the contents of the CMOS memory with its clock and checksum.
  The start time is an argument; the model is clocked by the parameter \<open>full_step\<close>.
\<close>

section \<open>Writes on the management bus\<close>

text \<open>\<open>pulse_mgmt_write\<close>; \<open>full_step\<close> clocks the model for one cycle.\<close>

definition pulse_mgmt_write :: "(mgmt_bus \<Rightarrow> mgmt_bus) \<Rightarrow> u16 \<Rightarrow> u16 \<Rightarrow> mgmt_bus \<Rightarrow> mgmt_bus" where
  "pulse_mgmt_write full_step addr data tb =
     (let tb1 = full_step (tb\<lparr>mgmt_address := addr, mgmt_writedata := data, mgmt_write := True, mgmt_read := False\<rparr>)
      in full_step (tb1\<lparr>mgmt_write := False\<rparr>))"

definition mgmt_writes :: "(mgmt_bus \<Rightarrow> mgmt_bus) \<Rightarrow> (u16 \<times> u16) list \<Rightarrow> mgmt_bus \<Rightarrow> mgmt_bus" where
  "mgmt_writes full_step ws tb = fold (\<lambda>(addr, data). pulse_mgmt_write full_step addr data) ws tb"

section \<open>Floppy slots and CMOS contents\<close>

definition bin2bcd :: "u32 \<Rightarrow> u8" where
  "bin2bcd val = ucast (push_bit 4 (val div 10) OR (val mod 10))"

definition floppy_slot_writes :: "bool \<Rightarrow> nat \<Rightarrow> bool \<Rightarrow> floppy_geometry \<Rightarrow> (u16 \<times> u16) list" where
  "floppy_slot_writes floppy_writable slot present geo =
     (let base = 0xF200 + push_bit 7 (of_nat slot) :: u16;
          given = (\<lambda>v. if present then v else 0)
      in [(base + 0x0, given 1), (base + 0x1, if floppy_writable then 0 else 1), (base + 0x2, given (ucast (cylinders geo))),
          (base + 0x3, given (ucast (sectors_per_track geo))), (base + 0x4, given (total_sectors geo)),
          (base + 0x5, given (ucast (heads geo))), (base + 0xC, 0)])"

text \<open>The fields of \<open>std::tm\<close> the CMOS clock takes.\<close>

record rtc_tm =
  tm_sec :: int
  tm_min :: int
  tm_hour :: int
  tm_wday :: int
  tm_mday :: int
  tm_mon :: int
  tm_year :: int

definition bcd_int :: "int \<Rightarrow> u8" where
  "bcd_int i = bin2bcd (word_of_int i)"

definition ext_mem_kb :: u16 where "ext_mem_kb = 15 * 1024"

definition cmos_clock :: "rtc_tm \<Rightarrow> (nat \<times> u8) list" where
  "cmos_clock tm = [(0x00, bcd_int (tm_sec tm)), (0x02, bcd_int (tm_min tm)), (0x04, bcd_int (tm_hour tm)), (0x05, 0x12),
     (0x06, word_of_int (tm_wday tm + 1)), (0x07, bcd_int (tm_mday tm)), (0x08, bcd_int (tm_mon tm + 1)),
     (0x09, bcd_int (if tm_year tm < 117 then 17 else tm_year tm - 100)), (0x0A, 0x26), (0x0B, 0x02), (0x0D, 0x80)]"

definition cmos_drives :: "bool \<Rightarrow> (bool \<times> floppy_geometry) \<Rightarrow> (bool \<times> floppy_geometry) \<Rightarrow> bool \<Rightarrow> (nat \<times> u8) list" where
  "cmos_drives hdd0 fd0 fd1 boot_from_floppy =
     (let (p0, g0) = fd0; (p1, g1) = fd1; n = (if p0 then 1 else 0) + (if p1 then 1 else 0 :: nat);
          lo = ucast (ext_mem_kb AND 0xFF) :: u8; hi = ucast (drop_bit 8 ext_mem_kb) :: u8
      in [(0x10, (if p0 then push_bit 4 (cmos_type g0) else 0) OR (if p1 then cmos_type g1 else 0)),
          (0x12, if hdd0 then 0xF0 else 0),
          (0x14, 0x0C OR (if n = 0 then 0 else 1) OR (if 1 < n then 0x40 else 0)),
          (0x15, 0x80), (0x16, 0x02), (0x17, lo), (0x18, hi), (0x19, if hdd0 then 0x2F else 0),
          (0x2D, if p0 \<and> boot_from_floppy then 0x20 else 0), (0x30, lo), (0x31, hi), (0x32, 0x20), (0x34, 0), (0x35, 0),
          (0x37, 0x20), (0x39, 0x02)])"

definition set_all :: "(nat \<times> u8) list \<Rightarrow> bytes \<Rightarrow> bytes" where
  "set_all vs bs = fold (\<lambda>(i, v) bs. bs[i := v]) vs bs"

definition cmos_sum :: "bytes \<Rightarrow> u16" where
  "cmos_sum cmos = foldl (\<lambda>s i. s + ucast (cmos ! i)) 0 [0x10..<0x2E]"

definition cmos_image :: "rtc_tm \<Rightarrow> bool \<Rightarrow> (bool \<times> floppy_geometry) \<Rightarrow> (bool \<times> floppy_geometry) \<Rightarrow> bool \<Rightarrow> bytes" where
  "cmos_image tm hdd0 fd0 fd1 boot_from_floppy =
     (let cmos = set_all (cmos_clock tm @ cmos_drives hdd0 fd0 fd1 boot_from_floppy) (replicate 128 0); s = cmos_sum cmos
      in cmos[0x2E := ucast (drop_bit 8 s), 0x2F := ucast (s AND 0xFF)])"

definition cmos_writes :: "bytes \<Rightarrow> (u16 \<times> u16) list" where
  "cmos_writes cmos = map (\<lambda>i. (0xF400 + of_nat i, ucast (cmos ! i))) [0..<length cmos]"

definition configure_x86_management :: "bool \<Rightarrow> rtc_tm \<Rightarrow> bool \<Rightarrow> (bool \<times> floppy_geometry) \<Rightarrow> (bool \<times> floppy_geometry) \<Rightarrow> bool \<Rightarrow> (u16 \<times> u16) list" where
  "configure_x86_management floppy_writable tm hdd0 fd0 fd1 boot_from_floppy =
     floppy_slot_writes floppy_writable 0 (fst fd0) (snd fd0) @ floppy_slot_writes floppy_writable 1 (fst fd1) (snd fd1) @
     cmos_writes (cmos_image tm hdd0 fd0 fd1 boot_from_floppy)"

section \<open>The contents are what a BIOS expects\<close>

lemma bcd_value: "v < 100 \<Longrightarrow> unat (bin2bcd (of_nat v)) = 16 * (v div 10) + v mod 10"
proof -
  assume "v < 100"
  then have "v \<in> set [0..<100]"
    by simp
  moreover have "list_all (\<lambda>v. unat (bin2bcd (of_nat v)) = 16 * (v div 10) + v mod 10) [0..<100]"
    by code_simp
  ultimately show ?thesis
    by (simp add: list_all_iff)
qed

lemma length_set_all [simp]: "length (set_all vs bs) = length bs"
  unfolding set_all_def by (induction vs arbitrary: bs) (simp_all add: split_beta)

lemma length_cmos_image [simp]: "length (cmos_image tm hdd0 fd0 fd1 b) = 128"
  by (simp add: cmos_image_def Let_def)

lemma foldl_sum_words: "foldl (\<lambda>s i. s + f i) (a :: u16) is = a + sum_list (map f is)"
  by (induction "is" arbitrary: a) (simp_all add: add.assoc)

lemma unat_sum_bytes:
  "length is \<le> 128 \<Longrightarrow> unat (sum_list (map (\<lambda>i. ucast (bs ! i :: u8) :: u16) is)) = sum_list (map (\<lambda>i. unat (bs ! i)) is) \<and>
     sum_list (map (\<lambda>i. unat (bs ! i)) is) \<le> 255 * length is"
proof (induction "is")
  case (Cons i "is")
  have b: "unat (bs ! i) \<le> 255"
    using unsigned_less [of "bs ! i", where ?'a = nat] by simp
  have u: "unat (ucast (bs ! i) :: u16) = unat (bs ! i)"
    using b by (simp add: unsigned_ucast_eq take_bit_nat_eq_self_iff)
  show ?case
    using Cons b u by (auto simp: unat_word_ariths)
qed simp

lemma cmos_sum_value: "unat (cmos_sum bs) = (\<Sum>i\<leftarrow>[0x10..<0x2E]. unat (bs ! i))"
  using unat_sum_bytes [of "[0x10..<0x2E]" bs] by (simp add: cmos_sum_def foldl_sum_words)

lemma split16: "256 * unat (ucast (drop_bit 8 s) :: u8) + unat (ucast (s AND 0xFF) :: u8) = unat s" for s :: u16
proof -
  have m: "s AND 0xFF = take_bit 8 s"
    unfolding take_bit_eq_mask by (simp add: mask_eq_exp_minus_1)
  have lt: "unat s < 65536"
    using unsigned_less [of s, where ?'a = nat] by simp
  have "unat (ucast (drop_bit 8 s) :: u8) = unat s div 256"
    using lt by (simp add: unsigned_ucast_eq drop_bit_eq_div take_bit_eq_mod unat_div)
  moreover have "unat (ucast (s AND 0xFF) :: u8) = unat s mod 256"
    by (simp add: m unsigned_ucast_eq unsigned_take_bit_eq take_bit_eq_mod unat_mod)
  ultimately show ?thesis
    by simp
qed

lemma cmos_image_parts:
  "cmos_image tm hdd0 fd0 fd1 b ! i =
     (let c = set_all (cmos_clock tm @ cmos_drives hdd0 fd0 fd1 b) (replicate 128 0)
      in if i = 0x2E then ucast (drop_bit 8 (cmos_sum c)) else if i = 0x2F then ucast (cmos_sum c AND 0xFF) else c ! i)"
  by (simp add: cmos_image_def Let_def nth_list_update)

lemma cmos_checksum:
  "256 * unat (cmos_image tm hdd0 fd0 fd1 b ! 0x2E) + unat (cmos_image tm hdd0 fd0 fd1 b ! 0x2F) =
     (\<Sum>i\<leftarrow>[0x10..<0x2E]. unat (cmos_image tm hdd0 fd0 fd1 b ! i))"
proof -
  let ?c = "set_all (cmos_clock tm @ cmos_drives hdd0 fd0 fd1 b) (replicate 128 0)"
  have "map (\<lambda>i. unat (cmos_image tm hdd0 fd0 fd1 b ! i)) [0x10..<0x2E] = map (\<lambda>i. unat (?c ! i)) [0x10..<0x2E]"
    by (auto simp: cmos_image_parts Let_def)
  then have "(\<Sum>i\<leftarrow>[0x10..<0x2E]. unat (cmos_image tm hdd0 fd0 fd1 b ! i)) = unat (cmos_sum ?c)"
    by (simp add: cmos_sum_value)
  then show ?thesis
    using split16 [of "cmos_sum ?c"] by (simp add: cmos_image_parts Let_def)
qed

definition bcd2bin :: "u8 \<Rightarrow> int" where
  "bcd2bin b = int (10 * (unat b div 16) + unat b mod 16)"

lemma bcd_int_back: "0 \<le> i \<Longrightarrow> i < 100 \<Longrightarrow> bcd2bin (bcd_int i) = i"
proof -
  assume i: "0 \<le> i" "i < 100"
  define v where "v = nat i"
  have v: "i = int v" "v < 100"
    using i by (simp_all add: v_def)
  show ?thesis
    using bcd_value [OF v(2)] by (simp add: bcd2bin_def bcd_int_def v(1))
qed

definition tm_ok :: "rtc_tm \<Rightarrow> bool" where
  "tm_ok tm \<longleftrightarrow> 0 \<le> tm_sec tm \<and> tm_sec tm \<le> 60 \<and> 0 \<le> tm_min tm \<and> tm_min tm < 60 \<and> 0 \<le> tm_hour tm \<and> tm_hour tm < 24 \<and>
     1 \<le> tm_mday tm \<and> tm_mday tm \<le> 31 \<and> 0 \<le> tm_mon tm \<and> tm_mon tm < 12 \<and> tm_year tm < 200"

lemma cmos_clock_bytes:
  "map ((!) (cmos_image tm hdd0 fd0 fd1 b)) [0, 2, 4, 7, 8, 9] =
     [bcd_int (tm_sec tm), bcd_int (tm_min tm), bcd_int (tm_hour tm), bcd_int (tm_mday tm), bcd_int (tm_mon tm + 1),
      bcd_int (if tm_year tm < 117 then 17 else tm_year tm - 100)]"
  by (simp add: cmos_image_parts Let_def set_all_def cmos_clock_def cmos_drives_def split_beta)

text \<open>
  The CMOS contents are valid: the big-endian checksum in the last bytes is the sum of bytes 10h to 2Dh without overflow, and the clock bytes are the BCD digits of the time given, the year counted from 2000 with everything before 2017 shown as 2017.
\<close>

theorem cmos_image_valid:
  fixes tm hdd0 fd0 fd1 b
  defines "c \<equiv> cmos_image tm hdd0 fd0 fd1 b"
  assumes "tm_ok tm"
  shows "256 * unat (c ! 0x2E) + unat (c ! 0x2F) = (\<Sum>i\<leftarrow>[0x10..<0x2E]. unat (c ! i)) \<and>
    map (\<lambda>i. bcd2bin (c ! i)) [0, 2, 4, 7, 8, 9] =
      [tm_sec tm, tm_min tm, tm_hour tm, tm_mday tm, tm_mon tm + 1, max 17 (tm_year tm - 100)]"
proof
  show "256 * unat (c ! 0x2E) + unat (c ! 0x2F) = (\<Sum>i\<leftarrow>[0x10..<0x2E]. unat (c ! i))"
    unfolding c_def by (rule cmos_checksum)
  have "map (\<lambda>i. bcd2bin (c ! i)) [0, 2, 4, 7, 8, 9] = map bcd2bin (map ((!) c) [0, 2, 4, 7, 8, 9])"
    by simp
  also have "\<dots> = [tm_sec tm, tm_min tm, tm_hour tm, tm_mday tm, tm_mon tm + 1, max 17 (tm_year tm - 100)]"
    unfolding c_def cmos_clock_bytes using assms(2) by (simp add: bcd_int_back tm_ok_def)
  finally show "map (\<lambda>i. bcd2bin (c ! i)) [0, 2, 4, 7, 8, 9] =
      [tm_sec tm, tm_min tm, tm_hour tm, tm_mday tm, tm_mon tm + 1, max 17 (tm_year tm - 100)]" .
qed

definition sample_tm :: rtc_tm where
  "sample_tm = \<lparr>tm_sec = 0, tm_min = 30, tm_hour = 23, tm_wday = 1, tm_mday = 1, tm_mon = 0, tm_year = 124\<rparr>"

theorem cmos_image_valid_witness:
  "(let c = cmos_image sample_tm True (True, infer_floppy_geometry 1474560) (False, default_floppy_geometry) True
    in 256 * unat (c ! 0x2E) + unat (c ! 0x2F) = (\<Sum>i\<leftarrow>[0x10..<0x2E]. unat (c ! i)) \<and>
       map (\<lambda>i. bcd2bin (c ! i)) [0, 2, 4, 7, 8, 9] = [0, 30, 23, 1, 1, 24])"
proof -
  have "tm_ok sample_tm"
    by (simp add: tm_ok_def sample_tm_def)
  from cmos_image_valid [OF this, of True "(True, infer_floppy_geometry 1474560)" "(False, default_floppy_geometry)" True]
  show ?thesis
    unfolding Let_def by (simp add: sample_tm_def)
qed

text \<open>A start time before 2017, given with \<open>--rtc\<close>, becomes the same day of 2017.\<close>

lemma cmos_year_clamped:
  "cmos_image (tm\<lparr>tm_year := 95\<rparr>) hdd0 fd0 fd1 b ! 9 = cmos_image (tm\<lparr>tm_year := 117\<rparr>) hdd0 fd0 fd1 b ! 9"
  using cmos_clock_bytes [of "tm\<lparr>tm_year := 95\<rparr>" hdd0 fd0 fd1 b] cmos_clock_bytes [of "tm\<lparr>tm_year := 117\<rparr>" hdd0 fd0 fd1 b] by simp

end
