(* ===== verification/Wav_Writer.thy ===== *)
theory Wav_Writer
  imports Pod_Codec
begin

text \<open>
  The audio recorder, \<open>src/verilator/wav_writer.h\<close>. A file that opens takes every byte written.
\<close>

record wav_writer =
  w_file :: "bytes option"
  w_data_size :: u32
  w_sample_rate :: u32
  w_channels :: u16
  w_bits :: u16

definition chars :: "string \<Rightarrow> bytes" where
  "chars s = bytes_of s"

text \<open>
  \<open>write_header\<close>: the fields of \<open>WAVHeader\<close>, which has no padding, in the order of the structure.
\<close>

definition wav_header :: "wav_writer \<Rightarrow> bytes" where
  "wav_header w =
     (let ch = ucast (w_channels w) :: u32; bits = ucast (w_bits w) :: u32
      in chars ''RIFF'' @ write_pod (36 + w_data_size w) @ chars ''WAVE'' @ chars ''fmt '' @ write_pod (16 :: u32) @
         write_pod (1 :: u16) @ write_pod (w_channels w) @ write_pod (w_sample_rate w) @
         write_pod (w_sample_rate w * ch * bits div 8) @ write_pod (ucast (ch * bits div 8) :: u16) @ write_pod (w_bits w) @
         chars ''data'' @ write_pod (w_data_size w))"

definition wav_open :: "bool \<Rightarrow> u32 \<Rightarrow> u16 \<Rightarrow> u16 \<Rightarrow> wav_writer" where
  "wav_open can_open rate channel_count bits =
     (let w = \<lparr>w_file = None, w_data_size = 0, w_sample_rate = rate, w_channels = channel_count, w_bits = bits\<rparr>
      in if can_open then w\<lparr>w_file := Some (wav_header w)\<rparr> else w)"

definition write_sample :: "u16 \<Rightarrow> u16 \<Rightarrow> wav_writer \<Rightarrow> wav_writer" where
  "write_sample left right w = (case w_file w of None \<Rightarrow> w
     | Some f \<Rightarrow> w\<lparr>w_file := Some (f @ write_pod left @ write_pod right), w_data_size := w_data_size w + 4\<rparr>)"

text \<open>The destructor: the header is written again over the start of the file.\<close>

definition wav_close :: "wav_writer \<Rightarrow> bytes option" where
  "wav_close w = map_option (\<lambda>f. let h = wav_header w in h @ drop (length h) f) (w_file w)"

definition record_wav :: "u32 \<Rightarrow> (u16 \<times> u16) list \<Rightarrow> bytes option" where
  "record_wav rate samples = wav_close (fold (\<lambda>(l, r). write_sample l r) samples (wav_open True rate 2 16))"

lemma length_wav_header [simp]: "length (wav_header w) = 44"
  by (simp add: wav_header_def Let_def chars_def)

definition sample_bytes :: "(u16 \<times> u16) list \<Rightarrow> bytes" where
  "sample_bytes samples = concat (map (\<lambda>(l, r). write_pod l @ write_pod r) samples)"

lemma write_samples:
  "w_file w = Some f \<Longrightarrow> fold (\<lambda>(l, r). write_sample l r) samples w =
     w\<lparr>w_file := Some (f @ sample_bytes samples), w_data_size := w_data_size w + of_nat (4 * length samples)\<rparr>"
proof (induction samples arbitrary: f w)
  case Nil
  then show ?case
    by (simp add: sample_bytes_def)
next
  case (Cons x xs)
  obtain l r where x: "x = (l, r)"
    by (cases x)
  let ?w = "w\<lparr>w_file := Some (f @ write_pod l @ write_pod r), w_data_size := w_data_size w + 4\<rparr>"
  have "write_sample l r w = ?w"
    using Cons.prems by (simp add: write_sample_def)
  then show ?case
    using Cons.IH [of ?w "f @ write_pod l @ write_pod r"] by (simp add: x sample_bytes_def add.assoc)
qed

lemma length_sample_bytes: "length (sample_bytes samples) = 4 * length samples"
  by (induction samples) (auto simp: sample_bytes_def)

lemma record_wav_eq:
  "record_wav rate samples =
     Some (wav_header \<lparr>w_file = None, w_data_size = of_nat (4 * length samples), w_sample_rate = rate, w_channels = 2, w_bits = 16\<rparr> @
       sample_bytes samples)"
proof -
  have h: "wav_header (w\<lparr>w_file := f\<rparr>) = wav_header w" for w f
    by (simp add: wav_header_def)
  show ?thesis
    by (simp add: record_wav_def wav_open_def wav_close_def write_samples h) (simp add: wav_header_def)
qed

text \<open>
  A recording closed below 4 GB is a well-formed WAV file: the two sizes in its header are the number of bytes that follow them, and the data are the samples in order, left before right.
\<close>

theorem wav_file_valid:
  assumes "4 * length samples + 36 < 2 ^ 32" and "record_wav rate samples = Some f"
  shows "length f = 44 + 4 * length samples \<and> unat (le_word (take 4 (drop 4 f)) :: u32) = length f - 8 \<and>
    unat (le_word (take 4 (drop 40 f)) :: u32) = length f - 44 \<and>
    drop 44 f = concat (map (\<lambda>(l, r). write_pod l @ write_pod r) samples)"
proof -
  let ?w = "\<lparr>w_file = None, w_data_size = of_nat (4 * length samples), w_sample_rate = rate, w_channels = 2, w_bits = 16\<rparr>"
  have f: "f = wav_header ?w @ sample_bytes samples"
    using assms(2) by (simp add: record_wav_eq)
  have u: "unat (of_nat (4 * length samples) :: u32) = 4 * length samples"
    "unat (36 + of_nat (4 * length samples) :: u32) = 36 + 4 * length samples"
    using assms(1) by (simp_all add: unat_of_nat unat_word_ariths)
  have "take 4 (drop 4 f) = write_pod (36 + of_nat (4 * length samples) :: u32)"
    "take 4 (drop 40 f) = write_pod (of_nat (4 * length samples) :: u32)"
    by (simp_all add: f wav_header_def Let_def chars_def)
  moreover have "length f = 44 + 4 * length samples" "drop 44 f = sample_bytes samples"
    by (simp_all add: f length_sample_bytes)
  ultimately show ?thesis
    using u by (simp add: write_pod_def) (simp add: sample_bytes_def write_pod_def)
qed

theorem wav_file_valid_witness:
  "\<exists>f. record_wav 48000 [(1, 2), (0xFFFF, 0)] = Some f \<and> length f = 52 \<and> drop 44 f = [1, 0, 2, 0, 0xFF, 0xFF, 0, 0]"
proof -
  obtain f where f: "record_wav 48000 [(1, 2), (0xFFFF, 0)] = Some f"
    by (simp add: record_wav_eq)
  then have "length f = 52" "drop 44 f = concat (map (\<lambda>(l, r). write_pod l @ write_pod r) [(1, 2), (0xFFFF :: u16, 0 :: u16)])"
    using wav_file_valid [OF _ f] by simp_all
  moreover have "concat (map (\<lambda>(l, r). write_pod l @ write_pod r) [(1, 2), (0xFFFF :: u16, 0 :: u16)]) = [1, 0, 2, 0, 0xFF, 0xFF, 0, 0]"
    by code_simp
  ultimately show ?thesis
    using f by simp
qed

end
