(* ===== verification/Control.thy ===== *)
theory Control
  imports Ps2 Text_Io
begin

text \<open>
  The remote control: the server thread of \<open>src/verilator/control_server.cpp\<close> that splits a client's
  bytes into lines, answers or queues them, and what the main loop does with a queued line
  (\<open>process_control_commands\<close> of \<open>main.cpp\<close>). Sockets are not modelled: a received chunk and whether a
  reply could be sent are arguments.
\<close>

section \<open>The server's client loop\<close>

definition MAX_QUEUED_COMMANDS :: nat where "MAX_QUEUED_COMMANDS = 4096"
definition MAX_PENDING_INPUT :: nat where "MAX_PENDING_INPUT = 64 * 1024"

datatype ctl_reply = Status_line | Help_text | Queued | Queue_full | Input_too_large

text \<open>
  A connection and the queue it shares with the main thread: the bytes received and not yet split into
  lines, whether the connection is still served, the replies that were sent, and what the main thread
  has taken out of the queue so far.
\<close>

record control =
  c_pending :: string
  c_open :: bool
  c_commands :: "string list"
  c_replies :: "ctl_reply list"
  c_drained :: "string list"

text \<open>\<open>send_all\<close>: a reply that cannot be sent ends the connection.\<close>

definition send_reply :: "bool \<Rightarrow> ctl_reply \<Rightarrow> control \<Rightarrow> control" where
  "send_reply sent r s = (if sent then s\<lparr>c_replies := c_replies s @ [r]\<rparr> else s\<lparr>c_open := False\<rparr>)"

text \<open>A received chunk; an over-long one is answered before the connection is closed.\<close>

definition on_recv :: "bool \<Rightarrow> string \<Rightarrow> control \<Rightarrow> control" where
  "on_recv sent chunk s =
     (let s1 = s\<lparr>c_pending := c_pending s @ chunk\<rparr>
      in if MAX_PENDING_INPUT < length (c_pending s1) then (send_reply sent Input_too_large s1)\<lparr>c_open := False\<rparr> else s1)"

definition NL :: char where "NL = CHR 0x0A"
definition CR :: char where "CR = CHR 0x0D"

definition strip_cr :: "string \<Rightarrow> string" where
  "strip_cr line = (if line \<noteq> [] \<and> List.last line = CR then butlast line else line)"

text \<open>What one line does: answered at once, or queued for the main thread.\<close>

definition do_line :: "bool \<Rightarrow> string \<Rightarrow> control \<Rightarrow> control" where
  "do_line sent line s =
     (if line = [] then s
      else if line = ''status'' then send_reply sent Status_line s
      else if line = ''help'' then send_reply sent Help_text s
      else if length (c_commands s) < MAX_QUEUED_COMMANDS
      then send_reply sent Queued (s\<lparr>c_commands := c_commands s @ [line]\<rparr>)
      else send_reply sent Queue_full s)"

definition on_line :: "bool \<Rightarrow> control \<Rightarrow> control" where
  "on_line sent s =
     (let line = takeWhile (\<lambda>c. c \<noteq> NL) (c_pending s)
      in do_line sent (strip_cr line) (s\<lparr>c_pending := drop (length line + 1) (c_pending s)\<rparr>))"

definition drain_commands :: "control \<Rightarrow> string list \<times> control" where
  "drain_commands s = (c_commands s, s\<lparr>c_commands := [], c_drained := c_drained s @ c_commands s\<rparr>)"

text \<open>
  The two threads: the client's reads and handles lines, the main one drains at any point between
  them (the queue is locked for each access).
\<close>

inductive control_step :: "control \<Rightarrow> control \<Rightarrow> bool" where
  line: "c_open s \<Longrightarrow> NL \<in> set (c_pending s) \<Longrightarrow> control_step s (on_line sent s)"
| drain: "control_step s (snd (drain_commands s))"
| hangup: "control_step s (s\<lparr>c_open := False\<rparr>)"

definition connected :: control where
  "connected = \<lparr>c_pending = [], c_open = True, c_commands = [], c_replies = [], c_drained = []\<rparr>"

text \<open>The states a connection goes through, with everything received so far.\<close>

inductive control_reach :: "string \<Rightarrow> control \<Rightarrow> bool" where
  init: "control_reach [] connected"
| recv: "control_reach input s \<Longrightarrow> c_open s \<Longrightarrow> NL \<notin> set (c_pending s) \<Longrightarrow>
    control_reach (input @ chunk) (on_recv sent chunk s)"
| other: "control_reach input s \<Longrightarrow> control_step s t \<Longrightarrow> control_reach input t"

section \<open>The queue of commands\<close>

definition command_lines :: "string list \<Rightarrow> string list" where
  "command_lines ls = filter (\<lambda>l. l \<noteq> []) (map strip_cr ls)"

definition acknowledged :: "string list \<Rightarrow> ctl_reply list \<Rightarrow> string list" where
  "acknowledged ls rs = map fst (filter (\<lambda>(l, r). r = Queued) (zip ls rs))"

definition served :: "string \<Rightarrow> string list \<Rightarrow> control \<Rightarrow> bool" where
  "served input ls s \<longleftrightarrow> input = concat (map (\<lambda>l. l @ [NL]) ls) @ c_pending s \<and> list_all (\<lambda>l. NL \<notin> set l) ls \<and>
     length (c_replies s) = length (command_lines ls) \<and>
     c_drained s @ c_commands s = acknowledged (command_lines ls) (c_replies s)"

lemma command_lines_snoc: "command_lines (ls @ [l]) = command_lines ls @ (if strip_cr l = [] then [] else [strip_cr l])"
  by (simp add: command_lines_def)

lemma acknowledged_snoc:
  "length ls = length rs \<Longrightarrow> acknowledged (ls @ [l]) (rs @ [r]) = acknowledged ls rs @ (if r = Queued then [l] else [])"
  by (simp add: acknowledged_def)

lemma pending_split:
  assumes "NL \<in> set p"
  defines "l \<equiv> takeWhile (\<lambda>c. c \<noteq> NL) p"
  shows "p = l @ NL # drop (length l + 1) p" "NL \<notin> set l"
proof -
  have "dropWhile (\<lambda>c. c \<noteq> NL) p \<noteq> []" "hd (dropWhile (\<lambda>c. c \<noteq> NL) p) = NL"
    using assms(1) hd_dropWhile [of "\<lambda>c. c \<noteq> NL" p] by auto
  then obtain q where q: "dropWhile (\<lambda>c. c \<noteq> NL) p = NL # q"
    by (cases "dropWhile (\<lambda>c. c \<noteq> NL) p") auto
  then have "p = l @ NL # q"
    unfolding l_def by (metis takeWhile_dropWhile_id)
  then show "p = l @ NL # drop (length l + 1) p"
    by (metis add.commute append_eq_conv_conj drop_Suc list.sel(3) plus_1_eq_Suc tl_drop)
  show "NL \<notin> set l"
    unfolding l_def by (auto dest: set_takeWhileD)
qed

lemma line_served:
  assumes "served input ls s" "NL \<in> set (c_pending s)" "c_open (on_line sent s)"
  shows "\<exists>ls'. served input ls' (on_line sent s)"
proof -
  define l where "l = takeWhile (\<lambda>c. c \<noteq> NL) (c_pending s)"
  note p = pending_split [OF assms(2), folded l_def]
  have "served input (ls @ [l]) (on_line sent s)"
    using assms(1,3) p unfolding served_def on_line_def Let_def l_def [symmetric]
    by (auto simp: do_line_def send_reply_def command_lines_snoc acknowledged_snoc split: if_splits)
  then show ?thesis ..
qed

lemma commands_bounded: "control_reach input s \<Longrightarrow> length (c_commands s) \<le> MAX_QUEUED_COMMANDS"
  by (induction rule: control_reach.induct)
    (auto simp: connected_def on_recv_def send_reply_def on_line_def do_line_def drain_commands_def Let_def elim!: control_step.cases)

lemma served_open: "control_reach input s \<Longrightarrow> c_open s \<Longrightarrow> \<exists>ls. served input ls s"
proof (induction rule: control_reach.induct)
  case init
  show ?case
    by (rule exI [of _ "[]"]) (simp add: served_def connected_def command_lines_def acknowledged_def)
next
  case (recv input s chunk sent)
  then obtain ls where "served input ls s"
    by blast
  then have "served (input @ chunk) ls (on_recv sent chunk s)"
    using recv.prems by (auto simp: on_recv_def served_def Let_def split: if_splits)
  then show ?case ..
next
  case (other input s t)
  from other.hyps(2) show ?case
  proof cases
    case (line sent)
    then show ?thesis
      using other line_served by blast
  next
    case drain
    then obtain ls where "served input ls s"
      using other by (auto simp: drain_commands_def)
    then have "served input ls t"
      using drain by (simp add: drain_commands_def served_def)
    then show ?thesis ..
  next
    case hangup
    then show ?thesis
      using other.prems by simp
  qed
qed


definition sample_input :: string where
  "sample_input = ''key a'' @ [CR, NL] @ ''status'' @ [NL] @ ''mo''"

definition sample_control :: control where
  "sample_control = on_line True (on_line True (on_recv True sample_input connected))"

lemma sample_received: "on_recv True sample_input connected =
     \<lparr>c_pending = sample_input, c_open = True, c_commands = [], c_replies = [], c_drained = []\<rparr>"
  by (simp add: on_recv_def connected_def sample_input_def MAX_PENDING_INPUT_def)

lemmas line_defs = on_line_def do_line_def strip_cr_def send_reply_def Let_def NL_def CR_def sample_input_def MAX_QUEUED_COMMANDS_def

lemma sample_line: "on_line True (on_recv True sample_input connected) =
     \<lparr>c_pending = ''status'' @ [NL] @ ''mo'', c_open = True, c_commands = [''key a''], c_replies = [Queued], c_drained = []\<rparr>"
  unfolding sample_received by (simp add: line_defs)

lemma sample_control_eq: "sample_control =
     \<lparr>c_pending = ''mo'', c_open = True, c_commands = [''key a''], c_replies = [Queued, Status_line], c_drained = []\<rparr>"
  unfolding sample_control_def sample_line by (simp add: line_defs)

lemmas sample_states = sample_received sample_line sample_control_eq

lemma sample_control_reach: "control_reach sample_input sample_control"
proof -
  have "control_reach ([] @ sample_input) (on_recv True sample_input connected)"
    by (intro control_reach.recv control_reach.init) (simp_all add: connected_def)
  then have "control_reach sample_input (on_line True (on_recv True sample_input connected))"
    by (intro control_reach.other [OF _ control_step.line]) (simp_all add: sample_states(1), simp add: sample_input_def)
  then show ?thesis
    unfolding sample_control_def
    by (rule control_reach.other [OF _ control_step.line]) (simp_all add: sample_states(2))
qed


section \<open>Executing a line\<close>

text \<open>The state the commands work on; the calls of \<open>save_checkpoint\<close> are counted.\<close>

record command_state =
  cm_buttons :: u8
  cm_mouse_queue :: bytes
  cm_kbd_queue :: bytes
  cm_running :: bool
  cm_checkpoint_dir :: string
  cm_checkpoints :: nat
  cm_screenshots :: "string list"

datatype command_error =
    Mouse_usage | Mouse_buttons | Key_usage | Key_unsupported string | Key_action | Unsupported string

definition path_join :: "string \<Rightarrow> string \<Rightarrow> string" where
  "path_join dir name = (if dir = [] \<or> List.last dir = CHR ''/'' then dir @ name else dir @ ''/'' @ name)"

definition do_mouse :: "text_in \<Rightarrow> command_state \<Rightarrow> command_error option \<times> command_state" where
  "do_mouse s0 c =
     (let (dx, ok1, s1) = read_number accept_int 0 0 s0; (dy, ok2, s2) = read_number accept_int 0 0 s1
      in if \<not> (ok1 \<and> ok2) then (Some Mouse_usage, c)
         else let (buttons, ok3, s3) = read_number accept_unsigned 0 (ucast (cm_buttons c) :: u32) s2
              in if ok3 \<and> 7 < buttons then (Some Mouse_buttons, c)
                 else (None, c\<lparr>cm_buttons := ucast buttons, cm_mouse_queue := queue_mouse_packet dx dy (ucast buttons) (cm_mouse_queue c)\<rparr>))"

definition do_key :: "text_in \<Rightarrow> command_state \<Rightarrow> command_error option \<times> command_state" where
  "do_key s0 c =
     (let (name, ok1, s1) = read_word [] s0
      in if name = [] then (Some Key_usage, c)
         else let (action, ok2, s2) = read_word ''press'' s1
              in case parse_named_key name of None \<Rightarrow> (Some (Key_unsupported name), c)
                 | Some key \<Rightarrow>
                     if map_of ps2scancodes key = None then (Some (Key_unsupported name), c)
                     else if action = ''press''
                     then (None, c\<lparr>cm_kbd_queue := queue_sdl_key key False (queue_sdl_key key True (cm_kbd_queue c))\<rparr>)
                     else if action = ''down'' then (None, c\<lparr>cm_kbd_queue := queue_sdl_key key True (cm_kbd_queue c)\<rparr>)
                     else if action = ''up'' then (None, c\<lparr>cm_kbd_queue := queue_sdl_key key False (cm_kbd_queue c)\<rparr>)
                     else (Some Key_action, c))"

definition do_screenshot :: "string \<Rightarrow> u64 \<Rightarrow> text_in \<Rightarrow> command_state \<Rightarrow> command_state" where
  "do_screenshot screenshot_dir time s0 c =
     (let (requested, ok, s1) = read_word [] s0; name = ''control_'' @ dec (unat time) @ ''.png''
      in c\<lparr>cm_screenshots := cm_screenshots c @
            [if requested \<noteq> [] then requested else if screenshot_dir \<noteq> [] then path_join screenshot_dir name else name]\<rparr>)"

definition do_command :: "string \<Rightarrow> u64 \<Rightarrow> string \<Rightarrow> command_state \<Rightarrow> command_error option \<times> command_state" where
  "do_command screenshot_dir time line c =
     (let (operation, ok, s) = read_word [] (text_of line) in
      if operation = ''mouse'' then do_mouse s c
      else if operation = ''key'' then do_key s c
      else if operation = ''checkpoint''
      then (None, c\<lparr>cm_checkpoint_dir := (if cm_checkpoint_dir c = [] then ''checkpoints'' else cm_checkpoint_dir c),
                    cm_checkpoints := cm_checkpoints c + 1\<rparr>)
      else if operation = ''screenshot'' then (None, do_screenshot screenshot_dir time s c)
      else if operation = ''quit'' then (None, c\<lparr>cm_running := False\<rparr>)
      else (Some (Unsupported line), c))"

definition process_control_commands :: "string \<Rightarrow> u64 \<Rightarrow> string list \<Rightarrow> command_state \<Rightarrow> command_error list \<times> command_state" where
  "process_control_commands screenshot_dir time lines c =
     foldl (\<lambda>(es, c) line. case do_command screenshot_dir time line c of
        (None, c') \<Rightarrow> (es, c') | (Some e, c') \<Rightarrow> (es @ [e], c')) ([], c) lines"

section \<open>A mouse command moves the mouse\<close>

definition mouse_line :: "int \<Rightarrow> int \<Rightarrow> u8 option \<Rightarrow> string" where
  "mouse_line dx dy buttons = ''mouse '' @ int_text dx @ '' '' @ int_text dy @
     (case buttons of None \<Rightarrow> [] | Some b \<Rightarrow> CHR '' '' # dec (unat b))"

lemma digit_not_space: "is_digit c \<Longrightarrow> \<not> is_space c \<and> c \<noteq> CHR ''-'' \<and> c \<noteq> CHR ''+''"
  by (auto simp: is_digit_def is_space_def)

lemma takeWhile_digits: "list_all is_digit ds \<Longrightarrow> r = [] \<or> is_space (hd r) \<Longrightarrow> takeWhile is_digit (ds @ r) = ds"
proof (induction ds)
  case Nil
  then show ?case
    using digit_not_space by (cases r) auto
qed simp

lemma read_negative:
  assumes "r = [] \<or> is_space (hd r)" "accept True n = (v, True)"
  shows "read_number accept z old \<lparr>tx_rest = CHR '' '' # CHR ''-'' # dec n @ r, tx_good = True\<rparr> =
     (v, True, \<lparr>tx_rest = r, tx_good = (r \<noteq> [])\<rparr>)"
proof -
  have d: "digits_value (dec n) = n" "dec n \<noteq> []" "takeWhile is_digit (dec n @ r) = dec n"
    using dec_digits [of n] takeWhile_digits [OF _ assms(1)] by auto
  have "is_space (CHR '' '')" "\<not> is_space (CHR ''-'')"
    by (simp_all add: is_space_def)
  then show ?thesis
    using d assms(2) by (simp add: read_number_def Let_def)
qed

lemma read_positive:
  assumes "r = [] \<or> is_space (hd r)" "accept False n = (v, True)"
  shows "read_number accept z old \<lparr>tx_rest = CHR '' '' # dec n @ r, tx_good = True\<rparr> =
     (v, True, \<lparr>tx_rest = r, tx_good = (r \<noteq> [])\<rparr>)"
proof -
  have d: "digits_value (dec n) = n" "dec n \<noteq> []" "takeWhile is_digit (dec n @ r) = dec n"
    using dec_digits [of n] takeWhile_digits [OF _ assms(1)] by auto
  obtain c cs where c: "dec n = c # cs" "is_digit c"
    using dec_digits [of n] by (cases "dec n") auto
  have sp: "is_space (CHR '' '')" "\<not> is_space c" "c \<noteq> CHR ''-''" "c \<noteq> CHR ''+''"
    using digit_not_space [OF c(2)] by (simp_all add: is_space_def)
  then have dw: "dropWhile is_space (CHR '' '' # dec n @ r) = dec n @ r" "hd (dec n @ r) = c"
    by (simp_all add: c(1))
  show ?thesis
    using d assms(2) sp by (simp add: read_number_def dw(1) Let_def) (simp add: dw(2) [unfolded c(1)] c(1))
qed

lemma read_int_text:
  assumes "r = [] \<or> is_space (hd r)" "- (2 ^ 31) \<le> i" "i < 2 ^ 31"
  shows "read_number accept_int z old \<lparr>tx_rest = CHR '' '' # int_text i @ r, tx_good = True\<rparr> =
     (i, True, \<lparr>tx_rest = r, tx_good = (r \<noteq> [])\<rparr>)"
proof (cases "i < 0")
  case True
  then show ?thesis
    using read_negative [of r accept_int "nat (- i)" i] assms by (simp add: int_text_def accept_int_def)
next
  case False
  then show ?thesis
    using read_positive [of r accept_int "nat i" i] assms by (simp add: int_text_def accept_int_def)
qed

lemma mouse_command:
  assumes "- (2 ^ 31) \<le> dx" "dx < 2 ^ 31" "- (2 ^ 31) \<le> dy" "dy < 2 ^ 31" and b: "cm_buttons c \<le> 7" "\<forall>b. buttons = Some b \<longrightarrow> b \<le> 7"
  defines "b' \<equiv> (case buttons of None \<Rightarrow> cm_buttons c | Some b \<Rightarrow> b)"
  shows "do_command dir time (mouse_line dx dy buttons) c =
     (None, c\<lparr>cm_buttons := b', cm_mouse_queue := queue_mouse_packet dx dy b' (cm_mouse_queue c)\<rparr>)"
proof -
  define tail where "tail = (case buttons of None \<Rightarrow> [] | Some b \<Rightarrow> CHR '' '' # dec (unat b))"
  have sp: "is_space (CHR '' '')"
    by (simp add: is_space_def)
  have t: "tail = [] \<or> is_space (hd tail)"
    by (cases buttons) (simp_all add: tail_def sp)
  have line: "read_word [] (text_of (mouse_line dx dy buttons)) =
      (''mouse'', True, \<lparr>tx_rest = CHR '' '' # int_text dx @ CHR '' '' # int_text dy @ tail, tx_good = True\<rparr>)"
    by (simp add: read_word_def text_of_def mouse_line_def tail_def is_space_def)
  note x = read_int_text [of "CHR '' '' # int_text dy @ tail" dx 0 0, OF _ assms(1,2)]
  note y = read_int_text [OF t assms(3,4), of 0 0]
  have narrow: "ucast (ucast b :: u32) = b" for b :: u8
    by (rule bit_word_eqI) (auto simp: bit_ucast_iff)
  have le7: "\<not> 7 < (ucast b :: u32)" if "b \<le> 7" for b :: u8
    using that by (simp add: word_less_nat_alt word_le_nat_alt unsigned_ucast_eq take_bit_nat_eq_self)
  show ?thesis
  proof (cases buttons)
    case None
    have "read_number accept_unsigned 0 (ucast (cm_buttons c)) \<lparr>tx_rest = tail, tx_good = (tail \<noteq> [])\<rparr> =
        (ucast (cm_buttons c), False, \<lparr>tx_rest = [], tx_good = False\<rparr>)"
      by (simp add: read_number_def tail_def None split_beta)
    then show ?thesis
      using line x y sp by (simp add: do_command_def do_mouse_def narrow b'_def None)
  next
    case (Some b)
    have "accept_unsigned False (unat b) = (of_nat (unat b), True)"
      using unsigned_less [of b, where ?'a = nat] by (simp add: accept_unsigned_def)
    then have "read_number accept_unsigned 0 (ucast (cm_buttons c)) \<lparr>tx_rest = tail, tx_good = (tail \<noteq> [])\<rparr> =
        (of_nat (unat b), True, \<lparr>tx_rest = [], tx_good = False\<rparr>)"
      using read_positive [of "[]" accept_unsigned "unat b" "of_nat (unat b)"] by (simp add: tail_def Some)
    moreover have "(of_nat (unat b) :: u32) = ucast b"
      by simp
    ultimately show ?thesis
      using line x y sp b(2) le7 [of b] by (simp add: do_command_def do_mouse_def narrow b'_def Some)
  qed
qed

text \<open>
  A line "mouse dx dy" or "mouse dx dy buttons" with decimal numbers in range queues the packets of exactly that movement, with the buttons given or, without them, those held, and remembers the buttons.
\<close>

theorem mouse_command_moves:
  assumes "- (2 ^ 31) \<le> dx" "dx < 2 ^ 31" "- (2 ^ 31) \<le> dy" "dy < 2 ^ 31" "cm_buttons c \<le> 7" "\<forall>b. buttons = Some b \<longrightarrow> b \<le> 7"
  shows "do_command dir time (mouse_line dx dy buttons) c =
     (let b = case buttons of None \<Rightarrow> cm_buttons c | Some b \<Rightarrow> b
      in (None, c\<lparr>cm_buttons := b, cm_mouse_queue := queue_mouse_packet dx dy b (cm_mouse_queue c)\<rparr>))"
  unfolding Let_def by (rule mouse_command [OF assms])

definition sample_commands :: command_state where
  "sample_commands = \<lparr>cm_buttons = 1, cm_mouse_queue = [], cm_kbd_queue = [], cm_running = True, cm_checkpoint_dir = [],
     cm_checkpoints = 0, cm_screenshots = []\<rparr>"

theorem mouse_command_moves_witness:
  "do_command [] 0 (mouse_line (- 3) 200 None) sample_commands =
     (let b = 1 in (None, sample_commands\<lparr>cm_buttons := b, cm_mouse_queue := queue_mouse_packet (- 3) 200 b []\<rparr>))"
  by (subst mouse_command_moves) (simp_all add: sample_commands_def)

text \<open>
  A rejected line has no effect: when a command is refused, for its syntax, its key or its buttons, no queue, no button and no request has changed.
\<close>

theorem rejected_command_inert:
  assumes "do_command dir time line c = (Some e, c')"
  shows "c' = c"
  using assms by (auto simp: do_command_def do_mouse_def do_key_def Let_def split: if_splits prod.splits option.splits)

theorem rejected_command_inert_witness: "snd (do_command [] 0 ''key f13 press'' sample_commands) = sample_commands"
proof -
  have "fst (do_command [] 0 ''key f13 press'' sample_commands) = Some (Key_unsupported ''f13'')"
    by code_simp
  then show ?thesis
    using rejected_command_inert [of "[]" 0 "''key f13 press''" sample_commands] by (metis prod.collapse)
qed

text \<open>Buttons that are not a number are taken as 0: all buttons are released and the line is accepted.\<close>

lemma garbage_buttons_release:
  "do_command [] 0 ''mouse 1 2 left'' sample_commands =
     (None, sample_commands\<lparr>cm_buttons := 0, cm_mouse_queue := queue_mouse_packet 1 2 0 []\<rparr>)"
  by (simp add: do_command_def do_mouse_def read_word_def read_number_def text_of_def is_space_def is_digit_def digits_value_def
      accept_int_def accept_unsigned_def sample_commands_def)

end
