(* ===== verification/Main_Loop.thy ===== *)
theory Main_Loop
  imports Floppy Ide_Port
begin

text \<open>
  How the main loop of \<open>src/verilator/main.cpp\<close> shares the management bus between the two IDE channels
  and the floppies: one round per cycle. The round is itself a device in the sense of \<open>mgmt_device\<close>. A
  channel alone on the bus behaves as if it were clocked by itself; two busy ones disturb each other.
\<close>

section \<open>One turn of the management bus\<close>

text \<open>
  The start of the main loop's turn: the strobes are cleared, then the two IDE channels and the floppy
  are ticked in this order, each only while no strobe is up.
\<close>

definition unless_active :: "('s \<Rightarrow> mgmt_bus \<Rightarrow> ('c \<times> 's \<times> mgmt_bus) option) \<Rightarrow> 'c \<Rightarrow> 's \<Rightarrow> mgmt_bus \<Rightarrow> ('c \<times> 's \<times> mgmt_bus) option" where
  "unless_active step c s tb = (if bus_active tb then Some (c, s, tb) else step s tb)"

definition bus_round :: "bool \<times> jitter \<Rightarrow> hps_ide \<times> hps_ide \<times> hps_floppy \<Rightarrow> mgmt_bus \<Rightarrow>
    ((bool \<times> jitter) \<times> (hps_ide \<times> hps_ide \<times> hps_floppy) \<times> mgmt_bus) option" where
  "bus_round wj devs tb =
     (let (w, j) = wj; (ide0, ide1, fd) = devs in
      case tick j ide0 (clear_bus tb) of None \<Rightarrow> None | Some (j, ide0, tb) \<Rightarrow>
      case unless_active (tick j) j ide1 tb of None \<Rightarrow> None | Some (j, ide1, tb) \<Rightarrow>
      case unless_active (floppy_tick w) w fd tb of None \<Rightarrow> None | Some (w, fd, tb) \<Rightarrow> Some ((w, j), (ide0, ide1, fd), tb))"

definition devices_inv :: "hps_ide \<times> hps_ide \<times> hps_floppy \<Rightarrow> bool" where
  "devices_inv devs = (let (ide0, ide1, fd) = devs in ide_inv ide0 \<and> ide_inv ide1 \<and> floppy_inv fd)"

lemma unless_active_total:
  assumes "\<exists>c' s' tb'. step s tb = Some (c', s', tb') \<and> P s' \<and> bus_frame tb tb'" "P s"
  shows "\<exists>c' s' tb'. unless_active step c s tb = Some (c', s', tb') \<and> P s' \<and> bus_frame tb tb'"
  using assms by (auto simp: unless_active_def bus_frame_def)

interpretation loop_dev: mgmt_device bus_round devices_inv
proof
  fix devs :: "hps_ide \<times> hps_ide \<times> hps_floppy" and wj :: "bool \<times> jitter" and tb
  assume inv: "devices_inv devs"
  obtain ide0 ide1 fd where d: "devs = (ide0, ide1, fd)" "ide_inv ide0" "ide_inv ide1" "floppy_inv fd"
    using inv by (cases devs) (auto simp: devices_inv_def)
  obtain w j where wj: "wj = (w, j)"
    by (cases wj)
  obtain j1 e0 t1 where s1: "tick j ide0 (clear_bus tb) = Some (j1, e0, t1)" "ide_inv e0" "bus_frame (clear_bus tb) t1"
    using ide_dev.step_total [OF d(2)] by blast
  obtain j2 e1 t2 where s2: "unless_active (tick j1) j1 ide1 t1 = Some (j2, e1, t2)" "ide_inv e1" "bus_frame t1 t2"
    using unless_active_total [where P = ide_inv and step = "tick j1" and c = j1 and s = ide1 and tb = t1] ide_dev.step_total [OF d(3)] d(3) by metis
  obtain w' f t3 where s3: "unless_active (floppy_tick w) w fd t2 = Some (w', f, t3)" "floppy_inv f" "bus_frame t2 t3"
    using unless_active_total [where P = floppy_inv and step = "floppy_tick w" and c = w and s = fd and tb = t2] floppy_dev.step_total [OF d(4)] d(4) by metis
  have "bus_frame tb (clear_bus tb)"
    by (simp add: bus_frame_def clear_bus_def bus_ok_def)
  then have "bus_frame tb t3"
    using s1(3) s2(3) s3(3) bus_frame_trans by blast
  then show "\<exists>c' s' tb'. bus_round wj devs tb = Some (c', s', tb') \<and> devices_inv s' \<and> bus_frame tb tb'"
    using s1 s2 s3 by (simp add: bus_round_def d(1) wj devices_inv_def)
qed

text \<open>
  The three emulated drives on one bus: from their constructed states and for any bus inputs over any number of turns the main loop's round is defined, keeps every device's invariant, and never raises both strobes.
\<close>

theorem main_loop_bus_safe:
  assumes "ide_inv ide0" "ide_inv ide1" "floppy_inv fd" "bus_ok tb"
  shows "\<exists>wj' ide0' ide1' fd' tb'. bus_round wj (ide0, ide1, fd) tb = Some (wj', (ide0', ide1', fd'), tb') \<and>
     ide_inv ide0' \<and> ide_inv ide1' \<and> floppy_inv fd' \<and> bus_ok tb' \<and> tb_reset tb' = tb_reset tb \<and> mgmt_readdata tb' = mgmt_readdata tb"
  using loop_dev.step_total [of "(ide0, ide1, fd)" wj tb] assms by (fastforce simp: devices_inv_def bus_frame_def)

section \<open>A drive alone on the bus\<close>

text \<open>An IDE channel, or the floppies, with nothing to do.\<close>

definition idle_channel :: "hps_ide \<Rightarrow> bool" where
  "idle_channel s \<longleftrightarrow> i_state s = IDLE \<and> settled s"

text \<open>
  C18: While the other channel and the floppies are idle and nothing is asked of them, a turn of the main loop is exactly a tick of the first channel, so what holds of a channel alone holds in the loop.
\<close>

theorem alone_on_bus:
  assumes "idle_channel ide1" "i_id ide1 \<noteq> 0" "ide1_request tb \<noteq> 4" "ide1_request tb \<noteq> 6" "f_state fd = FDD_IDLE"
    "fdd_request tb AND 1 = 0" "fdd_request tb AND 2 = 0" "\<not> tb_reset tb" "ide_inv ide0"
  shows "bus_round (w, j) (ide0, ide1, fd) tb = map_option (\<lambda>(j', ide0', tb'). ((w, j'), (ide0', ide1, fd), tb')) (tick j ide0 tb)"
proof -
  have tc: "tick j ide0 (clear_bus tb) = tick j ide0 tb"
    by (simp add: tick_def clear_bus_def)
  obtain j1 e0 t1 where s1: "tick j ide0 tb = Some (j1, e0, t1)" "bus_frame tb t1"
    using ide_dev.step_total [OF assms(9)] by blast
  have i: "ide1_request t1 = ide1_request tb" "fdd_request t1 = fdd_request tb" "\<not> tb_reset t1"
    using s1(2) assms(8) by (simp_all add: bus_frame_def)
  show ?thesis
  proof (cases "bus_active t1")
    case True
    then show ?thesis
      by (simp add: bus_round_def tc s1(1) unless_active_def)
  next
    case False
    then have cl: "clear_bus t1 = t1"
      by (simp add: bus_active_def clear_bus_def)
    have "tick j1 ide1 t1 = Some (j1, ide1, t1)"
      using assms(1-4) i False
      by (simp add: tick_def Let_def cl idle_channel_def settled_def tick_idle_def ide_request_def tick_finish_def)
    moreover have "fdd_request t1 AND 1 = 0" "fdd_request t1 AND 2 = 0"
      using assms(6,7) by (simp_all add: i)
    then have "floppy_tick w fd t1 = Some (w, fd, t1)"
      using assms(5) i by (simp add: floppy_tick_def floppy_step_def)
    ultimately show ?thesis
      using False by (simp add: bus_round_def tc s1(1) unless_active_def)
  qed
qed

definition idle_drive :: "u8 \<Rightarrow> u16 \<Rightarrow> hps_ide" where
  "idle_drive n base = (hps_ide_new n base)\<lparr>i_state := IDLE\<rparr>"

definition asked_bus :: "u8 \<Rightarrow> mgmt_bus" where
  "asked_bus r1 = \<lparr>tb_reset = False, mgmt_address = 0, mgmt_read = False, mgmt_write = False, mgmt_writedata = 0, mgmt_readdata = 0,
     ide0_request = 4, ide1_request = r1, fdd_request = 0\<rparr>"

definition off :: "bool \<times> jitter" where
  "off = (False, \<lparr>j_en = False, j_state = 1\<rparr>)"

text \<open>The core's answer between two turns.\<close>

definition turn_with :: "u16 \<Rightarrow> ((bool \<times> jitter) \<times> (hps_ide \<times> hps_ide \<times> hps_floppy) \<times> mgmt_bus) \<Rightarrow>
    ((bool \<times> jitter) \<times> (hps_ide \<times> hps_ide \<times> hps_floppy) \<times> mgmt_bus) option" where
  "turn_with d r = (let (wj, devs, tb) = r in bus_round wj devs (tb\<lparr>mgmt_readdata := d\<rparr>))"

lemma idle_drive_inv: "ide_inv (idle_drive n base)"
  by (simp add: idle_drive_def hps_ide_new_def ide_inv_def ide_wf_def default_drive_def geom_ok_def)

theorem alone_on_bus_witness:
  "bus_round off (idle_drive 0 0xF000, idle_drive 1 0xF100, hps_floppy_new) (asked_bus 0) =
     map_option (\<lambda>(j', ide0', tb'). ((False, j'), (ide0', idle_drive 1 0xF100, hps_floppy_new), tb'))
       (tick (snd off) (idle_drive 0 0xF000) (asked_bus 0))"
  unfolding off_def snd_conv
  by (rule alone_on_bus) (rule idle_drive_inv | simp add: idle_channel_def settled_def idle_drive_def hps_ide_new_def asked_bus_def hps_floppy_new_def)+

theorem main_loop_bus_safe_witness:
  "\<exists>wj' ide0' ide1' fd' tb'. bus_round off (idle_drive 0 0xF000, idle_drive 1 0xF100, hps_floppy_new) (asked_bus 4) =
     Some (wj', (ide0', ide1', fd'), tb') \<and> ide_inv ide0' \<and> bus_ok tb'"
  using main_loop_bus_safe [OF idle_drive_inv idle_drive_inv floppy_new_inv, of "asked_bus 4" off 0 "0xF000" 1 "0xF100"]
  by (auto simp: asked_bus_def bus_ok_def)

text \<open>
  When both channels are asked for a command, the first one's next read is of the second one's registers:
  the second channel moves the address during the first one's cooldown turn.
\<close>

lemma channels_cross_talk:
  "case Option.bind (bus_round off (idle_drive 0 0xF000, idle_drive 1 0xF100, hps_floppy_new) (asked_bus 4))
      (\<lambda>r. Option.bind (turn_with x r) (turn_with y)) of
     None \<Rightarrow> False
   | Some (wj, (ide0, ide1, fd), tb) \<Rightarrow> mgmt_read tb \<and> mgmt_address tb = 0xF101 \<and> i_state ide0 = GET_CMD \<and>
       i_features ide0 = ucast (drop_bit 8 y)"
  by (simp add: bus_round_def turn_with_def off_def idle_drive_def hps_ide_new_def asked_bus_def clear_bus_def unless_active_def
      bus_active_def tick_def Let_def tick_idle_def tick_get_cmd_def ide_request_def tick_finish_def pulse_read_def floppy_tick_def
      floppy_step_def hps_floppy_new_def)

end
