(* ===== verification/Options.thy ===== *)
theory Options
  imports Control Management Ddr
begin

text \<open>
  The command line of the harness (\<open>main\<close> of \<open>src/verilator/main.cpp\<close>): how the standard library reads
  numbers, what each option sets, the checks after the last one, and what accepted options guarantee the
  rest of the program. An uncaught exception ends the program; a message is one it prints before returning 1.
\<close>

section \<open>Numbers in text\<close>

text \<open>
  \<open>std::stoi\<close>, \<open>std::stoul\<close> and \<open>std::stoull\<close>: white space, a sign, a prefix that may choose the
  base, then as many digits as there are; what follows is ignored. A value out of range and a
  text without digits throw. A minus sign on an unsigned type negates modulo two to the width.
\<close>

datatype exn = Invalid_argument string | Out_of_range string

definition digit_of :: "char \<Rightarrow> int" where
  "digit_of c = (let n = of_char c :: int in
     if 48 \<le> n \<and> n \<le> 57 then n - 48 else if 65 \<le> n \<and> n \<le> 90 then n - 55
     else if 97 \<le> n \<and> n \<le> 122 then n - 87 else 36)"

definition hex_prefix :: "string \<Rightarrow> bool" where
  "hex_prefix cs = (case cs of z # x # d # _ \<Rightarrow> z = CHR ''0'' \<and> (x = CHR ''x'' \<or> x = CHR ''X'') \<and> digit_of d < 16
     | _ \<Rightarrow> False)"

definition pick_base :: "int \<Rightarrow> string \<Rightarrow> int \<times> string" where
  "pick_base base cs =
     (if (base = 0 \<or> base = 16) \<and> hex_prefix cs then (16, drop 2 cs)
      else if base \<noteq> 0 then (base, cs)
      else if take 1 cs = ''0'' then (8, cs) else (10, cs))"

definition number_value :: "int \<Rightarrow> string \<Rightarrow> int" where
  "number_value b ds = foldl (\<lambda>v c. b * v + digit_of c) 0 ds"

definition scan_number :: "int \<Rightarrow> string \<Rightarrow> (bool \<times> int) option" where
  "scan_number base s =
     (let cs = dropWhile is_space s;
          neg = (take 1 cs = ''-'');
          body = (if neg \<or> take 1 cs = ''+'' then drop 1 cs else cs);
          (b, ds) = pick_base base body;
          ds = takeWhile (\<lambda>c. digit_of c < b) ds
      in if ds = [] then None else Some (neg, number_value b ds))"

definition unsigned_of :: "string \<Rightarrow> int \<Rightarrow> string \<Rightarrow> exn + u64" where
  "unsigned_of fn base s = (case scan_number base s of None \<Rightarrow> Inl (Invalid_argument fn)
     | Some (neg, n) \<Rightarrow> if 2 ^ 64 \<le> n then Inl (Out_of_range fn)
         else Inr (word_of_int (if neg then - n else n)))"

definition stoull :: "string \<Rightarrow> exn + u64" where
  "stoull = unsigned_of ''stoull'' 10"

definition stoul :: "int \<Rightarrow> string \<Rightarrow> exn + u64" where
  "stoul = unsigned_of ''stoul''"

definition stoi :: "int \<Rightarrow> string \<Rightarrow> exn + int" where
  "stoi base s = (case scan_number base s of None \<Rightarrow> Inl (Invalid_argument ''stoi'')
     | Some (neg, n) \<Rightarrow> let i = (if neg then - n else n)
         in if i < - (2 ^ 31) \<or> 2 ^ 31 \<le> i then Inl (Out_of_range ''stoi'') else Inr i)"

section \<open>Splitting a value\<close>

definition split_first :: "char \<Rightarrow> string \<Rightarrow> (string \<times> string) option" where
  "split_first c s = (let a = takeWhile (\<lambda>x. x \<noteq> c) s
     in if length a = length s then None else Some (a, drop (length a + 1) s))"

definition split_last :: "char \<Rightarrow> string \<Rightarrow> (string \<times> string) option" where
  "split_last c s = (case split_first c (rev s) of None \<Rightarrow> None | Some (b, a) \<Rightarrow> Some (rev a, rev b))"

fun split_on :: "char \<Rightarrow> string \<Rightarrow> string list" where
  "split_on c [] = [[]]"
| "split_on c (x # xs) = (if x = c then [] # split_on c xs
     else case split_on c xs of [] \<Rightarrow> [[x]] | w # ws \<Rightarrow> (x # w) # ws)"

section \<open>The options\<close>

text \<open>The variables the options set; those the code declares global are in the record too.\<close>

record opts =
  o_enable_trace :: bool
  o_trace_start_cycle :: u64
  o_trace_file_name :: string
  o_cosim_on :: bool
  o_ddr_busy_period :: int
  o_ddr_busy_len :: int
  o_ddr_busy_rand_pct :: int
  o_ddr_busy_rand_state :: u64
  o_headless :: bool
  o_max_cycles :: u64
  o_disk_path :: string
  o_cdrom_path :: string
  o_jitter :: "u32 option"
  o_floppy_path :: string
  o_floppy_b_path :: string
  o_floppy_writable :: bool
  o_boot_from_hdd :: bool
  o_boot0_path :: string
  o_boot1_path :: string
  o_ram_mb :: u32
  o_ram_mb_explicit :: bool
  o_shared_directory :: string
  o_cpu_speed_status :: u32
  o_cpu_speed_events :: "(u64 \<times> u32) list"
  o_opl3_mode :: bool
  o_opl_mode_explicit :: bool
  o_variable_vsync :: bool
  o_vga_border :: bool
  o_vga_border_explicit :: bool
  o_fb_bgr :: bool
  o_fb_1555 :: bool
  o_enter_cycles :: "u64 list"
  o_key_events :: "(u64 \<times> sdl_keycode) list"
  o_key_edge_events :: "(u64 \<times> sdl_keycode \<times> bool) list"
  o_text_key_events :: "(string \<times> sdl_keycode) list"
  o_mouse_packet_events :: "(u64 \<times> int \<times> int \<times> u8) list"
  o_control_port :: u32
  o_control_bind :: string
  o_ctrl_alt_del_cycles :: "u64 list"
  o_screen_check_cycles :: "u64 list"
  o_vga_plane_events :: "(u64 \<times> string) list"
  o_log_eip_markers :: "(u16 \<times> u32 \<times> bool) list"
  o_screenshot_dir :: string
  o_screenshot_interval_cycles :: u64
  o_stop_on_text :: string
  o_ide_debug :: bool
  o_zsst_debug :: bool
  o_zsst_profile :: "string option"
  o_zsst_write_trace_path :: string
  o_record_audio :: bool
  o_record_path :: string
  o_load_ram_path :: string
  o_arm_trace_on_flatline :: bool
  o_flatline_trace_window :: u64
  o_checkpoint_dir :: string
  o_checkpoint_interval_sec :: u64
  o_checkpoint_keep :: u64
  o_restore_path :: string
  o_no_audio_clock :: bool
  o_rtc :: "rtc_tm option"
  o_snapshot_dir :: string
  o_snapshot_interval_sec :: u64
  o_snapshot_keep :: u64
  o_snapshot_restore_path :: string

definition opts0 :: opts where
  "opts0 = \<lparr>o_enable_trace = False, o_trace_start_cycle = 0, o_trace_file_name = ''waveform.fst'',
     o_cosim_on = False, o_ddr_busy_period = 0, o_ddr_busy_len = 1, o_ddr_busy_rand_pct = 0,
     o_ddr_busy_rand_state = 0x9E3779B97F4A7C15, o_headless = False, o_max_cycles = - 1,
     o_disk_path = ''../../sdcard/freedos.img'', o_cdrom_path = [], o_jitter = None,
     o_floppy_path = [], o_floppy_b_path = [], o_floppy_writable = False, o_boot_from_hdd = False,
     o_boot0_path = ''boot0.rom'', o_boot1_path = ''boot1.rom'', o_ram_mb = 64, o_ram_mb_explicit = False,
     o_shared_directory = [], o_cpu_speed_status = 0, o_cpu_speed_events = [], o_opl3_mode = True,
     o_opl_mode_explicit = False, o_variable_vsync = False, o_vga_border = False,
     o_vga_border_explicit = False, o_fb_bgr = True, o_fb_1555 = True, o_enter_cycles = [],
     o_key_events = [], o_key_edge_events = [], o_text_key_events = [], o_mouse_packet_events = [],
     o_control_port = 0, o_control_bind = ''127.0.0.1'', o_ctrl_alt_del_cycles = [],
     o_screen_check_cycles = [], o_vga_plane_events = [], o_log_eip_markers = [], o_screenshot_dir = [],
     o_screenshot_interval_cycles = 0, o_stop_on_text = [], o_ide_debug = True, o_zsst_debug = False,
     o_zsst_profile = None, o_zsst_write_trace_path = [], o_record_audio = False,
     o_record_path = ''dsp.wav'', o_load_ram_path = [], o_arm_trace_on_flatline = False,
     o_flatline_trace_window = 8000000, o_checkpoint_dir = [], o_checkpoint_interval_sec = 0,
     o_checkpoint_keep = 6, o_restore_path = [], o_no_audio_clock = False, o_rtc = None,
     o_snapshot_dir = [], o_snapshot_interval_sec = 0, o_snapshot_keep = 30, o_snapshot_restore_path = []\<rparr>"

section \<open>The argument loop\<close>

text \<open>
  What ends the loop early: a message and \<open>return 1\<close>, or an exception no handler of \<open>main\<close> catches. The
  calls outside the program, opening a profile file and reading a date (\<open>strptime\<close>, \<open>timegm\<close>,
  \<open>gmtime_r\<close>), are arguments.
\<close>

datatype arg_error = Rejected string | Uncaught exn

record arg_env =
  open_profile :: "string \<Rightarrow> bool"
  read_utc :: "string \<Rightarrow> rtc_tm option"

type_synonym arg_step = "(arg_error + opts \<times> string list) option"

definition flag :: "string list \<Rightarrow> opts \<Rightarrow> arg_step" where
  "flag rest x = Some (Inr (x, rest))"

definition value_of :: "string list \<Rightarrow> (string \<Rightarrow> arg_error + opts) \<Rightarrow> arg_step" where
  "value_of rest f = (case rest of [] \<Rightarrow> None
     | v # remain \<Rightarrow> Some (case f v of Inl e \<Rightarrow> Inl e | Inr x \<Rightarrow> Inr (x, remain)))"

definition attempt :: "exn + 'a \<Rightarrow> ('a \<Rightarrow> arg_error + 'b) \<Rightarrow> arg_error + 'b" where
  "attempt r f = (case r of Inl e \<Rightarrow> Inl (Uncaught e) | Inr x \<Rightarrow> f x)"

definition catching_invalid :: "exn + 'a \<Rightarrow> ('a \<Rightarrow> arg_error + 'b) \<Rightarrow> arg_error + 'b" where
  "catching_invalid r f = (case r of Inl (Invalid_argument m) \<Rightarrow> Inl (Rejected m)
     | Inl e \<Rightarrow> Inl (Uncaught e) | Inr x \<Rightarrow> f x)"

definition in_cycles :: "string \<Rightarrow> (u64 \<Rightarrow> opts) \<Rightarrow> arg_error + opts" where
  "in_cycles v f = attempt (stoull v) (\<lambda>n. Inr (f (n div 2)))"

definition parse_cpu_speed :: "string \<Rightarrow> exn + u32" where
  "parse_cpu_speed speed =
     (if speed = ''full'' then Inr 0 else if speed = ''56'' then Inr 1 else if speed = ''30'' then Inr 2
      else if speed = ''15'' then Inr 3 else if speed = ''6'' then Inr 4 else if speed = ''5'' then Inr 5
      else if speed = ''4'' then Inr 6 else if speed = ''3'' then Inr 7
      else Inl (Invalid_argument ''CPU speed must be full, 56, 30, 15, 6, 5, 4, or 3''))"

definition trace_option :: "string \<Rightarrow> string list \<Rightarrow> opts \<Rightarrow> arg_step" where
  "trace_option arg rest x =
     (if arg = ''--trace'' then flag rest (x\<lparr>o_enable_trace := True\<rparr>)
      else if arg = ''--trace-start'' then value_of rest (\<lambda>v. in_cycles v (\<lambda>c.
        x\<lparr>o_trace_start_cycle := c, o_enable_trace := True\<rparr>))
      else if arg = ''--trace-file'' then value_of rest (\<lambda>v.
        Inr (x\<lparr>o_trace_file_name := v, o_enable_trace := True\<rparr>))
      else if arg = ''--cosim'' then flag rest (x\<lparr>o_cosim_on := True\<rparr>)
      else None)"

definition ddr_busy_option :: "string \<Rightarrow> opts \<Rightarrow> arg_error + opts" where
  "ddr_busy_option spec x =
     (let (p, l) = (case split_first CHR '','' spec of None \<Rightarrow> (spec, None) | Some (a, b) \<Rightarrow> (a, Some b)) in
      attempt (stoi 10 p) (\<lambda>period.
      attempt (case l of None \<Rightarrow> Inr 1 | Some b \<Rightarrow> stoi 10 b) (\<lambda>len.
        let period = (if period < 0 then 0 else period); len = (if len < 0 then 0 else len)
        in if period > 0 \<and> len \<ge> period then Inl (Rejected ''--ddr-busy L must be smaller than P'')
           else Inr (x\<lparr>o_ddr_busy_period := period, o_ddr_busy_len := len\<rparr>))))"

definition ddr_rand_option :: "string \<Rightarrow> opts \<Rightarrow> arg_error + opts" where
  "ddr_rand_option spec x =
     (let (p, s) = (case split_first CHR '','' spec of None \<Rightarrow> (spec, None) | Some (a, b) \<Rightarrow> (a, Some b)) in
      attempt (stoi 10 p) (\<lambda>pct.
      attempt (case s of None \<Rightarrow> Inr (o_ddr_busy_rand_state x)
        | Some b \<Rightarrow> (case stoull b of Inl e \<Rightarrow> Inl e | Inr n \<Rightarrow> Inr (0x9E3779B97F4A7C15 + n * 0xA0761D6478BD642F))) (\<lambda>st.
        let pct = (if pct < 0 then 0 else pct)
        in if pct > 95 then Inl (Rejected ''--ddr-busy-rand N must be <= 95'')
           else Inr (x\<lparr>o_ddr_busy_rand_pct := pct, o_ddr_busy_rand_state := st\<rparr>))))"

definition drive_option :: "string \<Rightarrow> string list \<Rightarrow> opts \<Rightarrow> arg_step" where
  "drive_option arg rest x =
     (if arg = ''--headless'' then flag rest (x\<lparr>o_headless := True\<rparr>)
      else if arg = ''--end'' then value_of rest (\<lambda>v. in_cycles v (\<lambda>c. x\<lparr>o_max_cycles := c\<rparr>))
      else if arg = ''--disk'' then value_of rest (\<lambda>v. Inr (x\<lparr>o_disk_path := v\<rparr>))
      else if arg = ''--cdrom'' then value_of rest (\<lambda>v. Inr (x\<lparr>o_cdrom_path := v\<rparr>))
      else if arg = ''--jitter'' then value_of rest (\<lambda>v. attempt (stoul 10 v) (\<lambda>n.
        Inr (x\<lparr>o_jitter := Some (ucast n)\<rparr>)))
      else if arg = ''--floppy'' then value_of rest (\<lambda>v. Inr (x\<lparr>o_floppy_path := v\<rparr>))
      else if arg = ''--floppy-b'' then value_of rest (\<lambda>v. Inr (x\<lparr>o_floppy_b_path := v\<rparr>))
      else if arg = ''--floppy-writable'' then flag rest (x\<lparr>o_floppy_writable := True\<rparr>)
      else if arg = ''--boot-hdd'' then flag rest (x\<lparr>o_boot_from_hdd := True\<rparr>)
      else if arg = ''--boot0'' then value_of rest (\<lambda>v. Inr (x\<lparr>o_boot0_path := v\<rparr>))
      else if arg = ''--boot1'' then value_of rest (\<lambda>v. Inr (x\<lparr>o_boot1_path := v\<rparr>))
      else None)"

definition ram_option :: "string \<Rightarrow> opts \<Rightarrow> arg_error + opts" where
  "ram_option v x = attempt (stoul 10 v) (\<lambda>n. let mb = ucast n :: u32 in
     if mb \<noteq> 16 \<and> mb \<noteq> 32 \<and> mb \<noteq> 64 \<and> mb \<noteq> 128 then Inl (Rejected ''--ram-mb must be 16, 32, 64, or 128'')
     else Inr (x\<lparr>o_ram_mb := mb, o_ram_mb_explicit := True\<rparr>))"

definition speed_at_option :: "string \<Rightarrow> opts \<Rightarrow> arg_error + opts" where
  "speed_at_option event x = (case split_first CHR '':'' event of
     None \<Rightarrow> Inl (Rejected ''--cpu-speed-at requires sim_time:speed'')
   | Some (t, s) \<Rightarrow> catching_invalid (stoull t) (\<lambda>n. catching_invalid (parse_cpu_speed s) (\<lambda>speed.
       Inr (x\<lparr>o_cpu_speed_events := o_cpu_speed_events x @ [(n div 2, speed)]\<rparr>))))"

definition machine_option :: "string \<Rightarrow> string list \<Rightarrow> opts \<Rightarrow> arg_step" where
  "machine_option arg rest x =
     (if arg = ''--ram-mb'' then value_of rest (\<lambda>v. ram_option v x)
      else if arg = ''--shared-dir'' then value_of rest (\<lambda>v. Inr (x\<lparr>o_shared_directory := v\<rparr>))
      else if arg = ''--cpu-speed'' then value_of rest (\<lambda>v. catching_invalid (parse_cpu_speed v) (\<lambda>s.
        Inr (x\<lparr>o_cpu_speed_status := s\<rparr>)))
      else if arg = ''--cpu-speed-at'' then value_of rest (\<lambda>v. speed_at_option v x)
      else None)"

definition video_option :: "string \<Rightarrow> string list \<Rightarrow> opts \<Rightarrow> arg_step" where
  "video_option arg rest x =
     (if arg = ''--opl2'' then flag rest (x\<lparr>o_opl3_mode := False, o_opl_mode_explicit := True\<rparr>)
      else if arg = ''--opl3'' then flag rest (x\<lparr>o_opl3_mode := True, o_opl_mode_explicit := True\<rparr>)
      else if arg = ''--variable-vsync'' then flag rest (x\<lparr>o_variable_vsync := True\<rparr>)
      else if arg = ''--vga-border'' then flag rest (x\<lparr>o_vga_border := True, o_vga_border_explicit := True\<rparr>)
      else if arg = ''--no-vga-border'' then flag rest (x\<lparr>o_vga_border := False, o_vga_border_explicit := True\<rparr>)
      else if arg = ''--fb-bgr'' then flag rest (x\<lparr>o_fb_bgr := True\<rparr>)
      else if arg = ''--fb-rgb'' then flag rest (x\<lparr>o_fb_bgr := False\<rparr>)
      else if arg = ''--fb-1555'' then flag rest (x\<lparr>o_fb_1555 := True\<rparr>)
      else if arg = ''--fb-565'' then flag rest (x\<lparr>o_fb_1555 := False\<rparr>)
      else None)"

definition key_at_option :: "string \<Rightarrow> opts \<Rightarrow> arg_error + opts" where
  "key_at_option event x = (case split_first CHR '':'' event of
     None \<Rightarrow> Inl (Rejected ''--key-at requires sim_time:key'')
   | Some (t, k) \<Rightarrow> (case parse_named_key k of
       None \<Rightarrow> Inl (Rejected (''unsupported --key-at key: '' @ k))
     | Some key \<Rightarrow> in_cycles t (\<lambda>c. x\<lparr>o_key_events := o_key_events x @ [(c, key)]\<rparr>)))"

definition key_edge_option :: "string \<Rightarrow> string \<Rightarrow> opts \<Rightarrow> arg_error + opts" where
  "key_edge_option arg event x = (case split_first CHR '':'' event of
     None \<Rightarrow> Inl (Rejected (arg @ '' requires sim_time:key''))
   | Some (t, k) \<Rightarrow> (case parse_named_key k of
       None \<Rightarrow> Inl (Rejected (''unsupported '' @ arg @ '' key: '' @ k))
     | Some key \<Rightarrow> in_cycles t (\<lambda>c.
         x\<lparr>o_key_edge_events := o_key_edge_events x @ [(c, key, arg = ''--key-down-at'')]\<rparr>)))"

definition key_text_option :: "string \<Rightarrow> opts \<Rightarrow> arg_error + opts" where
  "key_text_option event x = (case split_last CHR '':'' event of
     None \<Rightarrow> Inl (Rejected ''--key-on-text requires substring:key'')
   | Some (t, k) \<Rightarrow> if t = [] then Inl (Rejected ''--key-on-text requires substring:key'')
     else (case parse_named_key k of
       None \<Rightarrow> Inl (Rejected (''unsupported --key-on-text key: '' @ k))
     | Some key \<Rightarrow> Inr (x\<lparr>o_text_key_events := o_text_key_events x @ [(t, key)]\<rparr>)))"

definition key_option :: "string \<Rightarrow> string list \<Rightarrow> opts \<Rightarrow> arg_step" where
  "key_option arg rest x =
     (if arg = ''--enter-at'' then value_of rest (\<lambda>v. in_cycles v (\<lambda>c.
        x\<lparr>o_enter_cycles := o_enter_cycles x @ [c]\<rparr>))
      else if arg = ''--key-at'' then value_of rest (\<lambda>v. key_at_option v x)
      else if arg = ''--key-down-at'' \<or> arg = ''--key-up-at'' then value_of rest (\<lambda>v. key_edge_option arg v x)
      else if arg = ''--key-on-text'' then value_of rest (\<lambda>v. key_text_option v x)
      else None)"

definition mouse_at_option :: "string \<Rightarrow> opts \<Rightarrow> arg_error + opts" where
  "mouse_at_option event x =
     (let fields = split_on CHR '':'' event
      in if length fields \<noteq> 3 \<and> length fields \<noteq> 4
         then Inl (Rejected ''--mouse-at requires sim_time:dx:dy[:buttons]'')
         else attempt (stoi 0 (fields ! 1)) (\<lambda>dx. attempt (stoi 0 (fields ! 2)) (\<lambda>dy.
           attempt (if length fields = 4 then stoul 0 (fields ! 3) else Inr 0) (\<lambda>n.
           let buttons = ucast n :: u32
           in if buttons > 7 then Inl (Rejected ''--mouse-at buttons must be a 3-bit L/R/M mask'')
              else in_cycles (fields ! 0) (\<lambda>c. x\<lparr>o_mouse_packet_events :=
                     o_mouse_packet_events x @ [(c, dx, dy, ucast buttons)]\<rparr>)))))"

definition port_option :: "string \<Rightarrow> opts \<Rightarrow> arg_error + opts" where
  "port_option v x = attempt (stoul 10 v) (\<lambda>n. let p = ucast n :: u32 in
     if p = 0 \<or> p > 65535 then Inl (Rejected ''--control-port must be between 1 and 65535'')
     else Inr (x\<lparr>o_control_port := p\<rparr>))"

definition plane_option :: "string \<Rightarrow> opts \<Rightarrow> arg_error + opts" where
  "plane_option event x = (case split_first CHR '':'' event of
     None \<Rightarrow> Inl (Rejected ''--vga-plane-at requires sim_time:path'')
   | Some (t, p) \<Rightarrow> if p = [] then Inl (Rejected ''--vga-plane-at requires sim_time:path'')
     else in_cycles t (\<lambda>c. x\<lparr>o_vga_plane_events := o_vga_plane_events x @ [(c, p)]\<rparr>))"

definition eip_option :: "string \<Rightarrow> opts \<Rightarrow> arg_error + opts" where
  "eip_option marker x = (case split_first CHR '':'' marker of
     None \<Rightarrow> Inl (Rejected ''--log-eip requires hexadecimal CS:EIP'')
   | Some (cs, eip) \<Rightarrow> attempt (stoul 16 cs) (\<lambda>c. attempt (stoul 16 eip) (\<lambda>e.
       Inr (x\<lparr>o_log_eip_markers := o_log_eip_markers x @ [(ucast c, ucast e, False)]\<rparr>))))"

definition event_option :: "string \<Rightarrow> string list \<Rightarrow> opts \<Rightarrow> arg_step" where
  "event_option arg rest x =
     (if arg = ''--mouse-at'' then value_of rest (\<lambda>v. mouse_at_option v x)
      else if arg = ''--control-port'' then value_of rest (\<lambda>v. port_option v x)
      else if arg = ''--control-bind'' then value_of rest (\<lambda>v. Inr (x\<lparr>o_control_bind := v\<rparr>))
      else if arg = ''--ctrl-alt-del-at'' then value_of rest (\<lambda>v. in_cycles v (\<lambda>c.
        x\<lparr>o_ctrl_alt_del_cycles := o_ctrl_alt_del_cycles x @ [c]\<rparr>))
      else if arg = ''--screen-at'' then value_of rest (\<lambda>v. in_cycles v (\<lambda>c.
        x\<lparr>o_screen_check_cycles := o_screen_check_cycles x @ [c]\<rparr>))
      else if arg = ''--vga-plane-at'' then value_of rest (\<lambda>v. plane_option v x)
      else if arg = ''--log-eip'' then value_of rest (\<lambda>v. eip_option v x)
      else None)"

definition output_option :: "arg_env \<Rightarrow> string \<Rightarrow> string list \<Rightarrow> opts \<Rightarrow> arg_step" where
  "output_option env arg rest x =
     (if arg = ''--screenshot-dir'' then value_of rest (\<lambda>v. Inr (x\<lparr>o_screenshot_dir := v\<rparr>))
      else if arg = ''--screenshot-interval'' then value_of rest (\<lambda>v. in_cycles v (\<lambda>c.
        x\<lparr>o_screenshot_interval_cycles := c\<rparr>))
      else if arg = ''--stop-on-text'' then value_of rest (\<lambda>v. Inr (x\<lparr>o_stop_on_text := v\<rparr>))
      else if arg = ''--ide'' then flag rest (x\<lparr>o_ide_debug := True\<rparr>)
      else if arg = ''--no-ide'' then flag rest (x\<lparr>o_ide_debug := False\<rparr>)
      else if arg = ''--zsst-debug'' then flag rest (x\<lparr>o_zsst_debug := True\<rparr>)
      else if arg = ''--zsst-profile'' then value_of rest (\<lambda>v.
        if open_profile env v then Inr (x\<lparr>o_zsst_profile := Some v\<rparr>)
        else Inl (Rejected ''cannot open zSST profile (requires Voodoo model)''))
      else if arg = ''--zsst-write-trace'' then value_of rest (\<lambda>v. Inr (x\<lparr>o_zsst_write_trace_path := v\<rparr>))
      else if arg = ''--record'' then flag rest (x\<lparr>o_record_audio := True\<rparr>)
      else if arg = ''--record-file'' then value_of rest (\<lambda>v. Inr (x\<lparr>o_record_audio := True, o_record_path := v\<rparr>))
      else if arg = ''--load-ram'' then value_of rest (\<lambda>v. Inr (x\<lparr>o_load_ram_path := v\<rparr>))
      else if arg = ''--trace-on-flatline'' then flag rest (x\<lparr>o_arm_trace_on_flatline := True,
        o_enable_trace := True, o_trace_start_cycle := - 1\<rparr>)
      else if arg = ''--flatline-window'' then value_of rest (\<lambda>v. in_cycles v (\<lambda>c.
        x\<lparr>o_flatline_trace_window := c\<rparr>))
      else None)"

definition restore_option :: "arg_env \<Rightarrow> string \<Rightarrow> string list \<Rightarrow> opts \<Rightarrow> arg_step" where
  "restore_option env arg rest x =
     (if arg = ''--checkpoint-dir'' then value_of rest (\<lambda>v. Inr (x\<lparr>o_checkpoint_dir := v\<rparr>))
      else if arg = ''--checkpoint-interval-sec'' then value_of rest (\<lambda>v. attempt (stoull v) (\<lambda>n.
        Inr (x\<lparr>o_checkpoint_interval_sec := n\<rparr>)))
      else if arg = ''--checkpoint-keep'' then value_of rest (\<lambda>v. attempt (stoull v) (\<lambda>n.
        Inr (x\<lparr>o_checkpoint_keep := n\<rparr>)))
      else if arg = ''--restore'' then value_of rest (\<lambda>v. Inr (x\<lparr>o_restore_path := v\<rparr>))
      else if arg = ''--no-audio-clock'' then flag rest (x\<lparr>o_no_audio_clock := True\<rparr>)
      else if arg = ''--rtc'' \<or> arg = ''--rtc-utc'' then value_of rest (\<lambda>v. (case read_utc env v of
          None \<Rightarrow> Inl (Rejected ''--rtc wants \"YYYY-MM-DD HH:MM:SS\"'')
        | Some tm \<Rightarrow> Inr (x\<lparr>o_rtc := Some tm\<rparr>)))
      else if arg = ''--snapshot-dir'' then value_of rest (\<lambda>v. Inr (x\<lparr>o_snapshot_dir := v\<rparr>))
      else if arg = ''--snapshot-interval-sec'' then value_of rest (\<lambda>v. attempt (stoull v) (\<lambda>n.
        Inr (x\<lparr>o_snapshot_interval_sec := n\<rparr>)))
      else if arg = ''--snapshot-keep'' then value_of rest (\<lambda>v. attempt (stoull v) (\<lambda>n.
        Inr (x\<lparr>o_snapshot_keep := n\<rparr>)))
      else if arg = ''--restore-snapshot'' then value_of rest (\<lambda>v. Inr (x\<lparr>o_snapshot_restore_path := v\<rparr>))
      else None)"

definition or_else :: "arg_step \<Rightarrow> arg_step \<Rightarrow> arg_step" where
  "or_else a b = (case a of None \<Rightarrow> b | Some r \<Rightarrow> Some r)"

definition known_option :: "arg_env \<Rightarrow> string \<Rightarrow> string list \<Rightarrow> opts \<Rightarrow> arg_step" where
  "known_option env arg rest x =
     or_else (trace_option arg rest x)
     (or_else (if arg = ''--ddr-busy'' then value_of rest (\<lambda>v. ddr_busy_option v x)
               else if arg = ''--ddr-busy-rand'' then value_of rest (\<lambda>v. ddr_rand_option v x) else None)
     (or_else (drive_option arg rest x)
     (or_else (machine_option arg rest x)
     (or_else (video_option arg rest x)
     (or_else (key_option arg rest x)
     (or_else (event_option arg rest x)
     (or_else (output_option env arg rest x)
     (restore_option env arg rest x))))))))"

definition one_option :: "arg_env \<Rightarrow> string \<Rightarrow> string list \<Rightarrow> opts \<Rightarrow> arg_error + opts \<times> string list" where
  "one_option env arg rest x = (case known_option env arg rest x of
     Some r \<Rightarrow> r
   | None \<Rightarrow> if arg \<noteq> [] \<and> hd arg = CHR ''+'' then Inr (x, rest) else Inl (Rejected ''usage''))"

lemma flag_iff: "flag rest x = Some (Inr (y, remain)) \<longleftrightarrow> y = x \<and> remain = rest"
  by (auto simp: flag_def)

lemma value_of_iff:
  "value_of rest f = Some (Inr (y, remain)) \<longleftrightarrow> (\<exists>v. rest = v # remain \<and> f v = Inr y)"
  by (auto simp: value_of_def split: list.splits sum.splits)

lemma or_else_iff: "or_else a b = Some r \<longleftrightarrow> a = Some r \<or> a = None \<and> b = Some r"
  by (auto simp: or_else_def split: option.splits)

lemma attempt_iff: "attempt r f = Inr y \<longleftrightarrow> (\<exists>v. r = Inr v \<and> f v = Inr y)"
  by (auto simp: attempt_def split: sum.splits)

lemma catching_iff: "catching_invalid r f = Inr y \<longleftrightarrow> (\<exists>v. r = Inr v \<and> f v = Inr y)"
  by (auto simp: catching_invalid_def split: sum.splits exn.splits)

lemma in_cycles_iff: "in_cycles v f = Inr y \<longleftrightarrow> (\<exists>n. stoull v = Inr n \<and> y = f (n div 2))"
  by (auto simp: in_cycles_def attempt_iff)

lemmas step_iffs = flag_iff value_of_iff or_else_iff attempt_iff catching_iff in_cycles_iff

definition consumes :: "arg_step \<Rightarrow> string list \<Rightarrow> bool" where
  "consumes r rest \<longleftrightarrow> (\<forall>y remain. r = Some (Inr (y, remain)) \<longrightarrow> length remain \<le> length rest)"

lemma consumes_simps:
  "consumes (flag rest x) rest" "consumes (value_of rest f) rest" "consumes None rest"
  "consumes a rest \<Longrightarrow> consumes b rest \<Longrightarrow> consumes (or_else a b) rest"
  by (auto simp: consumes_def step_iffs)

lemma consumes_if: "consumes a rest \<Longrightarrow> consumes b rest \<Longrightarrow> consumes (if P then a else b) rest"
  by simp

lemma one_option_shorter:
  assumes "one_option env arg rest x = Inr (y, remain)"
  shows "length remain \<le> length rest"
proof -
  have "consumes (known_option env arg rest x) rest"
    unfolding known_option_def trace_option_def drive_option_def machine_option_def video_option_def
      key_option_def event_option_def output_option_def restore_option_def
    by (intro consumes_simps consumes_if)
  then show ?thesis
    using assms by (auto simp: one_option_def consumes_def split: option.splits if_splits)
qed

function parse_args :: "arg_env \<Rightarrow> string list \<Rightarrow> opts \<Rightarrow> arg_error + opts" where
  "parse_args env [] x = Inr x"
| "parse_args env (arg # rest) x = (case one_option env arg rest x of Inl e \<Rightarrow> Inl e
     | Inr (y, remain) \<Rightarrow> parse_args env remain y)"
  by pat_completeness auto
termination
  by (relation "measure (\<lambda>(env, args, x). length args)") (auto simp: less_Suc_eq_le dest: one_option_shorter)

text \<open>What \<open>main\<close> checks and completes once all arguments are read.\<close>

definition complete_options :: "opts \<Rightarrow> arg_error + opts" where
  "complete_options x =
     (let x = (if o_checkpoint_dir x \<noteq> [] \<and> o_checkpoint_interval_sec x = 0 then x\<lparr>o_checkpoint_interval_sec := 600\<rparr> else x);
          x = (if o_snapshot_dir x \<noteq> [] \<and> o_snapshot_interval_sec x = 0 then x\<lparr>o_snapshot_interval_sec := 60\<rparr> else x)
      in if (o_snapshot_dir x \<noteq> [] \<or> o_snapshot_restore_path x \<noteq> []) \<and> \<not> o_cosim_on x
         then Inl (Rejected ''portable snapshots need --cosim (the reference holds the CPU state)'')
         else if o_snapshot_restore_path x \<noteq> [] \<and> o_restore_path x \<noteq> []
         then Inl (Rejected ''--restore and --restore-snapshot are exclusive'')
         else Inr (if o_screenshot_dir x \<noteq> [] \<and> o_screenshot_interval_cycles x = 0
                   then x\<lparr>o_screenshot_interval_cycles := 12500000\<rparr> else x))"

definition read_options :: "arg_env \<Rightarrow> string list \<Rightarrow> arg_error + opts" where
  "read_options env args = (case parse_args env args opts0 of Inl e \<Rightarrow> Inl e | Inr x \<Rightarrow> complete_options x)"

section \<open>What accepted options satisfy\<close>

definition busy_ok :: "opts \<Rightarrow> bool" where
  "busy_ok x \<longleftrightarrow> 0 \<le> o_ddr_busy_period x \<and> 0 \<le> o_ddr_busy_len x \<and> o_ddr_busy_period x < 2 ^ 31 \<and>
     (o_ddr_busy_period x > 0 \<longrightarrow> o_ddr_busy_len x < o_ddr_busy_period x) \<and>
     0 \<le> o_ddr_busy_rand_pct x \<and> o_ddr_busy_rand_pct x \<le> 95"

definition events_ok :: "opts \<Rightarrow> bool" where
  "events_ok x \<longleftrightarrow> list_all (\<lambda>(c, s). c < 2 ^ 63 \<and> s \<le> 7) (o_cpu_speed_events x) \<and>
     list_all (\<lambda>(c, dx, dy, b). c < 2 ^ 63 \<and> int32 dx \<and> int32 dy \<and> b \<le> 7) (o_mouse_packet_events x) \<and>
     list_all (\<lambda>(c, k). \<exists>n. parse_named_key n = Some k) (o_key_events x) \<and>
     list_all (\<lambda>(c, k, d). \<exists>n. parse_named_key n = Some k) (o_key_edge_events x)"

definition opts_ok :: "opts \<Rightarrow> bool" where
  "opts_ok x \<longleftrightarrow> o_ram_mb x \<in> {16, 32, 64, 128} \<and> o_cpu_speed_status x \<le> 7 \<and> o_control_port x \<le> 65535 \<and>
     busy_ok x \<and> events_ok x"

definition keeps :: "opts \<Rightarrow> arg_step \<Rightarrow> bool" where
  "keeps x r \<longleftrightarrow> (\<forall>y remain. r = Some (Inr (y, remain)) \<longrightarrow> opts_ok x \<longrightarrow> opts_ok y)"

lemma keeps_flag: "opts_ok y = opts_ok x \<Longrightarrow> keeps x (flag rest y)"
  by (simp add: keeps_def flag_iff)

lemma keeps_value: "(\<And>v y. opts_ok x \<Longrightarrow> f v = Inr y \<Longrightarrow> opts_ok y) \<Longrightarrow> keeps x (value_of rest f)"
  by (auto simp: keeps_def value_of_iff)

lemma keeps_none: "keeps x None"
  by (simp add: keeps_def)

lemma keeps_or_else: "keeps x a \<Longrightarrow> keeps x b \<Longrightarrow> keeps x (or_else a b)"
  by (auto simp: keeps_def or_else_iff)

lemma keeps_if: "keeps x a \<Longrightarrow> keeps x b \<Longrightarrow> keeps x (if P then a else b)"
  by simp

lemmas keeps_rules = keeps_if keeps_flag keeps_value keeps_none

lemma halved: "n div 2 < (2 ^ 63 :: u64)" for n :: u64
  using unsigned_less [of n, where ?'a = nat] by (simp add: word_less_nat_alt unat_div)

lemma stoi_range: "stoi b v = Inr i \<Longrightarrow> int32 i"
  by (auto simp: stoi_def int32_def Let_def split: option.splits if_splits)

lemma speed_range: "parse_cpu_speed v = Inr s \<Longrightarrow> s \<le> 7"
  by (auto simp: parse_cpu_speed_def split: if_splits)

lemmas opts_ok_defs = opts_ok_def busy_ok_def events_ok_def

lemma opts_ok_other:
  "opts_ok (x\<lparr>o_enable_trace := v0\<rparr>) = opts_ok x"
  "opts_ok (x\<lparr>o_trace_start_cycle := v1\<rparr>) = opts_ok x"
  "opts_ok (x\<lparr>o_trace_file_name := v2\<rparr>) = opts_ok x"
  "opts_ok (x\<lparr>o_cosim_on := v3\<rparr>) = opts_ok x"
  "opts_ok (x\<lparr>o_ddr_busy_rand_state := v4\<rparr>) = opts_ok x"
  "opts_ok (x\<lparr>o_headless := v5\<rparr>) = opts_ok x"
  "opts_ok (x\<lparr>o_max_cycles := v6\<rparr>) = opts_ok x"
  "opts_ok (x\<lparr>o_disk_path := v7\<rparr>) = opts_ok x"
  "opts_ok (x\<lparr>o_cdrom_path := v8\<rparr>) = opts_ok x"
  "opts_ok (x\<lparr>o_jitter := v9\<rparr>) = opts_ok x"
  "opts_ok (x\<lparr>o_floppy_path := v10\<rparr>) = opts_ok x"
  "opts_ok (x\<lparr>o_floppy_b_path := v11\<rparr>) = opts_ok x"
  "opts_ok (x\<lparr>o_floppy_writable := v12\<rparr>) = opts_ok x"
  "opts_ok (x\<lparr>o_boot_from_hdd := v13\<rparr>) = opts_ok x"
  "opts_ok (x\<lparr>o_boot0_path := v14\<rparr>) = opts_ok x"
  "opts_ok (x\<lparr>o_boot1_path := v15\<rparr>) = opts_ok x"
  "opts_ok (x\<lparr>o_ram_mb_explicit := v16\<rparr>) = opts_ok x"
  "opts_ok (x\<lparr>o_shared_directory := v17\<rparr>) = opts_ok x"
  "opts_ok (x\<lparr>o_opl3_mode := v18\<rparr>) = opts_ok x"
  "opts_ok (x\<lparr>o_opl_mode_explicit := v19\<rparr>) = opts_ok x"
  "opts_ok (x\<lparr>o_variable_vsync := v20\<rparr>) = opts_ok x"
  "opts_ok (x\<lparr>o_vga_border := v21\<rparr>) = opts_ok x"
  "opts_ok (x\<lparr>o_vga_border_explicit := v22\<rparr>) = opts_ok x"
  "opts_ok (x\<lparr>o_fb_bgr := v23\<rparr>) = opts_ok x"
  "opts_ok (x\<lparr>o_fb_1555 := v24\<rparr>) = opts_ok x"
  "opts_ok (x\<lparr>o_enter_cycles := v25\<rparr>) = opts_ok x"
  "opts_ok (x\<lparr>o_text_key_events := v26\<rparr>) = opts_ok x"
  "opts_ok (x\<lparr>o_control_bind := v27\<rparr>) = opts_ok x"
  "opts_ok (x\<lparr>o_ctrl_alt_del_cycles := v28\<rparr>) = opts_ok x"
  "opts_ok (x\<lparr>o_screen_check_cycles := v29\<rparr>) = opts_ok x"
  "opts_ok (x\<lparr>o_vga_plane_events := v30\<rparr>) = opts_ok x"
  "opts_ok (x\<lparr>o_log_eip_markers := v31\<rparr>) = opts_ok x"
  "opts_ok (x\<lparr>o_screenshot_dir := v32\<rparr>) = opts_ok x"
  "opts_ok (x\<lparr>o_screenshot_interval_cycles := v33\<rparr>) = opts_ok x"
  "opts_ok (x\<lparr>o_stop_on_text := v34\<rparr>) = opts_ok x"
  "opts_ok (x\<lparr>o_ide_debug := v35\<rparr>) = opts_ok x"
  "opts_ok (x\<lparr>o_zsst_debug := v36\<rparr>) = opts_ok x"
  "opts_ok (x\<lparr>o_zsst_profile := v37\<rparr>) = opts_ok x"
  "opts_ok (x\<lparr>o_zsst_write_trace_path := v38\<rparr>) = opts_ok x"
  "opts_ok (x\<lparr>o_record_audio := v39\<rparr>) = opts_ok x"
  "opts_ok (x\<lparr>o_record_path := v40\<rparr>) = opts_ok x"
  "opts_ok (x\<lparr>o_load_ram_path := v41\<rparr>) = opts_ok x"
  "opts_ok (x\<lparr>o_arm_trace_on_flatline := v42\<rparr>) = opts_ok x"
  "opts_ok (x\<lparr>o_flatline_trace_window := v43\<rparr>) = opts_ok x"
  "opts_ok (x\<lparr>o_checkpoint_dir := v44\<rparr>) = opts_ok x"
  "opts_ok (x\<lparr>o_checkpoint_interval_sec := v45\<rparr>) = opts_ok x"
  "opts_ok (x\<lparr>o_checkpoint_keep := v46\<rparr>) = opts_ok x"
  "opts_ok (x\<lparr>o_restore_path := v47\<rparr>) = opts_ok x"
  "opts_ok (x\<lparr>o_no_audio_clock := v48\<rparr>) = opts_ok x"
  "opts_ok (x\<lparr>o_rtc := v49\<rparr>) = opts_ok x"
  "opts_ok (x\<lparr>o_snapshot_dir := v50\<rparr>) = opts_ok x"
  "opts_ok (x\<lparr>o_snapshot_interval_sec := v51\<rparr>) = opts_ok x"
  "opts_ok (x\<lparr>o_snapshot_keep := v52\<rparr>) = opts_ok x"
  "opts_ok (x\<lparr>o_snapshot_restore_path := v53\<rparr>) = opts_ok x"
  by (simp_all add: opts_ok_defs)

lemma opts_ok_busy:
  "opts_ok x \<Longrightarrow> 0 \<le> p \<Longrightarrow> 0 \<le> l \<Longrightarrow> p < 2 ^ 31 \<Longrightarrow> (p > 0 \<Longrightarrow> l < p) \<Longrightarrow>
     opts_ok (x\<lparr>o_ddr_busy_period := p, o_ddr_busy_len := l\<rparr>)"
  "opts_ok x \<Longrightarrow> 0 \<le> c \<Longrightarrow> c \<le> 95 \<Longrightarrow> opts_ok (x\<lparr>o_ddr_busy_rand_pct := c\<rparr>)"
  by (simp_all add: opts_ok_defs)

lemma opts_ok_machine:
  "opts_ok x \<Longrightarrow> m \<in> {16, 32, 64, 128} \<Longrightarrow> opts_ok (x\<lparr>o_ram_mb := m\<rparr>)"
  "opts_ok x \<Longrightarrow> s \<le> 7 \<Longrightarrow> opts_ok (x\<lparr>o_cpu_speed_status := s\<rparr>)"
  "opts_ok x \<Longrightarrow> p \<le> 65535 \<Longrightarrow> opts_ok (x\<lparr>o_control_port := p\<rparr>)"
  "opts_ok x \<Longrightarrow> s \<le> 7 \<Longrightarrow> opts_ok (x\<lparr>o_cpu_speed_events := o_cpu_speed_events x @ [(n div 2, s)]\<rparr>)"
  using halved [of n] by (simp_all add: opts_ok_defs)

lemma opts_ok_input:
  "opts_ok x \<Longrightarrow> parse_named_key n = Some k \<Longrightarrow> opts_ok (x\<lparr>o_key_events := o_key_events x @ [(c, k)]\<rparr>)"
  "opts_ok x \<Longrightarrow> parse_named_key n = Some k \<Longrightarrow>
     opts_ok (x\<lparr>o_key_edge_events := o_key_edge_events x @ [(c, k, d)]\<rparr>)"
  "opts_ok x \<Longrightarrow> int32 dx \<Longrightarrow> int32 dy \<Longrightarrow> b \<le> 7 \<Longrightarrow>
     opts_ok (x\<lparr>o_mouse_packet_events := o_mouse_packet_events x @ [(t div 2, dx, dy, b)]\<rparr>)"
  using halved [of t] by (auto simp add: opts_ok_defs)

lemma keeps_trace: "keeps x (trace_option arg rest x)"
  unfolding trace_option_def by (intro keeps_rules) (auto simp: opts_ok_other step_iffs)

lemma keeps_drive: "keeps x (drive_option arg rest x)"
  unfolding drive_option_def by (intro keeps_rules) (auto simp: opts_ok_other step_iffs)

lemma keeps_video: "keeps x (video_option arg rest x)"
  unfolding video_option_def by (intro keeps_rules) (auto simp: opts_ok_other step_iffs)

lemma keeps_output: "keeps x (output_option env arg rest x)"
  unfolding output_option_def by (intro keeps_rules) (auto simp: opts_ok_other step_iffs split: if_splits)

lemma keeps_restore: "keeps x (restore_option env arg rest x)"
  unfolding restore_option_def by (intro keeps_rules) (auto simp: opts_ok_other step_iffs split: option.splits)

lemma reject_iff: "(if P then Inl e else Inr z) = Inr y \<longleftrightarrow> \<not> P \<and> y = z"
  by auto

lemma floored: "0 \<le> (if i < 0 then 0 else i)" for i :: int
  by simp

lemma ddr_busy_ok: "ddr_busy_option v x = Inr y \<Longrightarrow> opts_ok x \<Longrightarrow> opts_ok y"
proof -
  assume ok: "opts_ok x" and "ddr_busy_option v x = Inr y"
  then obtain s t p l where sp: "stoi 10 s = Inr p"
      and sl: "(case t of None \<Rightarrow> Inr 1 | Some b \<Rightarrow> stoi 10 b) = Inr l"
      and nb: "\<not> ((if p < 0 then 0 else p) > 0 \<and> (if l < 0 then 0 else l) \<ge> (if p < 0 then 0 else p))"
      and y: "y = x\<lparr>o_ddr_busy_period := if p < 0 then 0 else p, o_ddr_busy_len := if l < 0 then 0 else l\<rparr>"
    unfolding ddr_busy_option_def Let_def
    by (simp only: step_iffs reject_iff split: prod.splits) blast
  have "p < 2 ^ 31"
    using stoi_range [OF sp] by (simp add: int32_def)
  then show ?thesis
    unfolding y using nb by (intro opts_ok_busy ok floored) (auto split: if_splits)
qed

lemma ddr_rand_ok: "ddr_rand_option v x = Inr y \<Longrightarrow> opts_ok x \<Longrightarrow> opts_ok y"
proof -
  assume ok: "opts_ok x" and "ddr_rand_option v x = Inr y"
  then obtain p st where np: "\<not> (if p < 0 then 0 else p) > (95 :: int)"
      and y: "y = x\<lparr>o_ddr_busy_rand_pct := if p < 0 then 0 else p\<rparr>\<lparr>o_ddr_busy_rand_state := st\<rparr>"
    unfolding ddr_rand_option_def Let_def
    by (simp only: step_iffs reject_iff split: prod.splits) blast
  have "opts_ok (x\<lparr>o_ddr_busy_rand_pct := if p < 0 then 0 else p\<rparr>)"
    using np by (intro opts_ok_busy ok floored) linarith
  then show ?thesis
    unfolding y opts_ok_other .
qed

lemma ram_ok: "ram_option v x = Inr y \<Longrightarrow> opts_ok x \<Longrightarrow> opts_ok y"
  by (auto simp: ram_option_def step_iffs Let_def opts_ok_other intro!: opts_ok_machine split: if_splits)

lemma speed_at_ok: "speed_at_option v x = Inr y \<Longrightarrow> opts_ok x \<Longrightarrow> opts_ok y"
  by (auto simp: speed_at_option_def step_iffs intro!: opts_ok_machine split: option.splits dest: speed_range)

lemma keeps_machine: "keeps x (machine_option arg rest x)"
  unfolding machine_option_def
  by (intro keeps_rules) (auto simp: step_iffs opts_ok_other intro: ram_ok speed_at_ok opts_ok_machine speed_range)

lemma key_ok: "key_at_option v x = Inr y \<Longrightarrow> opts_ok x \<Longrightarrow> opts_ok y"
    "key_edge_option arg v x = Inr y \<Longrightarrow> opts_ok x \<Longrightarrow> opts_ok y"
    "key_text_option v x = Inr y \<Longrightarrow> opts_ok x \<Longrightarrow> opts_ok y"
  by (auto simp: key_at_option_def key_edge_option_def key_text_option_def step_iffs opts_ok_other
    intro: opts_ok_input split: option.splits if_splits)

lemma keeps_key: "keeps x (key_option arg rest x)"
  unfolding key_option_def
  by (intro keeps_rules) (auto simp: step_iffs opts_ok_other intro: key_ok)

lemma narrow_buttons: "\<not> 7 < b \<Longrightarrow> (ucast b :: u8) \<le> 7" for b :: u32
  by (simp add: word_le_nat_alt word_less_nat_alt unsigned_ucast_eq take_bit_eq_mod)

lemma mouse_at_ok: "mouse_at_option v x = Inr y \<Longrightarrow> opts_ok x \<Longrightarrow> opts_ok y"
  by (auto simp: mouse_at_option_def step_iffs Let_def intro!: opts_ok_input narrow_buttons
    split: if_splits dest: stoi_range)

lemma event_values_ok: "port_option v x = Inr y \<Longrightarrow> opts_ok x \<Longrightarrow> opts_ok y"
    "plane_option v x = Inr y \<Longrightarrow> opts_ok x \<Longrightarrow> opts_ok y"
    "eip_option v x = Inr y \<Longrightarrow> opts_ok x \<Longrightarrow> opts_ok y"
  by (auto simp: port_option_def plane_option_def eip_option_def step_iffs Let_def opts_ok_other
    intro!: opts_ok_machine split: if_splits option.splits)

lemma keeps_event: "keeps x (event_option arg rest x)"
  unfolding event_option_def
  by (intro keeps_rules) (auto simp: step_iffs opts_ok_other intro: mouse_at_ok event_values_ok)

lemma keeps_known: "keeps x (known_option env arg rest x)"
  unfolding known_option_def
  by (intro keeps_or_else keeps_trace keeps_drive keeps_machine keeps_video keeps_key keeps_event keeps_output
      keeps_restore keeps_if keeps_value keeps_none) (auto intro: ddr_busy_ok ddr_rand_ok)

lemma parse_args_ok: "parse_args env args x = Inr y \<Longrightarrow> opts_ok x \<Longrightarrow> opts_ok y"
proof (induction env args x rule: parse_args.induct)
  case (2 env arg rest x)
  then obtain z remain where one: "one_option env arg rest x = Inr (z, remain)" and
      y: "parse_args env remain z = Inr y"
    by (auto split: sum.splits)
  have "opts_ok z"
    using one keeps_known [of x env arg rest] 2(3)
    by (auto simp: one_option_def keeps_def split: option.splits if_splits)
  then show ?case
    using 2(1) [OF one refl] y by simp
qed simp

lemma opts0_ok: "opts_ok opts0"
  by (simp add: opts_ok_defs opts0_def)

lemma read_options_ok: "read_options env args = Inr x \<Longrightarrow> opts_ok x"
proof -
  assume "read_options env args = Inr x"
  then obtain y where "parse_args env args opts0 = Inr y" and y: "complete_options y = Inr x"
    by (auto simp: read_options_def split: sum.splits)
  then have "opts_ok y"
    using parse_args_ok opts0_ok by blast
  then show "opts_ok x"
    using y by (auto simp: complete_options_def Let_def opts_ok_other split: if_splits)
qed

section \<open>Written numbers are read back\<close>

lemma digit_of_digit: "is_digit c \<Longrightarrow> digit_of c = int (of_char c - 48)" "is_digit c \<Longrightarrow> digit_of c < 10"
  by (auto simp: is_digit_def digit_of_def)

lemma number_value_digits: "list_all is_digit ds \<Longrightarrow> foldl (\<lambda>v c. 10 * v + digit_of c) (int a) ds = int (foldl (\<lambda>v c. 10 * v + (of_char c - 48)) a ds)"
  proof (induction ds arbitrary: a)
  case (Cons c ds)
  then show ?case
    using Cons.IH [of "10 * a + (of_char c - 48)"] by (simp add: digit_of_digit(1))
qed simp

lemma number_value_dec: "number_value 10 (dec n) = int n"
  using dec_digits [of n] number_value_digits [of "dec n" 0] by (simp add: number_value_def digits_value_def)

lemma digit_not: "is_digit c \<Longrightarrow> \<not> is_space c \<and> c \<noteq> CHR ''-'' \<and> c \<noteq> CHR ''+'' \<and> c \<noteq> CHR ''x'' \<and> c \<noteq> CHR ''X'' \<and> c \<noteq> CHR '':''"
  by (auto simp: is_digit_def is_space_def)

lemma hd_dec: "n > 0 \<Longrightarrow> hd (dec n) \<noteq> CHR ''0''"
proof (induction n rule: dec.induct)
  case (1 n)
  have d: "k < 10 \<Longrightarrow> 0 < k \<Longrightarrow> char_of (48 + k) \<noteq> CHR ''0''" for k :: nat
  proof -
    assume "k < 10" "0 < k"
    then have "k \<in> set [1..<10]"
      by simp
    moreover have "list_all (\<lambda>k :: nat. char_of (48 + k) \<noteq> CHR ''0'') [1..<10]"
      by code_simp
    ultimately show ?thesis
      by (simp add: list_all_iff)
  qed
  show ?case
    using 1 d [of n] dec_digits [of "n div 10"] by (subst dec.simps) simp
qed

lemma dec_digits_10: "takeWhile (\<lambda>c. digit_of c < 10) (dec n) = dec n"
  using dec_digits [of n] by (simp add: takeWhile_eq_all_conv list_all_iff digit_of_digit(2))

lemma dec_cons: obtains c cs where "dec n = c # cs" "is_digit c"
  using dec_digits [of n] by (cases "dec n") auto

lemma no_hex_dec: "\<not> hex_prefix (dec n)"
proof (cases "\<exists>a b c cs. dec n = a # b # c # cs")
  case True
  then obtain a b c cs where "dec n = a # b # c # cs"
    by blast
  then show ?thesis
    using dec_digits [of n] by (auto simp: hex_prefix_def dest: digit_not)
qed (auto simp: hex_prefix_def split: list.splits)

lemma pick_base_dec: "base = 10 \<or> base = 0 \<Longrightarrow> n > 0 \<Longrightarrow> pick_base base (dec n) = (10, dec n)"
  using hd_dec [of n] dec_digits [of n] no_hex_dec [of n] by (cases "dec n") (auto simp: pick_base_def)

lemma scan_dec:
  assumes "base = 10 \<or> base = 0"
  shows "scan_number base (dec n) = Some (False, int n)" and "scan_number base (CHR ''-'' # dec n) = Some (True, int n)"
proof -
  obtain c cs where d: "dec n = c # cs" "is_digit c"
    by (rule dec_cons)
  have sp: "dropWhile is_space (dec n) = dec n" "(take 1 (dec n) = ''-'') = False" "(take 1 (dec n) = ''+'') = False"
    using digit_not [OF d(2)] by (simp_all add: d(1))
  have m: "\<not> is_space CHR ''-''"
    by code_simp
  then have sq: "dropWhile is_space (CHR ''-'' # dec n) = CHR ''-'' # dec n" "(take 1 (CHR ''-'' # dec n) = ''-'') = True"
      "drop 1 (CHR ''-'' # dec n) = dec n"
    by simp_all
  have pick: "(case pick_base base (dec n) of (b, ds) \<Rightarrow>
      let ds = takeWhile (\<lambda>c. digit_of c < b) ds in if ds = [] then None else Some (neg, number_value b ds)) = Some (neg, int n)" for neg
  proof (cases "n = 0")
    case True
    moreover have "dec 0 = ''0''"
      by code_simp
    ultimately show ?thesis
      using assms by (auto simp: pick_base_def hex_prefix_def digit_of_def number_value_def)
  next
    case False
    then have "pick_base base (dec n) = (10, dec n)"
      using assms by (simp add: pick_base_dec)
    then show ?thesis
      using dec_digits [of n] by (simp add: dec_digits_10 number_value_dec)
  qed
  show "scan_number base (dec n) = Some (False, int n)"
    using pick [of False] unfolding scan_number_def Let_def sp by simp
  show "scan_number base (CHR ''-'' # dec n) = Some (True, int n)"
    using pick [of True] unfolding scan_number_def Let_def sq by simp
qed

lemma unsigned_dec: "base = 10 \<or> base = 0 \<Longrightarrow> n < 2 ^ 64 \<Longrightarrow> unsigned_of fn base (dec n) = Inr (of_nat n)"
  by (simp add: unsigned_of_def scan_dec)

lemma stoull_dec: "n < 2 ^ 64 \<Longrightarrow> stoull (dec n) = Inr (of_nat n)"
  unfolding stoull_def by (rule unsigned_dec) simp_all

lemma stoul_dec: "base = 10 \<or> base = 0 \<Longrightarrow> n < 2 ^ 64 \<Longrightarrow> stoul base (dec n) = Inr (of_nat n)"
  unfolding stoul_def by (rule unsigned_dec) simp_all

lemma stoi_text: "base = 10 \<or> base = 0 \<Longrightarrow> int32 i \<Longrightarrow> stoi base (int_text i) = Inr i"
  by (auto simp: stoi_def int_text_def scan_dec int32_def)

lemma split_on_field: "CHR '':'' \<notin> set w \<Longrightarrow> split_on CHR '':'' (w @ CHR '':'' # r) = w # split_on CHR '':'' r"
  by (induction w) (auto split: list.splits)

lemma split_on_end: "CHR '':'' \<notin> set w \<Longrightarrow> split_on CHR '':'' w = [w]"
  by (induction w) (auto split: list.splits)

lemma no_colon: "CHR '':'' \<notin> set (dec n)" "CHR '':'' \<notin> set (int_text i)"
proof -
  show d: "CHR '':'' \<notin> set (dec n)" for n
    using dec_digits [of n] digit_not by (auto simp: list_all_iff)
  show "CHR '':'' \<notin> set (int_text i)"
    using d by (simp add: int_text_def)
qed

section \<open>Properties\<close>

text \<open>
  C37: Options the harness accepts are in range: the memory size is one the core has, the injected
  waitrequest leaves the bus free at some time, speeds and button masks fit their fields, every scheduled
  key is one the table names, the scheduled times cannot overflow when doubled, portable snapshots come with the
  reference processor, and what has an interval has one that is not zero.
\<close>

theorem options_ok:
  assumes "read_options env args = Inr x"
  shows "opts_ok x \<and> (o_snapshot_dir x \<noteq> [] \<or> o_snapshot_restore_path x \<noteq> [] \<longrightarrow> o_cosim_on x) \<and>
    \<not> (o_restore_path x \<noteq> [] \<and> o_snapshot_restore_path x \<noteq> []) \<and>
    (o_checkpoint_dir x \<noteq> [] \<longrightarrow> o_checkpoint_interval_sec x \<noteq> 0) \<and>
    (o_snapshot_dir x \<noteq> [] \<longrightarrow> o_snapshot_interval_sec x \<noteq> 0) \<and>
    (o_screenshot_dir x \<noteq> [] \<longrightarrow> o_screenshot_interval_cycles x \<noteq> 0)"
proof -
  obtain y where y: "complete_options y = Inr x"
    using assms by (auto simp: read_options_def split: sum.splits)
  then show ?thesis
    using read_options_ok [OF assms] by (auto simp: complete_options_def Let_def split: if_splits)
qed

definition sample_env :: arg_env where
  "sample_env = \<lparr>open_profile = (\<lambda>p. False), read_utc = (\<lambda>s. None)\<rparr>"

definition sample_args :: "string list" where
  "sample_args = [''--ram-mb'', ''16'', ''--cosim'', ''--ddr-busy'', ''5,2'', ''--cpu-speed-at'', ''2000:56'',
     ''--key-at'', ''100:enter'', ''+verbose'', ''--snapshot-dir'', ''snaps'']"

definition sample_opts :: opts where
  "sample_opts = opts0\<lparr>o_ram_mb := 16, o_ram_mb_explicit := True, o_cosim_on := True,
     o_ddr_busy_period := 5, o_ddr_busy_len := 2, o_cpu_speed_events := [(1000, 1)],
     o_key_events := [(50, ''RETURN'')], o_snapshot_dir := ''snaps'', o_snapshot_interval_sec := 60\<rparr>"

lemma sample_read: "read_options sample_env sample_args = Inr sample_opts"
  by code_simp

theorem options_ok_witness:
  "opts_ok sample_opts \<and> o_cosim_on sample_opts \<and> o_snapshot_interval_sec sample_opts \<noteq> 0"
proof -
  have "o_snapshot_dir sample_opts \<noteq> []"
    by code_simp
  then show ?thesis
    using options_ok [OF sample_read] by blast
qed

text \<open>
  A mouse event written as decimal numbers is scheduled exactly: the time of a simulated clock and its half
  cycles, the motion and the buttons, whatever the base detection makes of the digits.
\<close>

theorem mouse_at_exact:
  assumes "t < 2 ^ 64" and "int32 dx" and "int32 dy" and "b \<le> 7"
  shows "mouse_at_option (dec t @ CHR '':'' # int_text dx @ CHR '':'' # int_text dy @ CHR '':'' # dec b) x =
    Inr (x\<lparr>o_mouse_packet_events := o_mouse_packet_events x @ [(of_nat t div 2, dx, dy, of_nat b)]\<rparr>)"
proof -
  have "b \<in> set [0..<8]"
    using assms(4) by simp
  moreover have "list_all (\<lambda>b. \<not> 7 < (ucast (of_nat b :: u64) :: u32) \<and>
      ucast (ucast (of_nat b :: u64) :: u32) = (of_nat b :: u8)) [0..<8]"
    by code_simp
  ultimately have b: "\<not> 7 < (ucast (of_nat b :: u64) :: u32)" "ucast (ucast (of_nat b :: u64) :: u32) = (of_nat b :: u8)"
    unfolding list_all_iff by blast+
  have "b < 2 ^ 64"
    using assms(4) by simp
  then show ?thesis
    using assms b by (simp add: mouse_at_option_def split_on_field split_on_end no_colon stoi_text stoul_dec
        stoull_dec attempt_def in_cycles_def Let_def)
qed

theorem mouse_at_exact_witness:
  "mouse_at_option (dec 500 @ CHR '':'' # int_text (- 20) @ CHR '':'' # int_text 7 @ CHR '':'' # dec 1) opts0 =
    Inr (opts0\<lparr>o_mouse_packet_events := [(250, - 20, 7, 1)]\<rparr>)"
proof -
  have "o_mouse_packet_events opts0 @ [(of_nat 500 div 2, - 20, 7, of_nat 1)] = [(250, - 20, 7, 1)]"
    by (simp add: opts0_def)
  then show ?thesis
    using mouse_at_exact [of 500 "- 20" 7 1 opts0] by (simp add: int32_def)
qed

text \<open>A port or a memory size above 32 bits is cut before it is checked: 4294967376 is accepted as port 80.\<close>

lemma wide_port_accepted: "port_option ''4294967376'' opts0 = Inr (opts0\<lparr>o_control_port := 80\<rparr>)"
  by code_simp

text \<open>
  The seed is multiplied and added to, so that one seed gives the state 0, which the generator never leaves: the
  memory then is busy in every cycle, whatever the percentage.
\<close>

definition busy_state :: "opts \<Rightarrow> ddr \<Rightarrow> ddr" where
  "busy_state x d = d\<lparr>busy_period := o_ddr_busy_period x, busy_len := o_ddr_busy_len x,
     busy_rand_pct := o_ddr_busy_rand_pct x, busy_rand_state := o_ddr_busy_rand_state x\<rparr>"

lemma one_seed_blocks_ddr:
  "ddr_rand_option ''1,10189075327172452613'' opts0 = Inr (opts0\<lparr>o_ddr_busy_rand_pct := 1, o_ddr_busy_rand_state := 0\<rparr>)"
  "busy_rand_state d = 0 \<Longrightarrow> busy_rand_pct d > 0 \<Longrightarrow>
     ddram_busy_now (busy_draw d) \<and> busy_rand_state (busy_draw d) = 0 \<and> busy_rand_pct (busy_draw d) > 0"
  by (code_simp, simp add: busy_draw_def ddram_busy_now_def xorshift64_def Let_def)

section \<open>The injected waitrequest\<close>

lemma free_phase:
  fixes a l p :: nat
  assumes "0 < p" and "l < p"
  shows "\<exists>k < p. l \<le> (a + k) mod p"
proof -
  have "(a + (p - 1 - a mod p)) mod p = (a mod p + (p - 1 - a mod p)) mod p"
    by (rule mod_add_left_eq [symmetric])
  also have "\<dots> = p - 1"
    using assms(1) mod_less_divisor [OF assms(1), of a] by simp
  finally show ?thesis
    using assms by (intro exI [of _ "p - 1 - a mod p"]) simp
qed

lemma free_cycle:
  fixes w :: u64
  assumes "0 < p" and "l < p" and "p < 2 ^ 31"
  shows "\<exists>k < 2 * p. l \<le> unat (w + of_nat k) mod p"
proof (cases "unat w + p \<le> 2 ^ 64")
  case True
  obtain k where k: "k < p" "l \<le> (unat w + k) mod p"
    using free_phase [OF assms(1,2)] by blast
  then have "unat (w + of_nat k) = unat w + k"
    using True assms by (simp add: unat_word_ariths unsigned_of_nat take_bit_nat_eq_self)
  then show ?thesis
    using k by (intro exI [of _ k]) simp
next
  case False
  define k where "k = 2 ^ 64 - unat w + (p - 1)"
  have "unat w < 2 ^ 64"
    using unsigned_less [of w, where ?'a = nat] by simp
  then have "unat w + k = 2 ^ 64 + (p - 1)" "k < 2 * p"
    using False assms by (simp_all add: k_def)
  moreover have "w + of_nat k = of_nat (unat w + k)"
    by simp
  ultimately have "w + of_nat k = of_nat (p - 1)"
    by (simp add: word_eq_iff_unsigned unsigned_of_nat take_bit_eq_mod mod_add_self1)
  moreover have "unat (of_nat (p - 1) :: u64) = p - 1"
    using assms(3) by (simp only: unsigned_of_nat) (simp add: take_bit_nat_eq_self)
  ultimately have "unat (w + of_nat k) = p - 1"
    by (simp only:)
  then show ?thesis
    using assms \<open>k < 2 * p\<close> by (intro exI [of _ k]) simp
qed

text \<open>
  C38: With accepted options the periodic waitrequest always ends: within twice the period, from any phase of the
  free-running counter, there is a cycle in which the memory is free (one period would be enough but for the
  counter's wrap-around).
\<close>

theorem periodic_busy_ends:
  assumes "read_options env args = Inr x" and "o_ddr_busy_rand_pct x = 0"
  shows "\<exists>k. k < max 1 (2 * nat (o_ddr_busy_period x)) \<and>
    \<not> ddram_busy_now (busy_state x d\<lparr>busy_phase := busy_phase d + of_nat k\<rparr>)"
proof -
  have ok: "busy_ok x"
    using read_options_ok [OF assms(1)] by (simp add: opts_ok_def)
  show ?thesis
  proof (cases "o_ddr_busy_period x > 0")
    case True
    define p l where "p = nat (o_ddr_busy_period x)" and "l = nat (o_ddr_busy_len x)"
    then have pl: "0 < p" "l < p" "p < 2 ^ 31" and i: "o_ddr_busy_period x = int p" "o_ddr_busy_len x = int l"
      using ok True by (auto simp: busy_ok_def)
    obtain k where k: "k < 2 * p" "l \<le> unat (busy_phase d + of_nat k) mod p"
      using free_cycle [OF pl, of "busy_phase d"] by blast
    have "unat (of_nat p :: u64) = p" "unat (of_nat l :: u64) = l"
      using pl by (simp_all add: unsigned_of_nat take_bit_nat_eq_self)
    then have "\<not> (busy_phase d + of_nat k) mod of_nat p < (of_nat l :: u64)"
      using k(2) by (simp add: word_less_nat_alt unat_mod)
    then have "\<not> ddram_busy_now (busy_state x d\<lparr>busy_phase := busy_phase d + of_nat k\<rparr>)"
      using assms(2) pl(1) by (simp add: ddram_busy_now_def busy_state_def i)
    then show ?thesis
      using k(1) by (intro exI [of _ k]) (simp add: i)
  next
    case False
    then show ?thesis
      using assms(2) by (intro exI [of _ 0]) (simp add: ddram_busy_now_def busy_state_def)
  qed
qed

lemma sample_not_random: "o_ddr_busy_rand_pct sample_opts = 0"
  by code_simp

theorem periodic_busy_ends_witness:
  "\<exists>k. k < max 1 (2 * nat (o_ddr_busy_period sample_opts)) \<and>
    \<not> ddram_busy_now (busy_state sample_opts sample_ddr\<lparr>busy_phase := busy_phase sample_ddr + of_nat k\<rparr>)"
  by (rule periodic_busy_ends [OF sample_read sample_not_random])

end
