(* ===== verification/Run_Setup.thy ===== *)
theory Run_Setup
  imports Options "HOL-Library.Multiset"
begin

text \<open>
  What the command line and the window do to a run of the harness (\<open>src/verilator/main.cpp\<close>): the status word of the core, the
  scheduled changes of its speed, the scheduled keys and mouse motions, the events of the window, and the soft
  reset.
\<close>

section \<open>The status word\<close>

text \<open>
  The bits of MiSTer's \<open>status\<close> the harness sets: the processor speed in bits 8 to 10, the memory size in
  bits 61 and 62, and one bit each for the picture and sound options.
\<close>

definition ram_size_code :: "u32 \<Rightarrow> u64" where
  "ram_size_code mb = (if mb = 64 then 0 else if mb = 128 then 1 else if mb = 16 then 2 else 3)"

definition initial_status :: "opts \<Rightarrow> u64" where
  "initial_status x = push_bit 8 (ucast (o_cpu_speed_status x)) OR push_bit 61 (ram_size_code (o_ram_mb x)) OR
     push_bit 4 (of_bool (o_variable_vsync x)) OR push_bit 54 (of_bool (o_vga_border x)) OR
     push_bit 57 (of_bool (\<not> o_opl3_mode x))"

definition override_status :: "opts \<Rightarrow> u64 \<Rightarrow> u64" where
  "override_status x st =
     (let st = (if o_ram_mb_explicit x then (st AND NOT (push_bit 61 3)) OR push_bit 61 (ram_size_code (o_ram_mb x)) else st);
          st = (if o_opl_mode_explicit x then (st AND NOT (push_bit 57 1)) OR push_bit 57 (of_bool (\<not> o_opl3_mode x)) else st);
          st = (if o_variable_vsync x then st OR push_bit 4 1 else st);
          st = (if o_vga_border_explicit x then (st AND NOT (push_bit 54 1)) OR push_bit 54 (of_bool (o_vga_border x)) else st)
      in st)"

definition set_speed :: "u32 \<Rightarrow> u64 \<Rightarrow> u64" where
  "set_speed speed st = (st AND NOT (push_bit 8 7)) OR push_bit 8 (ucast speed)"

lemma three_mask: "(3 :: u64) = mask 2" and seven_mask: "(7 :: u64) = mask 3"
  by (simp_all add: mask_eq_exp_minus_1)

lemma ram_code_bits: "bit (ram_size_code mb) n \<Longrightarrow> n < 2"
proof -
  assume b: "bit (ram_size_code mb) n"
  have "ram_size_code mb = take_bit 2 (ram_size_code mb)"
    by (simp add: ram_size_code_def)
  then show "n < 2"
    using b by (metis bit_take_bit_iff)
qed

lemma speed_bits: "s \<le> 7 \<Longrightarrow> bit (ucast s :: u64) n \<Longrightarrow> n < 3" for s :: u32
proof -
  assume s: "s \<le> 7" and b: "bit (ucast s :: u64) n"
  have "s = take_bit 3 s"
    using s by (simp add: take_bit_eq_mod word_mod_less_divisor mod_word_self word_le_nat_alt mod_word_less unat_mod word_less_nat_alt)
  then show "n < 3"
    using b by (metis bit_ucast_iff bit_take_bit_iff)
qed

lemma put_bit:
  fixes st :: u64
  assumes "n < 64" and "k < 64"
  shows "bit ((st AND NOT (push_bit k 1)) OR push_bit k (of_bool b)) n = (if n = k then b else bit st n)"
    and "bit (st OR push_bit k 1) n = (n = k \<or> bit st n)"
  using assms by (auto simp: bit_simps)

lemma put_field:
  fixes st v :: u64
  assumes "n < 64" and "k < 64" and "w + k \<le> 64" and "\<And>m. bit v m \<Longrightarrow> m < w"
  shows "bit ((st AND NOT (push_bit k (mask w))) OR push_bit k v) n =
    (if k \<le> n \<and> n < k + w then bit v (n - k) else bit st n)"
  using assms(1-3) assms(4) [of "n - k"] by (auto simp: bit_simps)

lemma initial_status_bits:
  assumes "o_cpu_speed_status x \<le> 7" and "n < 64"
  shows "bit (initial_status x) n =
    (if 8 \<le> n \<and> n < 11 then bit (o_cpu_speed_status x) (n - 8)
     else if n \<in> {61, 62} then bit (ram_size_code (o_ram_mb x)) (n - 61)
     else if n = 4 then o_variable_vsync x
     else if n = 54 then o_vga_border x
     else n = 57 \<and> \<not> o_opl3_mode x)"
proof -
  have 1: "bit (push_bit k (of_bool b) :: u64) n = (n = k \<and> b)" for k b
    using assms(2) by (auto simp: bit_simps)
  have 2: "bit (push_bit 8 (ucast (o_cpu_speed_status x)) :: u64) n = (8 \<le> n \<and> n < 11 \<and> bit (o_cpu_speed_status x) (n - 8))"
    using assms(2) speed_bits [OF assms(1), of "n - 8"] by (auto simp: bit_simps)
  have 3: "bit (push_bit 61 (ram_size_code (o_ram_mb x))) n = (n \<in> {61, 62} \<and> bit (ram_size_code (o_ram_mb x)) (n - 61))"
    using assms(2) ram_code_bits [of "o_ram_mb x" "n - 61"] by (auto simp: bit_simps)
  show ?thesis
    unfolding initial_status_def bit_or_iff 1 2 3 by auto
qed

text \<open>
  What is restored keeps every bit of the checkpoint's status except those of options given explicitly on this
  command line, which take the given values: no other selection leaks in or is lost.
\<close>

theorem status_override_exact:
  assumes "n < 64"
  shows "bit (override_status x st) n =
    (if n \<in> {61, 62} \<and> o_ram_mb_explicit x then bit (ram_size_code (o_ram_mb x)) (n - 61)
     else if n = 57 \<and> o_opl_mode_explicit x then \<not> o_opl3_mode x
     else if n = 4 \<and> o_variable_vsync x then True
     else if n = 54 \<and> o_vga_border_explicit x then o_vga_border x
     else bit st n)"
proof -
  have ram: "bit ((s AND NOT (push_bit 61 3)) OR push_bit 61 (ram_size_code (o_ram_mb x))) n =
      (if n \<in> {61, 62} then bit (ram_size_code (o_ram_mb x)) (n - 61) else bit s n)" for s
  proof -
    have "n \<in> {61, 62} \<longleftrightarrow> 61 \<le> n \<and> n < 61 + 2"
      by auto
    then show ?thesis
      using put_field [of n 61 2 "ram_size_code (o_ram_mb x)" s] assms ram_code_bits
      by (simp only: three_mask)
  qed
  have lt: "57 < (64 :: nat)" "4 < (64 :: nat)" "54 < (64 :: nat)"
    by simp_all
  note opl = put_bit(1) [OF assms lt(1)] and vsync = put_bit(2) [OF assms lt(2)] and border = put_bit(1) [OF assms lt(3)]
  have push: "bit (if c then u else v) n = (if c then bit u n else bit v n)" for c and u v :: u64
    by simp
  show ?thesis
    unfolding override_status_def Let_def push ram opl vsync border by auto
qed

theorem status_override_exact_witness:
  "bit (override_status sample_opts (2 ^ 61)) 62 = bit (ram_size_code 16) 1 \<and>
   bit (override_status sample_opts (2 ^ 9)) 9"
proof -
  have o: "o_ram_mb_explicit sample_opts" "o_ram_mb sample_opts = 16" "\<not> o_variable_vsync sample_opts"
    by (simp_all add: sample_opts_def opts0_def)
  have "bit (2 ^ 9 :: u64) 9"
    by (simp only: bit_exp_iff) simp
  then show ?thesis
    using o status_override_exact [of 62 sample_opts "2 ^ 61"] status_override_exact [of 9 sample_opts "2 ^ 9"] by simp
qed

section \<open>Changing the processor's speed while running\<close>

text \<open>
  \<open>cpu_speed_events\<close> in the order of the command line; a run starts by skipping those before its first cycle,
  and each cycle applies the events at the front whose time it is.
\<close>

definition skip_speed :: "u64 \<Rightarrow> (u64 \<times> u32) list \<Rightarrow> (u64 \<times> u32) list" where
  "skip_speed start evs = dropWhile (\<lambda>e. fst e < start) evs"

fun speed_events :: "u64 \<Rightarrow> (u64 \<times> u32) list \<Rightarrow> u64 \<Rightarrow> (u64 \<times> u32) list \<times> u64" where
  "speed_events cycle [] st = ([], st)"
| "speed_events cycle (e # es) st =
     (if fst e = cycle then speed_events cycle es (set_speed (snd e) st) else (e # es, st))"

fun speed_run :: "u64 list \<Rightarrow> (u64 \<times> u32) list \<Rightarrow> u64 \<Rightarrow> (u64 \<times> u32) list \<times> u64" where
  "speed_run [] evs st = (evs, st)"
| "speed_run (c # cs) evs st = (case speed_events c evs st of (evs, st) \<Rightarrow> speed_run cs evs st)"

definition cycles_from :: "nat \<Rightarrow> nat \<Rightarrow> u64 list" where
  "cycles_from a n = map of_nat [a..<a + n]"

lemma speed_events_sorted:
  "sorted (map fst evs) \<Longrightarrow> list_all (\<lambda>e. c \<le> fst e) evs \<Longrightarrow>
   speed_events c evs st = (filter (\<lambda>e. c < fst e) evs, foldl (\<lambda>st e. set_speed (snd e) st) st (filter (\<lambda>e. fst e = c) evs))"
proof (induction evs arbitrary: st)
  case (Cons e es)
  show ?case
  proof (cases "fst e = c")
    case True
    then show ?thesis
      using Cons by (simp add: list_all_iff)
  next
    case False
    then have "\<forall>x\<in>set (e # es). c < fst x"
      using Cons.prems by (auto simp: list_all_iff)
    then have "filter (\<lambda>e. c < fst e) (e # es) = e # es" "filter (\<lambda>e. fst e = c) (e # es) = []"
      by (auto simp: filter_id_conv filter_empty_conv)
    then show ?thesis
      using False by simp
  qed
qed simp

lemma speed_run_sorted:
  assumes "sorted (map fst evs)" and "list_all (\<lambda>e. of_nat a \<le> fst e) evs" and "a + n < 2 ^ 64"
  shows "speed_run (cycles_from a n) evs st =
    (filter (\<lambda>e. of_nat (a + n) \<le> fst e) evs,
     foldl (\<lambda>st e. set_speed (snd e) st) st (filter (\<lambda>e. fst e < of_nat (a + n)) evs))"
  using assms
proof (induction n arbitrary: a evs st)
  case 0
  then have "filter (\<lambda>e. of_nat a \<le> fst e) evs = evs" "filter (\<lambda>e. fst e < of_nat a) evs = []"
    by (auto simp: filter_id_conv filter_empty_conv list_all_iff not_less)
  then show ?case
    by (simp add: cycles_from_def)
next
  case (Suc n)
  let ?f = "foldl (\<lambda>st e. set_speed (snd e) st)"
  let ?c = "of_nat a :: u64"
  have cyc: "cycles_from a (Suc n) = ?c # cycles_from (Suc a) n"
    by (simp add: cycles_from_def upt_conv_Cons del: upt_Suc)
  have nx: "(of_nat (Suc a) \<le> t) = (?c < t)" "(t < of_nat (Suc a)) = (t \<le> ?c)" for t :: u64
    using Suc.prems(3) by (auto simp: word_le_nat_alt word_less_nat_alt unsigned_of_nat take_bit_nat_eq_self simp del: of_nat_Suc)
  have le: "?c < of_nat (a + Suc n)" "of_nat (Suc a) \<le> (of_nat (a + Suc n) :: u64)"
    using Suc.prems(3) by (auto simp: word_le_nat_alt word_less_nat_alt unsigned_of_nat take_bit_nat_eq_self simp del: of_nat_Suc of_nat_add)
  define rest where "rest = filter (\<lambda>e. ?c < fst e) evs"
  have r: "sorted (map fst rest)" "list_all (\<lambda>e. of_nat (Suc a) \<le> fst e) rest"
    using Suc.prems(1) by (auto simp: rest_def list_all_iff nx sorted_filter simp del: of_nat_Suc)
  have split: "filter (\<lambda>e. fst e < of_nat (a + Suc n)) evs = filter (\<lambda>e. fst e = ?c) evs @ filter (\<lambda>e. fst e < of_nat (a + Suc n)) rest"
    using Suc.prems(1,2) le unfolding rest_def
  proof (induction evs)
    case (Cons e es)
    show ?case
    proof (cases "fst e = ?c")
      case False
      then have "\<forall>x\<in>set (e # es). ?c < fst x"
        using Cons.prems by (auto simp: list_all_iff)
      then have "filter (\<lambda>e. ?c < fst e) (e # es) = e # es" "filter (\<lambda>e. fst e = ?c) (e # es) = []"
        by (auto simp: filter_id_conv filter_empty_conv)
      then show ?thesis
        by simp
    qed (use Cons in \<open>auto simp del: of_nat_add\<close>)
  qed simp
  have keep: "filter (\<lambda>e. of_nat (a + Suc n) \<le> fst e) rest = filter (\<lambda>e. of_nat (a + Suc n) \<le> fst e) evs"
    using le(1) by (auto simp: rest_def intro: filter_cong dest: order.strict_trans2 simp del: of_nat_add)
  have "speed_run (cycles_from a (Suc n)) evs st = speed_run (cycles_from (Suc a) n) rest (?f st (filter (\<lambda>e. fst e = ?c) evs))"
    using speed_events_sorted [OF Suc.prems(1,2)] by (simp add: cyc rest_def)
  also have "\<dots> = (filter (\<lambda>e. of_nat (a + Suc n) \<le> fst e) rest,
      ?f (?f st (filter (\<lambda>e. fst e = ?c) evs)) (filter (\<lambda>e. fst e < of_nat (a + Suc n)) rest))"
    using Suc.IH [OF r] Suc.prems(3) by simp
  finally show ?case
    by (simp only: split keep foldl_append)
qed

text \<open>
  Speed changes given in order of time all happen, at their cycle and in their order: after \<open>n\<close> cycles of
  the loop the status is the one before with the changes up to then applied, and the later ones still wait. What lies before
  the first cycle (of a restored run) is skipped.
\<close>

theorem speed_schedule_exact:
  assumes "sorted (map fst evs)" and "a + n < 2 ^ 64"
  shows "speed_run (cycles_from a n) (skip_speed (of_nat a) evs) st =
    (filter (\<lambda>e. of_nat (a + n) \<le> fst e) evs,
     foldl (\<lambda>st e. set_speed (snd e) st) st (filter (\<lambda>e. of_nat a \<le> fst e \<and> fst e < of_nat (a + n)) evs))"
proof -
  let ?r = "skip_speed (of_nat a) evs"
  have r: "?r = filter (\<lambda>e. of_nat a \<le> fst e) evs"
    using assms(1) unfolding skip_speed_def
  proof (induction evs)
    case (Cons e es)
    show ?case
    proof (cases "fst e < of_nat a")
      case False
      then have "filter (\<lambda>e. of_nat a \<le> fst e) (e # es) = e # es"
        using Cons.prems by (auto simp: filter_id_conv not_less)
      then show ?thesis
        using False by simp
    qed (use Cons in auto)
  qed simp
  have le: "of_nat a \<le> (of_nat (a + n) :: u64)"
    using assms(2) by (simp add: word_le_nat_alt unsigned_of_nat take_bit_nat_eq_self del: of_nat_add)
  have "sorted (map fst ?r)" "list_all (\<lambda>e. of_nat a \<le> fst e) ?r"
    using assms(1) by (auto simp: r list_all_iff sorted_filter)
  then have "speed_run (cycles_from a n) ?r st = (filter (\<lambda>e. of_nat (a + n) \<le> fst e) ?r,
      foldl (\<lambda>st e. set_speed (snd e) st) st (filter (\<lambda>e. fst e < of_nat (a + n)) ?r))"
    using assms(2) by (rule speed_run_sorted)
  moreover have "filter (\<lambda>e. of_nat (a + n) \<le> fst e) ?r = filter (\<lambda>e. of_nat (a + n) \<le> fst e) evs"
    using le by (auto simp: r intro: filter_cong simp del: of_nat_add)
  ultimately show ?thesis
    by (simp add: r conj_commute del: of_nat_add)
qed

theorem speed_schedule_exact_witness:
  "speed_run (cycles_from 0 30) (skip_speed (of_nat 0) [(10, 1), (20, 2), (40, 3)]) 0 = ([(40, 3)], 0x200)"
proof -
  have "foldl (\<lambda>st e. set_speed (snd e) st) 0 (filter (\<lambda>e. of_nat 0 \<le> fst e \<and> fst e < of_nat (0 + 30))
      [(10 :: u64, 1), (20, 2), (40, 3)]) = 0x200"
    by (simp add: set_speed_def)
  then show ?thesis
    using speed_schedule_exact [of "[(10, 1), (20, 2), (40, 3)]" 0 30 0] by simp
qed

text \<open>
  Given out of order the earlier change never happens: the later one stands before it in the list, and
  when its turn comes its cycle has passed.
\<close>

lemma late_speed_lost:
  assumes "t < s" and "s < of_nat n" and "n < 2 ^ 64"
  shows "speed_run (cycles_from 0 n) [(s, u), (t, v)] st = ([(t, v)], set_speed u st)"
proof -
  define m where "m = unat s"
  have m: "s = of_nat m" "m < n"
    using assms by (simp_all add: m_def word_less_nat_alt unsigned_of_nat take_bit_nat_eq_self)
  have eq: "(of_nat k :: u64) = of_nat l \<longleftrightarrow> k = l" if "k < n" "l < n" for k l
  proof -
    have "unat (of_nat k :: u64) = k" "unat (of_nat l :: u64) = l"
      using that assms(3) by (simp_all add: unsigned_of_nat take_bit_nat_eq_self)
    then show ?thesis
      by metis
  qed
  have before: "speed_run (map of_nat ks) [(s, u), (t, v)] st = ([(s, u), (t, v)], st)" if "list_all (\<lambda>k. k < m) ks" for ks
    using that by (induction ks) (use m eq in auto)
  have after: "speed_run (map of_nat ks) [(t, v)] w = ([(t, v)], w)" if "list_all (\<lambda>k. m < k \<and> k < n) ks" for ks w
    using that assms m
    by (induction ks) (auto simp: word_less_nat_alt unsigned_of_nat take_bit_nat_eq_self)
  have app: "speed_run (xs @ ys) e w = (case speed_run xs e w of (e', w') \<Rightarrow> speed_run ys e' w')" for xs ys e w
    by (induction xs arbitrary: e w) (simp_all split: prod.splits)
  have "[0..<n] = [0..<m] @ m # [Suc m..<n]"
    using m(2) by (metis less_imp_add_positive upt_add_eq_append upt_conv_Cons le0 add_0)
  moreover have "t \<noteq> s"
    using assms(1) by simp
  ultimately show ?thesis
    using before [of "[0..<m]"] after [of "[Suc m..<n]" "set_speed u st"] m
    by (simp add: cycles_from_def app list_all_iff)
qed

section \<open>The input schedule of the command line\<close>

definition command_line_keys :: "opts \<Rightarrow> scheduled_ps2_bytes list" where
  "command_line_keys x =
     concat (map (\<lambda>c. tap_event c ''RETURN'') (o_enter_cycles x)) @
     concat (map (\<lambda>(c, k). tap_event c k) (o_key_events x)) @
     concat (map (\<lambda>(c, k, p). edge_event c k p) (o_key_edge_events x)) @
     map ctrl_alt_del_event (o_ctrl_alt_del_cycles x)"

definition command_line_mouse :: "opts \<Rightarrow> scheduled_ps2_bytes list" where
  "command_line_mouse x =
     map (\<lambda>(c, dx, dy, b). \<lparr>ev_cycle = c, ev_bytes = encode_mouse_packets dx dy b\<rparr>) (o_mouse_packet_events x)"

text \<open>
  \<open>std::sort\<close> with the comparison of cycles: a sorted permutation, in no promised order among events of one cycle.
\<close>

definition sorts :: "(scheduled_ps2_bytes list \<Rightarrow> scheduled_ps2_bytes list) \<Rightarrow> bool" where
  "sorts srt \<longleftrightarrow> (\<forall>es. mset (srt es) = mset es \<and> sorted (map ev_cycle (srt es)))"

lemma sorts_insertion: "sorts (sort_key ev_cycle)"
  by (simp add: sorts_def)

lemma sorts_unique:
  assumes "sorts srt" and "distinct (map ev_cycle es)"
  shows "srt es = sort_key ev_cycle es"
proof -
  have m: "mset (srt es) = mset es" and s: "sorted (map ev_cycle (srt es))"
    using assms(1) by (auto simp: sorts_def)
  have d: "distinct (map ev_cycle (srt es))"
    using assms(2) m by (metis mset_eq_imp_distinct_iff mset_map)
  have "set (srt es) = set es"
    using m by (rule mset_eq_setD)
  then show ?thesis
    using s d assms(2) by (intro map_sorted_distinct_set_unique [where f = ev_cycle])
      (simp_all add: distinct_map)
qed

lemma alnum_in_table: "isalnum (tolower c) \<Longrightarrow> map_of ps2scancodes [tolower c] \<noteq> None"
proof -
  assume a: "isalnum (tolower c)"
  define n where "n = (of_char (tolower c) :: nat)"
  have "\<not> (65 \<le> n \<and> n \<le> 90)"
    by (auto simp: n_def tolower_def of_char_mod_256)
  then have "48 \<le> n \<and> n < 58 \<or> 97 \<le> n \<and> n < 123"
    using a by (auto simp: isalnum_def Let_def n_def)
  then have "n \<in> set ([48..<58] @ [97..<123])"
    by (simp only: set_append set_upt Un_iff atLeastLessThan_iff)
  moreover define ks where "ks = ''0123456789abcdefghijklmnopqrstuvwxyz''"
  moreover have "map of_char ks = [48..<58] @ [97..<123 :: nat]"
    unfolding ks_def by (simp add: upt_rec_numeral)
  ultimately have "n \<in> of_char ` set ks"
    by (simp only: flip: set_map)
  then have m: "tolower c \<in> set ks"
    unfolding n_def by (auto simp only: of_char_eq_iff image_iff)
  have "list_all (\<lambda>c. map_of ps2scancodes [c] \<noteq> None) ks"
    unfolding ks_def by code_simp
  then have "\<forall>c\<in>set ks. map_of ps2scancodes [c] \<noteq> None"
    by (simp only: list_all_iff)
  from bspec [OF this m] show ?thesis .
qed

lemma named_in_table: "map_of named_keys n = Some k \<Longrightarrow> map_of ps2scancodes k \<noteq> None"
proof -
  have "list_all (\<lambda>e. map_of ps2scancodes (snd e) \<noteq> None) named_keys"
    by code_simp
  then have a: "\<forall>e\<in>set named_keys. map_of ps2scancodes (snd e) \<noteq> None"
    by (simp only: list_all_iff)
  assume "map_of named_keys n = Some k"
  then have "(n, k) \<in> set named_keys"
    by (rule map_of_SomeD)
  from bspec [OF a this] show ?thesis
    unfolding snd_conv .
qed

lemma parsed_in_table: "parse_named_key n = Some k \<Longrightarrow> map_of ps2scancodes k \<noteq> None"
proof (cases "map_of named_keys (map tolower n)")
  case None
  assume p: "parse_named_key n = Some k"
  have "parse_named_key n = (if length (map tolower n) = 1 \<and> isalnum (hd (map tolower n)) then Some (map tolower n) else None)"
    by (simp only: parse_named_key_def Let_def None option.case)
  then have "length (map tolower n) = 1" "isalnum (hd (map tolower n))" "k = map tolower n"
    using p by (metis option.distinct(1) option.inject)+
  then obtain c where "k = [tolower c]" "isalnum (tolower c)"
    by (cases n) auto
  then show ?thesis
    using alnum_in_table by blast
next
  case (Some j)
  assume "parse_named_key n = Some k"
  then have "k = j"
    by (simp only: parse_named_key_def Let_def Some option.case option.inject)
  then show ?thesis
    using named_in_table [OF Some] by blast
qed

lemma return_in_table: "map_of ps2scancodes ''RETURN'' \<noteq> None"
  by code_simp

lemma length_tap: "map_of ps2scancodes k \<noteq> None \<Longrightarrow> length (tap_event c k) = 1"
  by (auto simp: tap_event_def)

lemma length_edge: "map_of ps2scancodes k \<noteq> None \<Longrightarrow> length (edge_event c k p) = 1"
  by (auto simp: edge_event_def)

lemma length_concat_ones: "list_all (\<lambda>x. length (f x) = 1) xs \<Longrightarrow> length (concat (map f xs)) = length xs"
  by (induction xs) auto

lemma no_key_dropped:
  assumes "events_ok x"
  shows "length (command_line_keys x) = length (o_enter_cycles x) + length (o_key_events x) +
    length (o_key_edge_events x) + length (o_ctrl_alt_del_cycles x)"
proof -
  have "list_all (\<lambda>c. length (tap_event c ''RETURN'') = 1) (o_enter_cycles x)"
    by (simp add: list_all_iff length_tap return_in_table)
  moreover have "list_all (\<lambda>e. length (case e of (c, k) \<Rightarrow> tap_event c k) = 1) (o_key_events x)"
    using assms parsed_in_table length_tap by (fastforce simp: events_ok_def list_all_iff)
  moreover have "list_all (\<lambda>e. length (case e of (c, k, p) \<Rightarrow> edge_event c k p) = 1) (o_key_edge_events x)"
    using assms parsed_in_table length_edge by (fastforce simp: events_ok_def list_all_iff)
  ultimately show ?thesis
    by (simp add: command_line_keys_def length_concat_ones)
qed


definition idle_kbd :: "opts \<Rightarrow> ps2_kbd" where
  "idle_kbd x = \<lparr>k_queue = [], k_scan_set = 2, k_pending_cmd = 0, k_pending_arg = False, k_host_busy = False,
     k_host_clear = False, k_last_byte = 0, k_events = sort_key ev_cycle (command_line_keys x), k_next_event = 0\<rparr>"

lemma sample_keys: "command_line_keys sample_opts = [\<lparr>ev_cycle = 50, ev_bytes = [0x5A, 0xF0, 0x5A]\<rparr>]"
  by code_simp


section \<open>The window's events\<close>

text \<open>
  What the loop over \<open>SDL_PollEvent\<close> does with each event. A key carries its code, its position on the keyboard as
  far as the hot keys look at it, and the state of the GUI and control keys. Saving a checkpoint is counted;
  an error in it is printed and changes nothing.
\<close>

datatype sdl_scancode = SCANCODE_ESCAPE | SCANCODE_T | SCANCODE_R | SCANCODE_C | SCANCODE_OTHER

datatype window_event = WINDOW_CLOSE | WINDOW_FOCUS_LOST | WINDOW_REDRAW | WINDOW_OTHER

datatype sdl_event =
    Quit
  | Window bool window_event
  | KeyDown sdl_keycode sdl_scancode bool bool bool
  | KeyUp sdl_keycode sdl_scancode bool bool
  | ButtonDown bool sdl_button
  | ButtonUp sdl_button
  | Motion int int
  | Other_event

record gui =
  u_running :: bool
  u_captured :: bool
  u_buttons :: u8
  u_kbd :: bytes
  u_mouse :: bytes
  u_trace :: bool
  u_reset_active :: bool
  u_checkpoint_active :: bool
  u_soft_reset :: int
  u_dirty :: bool
  u_checkpoint_dir :: string
  u_saves :: nat

definition gui_key_down :: "sdl_keycode \<Rightarrow> sdl_scancode \<Rightarrow> bool \<Rightarrow> bool \<Rightarrow> gui \<Rightarrow> gui" where
  "gui_key_down key sc gui ctrl u =
     (if u_captured u \<and> sc = SCANCODE_ESCAPE then u\<lparr>u_captured := False\<rparr>
      else if sc = SCANCODE_T \<and> (gui \<or> ctrl) then u\<lparr>u_trace := \<not> u_trace u\<rparr>
      else if sc = SCANCODE_R \<and> gui then u\<lparr>u_reset_active := True, u_soft_reset := 8\<rparr>
      else if sc = SCANCODE_C \<and> gui then
        u\<lparr>u_checkpoint_active := True,
          u_checkpoint_dir := (if u_checkpoint_dir u = [] then ''checkpoints'' else u_checkpoint_dir u),
          u_saves := u_saves u + 1\<rparr>
      else u\<lparr>u_kbd := queue_sdl_key key True (u_kbd u)\<rparr>)"

definition gui_key_up :: "sdl_keycode \<Rightarrow> sdl_scancode \<Rightarrow> bool \<Rightarrow> bool \<Rightarrow> gui \<Rightarrow> gui" where
  "gui_key_up key sc gui ctrl u =
     (if u_reset_active u \<and> sc = SCANCODE_R then u\<lparr>u_reset_active := False\<rparr>
      else if u_checkpoint_active u \<and> sc = SCANCODE_C then u\<lparr>u_checkpoint_active := False\<rparr>
      else if \<not> (sc = SCANCODE_T \<and> (gui \<or> ctrl)) then u\<lparr>u_kbd := queue_sdl_key key False (u_kbd u)\<rparr>
      else u)"

definition gui_button :: "sdl_button \<Rightarrow> bool \<Rightarrow> gui \<Rightarrow> gui" where
  "gui_button b pressed u = (let s = update_mouse_button (u_buttons u) b pressed in
     u\<lparr>u_buttons := s, u_mouse := queue_mouse_packet 0 0 s (u_mouse u)\<rparr>)"

fun gui_event :: "sdl_event \<Rightarrow> gui \<Rightarrow> gui" where
  "gui_event Quit u = u\<lparr>u_running := False\<rparr>"
| "gui_event (Window ours w) u =
     (if \<not> ours then u
      else case w of WINDOW_CLOSE \<Rightarrow> u\<lparr>u_running := False\<rparr>
        | WINDOW_FOCUS_LOST \<Rightarrow> u\<lparr>u_captured := False\<rparr>
        | WINDOW_REDRAW \<Rightarrow> u\<lparr>u_dirty := True\<rparr>
        | WINDOW_OTHER \<Rightarrow> u)"
| "gui_event (KeyDown key sc repeated gui ctrl) u = (if repeated then u else gui_key_down key sc gui ctrl u)"
| "gui_event (KeyUp key sc gui ctrl) u = gui_key_up key sc gui ctrl u"
| "gui_event (ButtonDown ours b) u = (if ours then gui_button b True (u\<lparr>u_captured := True\<rparr>) else u)"
| "gui_event (ButtonUp b) u = (if u_captured u then gui_button b False u else u)"
| "gui_event (Motion x y) u =
     (if u_captured u \<and> (x \<noteq> 0 \<or> y \<noteq> 0) then u\<lparr>u_mouse := queue_mouse_packet x (- y) (u_buttons u) (u_mouse u)\<rparr> else u)"
| "gui_event Other_event u = u"

fun gui_poll :: "sdl_event list \<Rightarrow> gui \<Rightarrow> gui" where
  "gui_poll [] u = u"
| "gui_poll (e # es) u = gui_poll es (gui_event e u)"

text \<open>The movement the captured mouse makes in a sequence of events.\<close>

definition event_motion :: "sdl_event \<Rightarrow> gui \<Rightarrow> int \<times> int" where
  "event_motion e u = (case e of Motion x y \<Rightarrow> if u_captured u then (x, - y) else (0, 0) | _ \<Rightarrow> (0, 0))"

fun travel :: "sdl_event list \<Rightarrow> gui \<Rightarrow> int \<times> int" where
  "travel [] u = (0, 0)"
| "travel (e # es) u = (case travel es (gui_event e u) of (x, y) \<Rightarrow>
     (fst (event_motion e u) + x, snd (event_motion e u) + y))"

lemma read_packets_append:
  "read_packets a = Some (x, y, f) \<Longrightarrow> read_packets (a @ b) =
     (case read_packets b of None \<Rightarrow> None | Some (x', y', f') \<Rightarrow> Some (x + x', y + y', f @ f'))"
  by (induction a arbitrary: x y f rule: read_packets.induct) (auto split: option.splits)

lemma event_packets:
  "\<exists>bytes fs. u_mouse (gui_event e u) = u_mouse u @ bytes \<and>
     read_packets bytes = Some (fst (event_motion e u), snd (event_motion e u), fs) \<and>
     set fs \<subseteq> {0x08 OR (u_buttons (gui_event e u) AND 0x07)} \<and>
     (fs = [] \<longrightarrow> u_buttons (gui_event e u) = u_buttons u)"
proof -
  have enc: "\<exists>fs. read_packets (encode_mouse_packets dx dy b) = Some (dx, dy, fs) \<and> fs \<noteq> [] \<and>
      set fs \<subseteq> {0x08 OR (b AND 0x07)}" for dx dy b
    using read_encode_rest [of "dx - clamp dx" "dy - clamp dy" b]
    by (auto simp: encode_mouse_packets_def read_packet split: option.split)
  have silent: "u_mouse v = u_mouse u \<Longrightarrow> u_buttons v = u_buttons u \<Longrightarrow>
      \<exists>bytes fs. u_mouse v = u_mouse u @ bytes \<and> read_packets bytes = Some (0, 0, fs) \<and>
      set fs \<subseteq> {0x08 OR (u_buttons v AND 0x07)} \<and> (fs = [] \<longrightarrow> u_buttons v = u_buttons u)" for v
    by (intro exI [of _ "[]"]) simp
  show ?thesis
  proof (cases e)
    case (ButtonDown ours b)
    then show ?thesis
      using enc [of 0 0 "update_mouse_button (u_buttons u) b True"] silent [of u]
      by (cases ours) (fastforce simp: event_motion_def gui_button_def queue_mouse_packet_def Let_def)+
  next
    case (ButtonUp b)
    then show ?thesis
      using enc [of 0 0 "update_mouse_button (u_buttons u) b False"] silent [of u]
      by (cases "u_captured u") (fastforce simp: event_motion_def gui_button_def queue_mouse_packet_def Let_def)+
  next
    case (Motion x y)
    then show ?thesis
      using enc [of x "- y" "u_buttons u"] silent [of u]
      by (cases "u_captured u \<and> (x \<noteq> 0 \<or> y \<noteq> 0)") (fastforce simp: event_motion_def queue_mouse_packet_def)+
  next
    case (Window ours w)
    then show ?thesis
      using silent [of "gui_event e u"] by (auto simp: event_motion_def split: window_event.splits)
  qed (use silent [of "gui_event e u"] in \<open>auto simp: event_motion_def gui_key_down_def gui_key_up_def\<close>)
qed

text \<open>
  C40: The guest's mouse follows the window's: the packets queued while events are polled add up to the movement made while the
  mouse was captured, with the vertical axis turned over, and the last of them carries the buttons the harness ends with, so that no
  button change goes unreported.
\<close>

theorem gui_mouse_exact:
  "\<exists>bytes fs. u_mouse (gui_poll es u) = u_mouse u @ bytes \<and>
     read_packets bytes = Some (fst (travel es u), snd (travel es u), fs) \<and>
     (if fs = [] then u_buttons (gui_poll es u) = u_buttons u
      else last fs = 0x08 OR (u_buttons (gui_poll es u) AND 0x07))"
proof (induction es arbitrary: u)
  case Nil
  show ?case
    by (intro exI [of _ "[]"]) simp
next
  case (Cons e es)
  obtain b1 f1 where e: "u_mouse (gui_event e u) = u_mouse u @ b1"
      "read_packets b1 = Some (fst (event_motion e u), snd (event_motion e u), f1)"
      "set f1 \<subseteq> {0x08 OR (u_buttons (gui_event e u) AND 0x07)}"
      "f1 = [] \<longrightarrow> u_buttons (gui_event e u) = u_buttons u"
    using event_packets [of e u] by blast
  obtain b2 f2 where es: "u_mouse (gui_poll es (gui_event e u)) = u_mouse (gui_event e u) @ b2"
      "read_packets b2 = Some (fst (travel es (gui_event e u)), snd (travel es (gui_event e u)), f2)"
      "if f2 = [] then u_buttons (gui_poll es (gui_event e u)) = u_buttons (gui_event e u)
       else last f2 = 0x08 OR (u_buttons (gui_poll es (gui_event e u)) AND 0x07)"
    using Cons [of "gui_event e u"] by blast
  have "f1 \<noteq> [] \<Longrightarrow> last f1 = 0x08 OR (u_buttons (gui_event e u) AND 0x07)"
    using e(3) last_in_set [of f1] by blast
  then show ?case
    using e es read_packets_append [OF e(2), of b2]
    by (intro exI [of _ "b1 @ b2"] exI [of _ "f1 @ f2"]) (auto split: prod.splits if_splits)
qed

text \<open>
  Losing the window's focus, or pressing Escape, gives up the mouse; a button released after that is not seen, and stays
  down for the guest.
\<close>

lemma focus_loss_sticks_button:
  "u_buttons u = 0 \<Longrightarrow> u_buttons (gui_poll [ButtonDown True SDL_BUTTON_LEFT, Window True WINDOW_FOCUS_LOST,
     ButtonUp SDL_BUTTON_LEFT] u) = 1"
  by (simp add: gui_button_def update_mouse_button_def Let_def)

text \<open>
  Releasing the modifier before the key of the trace hot key sends the guest a release of a key it
  never saw pressed; so does the Escape that gives up the mouse.
\<close>

lemma hot_key_leaks_release:
  "\<not> u_captured u \<Longrightarrow> u_kbd (gui_poll [KeyDown ''t'' SCANCODE_T False False True, KeyUp ''t'' SCANCODE_T False False] u) =
     queue_sdl_key ''t'' False (u_kbd u)"
  "u_captured u \<Longrightarrow> u_kbd (gui_poll [KeyDown ''ESCAPE'' SCANCODE_ESCAPE False False False,
     KeyUp ''ESCAPE'' SCANCODE_ESCAPE False False] u) = queue_sdl_key ''ESCAPE'' False (u_kbd u)"
  by (simp_all add: gui_key_up_def gui_key_down_def)

section \<open>The soft reset line\<close>

text \<open>What each cycle does with the counter the hot key sets: the value of \<open>sim_soft_reset\<close>, and the counter after it.\<close>

definition soft_reset_cycle :: "int \<Rightarrow> bool \<times> int" where
  "soft_reset_cycle n = (n > 0, if n > 0 then n - 1 else n)"

fun soft_reset_run :: "nat \<Rightarrow> int \<Rightarrow> bool list" where
  "soft_reset_run 0 n = []"
| "soft_reset_run (Suc k) n = (case soft_reset_cycle n of (b, n') \<Rightarrow> b # soft_reset_run k n')"

lemma soft_reset_run_length:
  "soft_reset_run k (int n) = replicate (min k n) True @ replicate (k - n) False"
proof (induction k arbitrary: n)
  case (Suc k)
  show ?case
  proof (cases n)
    case (Suc m)
    have "soft_reset_cycle (int n) = (True, int m)"
      by (simp add: soft_reset_cycle_def Suc)
    then show ?thesis
      using Suc.IH [of m] Suc by simp
  next
    case 0
    then show ?thesis
      using Suc.IH [of 0] by (simp add: soft_reset_cycle_def)
  qed
qed simp

text \<open>The hot key resets the core for exactly eight cycles of the loop, from the cycle after it.\<close>

theorem soft_reset_eight_cycles:
  assumes "\<not> (u_captured u \<and> sc = SCANCODE_ESCAPE)" and "sc = SCANCODE_R"
  shows "soft_reset_run (8 + k) (u_soft_reset (gui_event (KeyDown key sc False True ctrl) u)) =
    replicate 8 True @ replicate k False"
  using soft_reset_run_length [of "8 + k" 8] assms by (simp add: gui_key_down_def)

end
