(* ===== verification/Video.thy ===== *)
theory Video
  imports Ps2
begin

text \<open>
  The picture side of \<open>src/verilator/main.cpp\<close>: the frame that the HPS scaler would display
  (\<open>render_svga_frame\<close>, \<open>render_zsst_frame\<close>), the legacy planes (\<open>dump_vga_planes\<close>), the text screen and
  its searches, and the raster that \<open>consume_video\<close> assembles from the pixel stream. A pixel buffer is a
  function on indices below \<open>H_RES * V_RES\<close>; an access outside an array is \<open>None\<close>. The PNG files are
  written by libpng and are left out, as is the console output.
\<close>

section \<open>Pixels\<close>

definition H_RES :: nat where "H_RES = 1600"
definition V_RES :: nat where "V_RES = 900"

record pixel =
  px_a :: u8
  px_b :: u8
  px_g :: u8
  px_r :: u8

type_synonym buffer = "nat \<Rightarrow> pixel"

definition black :: pixel where
  "black = \<lparr>px_a = 0xFF, px_b = 0, px_g = 0, px_r = 0\<rparr>"

definition expand_dac_color :: "u8 \<Rightarrow> u8" where
  "expand_dac_color v = push_bit 2 v OR drop_bit 4 v"

definition kVgaPalette :: "u32 list" where
  "kVgaPalette =
     [0x000000, 0x0000AA, 0x00AA00, 0x00AAAA, 0xAA0000, 0xAA00AA, 0xAA5500, 0xAAAAAA,
      0x555555, 0x5555FF, 0x55FF55, 0x55FFFF, 0xFF5555, 0xFF55FF, 0xFFFF55, 0xFFFFFF]"

definition palette_pixel :: "u8 \<Rightarrow> pixel" where
  "palette_pixel idx =
     (let rgb = kVgaPalette ! unat (idx AND 0x0F)
      in \<lparr>px_a = 0xFF, px_b = ucast (rgb AND 0xFF), px_g = ucast (drop_bit 8 rgb AND 0xFF),
          px_r = ucast (drop_bit 16 rgb AND 0xFF)\<rparr>)"

definition dac_pixel :: "u32 \<Rightarrow> pixel" where
  "dac_pixel data =
     \<lparr>px_a = 0xFF, px_b = expand_dac_color (ucast (data AND 0x3F)),
      px_g = expand_dac_color (ucast (drop_bit 6 data AND 0x3F)),
      px_r = expand_dac_color (ucast (drop_bit 12 data AND 0x3F))\<rparr>"

text \<open>\<open>x * 255 / 31\<close> and \<open>x * 255 / 63\<close> in \<open>int\<close>, then cut to a byte.\<close>

definition scale5 :: "u16 \<Rightarrow> u8" where
  "scale5 v = word_of_nat (unat (v AND 0x1F) * 255 div 31)"

definition scale6 :: "u16 \<Rightarrow> u8" where
  "scale6 v = word_of_nat (unat (v AND 0x3F) * 255 div 63)"

section \<open>Drawing a frame\<close>

definition peek_byte :: "bytes \<Rightarrow> nat \<Rightarrow> u8 option" where
  "peek_byte m i = (if i < length m then Some (m ! i) else None)"

definition poke_pixel :: "nat \<Rightarrow> pixel \<Rightarrow> buffer \<Rightarrow> buffer option" where
  "poke_pixel i p b = (if i < H_RES * V_RES then Some (b(i := p)) else None)"

fun each :: "('a \<Rightarrow> 's \<Rightarrow> 's option) \<Rightarrow> 'a list \<Rightarrow> 's \<Rightarrow> 's option" where
  "each f [] s = Some s"
| "each f (x # xs) s = (case f x s of None \<Rightarrow> None | Some s \<Rightarrow> each f xs s)"

definition draw_pixel :: "(nat \<Rightarrow> nat \<Rightarrow> pixel option) \<Rightarrow> nat \<Rightarrow> nat \<Rightarrow> buffer \<Rightarrow> buffer option" where
  "draw_pixel px y x b = (case px y x of None \<Rightarrow> None | Some p \<Rightarrow> poke_pixel (y * H_RES + x) p b)"

definition draw_frame :: "(nat \<Rightarrow> nat \<Rightarrow> pixel option) \<Rightarrow> nat \<Rightarrow> nat \<Rightarrow> buffer \<Rightarrow> buffer option" where
  "draw_frame px w h b = each (\<lambda>y. each (draw_pixel px y) [0..<w]) [0..<h] b"

text \<open>The checks before the loops; both renderers make them with their own numbers.\<close>

definition frame_fits :: "nat \<Rightarrow> nat \<Rightarrow> nat \<Rightarrow> nat \<Rightarrow> nat \<Rightarrow> nat \<Rightarrow> bool" where
  "frame_fits mem_size base stride w h row_bytes \<longleftrightarrow>
     \<not> (w = 0 \<or> h = 0 \<or> stride = 0 \<or> mem_size \<le> base) \<and>
     \<not> (mem_size \<le> base + (h - 1) * stride \<or> mem_size - (base + (h - 1) * stride) < row_bytes)"

record fb_taps =
  fb_flags :: u8
  fb_off :: bool
  fb_start_addr :: u32
  fb_stride :: u16
  fb_width :: u16
  fb_height :: u16

definition direct_pixel :: "bool \<Rightarrow> bool \<Rightarrow> bytes \<Rightarrow> nat \<Rightarrow> pixel option" where
  "direct_pixel fb_1555 fb_bgr mem offset =
     (case (peek_byte mem offset, peek_byte mem (offset + 1)) of
        (Some lo, Some hi) \<Rightarrow>
          (let packed = ucast lo OR push_bit 8 (ucast hi) :: u16;
               low = scale5 packed;
               green = (if fb_1555 then scale5 (drop_bit 5 packed) else scale6 (drop_bit 5 packed));
               high = scale5 (drop_bit (if fb_1555 then 10 else 11) packed)
           in Some \<lparr>px_a = 0xFF, px_b = (if fb_bgr then high else low), px_g = green,
                px_r = (if fb_bgr then low else high)\<rparr>)
      | _ \<Rightarrow> None)"

definition svga_pixel :: "bool \<Rightarrow> bool \<Rightarrow> (u8 \<Rightarrow> pixel) \<Rightarrow> bytes \<Rightarrow> bool \<Rightarrow> nat \<Rightarrow> nat \<Rightarrow> nat \<Rightarrow> nat \<Rightarrow> pixel option" where
  "svga_pixel fb_1555 fb_bgr pal mem indexed base stride y x =
     (if indexed then map_option pal (peek_byte mem (base + y * stride + x))
      else direct_pixel fb_1555 fb_bgr mem (base + y * stride + x * 2))"

text \<open>\<open>Some None\<close> is the result \<open>false\<close>; \<open>Some (Some \<dots>)\<close> the new width, height and picture.\<close>

definition render_svga_frame ::
    "bool \<Rightarrow> bool \<Rightarrow> fb_taps \<Rightarrow> (u8 \<Rightarrow> pixel) \<Rightarrow> bytes \<Rightarrow> buffer \<Rightarrow> (nat \<times> nat \<times> buffer) option option" where
  "render_svga_frame fb_1555 fb_bgr tb pal mem pixels =
     (let flags = fb_flags tb; depth = flags AND 0x03
      in if fb_off tb \<or> flags AND 0x04 \<noteq> 0 \<or> (depth \<noteq> 1 \<and> depth \<noteq> 2) then Some None
         else
           (let base = unat (fb_start_addr tb) * 4; stride = unat (fb_stride tb) * 8;
                bytes_per_pixel = (if depth = 2 then 2 else 1);
                w = min (unat (fb_width tb) * 8) H_RES;
                h = min (if flags AND 0x08 \<noteq> 0 then unat (fb_height tb) div 2 else unat (fb_height tb)) V_RES
            in if \<not> frame_fits (length mem) base stride w h (w * bytes_per_pixel) then Some None
               else map_option (\<lambda>b. Some (w, h, b))
                 (draw_frame (svga_pixel fb_1555 fb_bgr pal mem (depth = 1) base stride) w h pixels)))"

record zsst_taps =
  dbg_zsst_video_active :: bool
  dbg_zsst_width :: u16
  dbg_zsst_height :: u16
  dbg_zsst_stride :: u16
  dbg_zsst_buffer_size :: u32
  dbg_zsst_displayed_buffer :: u8

definition zsst_pixel :: "bytes \<Rightarrow> nat \<Rightarrow> nat \<Rightarrow> nat \<Rightarrow> nat \<Rightarrow> pixel option" where
  "zsst_pixel mem base stride y x = direct_pixel False False mem (base + y * stride + x * 2)"

definition render_zsst_frame ::
    "zsst_taps \<Rightarrow> bytes \<Rightarrow> buffer \<Rightarrow> (nat \<times> nat \<times> buffer) option option" where
  "render_zsst_frame tb mem pixels =
     (if \<not> dbg_zsst_video_active tb then Some None
      else
        (let w = min (unat (dbg_zsst_width tb)) H_RES; h = min (unat (dbg_zsst_height tb)) V_RES;
             stride = unat (dbg_zsst_stride tb);
             base = (if dbg_zsst_displayed_buffer tb AND 1 \<noteq> 0 then unat (dbg_zsst_buffer_size tb) else 0)
         in if \<not> frame_fits (length mem) base stride w h (w * 2) then Some None
            else map_option (\<lambda>b. Some (w, h, b)) (draw_frame (zsst_pixel mem base stride) w h pixels)))"

text \<open>Writes of the accelerator to its memory: sixteen byte lanes, those beyond the end dropped.\<close>

definition zsst_lane :: "nat \<Rightarrow> u32 list \<Rightarrow> nat \<Rightarrow> bytes \<Rightarrow> bytes" where
  "zsst_lane address data lane mem =
     (if address + lane < length mem
      then mem[address + lane := ucast (drop_bit ((lane mod 4) * 8) (data ! (lane div 4)))] else mem)"

definition zsst_mem_write :: "bool \<Rightarrow> u64 \<Rightarrow> u16 \<Rightarrow> u32 list \<Rightarrow> bytes \<Rightarrow> bytes" where
  "zsst_mem_write valid address strobe data mem =
     (if valid \<and> unat address < length mem
      then fold (\<lambda>lane m. if bit strobe lane then zsst_lane (unat address) data lane m else m) [0..<16] mem
      else mem)"

section \<open>Legacy planes\<close>

definition vga_plane_pixel ::
    "(nat \<Rightarrow> u16 \<Rightarrow> u8) \<Rightarrow> (u8 \<Rightarrow> u32) \<Rightarrow> u16 \<Rightarrow> u16 \<Rightarrow> nat \<Rightarrow> nat \<Rightarrow> pixel" where
  "vga_plane_pixel plane dac base stride y x =
     (let row = base + word_of_nat y * stride; address = row + word_of_nat (4 * (x div 4))
      in dac_pixel (dac (plane (x mod 4) address)))"

definition vga_plane_size :: "fb_taps \<Rightarrow> (nat \<times> nat) option" where
  "vga_plane_size tb =
     (let flags = fb_flags tb; w = min (unat (fb_width tb) * 4) H_RES;
          h = min (if flags AND 0x08 \<noteq> 0 then unat (fb_height tb) div 2 else unat (fb_height tb)) V_RES;
          stride = push_bit 3 (fb_stride tb)
      in if flags AND 0x07 \<noteq> 0x04 \<or> w = 0 \<or> h = 0 \<or> stride = 0 then None else Some (w, h))"

definition vga_plane_picture ::
    "fb_taps \<Rightarrow> (nat \<Rightarrow> u16 \<Rightarrow> u8) \<Rightarrow> (u8 \<Rightarrow> u32) \<Rightarrow> pixel list option" where
  "vga_plane_picture tb plane dac =
     (case vga_plane_size tb of None \<Rightarrow> None
      | Some (w, h) \<Rightarrow>
          (let base = ucast (push_bit 2 (fb_start_addr tb)); stride = push_bit 3 (fb_stride tb)
           in Some (concat (map (\<lambda>y. map (vga_plane_pixel plane dac base stride y) [0..<w]) [0..<h]))))"

definition vga_raw_header :: "fb_taps \<Rightarrow> nat \<Rightarrow> nat \<Rightarrow> bytes" where
  "vga_raw_header tb w h =
     bytes_of ''Z486VGA1'' @ le_bytes 4 (word_of_nat w :: u32) @ le_bytes 4 (word_of_nat h :: u32) @
     le_bytes 4 (ucast (ucast (push_bit 2 (fb_start_addr tb)) :: u16) :: u32) @
     le_bytes 4 (ucast (push_bit 3 (fb_stride tb)) :: u32) @ le_bytes 4 (ucast (fb_flags tb) :: u32)"

definition vga_raw_file :: "fb_taps \<Rightarrow> (nat \<Rightarrow> u16 \<Rightarrow> u8) \<Rightarrow> (u8 \<Rightarrow> u32) \<Rightarrow> bytes option" where
  "vga_raw_file tb plane dac =
     (case vga_plane_size tb of None \<Rightarrow> None
      | Some (w, h) \<Rightarrow>
          Some (vga_raw_header tb w h @
            concat (map (\<lambda>p. map (\<lambda>a. plane p (word_of_nat a)) [0..<65536]) [0..<4]) @
            concat (map (\<lambda>i. le_bytes 4 (dac (word_of_nat i))) [0..<256])))"

section \<open>The text screen\<close>

definition screen_char :: "u8 \<Rightarrow> char" where
  "screen_char b = (if b < 0x20 \<or> 0x7E < b then CHR '' '' else char_of_byte b)"

record crtc =
  crtc_address_start :: u16
  crtc_address_byte_panning :: u16
  crtc_address_offset :: u16
  crtc_horizontal_display_size :: u16

definition screen_cols :: "crtc \<Rightarrow> u16" where
  "screen_cols c = (let cols = crtc_horizontal_display_size c + 1 in if cols = 0 \<or> 80 < cols then 80 else cols)"

definition screen_stride :: "crtc \<Rightarrow> u16" where
  "screen_stride c =
     (let stride = push_bit 2 (crtc_address_offset c)
      in if stride = 0 \<or> 4096 < stride then push_bit 1 (screen_cols c) else stride)"

definition screen_row :: "(u16 \<Rightarrow> u8) \<Rightarrow> u16 \<Rightarrow> u16 \<Rightarrow> string" where
  "screen_row plane0 cols row_addr =
     map (\<lambda>col. screen_char (plane0 (row_addr + push_bit 1 (word_of_nat col)))) [0..<unat cols]"

fun screen_rows :: "(u16 \<Rightarrow> u8) \<Rightarrow> u16 \<Rightarrow> u16 \<Rightarrow> nat \<Rightarrow> u16 \<Rightarrow> string" where
  "screen_rows plane0 cols stride 0 row_addr = []"
| "screen_rows plane0 cols stride (Suc n) row_addr =
     screen_row plane0 cols row_addr @ [CHR 0x0A] @ screen_rows plane0 cols stride n (row_addr + stride)"

definition current_text_screen :: "crtc \<Rightarrow> (u16 \<Rightarrow> u8) \<Rightarrow> string" where
  "current_text_screen c plane0 =
     screen_rows plane0 (screen_cols c) (screen_stride c) 25 (crtc_address_start c + crtc_address_byte_panning c)"

text \<open>\<open>std::string::find\<close>, \<open>rfind\<close> of a character at or before a position, and \<open>find\<close> of one from a position.\<close>

fun find_from :: "nat \<Rightarrow> string \<Rightarrow> string \<Rightarrow> nat option" where
  "find_from pos [] needle = (if needle = [] then Some pos else None)"
| "find_from pos (c # cs) needle =
     (if take (length needle) (c # cs) = needle then Some pos else find_from (Suc pos) cs needle)"

fun rfind_char :: "char \<Rightarrow> nat \<Rightarrow> string \<Rightarrow> nat option" where
  "rfind_char ch 0 s = (if 0 < length s \<and> s ! 0 = ch then Some 0 else None)"
| "rfind_char ch (Suc p) s = (if Suc p < length s \<and> s ! Suc p = ch then Some (Suc p) else rfind_char ch p s)"

definition find_char :: "char \<Rightarrow> nat \<Rightarrow> string \<Rightarrow> nat option" where
  "find_char ch pos s = find_from pos (drop pos s) [ch]"

definition row_for_match :: "string \<Rightarrow> string \<Rightarrow> string" where
  "row_for_match screen needle =
     (case find_from 0 screen needle of None \<Rightarrow> []
      | Some pos \<Rightarrow>
          (let line_start = (case rfind_char (CHR 0x0A) pos screen of None \<Rightarrow> 0 | Some p \<Rightarrow> p + 1);
               line_end = (case find_char (CHR 0x0A) pos screen of None \<Rightarrow> length screen | Some p \<Rightarrow> p)
           in take (line_end - line_start) (drop line_start screen)))"

definition trim_spaces :: "string \<Rightarrow> string" where
  "trim_spaces s = rev (dropWhile (\<lambda>c. c = CHR '' '') (rev (dropWhile (\<lambda>c. c = CHR '' '') s)))"

text \<open>The rows \<open>dump_nonempty_rows\<close> prints, with their numbers.\<close>

function dump_rows :: "string \<Rightarrow> nat \<Rightarrow> nat \<Rightarrow> (nat \<times> string) list" where
  "dump_rows screen line_start row =
     (if line_start < length screen then
        (let line_end = (case find_char (CHR 0x0A) line_start screen of None \<Rightarrow> length screen | Some p \<Rightarrow> p);
             text = trim_spaces (take (line_end - line_start) (drop line_start screen));
             here = (if text = [] then [] else [(row, text)])
         in if length screen \<le> line_end \<or> line_end < line_start then here
            else here @ dump_rows screen (line_end + 1) (row + 1))
      else [])"
  by auto
termination by (relation "measure (\<lambda>(screen, line_start, row). length screen - line_start)") auto

declare dump_rows.simps [simp del]

definition dump_nonempty_rows :: "string \<Rightarrow> (nat \<times> string) list" where
  "dump_nonempty_rows screen = dump_rows screen 0 0"

section \<open>The raster\<close>

record raster =
  scan_x :: int
  scan_y :: int
  frame_pix_cnt :: int
  frame_x_max :: int
  frame_line_max :: int
  screenbuffer :: buffer
  presentbuffer :: buffer
  present_dirty :: bool
  resolution_x :: int
  resolution_y :: int
  last_full_frame_cycle :: u64
  frames_skipped :: u64
  prev_vs :: bool
  prev_hs :: bool
  prev_de :: bool
  saw_nonblack_pixel :: bool
  saw_video_sync :: bool

record video_taps =
  video_vs :: bool
  video_hs :: bool
  video_de :: bool
  ce_pixel :: bool
  video_r :: u8
  video_g :: u8
  video_b :: u8

definition put_scan_pixel :: "video_taps \<Rightarrow> raster \<Rightarrow> raster option" where
  "put_scan_pixel tb v =
     (if scan_x v < int H_RES \<and> scan_y v < int V_RES then
        (let lit = (video_r tb \<noteq> 0 \<or> video_g tb \<noteq> 0 \<or> video_b tb \<noteq> 0);
             idx = scan_y v * int H_RES + scan_x v
         in if idx < 0 \<or> int (H_RES * V_RES) \<le> idx then None
            else Some (v\<lparr>screenbuffer := (screenbuffer v)(nat idx :=
                     \<lparr>px_a = 0xFF, px_b = video_b tb, px_g = video_g tb, px_r = video_r tb\<rparr>),
                   frame_pix_cnt := (if lit then frame_pix_cnt v + 1 else frame_pix_cnt v),
                   saw_nonblack_pixel := saw_nonblack_pixel v \<or> lit\<rparr>))
      else Some v)"

definition start_line :: "raster \<Rightarrow> raster" where
  "start_line v =
     (let v = v\<lparr>scan_x := 0\<rparr>;
          v = (if frame_line_max v \<noteq> 0 \<and> scan_y v + 1 < int V_RES then v\<lparr>scan_y := scan_y v + 1\<rparr> else v)
      in if frame_line_max v < scan_y v + 1 then v\<lparr>frame_line_max := scan_y v + 1\<rparr> else v)"

definition consume_pixel :: "video_taps \<Rightarrow> raster \<Rightarrow> raster option" where
  "consume_pixel tb v =
     (if \<not> ce_pixel tb then Some v
      else
        (let v = (if video_de tb \<and> \<not> prev_de v then start_line v else v)
         in if \<not> video_de tb then Some v
            else map_option (\<lambda>v. let v = v\<lparr>scan_x := scan_x v + 1\<rparr>
                in if frame_x_max v < scan_x v then v\<lparr>frame_x_max := scan_x v\<rparr> else v) (put_scan_pixel tb v)))"

definition clear_counts :: "raster \<Rightarrow> raster" where
  "clear_counts v = v\<lparr>frame_pix_cnt := 0, frame_x_max := 0, frame_line_max := 0\<rparr>"

definition clear_rows :: "int \<Rightarrow> buffer \<Rightarrow> buffer option" where
  "clear_rows rows b =
     (if 0 \<le> rows \<and> nat rows * H_RES \<le> H_RES * V_RES then Some (\<lambda>i. if i < nat rows * H_RES then black else b i) else None)"

definition skip_frame :: "raster \<Rightarrow> raster option" where
  "skip_frame v =
     map_option (\<lambda>b. clear_counts (v\<lparr>screenbuffer := b, frames_skipped := frames_skipped v + 1\<rparr>))
       (clear_rows (min (frame_line_max v + 1) (int V_RES)) (screenbuffer v))"

text \<open>A frame that neither renderer takes shows the raster at the size it had.\<close>

definition raster_frame :: "raster \<Rightarrow> raster" where
  "raster_frame v =
     v\<lparr>resolution_x := (if 640 \<le> frame_x_max v then min (frame_x_max v) (int H_RES) else resolution_x v),
       resolution_y := (if 300 \<le> frame_line_max v then min (frame_line_max v) (int V_RES) else resolution_y v),
       presentbuffer := screenbuffer v\<rparr>"

definition show_frame :: "(nat \<times> nat \<times> buffer) option \<Rightarrow> raster \<Rightarrow> raster" where
  "show_frame r v =
     (case r of None \<Rightarrow> v
      | Some (w, h, b) \<Rightarrow> v\<lparr>resolution_x := int w, resolution_y := int h, presentbuffer := b\<rparr>)"

definition present_frame ::
    "bool \<Rightarrow> bool \<Rightarrow> zsst_taps \<Rightarrow> bytes \<Rightarrow> fb_taps \<Rightarrow> (u8 \<Rightarrow> pixel) \<Rightarrow> bytes \<Rightarrow> u64 \<Rightarrow> raster \<Rightarrow> raster option" where
  "present_frame fb_1555 fb_bgr zt zmem ft pal fmem cycle v =
     (let v = v\<lparr>saw_video_sync := True, last_full_frame_cycle := cycle\<rparr>
      in case render_zsst_frame zt zmem (presentbuffer v) of None \<Rightarrow> None
         | Some zsst \<Rightarrow>
             (case (if zsst = None then render_svga_frame fb_1555 fb_bgr ft pal fmem (presentbuffer v) else Some None) of
                None \<Rightarrow> None
              | Some svga \<Rightarrow>
                  (let v = (if zsst = None \<and> svga = None then raster_frame v else show_frame svga (show_frame zsst v))
                   in Some (clear_counts (v\<lparr>present_dirty := True, frames_skipped := 0, screenbuffer := \<lambda>i. black\<rparr>)))))"

definition MIN_FRAME_CYCLES :: u64 where "MIN_FRAME_CYCLES = 250000"

definition consume_video ::
    "bool \<Rightarrow> bool \<Rightarrow> zsst_taps \<Rightarrow> bytes \<Rightarrow> fb_taps \<Rightarrow> (u8 \<Rightarrow> pixel) \<Rightarrow> bytes \<Rightarrow> video_taps \<Rightarrow> u64 \<Rightarrow> raster \<Rightarrow> raster option" where
  "consume_video fb_1555 fb_bgr zt zmem ft pal fmem tb cycle v =
     (let vsync = (video_vs tb \<and> \<not> prev_vs v);
          v = (if vsync then v\<lparr>scan_x := 0, scan_y := 0\<rparr> else v)
      in case consume_pixel tb v of None \<Rightarrow> None
         | Some v \<Rightarrow>
             map_option (\<lambda>v. v\<lparr>prev_vs := video_vs tb, prev_hs := video_hs tb, prev_de := video_de tb\<rparr>)
               (if vsync \<and> last_full_frame_cycle v \<noteq> 0 \<and> cycle - last_full_frame_cycle v < MIN_FRAME_CYCLES
                then skip_frame v
                else if vsync then present_frame fb_1555 fb_bgr zt zmem ft pal fmem cycle v else Some v))"

section \<open>Watching the text screen\<close>

text \<open>
  At the end of a shown frame the harness looks at the text screen: for a new console text, for the text
  that stops the run, for the next text that triggers a key, and for the boot menu at the scheduled
  checks. The trace of console markers is output and left out.
\<close>

record watch =
  saw_post_boot_exec :: bool
  saw_boot_sector :: bool
  saw_boot_menu_text :: bool
  next_console_text_check :: u64
  last_console_text :: string
  stop_on_text :: string
  running :: bool
  text_key_events :: "(string \<times> sdl_keycode) list"
  next_text_key_event :: nat
  text_key_queue :: bytes
  screen_check_cycles :: "u64 list"
  next_screen_check :: nat

definition watch_console :: "string \<Rightarrow> u64 \<Rightarrow> watch \<Rightarrow> watch" where
  "watch_console screen cycle w =
     (if \<not> (saw_post_boot_exec w \<and> next_console_text_check w \<le> cycle) then w
      else
        (let w = w\<lparr>last_console_text := screen\<rparr>;
             w = (if stop_on_text w \<noteq> [] \<and> find_from 0 screen (stop_on_text w) \<noteq> None then w\<lparr>running := False\<rparr> else w);
             w = (if next_text_key_event w < length (text_key_events w) then
                    (let (needle, key) = text_key_events w ! next_text_key_event w
                     in if find_from 0 screen needle \<noteq> None
                        then w\<lparr>text_key_queue := queue_sdl_key key False (queue_sdl_key key True (text_key_queue w)),
                               next_text_key_event := next_text_key_event w + 1\<rparr>
                        else w)
                  else w)
         in w\<lparr>next_console_text_check := cycle + 1000000\<rparr>))"

definition watch_boot_menu :: "string \<Rightarrow> u64 \<Rightarrow> watch \<Rightarrow> watch" where
  "watch_boot_menu screen cycle w =
     (if \<not> saw_boot_menu_text w \<and> saw_boot_sector w \<and> next_screen_check w < length (screen_check_cycles w) \<and>
         screen_check_cycles w ! next_screen_check w \<le> cycle
      then w\<lparr>saw_boot_menu_text := (row_for_match screen ''Press ESC for boot menu'' \<noteq> []),
             next_screen_check := next_screen_check w + 1\<rparr>
      else w)"

definition watch_frame :: "crtc \<Rightarrow> (u16 \<Rightarrow> u8) \<Rightarrow> u64 \<Rightarrow> watch \<Rightarrow> watch" where
  "watch_frame c plane0 cycle w =
     (let screen = current_text_screen c plane0 in watch_boot_menu screen cycle (watch_console screen cycle w))"

section \<open>Frames are drawn inside their memories\<close>

lemma each_append: "each f (xs @ ys) s = (case each f xs s of None \<Rightarrow> None | Some s \<Rightarrow> each f ys s)"
  by (induction xs arbitrary: s) (auto split: option.split)

lemma draw_row:
  assumes "\<forall>x<w. px y x = Some (p x)" and "w \<le> H_RES" and "y < V_RES"
  shows "each (draw_pixel px y) [0..<w] b = Some (\<lambda>i. if y * H_RES \<le> i \<and> i < y * H_RES + w then p (i - y * H_RES) else b i)"
  using assms(1, 2)
proof (induction w)
  case (Suc w)
  have "y * H_RES + w < Suc y * H_RES" using Suc.prems(2) by simp
  also have "\<dots> \<le> V_RES * H_RES" using assms(3) by (intro mult_le_mono1) simp
  finally have "y * H_RES + w < H_RES * V_RES" by (simp add: mult.commute)
  then show ?case using Suc by (simp add: each_append draw_pixel_def poke_pixel_def fun_eq_iff)
qed (auto simp: fun_eq_iff)

lemma index_split: "x < H_RES \<Longrightarrow> (y * H_RES + x) div H_RES = y \<and> (y * H_RES + x) mod H_RES = x"
  by (simp add: H_RES_def)

lemma draw_frame:
  assumes "\<forall>y<h. \<forall>x<w. px y x = Some (p y x)" and "w \<le> H_RES" and "h \<le> V_RES"
  shows "draw_frame px w h b =
    Some (\<lambda>i. if i div H_RES < h \<and> i mod H_RES < w then p (i div H_RES) (i mod H_RES) else b i)"
  using assms(1, 3) unfolding draw_frame_def
proof (induction h)
  case (Suc h)
  have row: "h * H_RES \<le> i \<and> i < h * H_RES + w \<longleftrightarrow> i div H_RES = h \<and> i mod H_RES < w" for i
  proof
    assume i: "h * H_RES \<le> i \<and> i < h * H_RES + w"
    then have "i div H_RES = h" using assms(2) by (intro div_nat_eqI) (auto simp: mult.commute)
    moreover from this have "i mod H_RES = i - h * H_RES" using minus_div_mult_eq_mod [of i H_RES] by simp
    ultimately show "i div H_RES = h \<and> i mod H_RES < w" using i by linarith
  next
    assume "i div H_RES = h \<and> i mod H_RES < w"
    then show "h * H_RES \<le> i \<and> i < h * H_RES + w" using div_mult_mod_eq [of i H_RES] by auto
  qed
  have at: "i - h * H_RES = i mod H_RES" if "i div H_RES = h" for i
    using that minus_div_mult_eq_mod [of i H_RES] by simp
  show ?case
    using Suc draw_row [of w px h "p h"] assms(2)
    by (auto simp: each_append fun_eq_iff row at less_Suc_eq)
qed (simp add: fun_eq_iff)

lemma frame_fits_index:
  assumes "frame_fits m base stride w h row_bytes" and "y < h" and "k < row_bytes"
  shows "base + y * stride + k < m"
proof -
  have "y * stride \<le> (h - 1) * stride" using assms(2) by (intro mult_le_mono1) simp
  moreover have "base + (h - 1) * stride + row_bytes \<le> m" using assms(1) by (auto simp: frame_fits_def)
  ultimately show ?thesis using assms(3) by linarith
qed

definition rgb_pixel :: "bool \<Rightarrow> bool \<Rightarrow> u8 \<Rightarrow> u8 \<Rightarrow> pixel" where
  "rgb_pixel fb_1555 fb_bgr lo hi = the (direct_pixel fb_1555 fb_bgr [lo, hi] 0)"

lemma direct_pixel_defined:
  "offset + 1 < length mem \<Longrightarrow>
     direct_pixel fb_1555 fb_bgr mem offset = Some (rgb_pixel fb_1555 fb_bgr (mem ! offset) (mem ! (offset + 1)))"
  by (simp add: direct_pixel_def rgb_pixel_def peek_byte_def Let_def)

lemma render_svga:
  "\<exists>r. render_svga_frame fb_1555 fb_bgr tb pal mem pixels = Some r \<and>
    (case r of None \<Rightarrow> True
     | Some (w, h, b) \<Rightarrow>
         0 < w \<and> w \<le> 1600 \<and> 0 < h \<and> h \<le> 900 \<and>
         (\<forall>i. b i = (if i div 1600 < h \<and> i mod 1600 < w then
            (let row = unat (fb_start_addr tb) * 4 + (i div 1600) * (unat (fb_stride tb) * 8); x = i mod 1600
             in if fb_flags tb AND 3 = 1 then pal (mem ! (row + x))
                else rgb_pixel fb_1555 fb_bgr (mem ! (row + x * 2)) (mem ! (row + x * 2 + 1)))
            else pixels i)))"
proof -
  let ?depth = "fb_flags tb AND 0x03" and ?base = "unat (fb_start_addr tb) * 4" and ?stride = "unat (fb_stride tb) * 8"
  let ?w = "min (unat (fb_width tb) * 8) H_RES"
  let ?h = "min (if fb_flags tb AND 0x08 \<noteq> 0 then unat (fb_height tb) div 2 else unat (fb_height tb)) V_RES"
  let ?bpp = "if ?depth = 2 then 2 else 1 :: nat"
  let ?p = "\<lambda>y x. if ?depth = 1 then pal (mem ! (?base + y * ?stride + x))
    else rgb_pixel fb_1555 fb_bgr (mem ! (?base + y * ?stride + x * 2)) (mem ! (?base + y * ?stride + x * 2 + 1))"
  have twice: "x * 2 + 1 < w * 2" if "x < w" for x w :: nat using that by linarith
  show ?thesis
  proof (cases "(fb_off tb \<or> fb_flags tb AND 0x04 \<noteq> 0 \<or> (?depth \<noteq> 1 \<and> ?depth \<noteq> 2)) \<or>
      \<not> frame_fits (length mem) ?base ?stride ?w ?h (?w * ?bpp)")
    case True
    then have "render_svga_frame fb_1555 fb_bgr tb pal mem pixels = Some None"
      unfolding render_svga_frame_def Let_def by (auto simp del: min_def)
    then show ?thesis by simp
  next
    case False
    then have depth: "?depth = 1 \<or> ?depth = 2" and fits: "frame_fits (length mem) ?base ?stride ?w ?h (?w * ?bpp)" by auto
    have "svga_pixel fb_1555 fb_bgr pal mem (?depth = 1) ?base ?stride y x = Some (?p y x)" if "y < ?h" "x < ?w" for y x
    proof (cases "?depth = 1")
      case True
      then show ?thesis
        using frame_fits_index [OF fits that(1), of x] that(2) by (simp add: svga_pixel_def peek_byte_def)
    next
      case False
      then show ?thesis
        using frame_fits_index [OF fits that(1), of "x * 2 + 1"] twice [OF that(2)] depth
        by (simp add: svga_pixel_def direct_pixel_defined)
    qed
    then have "draw_frame (svga_pixel fb_1555 fb_bgr pal mem (?depth = 1) ?base ?stride) ?w ?h pixels =
      Some (\<lambda>i. if i div H_RES < ?h \<and> i mod H_RES < ?w then ?p (i div H_RES) (i mod H_RES) else pixels i)"
      by (intro draw_frame) auto
    then have "render_svga_frame fb_1555 fb_bgr tb pal mem pixels = Some (Some (?w, ?h,
      \<lambda>i. if i div H_RES < ?h \<and> i mod H_RES < ?w then ?p (i div H_RES) (i mod H_RES) else pixels i))"
      using False by (simp add: render_svga_frame_def Let_def)
    moreover have "0 < ?w" "0 < ?h" using fits by (auto simp: frame_fits_def)
    ultimately show ?thesis by (simp add: Let_def H_RES_def V_RES_def)
  qed
qed

text \<open>
  C36: drawing the SVGA frame buffer is memory safe and faithful. For any register contents and a buffer
  of any size no access leaves the frame buffer or the picture; and when a frame is shown, it has a
  positive size within 1600x900, each of its pixels is the palette entry (8 bits) or the converted word
  (16 bits) at its address, and no other pixel changes.
\<close>

theorem svga_frame_safe:
  "\<exists>r. render_svga_frame fb_1555 fb_bgr tb pal mem pixels = Some r \<and>
    (case r of None \<Rightarrow> True
     | Some (w, h, b) \<Rightarrow>
         0 < w \<and> w \<le> 1600 \<and> 0 < h \<and> h \<le> 900 \<and>
         (\<forall>i. b i = (if i div 1600 < h \<and> i mod 1600 < w then
            (let row = unat (fb_start_addr tb) * 4 + (i div 1600) * (unat (fb_stride tb) * 8); x = i mod 1600
             in if fb_flags tb AND 3 = 1 then pal (mem ! (row + x))
                else rgb_pixel fb_1555 fb_bgr (mem ! (row + x * 2)) (mem ! (row + x * 2 + 1)))
            else pixels i)))"
  by (rule render_svga)

lemma render_zsst:
  "\<exists>r. render_zsst_frame tb mem pixels = Some r \<and>
    (case r of None \<Rightarrow> True
     | Some (w, h, b) \<Rightarrow>
         0 < w \<and> w \<le> 1600 \<and> 0 < h \<and> h \<le> 900 \<and>
         (\<forall>i. b i = (if i div 1600 < h \<and> i mod 1600 < w then
            (let off = (if dbg_zsst_displayed_buffer tb AND 1 \<noteq> 0 then unat (dbg_zsst_buffer_size tb) else 0) +
                (i div 1600) * unat (dbg_zsst_stride tb) + (i mod 1600) * 2
             in rgb_pixel False False (mem ! off) (mem ! (off + 1)))
            else pixels i)))"
proof -
  let ?base = "if dbg_zsst_displayed_buffer tb AND 1 \<noteq> 0 then unat (dbg_zsst_buffer_size tb) else 0"
  let ?stride = "unat (dbg_zsst_stride tb)"
  let ?w = "min (unat (dbg_zsst_width tb)) H_RES" and ?h = "min (unat (dbg_zsst_height tb)) V_RES"
  let ?o = "\<lambda>y x. ?base + y * ?stride + x * 2"
  have twice: "x * 2 + 1 < w * 2" if "x < w" for x w :: nat using that by linarith
  show ?thesis
  proof (cases "\<not> dbg_zsst_video_active tb \<or> \<not> frame_fits (length mem) ?base ?stride ?w ?h (?w * 2)")
    case True
    then have "render_zsst_frame tb mem pixels = Some None"
      unfolding render_zsst_frame_def Let_def by auto
    then show ?thesis by simp
  next
    case False
    then have fits: "frame_fits (length mem) ?base ?stride ?w ?h (?w * 2)" by blast
    have "zsst_pixel mem ?base ?stride y x = Some (rgb_pixel False False (mem ! ?o y x) (mem ! (?o y x + 1)))"
      if "y < ?h" "x < ?w" for y x
      unfolding zsst_pixel_def
      using frame_fits_index [OF fits that(1), of "x * 2 + 1"] twice [OF that(2)] by (intro direct_pixel_defined) linarith
    then have "draw_frame (zsst_pixel mem ?base ?stride) ?w ?h pixels =
      Some (\<lambda>i. if i div H_RES < ?h \<and> i mod H_RES < ?w
        then rgb_pixel False False (mem ! ?o (i div H_RES) (i mod H_RES)) (mem ! (?o (i div H_RES) (i mod H_RES) + 1))
        else pixels i)"
      by (intro draw_frame) auto
    then have "render_zsst_frame tb mem pixels = Some (Some (?w, ?h,
      \<lambda>i. if i div H_RES < ?h \<and> i mod H_RES < ?w
        then rgb_pixel False False (mem ! ?o (i div H_RES) (i mod H_RES)) (mem ! (?o (i div H_RES) (i mod H_RES) + 1))
        else pixels i))"
      using False unfolding render_zsst_frame_def Let_def by simp
    moreover have "0 < ?w" "0 < ?h" using fits by (auto simp: frame_fits_def)
    ultimately show ?thesis by (simp add: Let_def H_RES_def V_RES_def)
  qed
qed

text \<open>
  the same holds for the accelerator's frame: no access leaves its memory or the picture, and a shown
  frame has the RGB565 pixels of the displayed buffer.
\<close>

theorem zsst_frame_safe:
  "\<exists>r. render_zsst_frame tb mem pixels = Some r \<and>
    (case r of None \<Rightarrow> True
     | Some (w, h, b) \<Rightarrow>
         0 < w \<and> w \<le> 1600 \<and> 0 < h \<and> h \<le> 900 \<and>
         (\<forall>i. b i = (if i div 1600 < h \<and> i mod 1600 < w then
            (let off = (if dbg_zsst_displayed_buffer tb AND 1 \<noteq> 0 then unat (dbg_zsst_buffer_size tb) else 0) +
                (i div 1600) * unat (dbg_zsst_stride tb) + (i mod 1600) * 2
             in rgb_pixel False False (mem ! off) (mem ! (off + 1)))
            else pixels i)))"
  by (rule render_zsst)

section \<open>The raster stays in its buffer\<close>

definition raster_inv :: "raster \<Rightarrow> bool" where
  "raster_inv v \<longleftrightarrow> 0 \<le> scan_x v \<and> 0 \<le> scan_y v \<and> scan_y v < int V_RES \<and>
     0 \<le> frame_line_max v \<and> frame_line_max v \<le> int V_RES \<and> 0 \<le> frame_x_max v \<and>
     0 < resolution_x v \<and> resolution_x v \<le> int H_RES \<and> 0 < resolution_y v \<and> resolution_y v \<le> int V_RES"

lemma start_line_inv: "raster_inv v \<Longrightarrow> raster_inv (start_line v)"
  by (auto simp: raster_inv_def start_line_def Let_def)

lemma put_scan_pixel_inv:
  assumes "raster_inv v"
  shows "\<exists>v'. put_scan_pixel tb v = Some v' \<and> raster_inv v'"
proof (cases "scan_x v < int H_RES \<and> scan_y v < int V_RES")
  case True
  let ?i = "scan_y v * int H_RES + scan_x v"
  have "scan_y v * int H_RES \<le> (int V_RES - 1) * int H_RES" using True by (intro mult_right_mono) auto
  then have "\<not> int (H_RES * V_RES) \<le> ?i" using True by (simp add: algebra_simps)
  moreover have "\<not> ?i < 0" using assms by (simp add: raster_inv_def not_less)
  ultimately have "put_scan_pixel tb v \<noteq> None" using True by (simp add: put_scan_pixel_def Let_def)
  then obtain v' where "put_scan_pixel tb v = Some v'" by blast
  moreover from this have "raster_inv v'"
    using assms by (auto simp: put_scan_pixel_def Let_def raster_inv_def split: if_splits)
  ultimately show ?thesis by blast
next
  case False
  then have "put_scan_pixel tb v = Some v" unfolding put_scan_pixel_def by (rule if_not_P)
  then show ?thesis using assms by blast
qed

lemma consume_pixel_inv: "raster_inv v \<Longrightarrow> \<exists>v'. consume_pixel tb v = Some v' \<and> raster_inv v'"
proof -
  assume inv: "raster_inv v"
  let ?v = "if video_de tb \<and> \<not> prev_de v then start_line v else v"
  let ?next = "\<lambda>v. let v = v\<lparr>scan_x := scan_x v + 1\<rparr> in if frame_x_max v < scan_x v then v\<lparr>frame_x_max := scan_x v\<rparr> else v"
  have inv1: "raster_inv ?v" using inv by (simp add: start_line_inv)
  then obtain v1 where v1: "put_scan_pixel tb ?v = Some v1" "raster_inv v1" using put_scan_pixel_inv by blast
  have "raster_inv (?next v1)" using v1(2) by (auto simp: raster_inv_def Let_def)
  moreover have "consume_pixel tb v = (if \<not> ce_pixel tb then Some v else if \<not> video_de tb then Some ?v else Some (?next v1))"
    unfolding consume_pixel_def Let_def v1(1) by simp
  ultimately show ?thesis using inv inv1 by (metis (no_types, lifting))
qed

lemma show_frame_inv:
  "raster_inv v \<Longrightarrow> (\<And>w h b. r = Some (w, h, b) \<Longrightarrow> 0 < w \<and> w \<le> 1600 \<and> 0 < h \<and> h \<le> 900) \<Longrightarrow> raster_inv (show_frame r v)"
  by (auto simp: show_frame_def raster_inv_def H_RES_def V_RES_def split: option.split)

lemma skip_frame_inv: "raster_inv v \<Longrightarrow> \<exists>v'. skip_frame v = Some v' \<and> raster_inv v'"
  by (auto simp: skip_frame_def clear_rows_def clear_counts_def raster_inv_def H_RES_def V_RES_def)

lemma raster_frame_inv: "raster_inv v \<Longrightarrow> raster_inv (raster_frame v)"
  by (auto simp: raster_frame_def raster_inv_def H_RES_def V_RES_def)

lemma present_frame_inv:
  assumes "raster_inv v"
  shows "\<exists>v'. present_frame fb_1555 fb_bgr zt zmem ft pal fmem cycle v = Some v' \<and> raster_inv v'"
proof -
  let ?v = "v\<lparr>saw_video_sync := True, last_full_frame_cycle := cycle\<rparr>"
  have inv: "raster_inv ?v" using assms by (simp add: raster_inv_def)
  have fin: "raster_inv (clear_counts (u\<lparr>present_dirty := True, frames_skipped := 0, screenbuffer := \<lambda>i. black\<rparr>))"
    if "raster_inv u" for u using that by (simp add: clear_counts_def raster_inv_def)
  obtain z where z: "render_zsst_frame zt zmem (presentbuffer ?v) = Some z"
    and zb: "\<And>w h b. z = Some (w, h, b) \<Longrightarrow> 0 < w \<and> w \<le> 1600 \<and> 0 < h \<and> h \<le> 900"
  proof -
    obtain r where r: "render_zsst_frame zt zmem (presentbuffer ?v) = Some r" using render_zsst by blast
    show thesis
    proof (rule that [OF r])
      fix w h b assume "r = Some (w, h, b)"
      then show "0 < w \<and> w \<le> 1600 \<and> 0 < h \<and> h \<le> 900" using render_zsst [of zt zmem "presentbuffer ?v"] r by simp
    qed
  qed
  obtain s where s: "(if z = None then render_svga_frame fb_1555 fb_bgr ft pal fmem (presentbuffer ?v) else Some None) = Some s"
    and sb: "\<And>w h b. s = Some (w, h, b) \<Longrightarrow> 0 < w \<and> w \<le> 1600 \<and> 0 < h \<and> h \<le> 900"
  proof -
    obtain r where r: "render_svga_frame fb_1555 fb_bgr ft pal fmem (presentbuffer ?v) = Some r" using render_svga by blast
    have "0 < w \<and> w \<le> 1600 \<and> 0 < h \<and> h \<le> 900" if "r = Some (w, h, b)" for w h b
      using render_svga [of fb_1555 fb_bgr ft pal fmem "presentbuffer ?v"] r that by simp
    note bounds = this
    show thesis
    proof (rule that [of "if z = None then r else None"])
      show "(if z = None then render_svga_frame fb_1555 fb_bgr ft pal fmem (presentbuffer ?v) else Some None) =
          Some (if z = None then r else None)" using r by simp
      fix w h b assume "(if z = None then r else None) = Some (w, h, b)"
      then have "r = Some (w, h, b)" by (cases "z = None") simp_all
      then show "0 < w \<and> w \<le> 1600 \<and> 0 < h \<and> h \<le> 900" by (rule bounds)
    qed
  qed
  have "raster_inv (show_frame z ?v)" by (rule show_frame_inv [OF inv zb])
  then have "raster_inv (show_frame s (show_frame z ?v))" by (rule show_frame_inv [OF _ sb])
  then have u: "raster_inv (if z = None \<and> s = None then raster_frame ?v else show_frame s (show_frame z ?v))"
  proof (cases "z = None \<and> s = None")
    case True
    show ?thesis unfolding if_P [OF True] by (rule raster_frame_inv [OF inv])
  next
    case False
    show ?thesis unfolding if_not_P [OF False] by (rule \<open>raster_inv (show_frame s (show_frame z ?v))\<close>)
  qed
  show ?thesis
    unfolding present_frame_def Let_def z option.case s using fin [OF u] by blast
qed

text \<open>
  the raster never leaves its buffer. For every sequence of video signals \<open>consume_video\<close> is defined
  (no pixel or row outside the screen buffer) and keeps its invariant: the scan position and the line
  count within the screen, and a positive resolution of at most 1600x900.
\<close>

theorem consume_video_inv:
  assumes "raster_inv v"
  shows "\<exists>v'. consume_video fb_1555 fb_bgr zt zmem ft pal fmem tb cycle v = Some v' \<and> raster_inv v'"
proof -
  let ?v1 = "if video_vs tb \<and> \<not> prev_vs v then v\<lparr>scan_x := 0, scan_y := 0\<rparr> else v"
  have "raster_inv ?v1" using assms by (simp add: raster_inv_def V_RES_def)
  then obtain v2 where v2: "consume_pixel tb ?v1 = Some v2" "raster_inv v2" using consume_pixel_inv by blast
  obtain v3 where "skip_frame v2 = Some v3" "raster_inv v3" using skip_frame_inv [OF v2(2)] by blast
  moreover obtain v4 where "present_frame fb_1555 fb_bgr zt zmem ft pal fmem cycle v2 = Some v4" "raster_inv v4"
    using present_frame_inv [OF v2(2)] by blast
  ultimately show ?thesis using v2 by (auto simp: consume_video_def Let_def raster_inv_def)
qed

definition sample_raster :: raster where
  "sample_raster = \<lparr>scan_x = 0, scan_y = 0, frame_pix_cnt = 0, frame_x_max = 0, frame_line_max = 0,
     screenbuffer = (\<lambda>_. black), presentbuffer = (\<lambda>_. black), present_dirty = True, resolution_x = 720,
     resolution_y = 400, last_full_frame_cycle = 0, frames_skipped = 0, prev_vs = False, prev_hs = False,
     prev_de = False, saw_nonblack_pixel = False, saw_video_sync = False\<rparr>"

theorem consume_video_inv_witness:
  "\<exists>v'. consume_video True True
     \<lparr>dbg_zsst_video_active = False, dbg_zsst_width = 0, dbg_zsst_height = 0, dbg_zsst_stride = 0,
      dbg_zsst_buffer_size = 0, dbg_zsst_displayed_buffer = 0\<rparr> []
     \<lparr>fb_flags = 0, fb_off = True, fb_start_addr = 0, fb_stride = 0, fb_width = 0, fb_height = 0\<rparr> (\<lambda>_. black) []
     \<lparr>video_vs = True, video_hs = False, video_de = True, ce_pixel = True,
      video_r = 1, video_g = 2, video_b = 3\<rparr> 5 sample_raster = Some v' \<and> raster_inv v'"
  by (rule consume_video_inv) (simp add: sample_raster_def raster_inv_def H_RES_def V_RES_def)

section \<open>Searching the text screen\<close>

lemma length_screen_row [simp]: "length (screen_row p cols a) = unat cols"
  by (simp add: screen_row_def)

lemma screen_rows_length: "length (screen_rows p cols stride n a) = n * (unat cols + 1)"
  by (induction n arbitrary: a) auto

lemma screen_rows_nth:
  "r < n \<Longrightarrow> c \<le> unat cols \<Longrightarrow> screen_rows p cols stride n a ! (r * (unat cols + 1) + c) =
     (if c = unat cols then CHR 0x0A else screen_char (p (a + word_of_nat r * stride + 2 * word_of_nat c)))"
proof (induction n arbitrary: r a)
  case (Suc n)
  show ?case
  proof (cases r)
    case 0
    then show ?thesis using Suc.prems by (auto simp: nth_append screen_row_def push_bit_eq_mult mult.commute)
  next
    case (Suc q)
    then have i: "r * (unat cols + 1) + c = unat cols + 1 + (q * (unat cols + 1) + c)" by simp
    have first: "screen_rows p cols stride (Suc n) a ! (r * (unat cols + 1) + c) =
        screen_rows p cols stride n (a + stride) ! (q * (unat cols + 1) + c)"
      unfolding i by (simp add: nth_append add.assoc)
    have "q < n" using Suc.prems(1) \<open>r = Suc q\<close> by simp
    note rest = Suc.IH [OF this Suc.prems(2), of "a + stride"]
    have shift: "a + stride + word_of_nat q * stride = a + word_of_nat r * stride"
      using \<open>r = Suc q\<close> by (simp add: distrib_right)
    show ?thesis unfolding first rest shift by (rule refl)
  qed
qed simp

lemma screen_cols_bounds: "1 \<le> unat (screen_cols c) \<and> unat (screen_cols c) \<le> 80"
proof -
  have "screen_cols c \<noteq> 0 \<and> screen_cols c \<le> 80" by (auto simp: screen_cols_def Let_def not_less)
  then show ?thesis by (auto simp: word_le_nat_alt unat_gt_0 Suc_le_eq)
qed

text \<open>
  the text screen has exactly 25 rows of at most 80 columns, each ended by a newline; the character in
  row \<open>r\<close> and column \<open>k\<close> is the one in plane 0 at the CRTC's start address plus \<open>r\<close> strides plus \<open>2 * k\<close>
  (16-bit wrap included), with everything that is not printable replaced by a space.
\<close>

theorem text_screen_layout:
  fixes c :: crtc
  shows "let screen = current_text_screen c plane0; cols = unat (screen_cols c) in
    length screen = 25 * (cols + 1) \<and> 1 \<le> cols \<and> cols \<le> 80 \<and>
    (\<forall>r<25. screen ! (r * (cols + 1) + cols) = CHR 0x0A \<and>
      (\<forall>k<cols. screen ! (r * (cols + 1) + k) =
         screen_char (plane0 (crtc_address_start c + crtc_address_byte_panning c +
           word_of_nat r * screen_stride c + 2 * word_of_nat k))))"
proof -
  let ?cols = "unat (screen_cols c)"
  have "screen_rows p cols s 25 a ! (r * (unat cols + 1) + unat cols) = CHR 0x0A" if "r < 25" for p cols s a r
    using screen_rows_nth [OF that order_refl] by simp
  moreover have "screen_rows p cols s 25 a ! (r * (unat cols + 1) + k) = screen_char (p (a + word_of_nat r * s + 2 * word_of_nat k))"
    if "r < 25" "k < unat cols" for p cols s a r k
    using screen_rows_nth [OF that(1), of k cols p s a] that(2) by simp
  ultimately show ?thesis
    using screen_cols_bounds [of c] unfolding current_text_screen_def Let_def screen_rows_length by blast
qed

theorem text_screen_layout_witness:
  "current_text_screen \<lparr>crtc_address_start = 0, crtc_address_byte_panning = 0, crtc_address_offset = 40,
     crtc_horizontal_display_size = 79\<rparr> (\<lambda>a. if a = 162 then 65 else 0) ! (1 * 81 + 1) = CHR ''A''"
proof -
  let ?c = "\<lparr>crtc_address_start = 0, crtc_address_byte_panning = 0, crtc_address_offset = 40,
     crtc_horizontal_display_size = 79\<rparr>"
  have cols: "screen_cols ?c = 80" "screen_stride ?c = 160" by (simp_all add: screen_cols_def screen_stride_def)
  have "\<forall>r<25. \<forall>k<80. current_text_screen ?c (\<lambda>a. if a = 162 then 65 else 0) ! (81 * r + k) =
      screen_char (if (0::u16) + 0 + word_of_nat r * 160 + 2 * word_of_nat k = 162 then 65 else 0)"
    using text_screen_layout [of ?c "\<lambda>a. if a = 162 then 65 else 0"] by (simp add: Let_def cols split del: if_split)
  moreover have "char_of (65 :: nat) = CHR ''A''" by code_simp
  ultimately show ?thesis by (auto simp: screen_char_def char_of_byte_def dest!: spec [of _ "1 :: nat"])
qed

lemma find_from_Some:
  "find_from p s n = Some q \<Longrightarrow> p \<le> q \<and> q - p \<le> length s \<and> take (length n) (drop (q - p) s) = n \<and>
     (\<forall>j. p \<le> j \<longrightarrow> j < q \<longrightarrow> take (length n) (drop (j - p) s) \<noteq> n)"
proof (induction p s n rule: find_from.induct)
  case (2 pos c cs n)
  show ?case
  proof (cases "take (length n) (c # cs) = n")
    case False
    then have IH: "Suc pos \<le> q \<and> q - Suc pos \<le> length cs \<and> take (length n) (drop (q - Suc pos) cs) = n \<and>
        (\<forall>j. Suc pos \<le> j \<longrightarrow> j < q \<longrightarrow> take (length n) (drop (j - Suc pos) cs) \<noteq> n)"
      using 2 by simp
    have d: "drop (j - pos) (c # cs) = drop (j - Suc pos) cs" if "Suc pos \<le> j" for j
    proof -
      have "j - pos = Suc (j - Suc pos)" using that by simp
      then show ?thesis by simp
    qed
    have "take (length n) (drop (j - pos) (c # cs)) \<noteq> n" if "pos \<le> j" "j < q" for j
      using that False IH d [of j] by (cases "j = pos") auto
    then show ?thesis using IH d [of q] by auto
  qed (use 2 in auto)
qed (auto split: if_splits)

lemma find_from_None: "find_from p s n = None \<Longrightarrow> s \<noteq> a @ n @ b"
proof (induction p s n arbitrary: a rule: find_from.induct)
  case (2 pos c cs n)
  show ?case
  proof
    assume eq: "c # cs = a @ n @ b"
    show False
    proof (cases a)
      case Nil
      then have "take (length n) (c # cs) = n" using eq by simp
      then show False using 2 by simp
    next
      case (Cons x xs)
      then show False using 2 eq by (auto split: if_splits)
    qed
  qed
qed (auto split: if_splits)

lemma rfind_char_Some:
  "rfind_char ch p s = Some q \<Longrightarrow> q \<le> p \<and> q < length s \<and> s ! q = ch \<and> (\<forall>j. q < j \<longrightarrow> j \<le> p \<longrightarrow> j < length s \<longrightarrow> s ! j \<noteq> ch)"
  by (induction ch p s rule: rfind_char.induct) (auto split: if_splits simp: le_Suc_eq)

lemma rfind_char_None: "rfind_char ch p s = None \<Longrightarrow> j \<le> p \<Longrightarrow> j < length s \<Longrightarrow> s ! j \<noteq> ch"
  by (induction ch p s rule: rfind_char.induct) (auto split: if_splits simp: le_Suc_eq)

lemma find_char_Some:
  assumes "find_char ch pos s = Some q" and "pos \<le> length s"
  shows "pos \<le> q \<and> q < length s \<and> s ! q = ch \<and> (\<forall>j. pos \<le> j \<longrightarrow> j < q \<longrightarrow> s ! j \<noteq> ch)"
proof -
  have one: "take 1 (drop k s) = [ch] \<longleftrightarrow> k < length s \<and> s ! k = ch" for k
    by (cases "k < length s") (auto simp: take_Suc_conv_app_nth hd_drop_conv_nth take_Suc)
  have "pos \<le> q \<and> take 1 (drop q s) = [ch] \<and> (\<forall>j. pos \<le> j \<longrightarrow> j < q \<longrightarrow> take 1 (drop j s) \<noteq> [ch])"
    using find_from_Some [of pos "drop pos s" "[ch]" q] assms by (auto simp: find_char_def)
  then have "pos \<le> q \<and> (q < length s \<and> s ! q = ch) \<and> (\<forall>j. pos \<le> j \<longrightarrow> j < q \<longrightarrow> \<not> (j < length s \<and> s ! j = ch))"
    unfolding one .
  then show ?thesis by (metis less_trans)
qed

lemma find_char_None: "find_char ch pos s = None \<Longrightarrow> pos \<le> j \<Longrightarrow> j < length s \<Longrightarrow> s ! j \<noteq> ch"
proof
  assume n: "find_char ch pos s = None" "pos \<le> j" "j < length s" and "s ! j = ch"
  then have "drop pos s = take (j - pos) (drop pos s) @ [ch] @ drop (Suc j) s"
    by (metis Cons_nth_drop_Suc append_Cons append_Nil append_take_drop_id drop_drop le_add_diff_inverse2)
  then show False using find_from_None n(1) unfolding find_char_def by blast
qed

text \<open>
  \<open>row_for_match\<close> returns the whole line of the first match. For a text that is not empty and has no
  newline the result contains the text, has no newline and is bounded in the screen by newlines or its
  ends; when the text does not occur, the result is empty.
\<close>

theorem row_for_match_line:
  assumes "needle \<noteq> []" and "CHR 0x0A \<notin> set needle"
  shows "if \<exists>a b. screen = a @ needle @ b
    then (\<exists>u v a b. screen = u @ row_for_match screen needle @ v \<and> row_for_match screen needle = a @ needle @ b \<and>
      CHR 0x0A \<notin> set (row_for_match screen needle) \<and> (u = [] \<or> last u = CHR 0x0A) \<and> (v = [] \<or> hd v = CHR 0x0A))
    else row_for_match screen needle = []"
proof (cases "find_from 0 screen needle")
  case None
  then have "\<not> (\<exists>a b. screen = a @ needle @ b)" using find_from_None by blast
  then show ?thesis using None by (simp add: row_for_match_def)
next
  case (Some pos)
  then have pos: "pos \<le> length screen" "take (length needle) (drop pos screen) = needle"
    using find_from_Some by fastforce+
  define ls where "ls = (case rfind_char (CHR 0x0A) pos screen of None \<Rightarrow> 0 | Some p \<Rightarrow> p + 1)"
  define le where "le = (case find_char (CHR 0x0A) pos screen of None \<Rightarrow> length screen | Some p \<Rightarrow> p)"
  have row: "row_for_match screen needle = take (le - ls) (drop ls screen)"
    by (simp add: row_for_match_def Some ls_def le_def Let_def)
  have len: "pos + length needle \<le> length screen"
    using arg_cong [OF pos(2), of length] pos(1) by simp
  have nth: "screen ! (pos + i) = needle ! i" if "i < length needle" for i
    using arg_cong [OF pos(2), of "\<lambda>s. s ! i"] that len by simp
  have in_needle: "screen ! j \<noteq> CHR 0x0A" if "pos \<le> j" "j < pos + length needle" for j
  proof -
    have i: "j - pos < length needle" "pos + (j - pos) = j" using that by auto
    then have "screen ! j \<in> set needle" using nth [OF i(1)] nth_mem [OF i(1)] by simp
    then show ?thesis using assms(2) by metis
  qed
  have first: "0 < length needle" using assms(1) by simp
  have ls: "ls \<le> pos" "\<forall>j. ls \<le> j \<longrightarrow> j < pos \<longrightarrow> screen ! j \<noteq> CHR 0x0A" "ls = 0 \<or> screen ! (ls - 1) = CHR 0x0A"
  proof -
    have "ls \<le> pos \<and> (\<forall>j. ls \<le> j \<longrightarrow> j < pos \<longrightarrow> screen ! j \<noteq> CHR 0x0A) \<and> (ls = 0 \<or> screen ! (ls - 1) = CHR 0x0A)"
    proof (cases "rfind_char (CHR 0x0A) pos screen")
      case None
      then show ?thesis using rfind_char_None [OF None] len first by (simp add: ls_def)
    next
      case (Some p)
      note p = rfind_char_Some [OF Some]
      have "p \<noteq> pos" using p in_needle [of pos] first by auto
      then show ?thesis using p len Some by (auto simp: ls_def)
    qed
    then show "ls \<le> pos" "\<forall>j. ls \<le> j \<longrightarrow> j < pos \<longrightarrow> screen ! j \<noteq> CHR 0x0A" "ls = 0 \<or> screen ! (ls - 1) = CHR 0x0A" by blast+
  qed
  have le: "pos + length needle \<le> le" "le \<le> length screen" "\<forall>j. pos \<le> j \<longrightarrow> j < le \<longrightarrow> screen ! j \<noteq> CHR 0x0A"
    "le = length screen \<or> screen ! le = CHR 0x0A"
  proof -
    have "pos + length needle \<le> le \<and> le \<le> length screen \<and> (\<forall>j. pos \<le> j \<longrightarrow> j < le \<longrightarrow> screen ! j \<noteq> CHR 0x0A) \<and>
      (le = length screen \<or> screen ! le = CHR 0x0A)"
    proof (cases "find_char (CHR 0x0A) pos screen")
      case None
      then show ?thesis using find_char_None [OF None] len by (simp add: le_def)
    next
      case (Some q)
      note q = find_char_Some [OF Some pos(1)]
      have "pos + length needle \<le> q" using q in_needle [of q] by (metis not_le)
      then show ?thesis using q Some by (simp add: le_def)
    qed
    then show "pos + length needle \<le> le" "le \<le> length screen" "\<forall>j. pos \<le> j \<longrightarrow> j < le \<longrightarrow> screen ! j \<noteq> CHR 0x0A"
      "le = length screen \<or> screen ! le = CHR 0x0A" by blast+
  qed
  let ?u = "take ls screen" and ?v = "drop le screen"
  let ?a = "take (pos - ls) (drop ls screen)" and ?b = "take (le - (pos + length needle)) (drop (pos + length needle) screen)"
  have "screen = ?u @ row_for_match screen needle @ ?v"
    unfolding row using ls(1) le(1) by (metis append_take_drop_id drop_drop le_add_diff_inverse2 le_trans add_leD1)
  moreover have "row_for_match screen needle = ?a @ needle @ ?b"
  proof -
    have "le - ls = (pos - ls) + (length needle + (le - (pos + length needle)))" using ls(1) le(1) by simp
    then have "row_for_match screen needle = take (pos - ls) (drop ls screen) @ take (length needle) (drop pos screen) @
        take (le - (pos + length needle)) (drop (length needle) (drop pos screen))"
      unfolding row using ls(1) by (simp only: take_add drop_drop) (simp add: add.commute)
    then show ?thesis unfolding pos(2) by (simp add: add.commute)
  qed
  moreover have "CHR 0x0A \<notin> set (row_for_match screen needle)"
  proof
    assume "CHR 0x0A \<in> set (row_for_match screen needle)"
    then obtain i where "i < le - ls" "screen ! (ls + i) = CHR 0x0A"
      unfolding row using le(2) ls(1) pos(1) by (auto simp: in_set_conv_nth)
    then show False using ls(2) le(3) by (metis le_add1 less_diff_conv2 not_le add.commute less_diff_conv)
  qed
  moreover have "?u = [] \<or> last ?u = CHR 0x0A"
    using ls(1, 3) pos(1) len first by (cases "ls = 0"; cases "screen = []") (auto simp: last_conv_nth)
  moreover have "?v = [] \<or> hd ?v = CHR 0x0A" using le(2, 4) by (cases "le = length screen") (auto simp: hd_drop_conv_nth)
  moreover have ex: "\<exists>a b. screen = a @ needle @ b"
    using pos(2) append_take_drop_id [of pos screen] append_take_drop_id [of "length needle" "drop pos screen"] by metis
  ultimately show ?thesis unfolding if_P [OF ex] by blast
qed

theorem row_for_match_line_witness:
  "row_for_match (''ab'' @ CHR 0x0A # ''xPressy'' @ [CHR 0x0A]) ''Press'' \<noteq> []"
proof -
  let ?s = "''ab'' @ CHR 0x0A # ''xPressy'' @ [CHR 0x0A]"
  have ex: "\<exists>a b. ?s = a @ ''Press'' @ b"
    by (rule exI [of _ "''ab'' @ [CHR 0x0A, CHR ''x'']"], rule exI [of _ "''y'' @ [CHR 0x0A]"]) simp
  have "''Press'' \<noteq> []" "CHR 0x0A \<notin> set ''Press''" by simp_all
  from row_for_match_line [OF this, of ?s] show ?thesis unfolding if_P [OF ex] by auto
qed

end
