(* ===== verification/Main_Cycle.thy ===== *)
theory Main_Cycle
  imports Main_Loop Run_Setup Ddr Video Cosim_Host
begin

text \<open>
  A cycle of the simulation as a whole (\<open>step\<close> and the main loop of \<open>src/verilator/main.cpp\<close>): what the
  harness drives before each edge of the system clock, the evaluations of the core, and what it samples after
  them. The verilated core is a parameter, a function from its input pins; the disk drives, the PS/2 devices,
  the DDR slave, the audio clock, the picture and the co-simulation are the models of the other theories. What
  depends on the wall clock or a window (checkpoints, snapshots, remote control, the GUI) and the text screen
  watch, which have models of their own, and the debug messages are not part of the cycle here.
\<close>

section \<open>The core's ports\<close>

record pins =
  pin_clk_sys :: bool
  pin_clk_audio :: bool
  pin_soft_reset :: bool
  pin_status :: u64
  pin_kbd_data :: u8
  pin_kbd_valid :: bool
  pin_kbd_clear :: bool
  pin_mouse_data :: u8
  pin_mouse_valid :: bool
  pin_ddram_busy :: bool
  pin_dout_ready :: bool
  pin_dout :: u64
  pin_bus :: mgmt_bus

text \<open>The verilated core: \<open>eval\<close>, and the output ports as its state has them.\<close>

record 'c core_model =
  eval_core :: "pins \<Rightarrow> 'c \<Rightarrow> 'c"
  out_mgmt :: "'c \<Rightarrow> u16 \<times> u8 \<times> u8 \<times> u8"
  out_ddr :: "'c \<Rightarrow> ddr_request"
  out_kbd_host :: "'c \<Rightarrow> u16"
  out_video :: "'c \<Rightarrow> video_taps"
  out_fb :: "'c \<Rightarrow> fb_taps"
  out_zsst :: "'c \<Rightarrow> zsst_taps"
  out_zsst_write :: "'c \<Rightarrow> bool \<times> u64 \<times> u16 \<times> u32 list"
  out_palette :: "'c \<Rightarrow> bool \<times> u8 \<times> u32"
  out_audio :: "'c \<Rightarrow> u16 \<times> u16"
  out_sb_left :: "'c \<Rightarrow> u16"
  out_cosim :: "'c \<Rightarrow> taps"

record 'r loop_config =
  cf_sys_clock :: nat
  cf_no_audio_clock :: bool
  cf_record :: bool
  cf_fb_1555 :: bool
  cf_fb_bgr :: bool
  cf_arm_flatline :: bool
  cf_flatline_window :: u64
  cf_cosim_on :: bool
  cf_x87 :: bool
  cf_ref :: "'r cosim86"

section \<open>The audio dropout detector\<close>

definition FLATLINE_HOLD_THRESHOLD :: u64 where "FLATLINE_HOLD_THRESHOLD = 150000"

record flatline =
  fl_last :: u16
  fl_hold :: u64
  fl_start :: u64
  trace_start_cycle :: u64
  force_stop_cycle :: u64

definition flatline_sample :: "bool \<Rightarrow> u64 \<Rightarrow> u64 \<Rightarrow> u16 \<Rightarrow> flatline \<Rightarrow> flatline" where
  "flatline_sample arm window cycle v f =
     (if v = fl_last f then
        (let f = f\<lparr>fl_hold := fl_hold f + 1\<rparr>
         in if arm \<and> fl_last f \<noteq> 0 \<and> fl_hold f = FLATLINE_HOLD_THRESHOLD \<and> force_stop_cycle f = 0
            then f\<lparr>trace_start_cycle := cycle, force_stop_cycle := cycle + window\<rparr> else f)
      else f\<lparr>fl_last := v, fl_hold := 0, fl_start := cycle\<rparr>)"

section \<open>The state of the loop\<close>

record ('c, 'r) rig =
  rig_core :: 'c
  rig_pins :: pins
  sim_time :: u64
  rig_ddr :: ddr
  rig_audio :: audio
  rig_wav :: "(u16 \<times> u16) list"
  rig_kbd :: ps2_kbd
  rig_mouse :: ps2_mouse
  rig_zsst :: bytes
  rig_palette :: "u8 \<Rightarrow> pixel"
  rig_raster :: raster
  rig_flat :: flatline
  rig_host :: "'r cosim_host"
  rig_devs :: "hps_ide \<times> hps_ide \<times> hps_floppy"
  rig_globals :: "bool \<times> jitter"
  rig_soft_reset :: int
  rig_speed :: "(u64 \<times> u32) list"
  rig_running :: bool

text \<open>An evaluation with new values of the input pins.\<close>

definition drive :: "'c core_model \<Rightarrow> pins \<Rightarrow> ('c, 'r) rig \<Rightarrow> ('c, 'r) rig" where
  "drive C p r = r\<lparr>rig_pins := p, rig_core := eval_core C p (rig_core r)\<rparr>"

text \<open>
  An edge of the audio clock: the core is evaluated, and on a rising edge a sample may fall due. The samples
  handed to the recorder are \<open>rig_wav\<close>.
\<close>

definition audio_half :: "bool \<Rightarrow> nat \<Rightarrow> 'c core_model \<Rightarrow> ('c, 'r) rig \<Rightarrow> ('c, 'r) rig" where
  "audio_half recording sys C r =
     (let a = (rig_audio r)\<lparr>clock_accum := clock_accum (rig_audio r) - 2 * sys\<rparr>; a' = audio_edge recording a;
          r = drive C ((rig_pins r)\<lparr>pin_clk_audio := clk_audio a'\<rparr>) r
      in r\<lparr>rig_audio := a', rig_wav := (if samples a' = samples a then rig_wav r else rig_wav r @ [out_audio C (rig_core r)])\<rparr>)"

function audio_halves :: "bool \<Rightarrow> nat \<Rightarrow> 'c core_model \<Rightarrow> ('c, 'r) rig \<Rightarrow> ('c, 'r) rig" where
  "audio_halves recording sys C r =
     (if 0 < sys \<and> 2 * sys \<le> clock_accum (rig_audio r) then audio_halves recording sys C (audio_half recording sys C r) else r)"
  by auto
termination
  by (relation "measure (\<lambda>(_, _, _, r). clock_accum (rig_audio r))") (auto simp: audio_half_def audio_edge_def Let_def)

declare audio_halves.simps [simp del]

text \<open>A write of the core to the palette of the frame buffer.\<close>

definition palette_write :: "bool \<times> u8 \<times> u32 \<Rightarrow> (u8 \<Rightarrow> pixel) \<Rightarrow> u8 \<Rightarrow> pixel" where
  "palette_write w pal =
     (let (wr, address, data) = w
      in if wr then pal(address := \<lparr>px_a = 0xFF, px_b = expand_dac_color (ucast (data AND 0x3F)),
           px_g = expand_dac_color (ucast (drop_bit 6 data AND 0x3F)), px_r = expand_dac_color (ucast (drop_bit 12 data AND 0x3F))\<rparr>)
         else pal)"

text \<open>What a rising edge does to the harness's memories.\<close>

definition sample_memories :: "'r loop_config \<Rightarrow> 'c core_model \<Rightarrow> u64 \<Rightarrow> ('c, 'r) rig \<Rightarrow> ('c, 'r) rig" where
  "sample_memories cf C cycle r =
     (let (valid, address, strobe, data) = out_zsst_write C (rig_core r)
      in r\<lparr>rig_zsst := zsst_mem_write valid address strobe data (rig_zsst r),
           rig_flat := flatline_sample (cf_arm_flatline cf) (cf_flatline_window cf) cycle (out_sb_left C (rig_core r)) (rig_flat r),
           rig_ddr := ddr_posedge (rig_ddr r),
           rig_palette := palette_write (out_palette C (rig_core r)) (rig_palette r)\<rparr>)"

text \<open>\<open>step\<close>: half a period of the system clock.\<close>

definition sim_step :: "'r loop_config \<Rightarrow> 'c core_model \<Rightarrow> u64 \<Rightarrow> ('c, 'r) rig \<Rightarrow> ('c, 'r) rig" where
  "sim_step cf C cycle r =
     (let posedge = (\<not> pin_clk_sys (rig_pins r));
          r = (if posedge then r\<lparr>rig_ddr := ddr_latch (out_ddr C (rig_core r)) (rig_ddr r)\<rparr> else r);
          d = rig_ddr r;
          r = drive C ((rig_pins r)\<lparr>pin_ddram_busy := ddram_busy_now d, pin_dout_ready := ddram_resp_valid d,
                pin_dout := ddram_resp_data d, pin_clk_sys := posedge\<rparr>) r;
          a = rig_audio r;
          r = r\<lparr>rig_audio := (if cf_no_audio_clock cf then a else a\<lparr>clock_accum := clock_accum a + 2 * AUDIO_CLOCK_HZ\<rparr>)\<rparr>;
          r = audio_halves (cf_record cf) (cf_sys_clock cf) C r;
          r = (if posedge then sample_memories cf C cycle r else r)
      in r\<lparr>sim_time := sim_time r + 1\<rparr>)"

section \<open>A cycle of the loop\<close>

text \<open>Before a rising edge: the PS/2 devices are polled, and the co-simulation looks at the core.\<close>

definition kbd_pins :: "ps2_kbd \<Rightarrow> u8 option \<Rightarrow> pins \<Rightarrow> pins" where
  "kbd_pins k b p = (case b of None \<Rightarrow> p\<lparr>pin_kbd_clear := k_host_clear k, pin_kbd_valid := False\<rparr>
     | Some x \<Rightarrow> p\<lparr>pin_kbd_clear := k_host_clear k, pin_kbd_data := x, pin_kbd_valid := True\<rparr>)"

definition mouse_pins :: "u8 option \<Rightarrow> pins \<Rightarrow> pins" where
  "mouse_pins b p = (case b of None \<Rightarrow> p\<lparr>pin_mouse_valid := False\<rparr> | Some x \<Rightarrow> p\<lparr>pin_mouse_data := x, pin_mouse_valid := True\<rparr>)"

definition pre_edge :: "'r loop_config \<Rightarrow> 'c core_model \<Rightarrow> u64 \<Rightarrow> ('c, 'r) rig \<Rightarrow> ('c, 'r) rig" where
  "pre_edge cf C cycle r =
     (if pin_clk_sys (rig_pins r) then r
      else
        (let (b, k) = keyboard_send_pre cycle (rig_kbd r); (b', m) = mouse_send_pre cycle (rig_mouse r);
             r = r\<lparr>rig_pins := mouse_pins b' (kbd_pins (rig_kbd r) b (rig_pins r)), rig_kbd := k, rig_mouse := m\<rparr>
         in if cf_cosim_on cf then
              (case cosim_host_cycle (cf_x87 cf) (cf_ref cf) (out_cosim C (rig_core r)) (sim_time r) (rig_host r) of
                 (ok, h) \<Rightarrow> r\<lparr>rig_host := h, rig_running := rig_running r \<and> ok\<rparr>)
            else r))"

text \<open>After it: the keyboard's host port and the picture. \<open>None\<close> stands for a pixel outside its buffer.\<close>

definition post_edge :: "'r loop_config \<Rightarrow> 'c core_model \<Rightarrow> u64 \<Rightarrow> ('c, 'r) rig \<Rightarrow> ('c, 'r) rig option" where
  "post_edge cf C cycle r =
     (let posedge = pin_clk_sys (rig_pins r); c = rig_core r;
          r = r\<lparr>rig_kbd := keyboard_observe_post posedge (out_kbd_host C c) (rig_kbd r),
                rig_pins := (if posedge then (rig_pins r)\<lparr>pin_kbd_valid := False\<rparr> else rig_pins r)\<rparr>
      in if \<not> posedge then Some r
         else map_option (\<lambda>v. r\<lparr>rig_raster := v\<rparr>)
                (consume_video (cf_fb_1555 cf) (cf_fb_bgr cf) (out_zsst C c) (rig_zsst r) (out_fb C c) (rig_palette r)
                   (map (fb_mem (rig_ddr r)) [0..<FB_MEM_SIZE]) (out_video C c) cycle (rig_raster r)))"

definition half_cycle :: "'r loop_config \<Rightarrow> 'c core_model \<Rightarrow> u64 \<Rightarrow> ('c, 'r) rig \<Rightarrow> ('c, 'r) rig option" where
  "half_cycle cf C cycle r = post_edge cf C cycle (sim_step cf C cycle (pre_edge cf C cycle r))"

text \<open>The start of a cycle: the speed events, the soft reset, and the round of the drives on their bus.\<close>

definition see_bus :: "'c core_model \<Rightarrow> 'c \<Rightarrow> mgmt_bus \<Rightarrow> mgmt_bus" where
  "see_bus C c tb = (let (rd, a, b, f) = out_mgmt C c
     in tb\<lparr>mgmt_readdata := rd, ide0_request := a, ide1_request := b, fdd_request := f\<rparr>)"

definition cycle_start :: "'c core_model \<Rightarrow> u64 \<Rightarrow> ('c, 'r) rig \<Rightarrow> ('c, 'r) rig option" where
  "cycle_start C cycle r =
     (let p = rig_pins r; (evs, st) = speed_events cycle (rig_speed r) (pin_status p); (reset, n) = soft_reset_cycle (rig_soft_reset r)
      in map_option (\<lambda>(wj, devs, tb). r\<lparr>rig_pins := p\<lparr>pin_status := st, pin_soft_reset := reset, pin_bus := tb\<rparr>,
             rig_speed := evs, rig_soft_reset := n, rig_globals := wj, rig_devs := devs\<rparr>)
           (bus_round (rig_globals r) (rig_devs r) (see_bus C (rig_core r) (pin_bus p))))"

definition main_cycle :: "'r loop_config \<Rightarrow> 'c core_model \<Rightarrow> u64 \<Rightarrow> ('c, 'r) rig \<Rightarrow> ('c, 'r) rig option" where
  "main_cycle cf C cycle r =
     Option.bind (cycle_start C cycle r) (\<lambda>r. Option.bind (half_cycle cf C cycle r) (half_cycle cf C cycle))"

function main_loop :: "'r loop_config \<Rightarrow> 'c core_model \<Rightarrow> nat \<Rightarrow> nat \<Rightarrow> ('c, 'r) rig \<Rightarrow> ('c, 'r) rig option" where
  "main_loop cf C max_cycles cycle r =
     (if cycle < max_cycles \<and> rig_running r \<and> (force_stop_cycle (rig_flat r) = 0 \<or> of_nat cycle < force_stop_cycle (rig_flat r))
      then Option.bind (main_cycle cf C (of_nat cycle) r) (main_loop cf C max_cycles (Suc cycle))
      else Some r)"
  by auto
termination
  by (relation "measure (\<lambda>(_, _, max_cycles, cycle, _). max_cycles - cycle)") auto

declare main_loop.simps [simp del]

section \<open>What an evaluation leaves alone\<close>

text \<open>The state of the harness the evaluations of the core and the audio clock do not touch.\<close>

definition harness :: "('c, 'r) rig \<Rightarrow> ('c, 'r) rig \<Rightarrow> bool" where
  "harness r r' \<longleftrightarrow> rig_kbd r' = rig_kbd r \<and> rig_mouse r' = rig_mouse r \<and> rig_raster r' = rig_raster r \<and>
     rig_host r' = rig_host r \<and> rig_devs r' = rig_devs r \<and> rig_globals r' = rig_globals r \<and> rig_running r' = rig_running r \<and>
     rig_soft_reset r' = rig_soft_reset r \<and> rig_speed r' = rig_speed r \<and>
     (\<exists>a. (rig_pins r')\<lparr>pin_clk_audio := a\<rparr> = (rig_pins r)\<lparr>pin_clk_audio := a\<rparr>)"

lemma harness_refl [simp]: "harness r r"
  by (simp add: harness_def)

lemma pins_audio:
  "(p\<lparr>pin_clk_audio := a\<rparr> = q\<lparr>pin_clk_audio := a\<rparr>) = (\<exists>b. p = q\<lparr>pin_clk_audio := b\<rparr>)"
proof
  assume "p\<lparr>pin_clk_audio := a\<rparr> = q\<lparr>pin_clk_audio := a\<rparr>"
  then have "p = q\<lparr>pin_clk_audio := pin_clk_audio p\<rparr>"
    by (cases p, cases q) simp
  then show "\<exists>b. p = q\<lparr>pin_clk_audio := b\<rparr>" ..
qed auto

lemma harness_trans: "harness r s \<Longrightarrow> harness s t \<Longrightarrow> harness r t"
  by (auto simp: harness_def pins_audio)

lemma audio_half_frame:
  "harness r (audio_half recording sys C r)" "rig_ddr (audio_half recording sys C r) = rig_ddr r"
  "sim_time (audio_half recording sys C r) = sim_time r"
  by (simp_all add: harness_def audio_half_def drive_def Let_def pins_audio)

lemma audio_halves_frame:
  "harness r (audio_halves recording sys C r) \<and> rig_ddr (audio_halves recording sys C r) = rig_ddr r \<and>
   sim_time (audio_halves recording sys C r) = sim_time r"
proof (induction recording sys C r rule: audio_halves.induct)
  case (1 recording sys C r)
  then show ?case
    using audio_half_frame [where r = r and recording = recording and sys = sys and C = C] harness_trans by (subst (1 2 3) audio_halves.simps) auto
qed

lemma sample_memories_frame:
  "harness r (sample_memories cf C cycle r)" "rig_ddr (sample_memories cf C cycle r) = ddr_posedge (rig_ddr r)"
  "sim_time (sample_memories cf C cycle r) = sim_time r"
  by (simp_all add: harness_def sample_memories_def split_beta Let_def)

text \<open>A half period: the clock has changed, a rising edge is a cycle of the DDR slave, and the rest is left alone.\<close>

lemma sim_step_spec:
  fixes cf :: "'r loop_config" and C :: "'c core_model" and cycle :: u64 and r :: "('c, 'r) rig"
  defines "r' \<equiv> sim_step cf C cycle r"
  shows "rig_kbd r' = rig_kbd r" "rig_mouse r' = rig_mouse r" "rig_raster r' = rig_raster r" "rig_host r' = rig_host r"
    "rig_devs r' = rig_devs r" "rig_globals r' = rig_globals r" "rig_running r' = rig_running r"
    "rig_soft_reset r' = rig_soft_reset r" "rig_speed r' = rig_speed r" "sim_time r' = sim_time r + 1"
    "rig_ddr r' = (if pin_clk_sys (rig_pins r) then rig_ddr r else ddr_cycle (out_ddr C (rig_core r)) (rig_ddr r))"
    "pin_clk_sys (rig_pins r') \<longleftrightarrow> \<not> pin_clk_sys (rig_pins r)"
    "pin_bus (rig_pins r') = pin_bus (rig_pins r)" "pin_status (rig_pins r') = pin_status (rig_pins r)"
    "pin_soft_reset (rig_pins r') = pin_soft_reset (rig_pins r)"
proof -
  define up where "up = (\<not> pin_clk_sys (rig_pins r))"
  define r1 where "r1 = (if up then r\<lparr>rig_ddr := ddr_latch (out_ddr C (rig_core r)) (rig_ddr r)\<rparr> else r)"
  define p where "p = (rig_pins r1)\<lparr>pin_ddram_busy := ddram_busy_now (rig_ddr r1), pin_dout_ready := ddram_resp_valid (rig_ddr r1),
      pin_dout := ddram_resp_data (rig_ddr r1), pin_clk_sys := up\<rparr>"
  define r2 where "r2 = drive C p r1"
  define r3 where "r3 = r2\<lparr>rig_audio := (if cf_no_audio_clock cf then rig_audio r2
      else (rig_audio r2)\<lparr>clock_accum := clock_accum (rig_audio r2) + 2 * AUDIO_CLOCK_HZ\<rparr>)\<rparr>"
  define r4 where "r4 = audio_halves (cf_record cf) (cf_sys_clock cf) C r3"
  define r5 where "r5 = (if up then sample_memories cf C cycle r4 else r4)"
  have r': "r' = r5\<lparr>sim_time := sim_time r5 + 1\<rparr>"
    by (simp add: r'_def sim_step_def up_def r1_def p_def r2_def r3_def r4_def r5_def Let_def)
  have h: "harness r3 r5" "sim_time r5 = sim_time r3" "rig_ddr r5 = (if up then ddr_posedge (rig_ddr r3) else rig_ddr r3)"
    using audio_halves_frame [where r = r3 and recording = "cf_record cf" and sys = "cf_sys_clock cf" and C = C] harness_trans [of r3 r4 r5]
    by (auto simp: r5_def r4_def sample_memories_frame)
  have r3: "rig_pins r3 = p" "rig_ddr r3 = rig_ddr r1" "sim_time r3 = sim_time r" "rig_kbd r3 = rig_kbd r" "rig_mouse r3 = rig_mouse r"
      "rig_raster r3 = rig_raster r" "rig_host r3 = rig_host r" "rig_devs r3 = rig_devs r" "rig_globals r3 = rig_globals r"
      "rig_running r3 = rig_running r" "rig_soft_reset r3 = rig_soft_reset r" "rig_speed r3 = rig_speed r"
    by (simp_all add: r3_def r2_def drive_def r1_def)
  obtain a where a: "rig_pins r5 = p\<lparr>pin_clk_audio := a\<rparr>"
    using h(1) r3(1) by (auto simp: harness_def pins_audio)
  show "rig_kbd r' = rig_kbd r" "rig_mouse r' = rig_mouse r" "rig_raster r' = rig_raster r" "rig_host r' = rig_host r"
    "rig_devs r' = rig_devs r" "rig_globals r' = rig_globals r" "rig_running r' = rig_running r"
    "rig_soft_reset r' = rig_soft_reset r" "rig_speed r' = rig_speed r" "sim_time r' = sim_time r + 1"
    using h r3 by (simp_all add: r' harness_def)
  show "rig_ddr r' = (if pin_clk_sys (rig_pins r) then rig_ddr r else ddr_cycle (out_ddr C (rig_core r)) (rig_ddr r))"
    using h(3) r3(2) by (simp add: r' r1_def up_def ddr_cycle_def)
  show "pin_clk_sys (rig_pins r') \<longleftrightarrow> \<not> pin_clk_sys (rig_pins r)" "pin_bus (rig_pins r') = pin_bus (rig_pins r)"
    "pin_status (rig_pins r') = pin_status (rig_pins r)" "pin_soft_reset (rig_pins r') = pin_soft_reset (rig_pins r)"
    by (simp_all add: r' a p_def r1_def up_def)
qed

section \<open>The two halves of a cycle\<close>

text \<open>What the polls before a rising edge leave of the state.\<close>

definition polled_kbd :: "u64 \<Rightarrow> ('c, 'r) rig \<Rightarrow> ps2_kbd" where
  "polled_kbd cycle r = snd (keyboard_send_pre cycle (rig_kbd r))"

definition cosim_verdict :: "'r loop_config \<Rightarrow> 'c core_model \<Rightarrow> ('c, 'r) rig \<Rightarrow> bool \<times> 'r cosim_host" where
  "cosim_verdict cf C r =
     (if cf_cosim_on cf then cosim_host_cycle (cf_x87 cf) (cf_ref cf) (out_cosim C (rig_core r)) (sim_time r) (rig_host r)
      else (True, rig_host r))"

lemma kbd_pins_simps [simp]:
  "pin_clk_sys (kbd_pins k b p) = pin_clk_sys p" "pin_bus (kbd_pins k b p) = pin_bus p" "pin_status (kbd_pins k b p) = pin_status p"
  "pin_soft_reset (kbd_pins k b p) = pin_soft_reset p"
  "pin_clk_sys (mouse_pins b p) = pin_clk_sys p" "pin_bus (mouse_pins b p) = pin_bus p" "pin_status (mouse_pins b p) = pin_status p"
  "pin_soft_reset (mouse_pins b p) = pin_soft_reset p"
  by (cases b; simp add: kbd_pins_def mouse_pins_def)+

lemma pre_edge_spec:
  assumes "\<not> pin_clk_sys (rig_pins r)"
  shows "pre_edge cf C cycle r = r\<lparr>rig_kbd := polled_kbd cycle r, rig_mouse := snd (mouse_send_pre cycle (rig_mouse r)),
      rig_pins := mouse_pins (fst (mouse_send_pre cycle (rig_mouse r)))
        (kbd_pins (rig_kbd r) (fst (keyboard_send_pre cycle (rig_kbd r))) (rig_pins r)),
      rig_host := snd (cosim_verdict cf C r), rig_running := rig_running r \<and> fst (cosim_verdict cf C r)\<rparr>"
  using assms by (simp add: pre_edge_def polled_kbd_def cosim_verdict_def split_beta Let_def)

text \<open>The half cycle with the rising edge.\<close>

lemma rising_half:
  fixes r :: "('c, 'r) rig"
  assumes "\<not> pin_clk_sys (rig_pins r)" and "raster_inv (rig_raster r)"
  obtains r1 :: "('c, 'r) rig" where "half_cycle cf C cycle r = Some r1"
    and "rig_kbd r1 = keyboard_observe_post True (out_kbd_host C (rig_core r1)) (polled_kbd cycle r)"
    and "rig_mouse r1 = snd (mouse_send_pre cycle (rig_mouse r))"
    and "rig_ddr r1 = ddr_cycle (out_ddr C (rig_core r)) (rig_ddr r)"
    and "rig_host r1 = snd (cosim_verdict cf C r)" and "rig_running r1 \<longleftrightarrow> rig_running r \<and> fst (cosim_verdict cf C r)"
    and "pin_clk_sys (rig_pins r1)" and "\<not> pin_kbd_valid (rig_pins r1)" and "pin_bus (rig_pins r1) = pin_bus (rig_pins r)"
    and "raster_inv (rig_raster r1)" and "rig_devs r1 = rig_devs r" and "rig_globals r1 = rig_globals r"
    and "sim_time r1 = sim_time r + 1" and "rig_speed r1 = rig_speed r" and "rig_soft_reset r1 = rig_soft_reset r"
    and "pin_status (rig_pins r1) = pin_status (rig_pins r)" and "pin_soft_reset (rig_pins r1) = pin_soft_reset (rig_pins r)"
    and "rig_core r1 = rig_core (sim_step cf C cycle (pre_edge cf C cycle r))"
proof -
  define s where "s = sim_step cf C cycle (pre_edge cf C cycle r)"
  note spec = sim_step_spec [of cf C cycle "pre_edge cf C cycle r", folded s_def, unfolded pre_edge_spec [OF assms(1)], simplified]
  obtain v where v: "consume_video (cf_fb_1555 cf) (cf_fb_bgr cf) (out_zsst C (rig_core s)) (rig_zsst s) (out_fb C (rig_core s)) (rig_palette s)
      (map (fb_mem (rig_ddr s)) [0..<FB_MEM_SIZE]) (out_video C (rig_core s)) cycle (rig_raster s) = Some v" "raster_inv v"
    using consume_video_inv [of "rig_raster s"] spec(3) assms(2) by metis
  define r1 where "r1 = s\<lparr>rig_kbd := keyboard_observe_post True (out_kbd_host C (rig_core s)) (rig_kbd s),
      rig_pins := (rig_pins s)\<lparr>pin_kbd_valid := False\<rparr>, rig_raster := v\<rparr>"
  have "half_cycle cf C cycle r = Some r1"
    using v(1) spec(12) assms(1) by (simp add: half_cycle_def s_def [symmetric] post_edge_def Let_def r1_def)
  then show ?thesis
    using spec v(2) assms(1) by (intro that [of r1]) (simp_all add: r1_def s_def)
qed

text \<open>The other half: nothing of the harness but the clocks moves.\<close>

lemma falling_half:
  fixes r :: "('c, 'r) rig"
  assumes "pin_clk_sys (rig_pins r)"
  obtains r1 :: "('c, 'r) rig" where "half_cycle cf C cycle r = Some r1" and "rig_kbd r1 = rig_kbd r" and "rig_mouse r1 = rig_mouse r"
    and "rig_ddr r1 = rig_ddr r" and "rig_host r1 = rig_host r" and "rig_running r1 = rig_running r"
    and "\<not> pin_clk_sys (rig_pins r1)" and "pin_bus (rig_pins r1) = pin_bus (rig_pins r)"
    and "rig_raster r1 = rig_raster r" and "rig_devs r1 = rig_devs r" and "rig_globals r1 = rig_globals r"
    and "sim_time r1 = sim_time r + 1" and "rig_speed r1 = rig_speed r" and "rig_soft_reset r1 = rig_soft_reset r"
    and "pin_status (rig_pins r1) = pin_status (rig_pins r)" and "pin_soft_reset (rig_pins r1) = pin_soft_reset (rig_pins r)"
    and "rig_core r1 = rig_core (sim_step cf C cycle r)"
proof -
  note spec = sim_step_spec [of cf C cycle r]
  have "half_cycle cf C cycle r = Some (sim_step cf C cycle r)"
    using assms spec(12) by (simp add: half_cycle_def pre_edge_def post_edge_def Let_def keyboard_observe_post_def)
  then show ?thesis
    using spec assms by (intro that [of "sim_step cf C cycle r"]) simp_all
qed

text \<open>The start of a cycle is defined and leaves everything but the drives, the schedules and three pins alone.\<close>

lemma cycle_start_spec:
  fixes r :: "('c, 'r) rig"
  assumes "devices_inv (rig_devs r)"
  obtains wj devs tb where "bus_round (rig_globals r) (rig_devs r) (see_bus C (rig_core r) (pin_bus (rig_pins r))) = Some (wj, devs, tb)"
    and "devices_inv devs" and "bus_ok (pin_bus (rig_pins r)) \<longrightarrow> bus_ok tb"
    and "cycle_start C cycle r = Some (r\<lparr>rig_pins := (rig_pins r)\<lparr>pin_status := snd (speed_events cycle (rig_speed r) (pin_status (rig_pins r))),
        pin_soft_reset := 0 < rig_soft_reset r, pin_bus := tb\<rparr>,
      rig_speed := fst (speed_events cycle (rig_speed r) (pin_status (rig_pins r))),
      rig_soft_reset := (if 0 < rig_soft_reset r then rig_soft_reset r - 1 else rig_soft_reset r), rig_globals := wj, rig_devs := devs\<rparr>)"
proof -
  obtain wj devs tb where t: "bus_round (rig_globals r) (rig_devs r) (see_bus C (rig_core r) (pin_bus (rig_pins r))) = Some (wj, devs, tb)"
      "devices_inv devs" "bus_frame (see_bus C (rig_core r) (pin_bus (rig_pins r))) tb"
    using loop_dev.step_total [OF assms] by blast
  show ?thesis
  proof (rule that [OF t(1,2)])
    show "bus_ok (pin_bus (rig_pins r)) \<longrightarrow> bus_ok tb"
      using t(3) by (simp add: bus_frame_def see_bus_def split_beta bus_ok_def Let_def)
    show "cycle_start C cycle r = Some (r\<lparr>rig_pins := (rig_pins r)\<lparr>pin_status := snd (speed_events cycle (rig_speed r) (pin_status (rig_pins r))),
        pin_soft_reset := 0 < rig_soft_reset r, pin_bus := tb\<rparr>,
      rig_speed := fst (speed_events cycle (rig_speed r) (pin_status (rig_pins r))),
      rig_soft_reset := (if 0 < rig_soft_reset r then rig_soft_reset r - 1 else rig_soft_reset r), rig_globals := wj, rig_devs := devs\<rparr>)"
      by (simp add: cycle_start_def t(1) soft_reset_cycle_def split_beta Let_def)
  qed
qed

section \<open>A cycle as a whole\<close>

text \<open>The invariant of the loop between two cycles.\<close>

definition rig_ok :: "('c, 'r) rig \<Rightarrow> bool" where
  "rig_ok r \<longleftrightarrow> \<not> pin_clk_sys (rig_pins r) \<and> bus_ok (pin_bus (rig_pins r)) \<and> devices_inv (rig_devs r) \<and>
     kbd_inv (rig_kbd r) \<and> raster_inv (rig_raster r)"

lemma send_keeps_inv: "kbd_inv k \<Longrightarrow> kbd_inv (snd (keyboard_send_pre cycle k))"
  by (auto simp: kbd_inv_def keyboard_send_pre_def Let_def split_beta)

lemma cycle_spec:
  fixes r :: "('c, 'r) rig"
  assumes "rig_ok r"
  shows "\<exists>r' c. main_cycle cf C cycle r = Some r' \<and> rig_ok r' \<and> sim_time r' = sim_time r + 2 \<and>
    Some (rig_globals r', rig_devs r', pin_bus (rig_pins r')) =
      bus_round (rig_globals r) (rig_devs r) (see_bus C (rig_core r) (pin_bus (rig_pins r))) \<and>
    rig_kbd r' = keyboard_observe_post True (out_kbd_host C c) (snd (keyboard_send_pre cycle (rig_kbd r))) \<and>
    rig_mouse r' = snd (mouse_send_pre cycle (rig_mouse r)) \<and>
    rig_ddr r' = ddr_cycle (out_ddr C (rig_core r)) (rig_ddr r) \<and>
    rig_host r' = snd (cosim_verdict cf C r) \<and> (rig_running r' \<longleftrightarrow> rig_running r \<and> fst (cosim_verdict cf C r)) \<and>
    (rig_speed r', pin_status (rig_pins r')) = speed_events cycle (rig_speed r) (pin_status (rig_pins r)) \<and>
    (pin_soft_reset (rig_pins r'), rig_soft_reset r') = soft_reset_cycle (rig_soft_reset r)"
proof -
  have dv: "devices_inv (rig_devs r)"
    using assms by (simp add: rig_ok_def)
  obtain wj devs tb where start: "bus_round (rig_globals r) (rig_devs r) (see_bus C (rig_core r) (pin_bus (rig_pins r))) = Some (wj, devs, tb)"
      "devices_inv devs" "bus_ok (pin_bus (rig_pins r)) \<longrightarrow> bus_ok tb"
      "cycle_start C cycle r = Some (r\<lparr>rig_pins := (rig_pins r)\<lparr>pin_status := snd (speed_events cycle (rig_speed r) (pin_status (rig_pins r))),
        pin_soft_reset := 0 < rig_soft_reset r, pin_bus := tb\<rparr>,
      rig_speed := fst (speed_events cycle (rig_speed r) (pin_status (rig_pins r))),
      rig_soft_reset := (if 0 < rig_soft_reset r then rig_soft_reset r - 1 else rig_soft_reset r), rig_globals := wj, rig_devs := devs\<rparr>)"
    by (rule cycle_start_spec [OF dv])
  define r0 where "r0 = the (cycle_start C cycle r)"
  have r0: "cycle_start C cycle r = Some r0" "\<not> pin_clk_sys (rig_pins r0)" "raster_inv (rig_raster r0)" "rig_kbd r0 = rig_kbd r"
      "rig_mouse r0 = rig_mouse r" "rig_ddr r0 = rig_ddr r" "rig_core r0 = rig_core r" "sim_time r0 = sim_time r" "rig_running r0 = rig_running r"
      "rig_devs r0 = devs" "rig_globals r0 = wj" "pin_bus (rig_pins r0) = tb" "cosim_verdict cf C r0 = cosim_verdict cf C r"
      "(rig_speed r0, pin_status (rig_pins r0)) = speed_events cycle (rig_speed r) (pin_status (rig_pins r))"
      "(pin_soft_reset (rig_pins r0), rig_soft_reset r0) = soft_reset_cycle (rig_soft_reset r)"
    using assms by (simp_all add: r0_def start(4) rig_ok_def cosim_verdict_def soft_reset_cycle_def)
  obtain r1 where r1: "half_cycle cf C cycle r0 = Some r1"
      "rig_kbd r1 = keyboard_observe_post True (out_kbd_host C (rig_core r1)) (polled_kbd cycle r0)"
      "rig_mouse r1 = snd (mouse_send_pre cycle (rig_mouse r0))" "rig_ddr r1 = ddr_cycle (out_ddr C (rig_core r0)) (rig_ddr r0)"
      "rig_host r1 = snd (cosim_verdict cf C r0)" "rig_running r1 \<longleftrightarrow> rig_running r0 \<and> fst (cosim_verdict cf C r0)"
      "pin_clk_sys (rig_pins r1)" "pin_bus (rig_pins r1) = pin_bus (rig_pins r0)" "raster_inv (rig_raster r1)" "rig_devs r1 = rig_devs r0"
      "rig_globals r1 = rig_globals r0" "sim_time r1 = sim_time r0 + 1" "rig_speed r1 = rig_speed r0" "rig_soft_reset r1 = rig_soft_reset r0"
      "pin_status (rig_pins r1) = pin_status (rig_pins r0)" "pin_soft_reset (rig_pins r1) = pin_soft_reset (rig_pins r0)"
    using rising_half [OF r0(2,3), of cf C cycle] by metis
  obtain r2 where r2: "half_cycle cf C cycle r1 = Some r2" "rig_kbd r2 = rig_kbd r1" "rig_mouse r2 = rig_mouse r1" "rig_ddr r2 = rig_ddr r1"
      "rig_host r2 = rig_host r1" "rig_running r2 = rig_running r1" "\<not> pin_clk_sys (rig_pins r2)" "pin_bus (rig_pins r2) = pin_bus (rig_pins r1)"
      "rig_raster r2 = rig_raster r1" "rig_devs r2 = rig_devs r1" "rig_globals r2 = rig_globals r1" "sim_time r2 = sim_time r1 + 1"
      "rig_speed r2 = rig_speed r1" "rig_soft_reset r2 = rig_soft_reset r1" "pin_status (rig_pins r2) = pin_status (rig_pins r1)"
      "pin_soft_reset (rig_pins r2) = pin_soft_reset (rig_pins r1)"
    using falling_half [OF r1(7), of cf C cycle] by metis
  have k: "kbd_inv (rig_kbd r2)"
    using keyboard_always_replies [OF send_keeps_inv] assms by (simp add: r2 r1 polled_kbd_def r0 rig_ok_def)
  have "main_cycle cf C cycle r = Some r2"
    using r0(1) r1(1) r2(1) by (simp add: main_cycle_def)
  moreover have "rig_ok r2"
    using assms k start(2,3) by (simp add: rig_ok_def r2 r1 r0)
  ultimately show ?thesis
    by (intro exI [of _ r2] exI [of _ "rig_core r1"]) (simp add: r2 r1 r0 start(1) polled_kbd_def)
qed

section \<open>The loop\<close>

lemma loop_spec:
  fixes r :: "('c, 'r) rig"
  assumes "rig_ok r"
  shows "\<exists>r' n. main_loop cf C max_cycles cycle r = Some r' \<and> rig_ok r' \<and> sim_time r' = sim_time r + 2 * of_nat n \<and>
    cycle + n \<le> max cycle max_cycles \<and>
    (cycle + n < max_cycles \<longrightarrow> \<not> rig_running r' \<or>
       force_stop_cycle (rig_flat r') \<noteq> 0 \<and> force_stop_cycle (rig_flat r') \<le> of_nat (cycle + n))"
  using assms
proof (induction cf C max_cycles cycle r rule: main_loop.induct)
  case (1 cf C max_cycles cycle r)
  let ?go = "cycle < max_cycles \<and> rig_running r \<and> (force_stop_cycle (rig_flat r) = 0 \<or> of_nat cycle < force_stop_cycle (rig_flat r))"
  show ?case
  proof (cases ?go)
    case True
    obtain s where s: "main_cycle cf C (of_nat cycle) r = Some s" "rig_ok s" "sim_time s = sim_time r + 2"
      using cycle_spec [OF 1(2), of cf C "of_nat cycle"] by blast
    obtain r' n where n: "main_loop cf C max_cycles (Suc cycle) s = Some r'" "rig_ok r'" "sim_time r' = sim_time s + 2 * of_nat n"
        "Suc cycle + n \<le> max (Suc cycle) max_cycles"
        "Suc cycle + n < max_cycles \<longrightarrow> \<not> rig_running r' \<or>
           force_stop_cycle (rig_flat r') \<noteq> 0 \<and> force_stop_cycle (rig_flat r') \<le> of_nat (Suc cycle + n)"
      using 1(1) [OF True s(1,2)] by blast
    have "main_loop cf C max_cycles cycle r = Some r'"
      using True s(1) n(1) by (subst main_loop.simps) simp
    then show ?thesis
      using n s(3) True by (intro exI [of _ r'] exI [of _ "Suc n"]) (simp add: algebra_simps)
  next
    case False
    then have "main_loop cf C max_cycles cycle r = Some r"
      by (subst main_loop.simps) auto
    then show ?thesis
      using False 1(2) by (intro exI [of _ r] exI [of _ 0]) auto
  qed
qed

section \<open>What the core is shown\<close>

text \<open>The core together with a record of its input pins at every rising edge of the system clock.\<close>

definition recording :: "'c core_model \<Rightarrow> ('c \<times> bool \<times> pins list) core_model" where
  "recording C = \<lparr>eval_core = (\<lambda>p (c, up, log). (eval_core C p c, pin_clk_sys p, if pin_clk_sys p \<and> \<not> up then log @ [p] else log)),
     out_mgmt = out_mgmt C \<circ> fst, out_ddr = out_ddr C \<circ> fst, out_kbd_host = out_kbd_host C \<circ> fst, out_video = out_video C \<circ> fst,
     out_fb = out_fb C \<circ> fst, out_zsst = out_zsst C \<circ> fst, out_zsst_write = out_zsst_write C \<circ> fst,
     out_palette = out_palette C \<circ> fst, out_audio = out_audio C \<circ> fst, out_sb_left = out_sb_left C \<circ> fst, out_cosim = out_cosim C \<circ> fst\<rparr>"

definition kbd_byte :: "pins \<Rightarrow> u8 option" where
  "kbd_byte p = (if pin_kbd_valid p then Some (pin_kbd_data p) else None)"

definition mouse_byte :: "pins \<Rightarrow> u8 option" where
  "mouse_byte p = (if pin_mouse_valid p then Some (pin_mouse_data p) else None)"

lemma bytes_polled:
  "kbd_byte (mouse_pins b' (kbd_pins k b p)) = b" "mouse_byte (mouse_pins b' q) = b'"
  by (cases b; cases b'; simp add: kbd_byte_def mouse_byte_def kbd_pins_def mouse_pins_def)+

lemma eval_recording:
  "eval_core (recording C) p (c, up, log) = (eval_core C p c, pin_clk_sys p, if pin_clk_sys p \<and> \<not> up then log @ [p] else log)"
  by (simp add: recording_def)

lemma audio_halves_recording:
  assumes "rig_core r = (c, pin_clk_sys (rig_pins r), log)"
  shows "\<exists>c'. rig_core (audio_halves w sys (recording C) r) = (c', pin_clk_sys (rig_pins r), log)"
  using assms
proof (induction w sys "recording C" r arbitrary: c rule: audio_halves.induct)
  case (1 w sys r)
  show ?case
  proof (cases "0 < sys \<and> 2 * sys \<le> clock_accum (rig_audio r)")
    case True
    let ?s = "audio_half w sys (recording C) r"
    have s: "rig_core ?s = (eval_core C (rig_pins ?s) c, pin_clk_sys (rig_pins ?s), log)" "pin_clk_sys (rig_pins ?s) = pin_clk_sys (rig_pins r)"
      using 1(2) by (simp_all add: audio_half_def drive_def Let_def eval_recording)
    show ?thesis
      using 1(1) [OF True s(1)] True s(2) by (subst audio_halves.simps) simp
  next
    case False
    have "audio_halves w sys (recording C) r = r"
      by (subst audio_halves.simps) (rule if_not_P [OF False])
    then show ?thesis
      using 1(2) by simp
  qed
qed

lemma sim_step_core:
  fixes r :: "('c, 'r) rig"
  shows "\<exists>s :: ('c, 'r) rig. rig_core (sim_step cf C cycle r) = rig_core (audio_halves (cf_record cf) (cf_sys_clock cf) C s) \<and>
     rig_core s = eval_core C (rig_pins s) (rig_core r) \<and> pin_clk_sys (rig_pins s) = (\<not> pin_clk_sys (rig_pins r)) \<and>
     kbd_byte (rig_pins s) = kbd_byte (rig_pins r) \<and> mouse_byte (rig_pins s) = mouse_byte (rig_pins r)"
proof -
  define up where "up = (\<not> pin_clk_sys (rig_pins r))"
  define r1 where "r1 = (if up then r\<lparr>rig_ddr := ddr_latch (out_ddr C (rig_core r)) (rig_ddr r)\<rparr> else r)"
  define p where "p = (rig_pins r1)\<lparr>pin_ddram_busy := ddram_busy_now (rig_ddr r1), pin_dout_ready := ddram_resp_valid (rig_ddr r1),
      pin_dout := ddram_resp_data (rig_ddr r1), pin_clk_sys := up\<rparr>"
  define r3 where "r3 = (drive C p r1)\<lparr>rig_audio := (if cf_no_audio_clock cf then rig_audio (drive C p r1)
      else (rig_audio (drive C p r1))\<lparr>clock_accum := clock_accum (rig_audio (drive C p r1)) + 2 * AUDIO_CLOCK_HZ\<rparr>)\<rparr>"
  have "rig_core (sim_step cf C cycle r) = rig_core (audio_halves (cf_record cf) (cf_sys_clock cf) C r3)"
    by (simp add: sim_step_def sample_memories_def split_beta up_def r1_def p_def r3_def Let_def)
  moreover have "rig_core r3 = eval_core C (rig_pins r3) (rig_core r)" "rig_pins r3 = p"
    by (simp_all add: r3_def drive_def r1_def)
  ultimately show ?thesis
    by (intro exI [of _ r3]) (simp add: p_def r1_def up_def kbd_byte_def mouse_byte_def)
qed

text \<open>A half period with a rising edge adds its pins to the record, the other one none.\<close>

lemma recorded_step:
  fixes r :: "('c \<times> bool \<times> pins list, 'r) rig"
  assumes "rig_core r = (c, pin_clk_sys (rig_pins r), log)"
  shows "\<exists>c' ps. rig_core (sim_step cf (recording C) cycle r) = (c', \<not> pin_clk_sys (rig_pins r), log @ ps) \<and>
    (if pin_clk_sys (rig_pins r) then ps = [] else \<exists>p. ps = [p] \<and> kbd_byte p = kbd_byte (rig_pins r) \<and> mouse_byte p = mouse_byte (rig_pins r))"
proof -
  obtain s :: "('c \<times> bool \<times> pins list, 'r) rig" where s: "rig_core (sim_step cf (recording C) cycle r) =
        rig_core (audio_halves (cf_record cf) (cf_sys_clock cf) (recording C) s)"
      "rig_core s = eval_core (recording C) (rig_pins s) (rig_core r)" "pin_clk_sys (rig_pins s) = (\<not> pin_clk_sys (rig_pins r))"
      "kbd_byte (rig_pins s) = kbd_byte (rig_pins r)" "mouse_byte (rig_pins s) = mouse_byte (rig_pins r)"
    using sim_step_core [of cf "recording C" cycle r] by blast
  let ?ps = "if pin_clk_sys (rig_pins r) then [] else [rig_pins s]"
  have "rig_core s = (eval_core C (rig_pins s) c, pin_clk_sys (rig_pins s), log @ ?ps)"
    using s(2,3) assms by (simp add: eval_recording)
  from audio_halves_recording [OF this, of "cf_record cf" "cf_sys_clock cf"]
  obtain c' where "rig_core (sim_step cf (recording C) cycle r) = (c', \<not> pin_clk_sys (rig_pins r), log @ ?ps)"
    using s(1,3) by auto
  then show ?thesis
    using s(4,5) by (intro exI [of _ c'] exI [of _ ?ps]) simp
qed

lemma main_cycle_halves:
  fixes r :: "('c, 'r) rig"
  assumes "rig_ok r" and "main_cycle cf C cycle r = Some r'"
  obtains r0 r1 :: "('c, 'r) rig" where "rig_core r0 = rig_core r" and "rig_kbd r0 = rig_kbd r" and "rig_mouse r0 = rig_mouse r"
    and "\<not> pin_clk_sys (rig_pins r0)" and "raster_inv (rig_raster r0)"
    and "half_cycle cf C cycle r0 = Some r1" and "half_cycle cf C cycle r1 = Some r'"
proof -
  have dv: "devices_inv (rig_devs r)"
    using assms(1) by (simp add: rig_ok_def)
  obtain r0 where r0: "cycle_start C cycle r = Some r0" "rig_core r0 = rig_core r" "rig_kbd r0 = rig_kbd r" "rig_mouse r0 = rig_mouse r"
      "pin_clk_sys (rig_pins r0) = pin_clk_sys (rig_pins r)" "rig_raster r0 = rig_raster r"
    by (rule cycle_start_spec [OF dv, of C cycle]) simp
  obtain r1 where "half_cycle cf C cycle r0 = Some r1" "half_cycle cf C cycle r1 = Some r'"
    using assms(2) r0(1) by (auto simp: main_cycle_def bind_eq_Some_conv)
  then show ?thesis
    using that r0 assms(1) by (auto simp: rig_ok_def)
qed

text \<open>One cycle shows the core exactly the bytes of its two polls, on its one rising edge.\<close>

lemma recorded_cycle:
  fixes r :: "('c \<times> bool \<times> pins list, 'r) rig"
  assumes "rig_ok r" and "rig_core r = (c, False, log)" and "main_cycle cf (recording C) cycle r = Some r'"
  shows "\<exists>c' p. rig_core r' = (c', False, log @ [p]) \<and> kbd_byte p = fst (keyboard_send_pre cycle (rig_kbd r)) \<and>
    mouse_byte p = fst (mouse_send_pre cycle (rig_mouse r))"
proof -
  obtain r0 r1 where r0: "rig_core r0 = rig_core r" "rig_kbd r0 = rig_kbd r" "rig_mouse r0 = rig_mouse r"
      "\<not> pin_clk_sys (rig_pins r0)" "raster_inv (rig_raster r0)"
      "half_cycle cf (recording C) cycle r0 = Some r1" "half_cycle cf (recording C) cycle r1 = Some r'"
    using main_cycle_halves [OF assms(1,3)] by metis
  have up: "pin_clk_sys (rig_pins r1)" "rig_core r1 = rig_core (sim_step cf (recording C) cycle (pre_edge cf (recording C) cycle r0))"
    using rising_half [OF r0(4,5), of cf "recording C" cycle] r0(6) by (metis option.inject)+
  have down: "rig_core r' = rig_core (sim_step cf (recording C) cycle r1)"
    using falling_half [OF up(1), of cf "recording C" cycle] r0(7) by (metis option.inject)
  let ?e = "pre_edge cf (recording C) cycle r0"
  have e: "rig_core ?e = (c, False, log)" "\<not> pin_clk_sys (rig_pins ?e)" "kbd_byte (rig_pins ?e) = fst (keyboard_send_pre cycle (rig_kbd r))"
      "mouse_byte (rig_pins ?e) = fst (mouse_send_pre cycle (rig_mouse r))"
    using assms(2) r0(1-4) by (simp_all add: pre_edge_spec bytes_polled)
  obtain c1 p where p: "rig_core r1 = (c1, True, log @ [p])" "kbd_byte p = kbd_byte (rig_pins ?e)" "mouse_byte p = mouse_byte (rig_pins ?e)"
    using recorded_step [of ?e c log cf C cycle] e(1,2) by (auto simp: up(2))
  obtain c2 where "rig_core r' = (c2, False, log @ [p])"
    using recorded_step [of r1 c1 "log @ [p]" cf C cycle] p(1) up(1) by (auto simp: down)
  then show ?thesis
    using p(2,3) e(3,4) by (intro exI [of _ c2] exI [of _ p]) simp
qed

text \<open>The bytes a list of rising edges shows, with the cycles they belong to.\<close>

fun shown :: "(pins \<Rightarrow> u8 option) \<Rightarrow> nat \<Rightarrow> pins list \<Rightarrow> (u64 \<times> u8) list" where
  "shown byte cycle [] = []"
| "shown byte cycle (p # ps) = (case byte p of None \<Rightarrow> [] | Some x \<Rightarrow> [(of_nat cycle, x)]) @ shown byte (Suc cycle) ps"

lemma cycles_from_Suc: "cycles_from a (Suc n) = of_nat a # cycles_from (Suc a) n"
  by (simp add: cycles_from_def upt_conv_Cons del: upt_Suc)

definition host_silent :: "'c core_model \<Rightarrow> ps2_kbd \<Rightarrow> bool" where
  "host_silent C k \<longleftrightarrow> (\<forall>c. out_kbd_host C c AND 0x100 = 0) \<and> \<not> k_host_busy k"

lemma send_not_busy: "k_host_busy (snd (keyboard_send_pre cycle k)) = k_host_busy k"
  by (simp add: keyboard_send_pre_def Let_def split_beta)

lemma silent_observe:
  assumes "host_silent C k"
  shows "keyboard_observe_post True (out_kbd_host C c) (snd (keyboard_send_pre cycle k)) = snd (keyboard_send_pre cycle k)"
    "host_silent C (snd (keyboard_send_pre cycle k))"
  using assms by (auto simp: host_silent_def keyboard_observe_post_def send_not_busy Let_def)

text \<open>What a whole run shows the core, cycle by cycle.\<close>

lemma loop_shows:
  fixes r :: "('c \<times> bool \<times> pins list, 'r) rig"
  assumes "rig_ok r" and "rig_core r = (c, False, log)" and "main_loop cf (recording C) max_cycles cycle r = Some r'"
  shows "\<exists>ps c'. rig_core r' = (c', False, log @ ps) \<and> cycle + length ps \<le> max cycle max_cycles \<and>
    paced_run mouse_send_pre (cycles_from cycle (length ps)) (rig_mouse r) = (shown mouse_byte cycle ps, rig_mouse r') \<and>
    (host_silent C (rig_kbd r) \<longrightarrow>
      paced_run keyboard_send_pre (cycles_from cycle (length ps)) (rig_kbd r) = (shown kbd_byte cycle ps, rig_kbd r'))"
  using assms
proof (induction cf "recording C" max_cycles cycle r arbitrary: c log rule: main_loop.induct)
  case (1 cf max_cycles cycle r)
  let ?go = "cycle < max_cycles \<and> rig_running r \<and> (force_stop_cycle (rig_flat r) = 0 \<or> of_nat cycle < force_stop_cycle (rig_flat r))"
  show ?case
  proof (cases ?go)
    case True
    obtain s d where s: "main_cycle cf (recording C) (of_nat cycle) r = Some s" "rig_ok s"
        "rig_kbd s = keyboard_observe_post True (out_kbd_host (recording C) d) (snd (keyboard_send_pre (of_nat cycle) (rig_kbd r)))"
        "rig_mouse s = snd (mouse_send_pre (of_nat cycle) (rig_mouse r))"
      using cycle_spec [OF 1(2), of cf "recording C" "of_nat cycle"] by blast
    obtain c1 p where p: "rig_core s = (c1, False, log @ [p])" "kbd_byte p = fst (keyboard_send_pre (of_nat cycle) (rig_kbd r))"
        "mouse_byte p = fst (mouse_send_pre (of_nat cycle) (rig_mouse r))"
      using recorded_cycle [OF 1(2,3) s(1)] by blast
    have run: "main_loop cf (recording C) max_cycles (Suc cycle) s = Some r'"
      using 1(4) True s(1) by (subst (asm) main_loop.simps) simp
    obtain ps c' where ps: "rig_core r' = (c', False, (log @ [p]) @ ps)" "Suc cycle + length ps \<le> max (Suc cycle) max_cycles"
        "paced_run mouse_send_pre (cycles_from (Suc cycle) (length ps)) (rig_mouse s) = (shown mouse_byte (Suc cycle) ps, rig_mouse r')"
        "host_silent C (rig_kbd s) \<Longrightarrow>
          paced_run keyboard_send_pre (cycles_from (Suc cycle) (length ps)) (rig_kbd s) = (shown kbd_byte (Suc cycle) ps, rig_kbd r')"
      using 1(1) [OF True s(1,2) p(1) run] by blast
    have k: "rig_kbd s = snd (keyboard_send_pre (of_nat cycle) (rig_kbd r)) \<and> host_silent C (rig_kbd s)" if "host_silent C (rig_kbd r)"
      using silent_observe(1) [OF that, of "fst d" "of_nat cycle"] silent_observe(2) [OF that] by (simp add: s(3) recording_def)
    have kr: "paced_run keyboard_send_pre (cycles_from (Suc cycle) (length ps)) (snd (keyboard_send_pre (of_nat cycle) (rig_kbd r))) =
        (shown kbd_byte (Suc cycle) ps, rig_kbd r')" if "host_silent C (rig_kbd r)"
      using ps(4) [OF conjunct2 [OF k [OF that]]] conjunct1 [OF k [OF that]] by simp
    show ?thesis
      using ps(1-3) kr p s(4) True
      by (intro exI [of _ "p # ps"] exI [of _ c']) (simp add: cycles_from_Suc split_beta)
  next
    case False
    then have "main_loop cf (recording C) max_cycles cycle r = Some r"
      by (subst main_loop.simps) (rule if_not_P)
    then show ?thesis
      using 1(3,4) by (intro exI [of _ "[]"] exI [of _ c]) (simp add: cycles_from_def)
  qed
qed

section \<open>The dropout detector\<close>

fun flatline_run :: "bool \<Rightarrow> u64 \<Rightarrow> u64 \<Rightarrow> u16 list \<Rightarrow> flatline \<Rightarrow> flatline" where
  "flatline_run arm window cycle [] f = f"
| "flatline_run arm window cycle (v # vs) f = flatline_run arm window (cycle + 1) vs (flatline_sample arm window cycle v f)"

lemma flatline_run_append:
  "flatline_run arm window cycle (us @ vs) f =
     flatline_run arm window (cycle + of_nat (length us)) vs (flatline_run arm window cycle us f)"
  by (induction us arbitrary: cycle f) (simp_all add: algebra_simps)

text \<open>Fewer equal samples than the threshold are only counted.\<close>

lemma flatline_counts:
  assumes "unat (fl_hold f) + n < 150000"
  shows "flatline_run arm window cycle (replicate n (fl_last f)) f = f\<lparr>fl_hold := fl_hold f + of_nat n\<rparr>"
  using assms
proof (induction n arbitrary: f cycle)
  case (Suc n)
  let ?g = "f\<lparr>fl_hold := fl_hold f + 1\<rparr>"
  have u: "unat (fl_hold f + 1) = unat (fl_hold f) + 1"
    using Suc.prems unat_add_lem [of "fl_hold f" 1] by simp
  then have "fl_hold f + 1 \<noteq> FLATLINE_HOLD_THRESHOLD"
    using Suc.prems by (auto simp: FLATLINE_HOLD_THRESHOLD_def dest: arg_cong [of _ _ unat])
  then have "flatline_sample arm window cycle (fl_last f) f = ?g"
    by (simp add: flatline_sample_def Let_def)
  moreover have "flatline_run arm window (cycle + 1) (replicate n (fl_last ?g)) ?g = ?g\<lparr>fl_hold := fl_hold ?g + of_nat n\<rparr>"
    by (rule Suc.IH) (use Suc.prems u in simp)
  ultimately show ?case
    by (simp add: algebra_simps)
qed simp

text \<open>
  The armed detector fires exactly on the 150000th repetition of a non-zero sample: the trace starts in that cycle and the run stops a
  window later. A shorter run of equal samples, or one of zeros, only counts.
\<close>

lemma flatline_exact:
  assumes "fl_hold f = 0" and "force_stop_cycle f = 0" and "n < 150000"
  shows "force_stop_cycle (flatline_run arm window cycle (replicate n (fl_last f)) f) = 0"
    and "flatline_run arm window cycle (replicate 150000 (fl_last f)) f =
      (let t = cycle + 149999; g = f\<lparr>fl_hold := 150000\<rparr>
       in if arm \<and> fl_last f \<noteq> 0 then g\<lparr>trace_start_cycle := t, force_stop_cycle := t + window\<rparr> else g)"
proof -
  show "force_stop_cycle (flatline_run arm window cycle (replicate n (fl_last f)) f) = 0"
    using assms by (subst flatline_counts) simp_all
  define m :: nat where "m = 149999"
  have m: "Suc m = 150000" "(of_nat m :: u64) = 149999"
    by (simp_all add: m_def)
  have "replicate 150000 (fl_last f) = replicate m (fl_last f) @ [fl_last f]"
    unfolding m(1) [symmetric] by (simp add: replicate_append_same)
  moreover have "flatline_run arm window cycle (replicate m (fl_last f)) f = f\<lparr>fl_hold := 149999\<rparr>"
    using assms(1) m(2) by (subst flatline_counts) (simp_all add: m_def)
  ultimately have "flatline_run arm window cycle (replicate 150000 (fl_last f)) f =
      flatline_sample arm window (cycle + 149999) (fl_last f) (f\<lparr>fl_hold := 149999\<rparr>)"
    by (simp only: flatline_run_append flatline_run.simps length_replicate m(2))
  then show "flatline_run arm window cycle (replicate 150000 (fl_last f)) f =
      (let t = cycle + 149999; g = f\<lparr>fl_hold := 150000\<rparr>
       in if arm \<and> fl_last f \<noteq> 0 then g\<lparr>trace_start_cycle := t, force_stop_cycle := t + window\<rparr> else g)"
    using assms(2) by (simp add: flatline_sample_def FLATLINE_HOLD_THRESHOLD_def Let_def)
qed

section \<open>Properties of the loop\<close>

text \<open>
  C13: The loop is safe for any core. From a state in which the clock is low and every device keeps its invariant, the main loop returns
  (\<open>main_cycle\<close> never has an undefined result: no sector, task file, packet or pixel outside its buffer, whatever the core answers),
  the invariants hold again, the time has advanced by two per cycle, and it ends only at the last cycle, when the run was stopped, or
  when the forced stop is reached.
\<close>

theorem main_loop_safe:
  assumes "rig_ok r"
  shows "\<exists>r' n. main_loop cf C max_cycles cycle r = Some r' \<and> rig_ok r' \<and> sim_time r' = sim_time r + 2 * of_nat n \<and>
    cycle + n \<le> max cycle max_cycles \<and>
    (cycle + n < max_cycles \<longrightarrow> \<not> rig_running r' \<or>
       force_stop_cycle (rig_flat r') \<noteq> 0 \<and> force_stop_cycle (rig_flat r') \<le> of_nat (cycle + n))"
  by (rule loop_spec [OF assms])

text \<open>
  C14: A cycle is one clock of everything. Whatever the core does, a cycle of the loop makes exactly one round of the drives, one poll of
  the keyboard followed by one look at its host port after the rising edge, one poll of the mouse, one clock of the DDR slave with the
  request of before the edge, and one comparison with the reference (when that is on), looking at the core before the edge; and once
  the comparison has found a divergence no further cycle is run.
\<close>

theorem main_cycle_exact:
  fixes r :: "('c, 'r) rig"
  assumes "rig_ok r"
  shows "\<exists>r' c. main_cycle cf C cycle r = Some r' \<and> sim_time r' = sim_time r + 2 \<and>
    Some (rig_globals r', rig_devs r', pin_bus (rig_pins r')) =
      bus_round (rig_globals r) (rig_devs r) (see_bus C (rig_core r) (pin_bus (rig_pins r))) \<and>
    rig_kbd r' = keyboard_observe_post True (out_kbd_host C c) (snd (keyboard_send_pre cycle (rig_kbd r))) \<and>
    rig_mouse r' = snd (mouse_send_pre cycle (rig_mouse r)) \<and>
    rig_ddr r' = ddr_cycle (out_ddr C (rig_core r)) (rig_ddr r) \<and>
    (cf_cosim_on cf \<and> g_enabled (rig_host r) \<longrightarrow>
      cosim_host_cycle (cf_x87 cf) (cf_ref cf) (out_cosim C (rig_core r)) (sim_time r) (rig_host r) = (\<not> g_failed (rig_host r'), rig_host r') \<and>
      (g_failed (rig_host r') \<longrightarrow> main_loop cf C max_cycles next r' = Some r'))"
proof -
  obtain r' c where r': "main_cycle cf C cycle r = Some r'" "sim_time r' = sim_time r + 2"
      "Some (rig_globals r', rig_devs r', pin_bus (rig_pins r')) =
        bus_round (rig_globals r) (rig_devs r) (see_bus C (rig_core r) (pin_bus (rig_pins r)))"
      "rig_kbd r' = keyboard_observe_post True (out_kbd_host C c) (snd (keyboard_send_pre cycle (rig_kbd r)))"
      "rig_mouse r' = snd (mouse_send_pre cycle (rig_mouse r))" "rig_ddr r' = ddr_cycle (out_ddr C (rig_core r)) (rig_ddr r)"
      "rig_host r' = snd (cosim_verdict cf C r)" "rig_running r' \<longleftrightarrow> rig_running r \<and> fst (cosim_verdict cf C r)"
    using cycle_spec [OF assms, of cf C cycle] by blast
  have "cosim_host_cycle (cf_x87 cf) (cf_ref cf) (out_cosim C (rig_core r)) (sim_time r) (rig_host r) = (\<not> g_failed (rig_host r'), rig_host r') \<and>
      (g_failed (rig_host r') \<longrightarrow> \<not> rig_running r')" if "cf_cosim_on cf \<and> g_enabled (rig_host r)"
  proof -
    have v: "cosim_host_cycle (cf_x87 cf) (cf_ref cf) (out_cosim C (rig_core r)) (sim_time r) (rig_host r) = (fst (cosim_verdict cf C r), rig_host r')"
      using that r'(7) by (simp add: cosim_verdict_def)
    then have "fst (cosim_verdict cf C r) = (\<not> g_failed (rig_host r'))"
      using cosim_result_is_verdict that by blast
    then show ?thesis
      using v r'(8) by simp
  qed
  moreover have "main_loop cf C max_cycles next r' = Some r'" if "\<not> rig_running r'"
    using that by (subst main_loop.simps) simp
  ultimately show ?thesis
    using r' by (intro exI [of _ r'] exI [of _ c]) blast
qed


section \<open>An instance\<close>

text \<open>A core that ignores its pins, asks the first channel for a command, and never answers the keyboard.\<close>

definition still_core :: "unit core_model" where
  "still_core = \<lparr>eval_core = \<lambda>_ c. c, out_mgmt = \<lambda>_. (0, 4, 0, 0),
     out_ddr = \<lambda>_. \<lparr>q_rd = True, q_we = False, q_addr = 0x06000000, q_be = 0xFF, q_din = 0\<rparr>, out_kbd_host = \<lambda>_. 0,
     out_video = \<lambda>_. \<lparr>video_vs = False, video_hs = False, video_de = True, ce_pixel = True, video_r = 1, video_g = 2, video_b = 3\<rparr>,
     out_fb = \<lambda>_. \<lparr>fb_flags = 0, fb_off = True, fb_start_addr = 0, fb_stride = 0, fb_width = 0, fb_height = 0\<rparr>,
     out_zsst = \<lambda>_. \<lparr>dbg_zsst_video_active = False, dbg_zsst_width = 0, dbg_zsst_height = 0, dbg_zsst_stride = 0,
       dbg_zsst_buffer_size = 0, dbg_zsst_displayed_buffer = 0\<rparr>,
     out_zsst_write = \<lambda>_. (False, 0, 0, []), out_palette = \<lambda>_. (False, 0, 0), out_audio = \<lambda>_. (0, 0), out_sb_left = \<lambda>_. 0,
     out_cosim = \<lambda>_. clock0 True\<rparr>"

definition sample_config :: "u32 loop_config" where
  "sample_config = \<lparr>cf_sys_clock = 20000000, cf_no_audio_clock = False, cf_record = True, cf_fb_1555 = True, cf_fb_bgr = True,
     cf_arm_flatline = True, cf_flatline_window = 100, cf_cosim_on = True, cf_x87 = False, cf_ref = toy_ref\<rparr>"

definition sample_rig :: "'c \<Rightarrow> ('c, u32) rig" where
  "sample_rig c = \<lparr>rig_core = c,
     rig_pins = \<lparr>pin_clk_sys = False, pin_clk_audio = False, pin_soft_reset = False, pin_status = 0, pin_kbd_data = 0, pin_kbd_valid = False,
       pin_kbd_clear = False, pin_mouse_data = 0, pin_mouse_valid = False, pin_ddram_busy = False, pin_dout_ready = False, pin_dout = 0,
       pin_bus = asked_bus 0\<rparr>,
     sim_time = 0, rig_ddr = sample_ddr, rig_audio = \<lparr>clk_audio = False, clock_accum = 0, sample_accum = 0, edges = 0, samples = 0\<rparr>,
     rig_wav = [], rig_kbd = sample_kbd, rig_mouse = \<lparr>m_queue = [0x08, 1, 2], m_last_byte = 0, m_events = [], m_next_event = 0\<rparr>,
     rig_zsst = [], rig_palette = \<lambda>_. black, rig_raster = sample_raster,
     rig_flat = \<lparr>fl_last = 0, fl_hold = 0, fl_start = 0, trace_start_cycle = 0, force_stop_cycle = 0\<rparr>, rig_host = host0,
     rig_devs = (idle_drive 0 0xF000, idle_drive 1 0xF100, hps_floppy_new), rig_globals = off, rig_soft_reset = 0, rig_speed = [],
     rig_running = True\<rparr>"

lemma sample_rig_ok: "rig_ok (sample_rig c)"
  by (simp add: rig_ok_def sample_rig_def asked_bus_def bus_ok_def devices_inv_def idle_drive_inv floppy_new_inv kbd_inv_def
      sample_kbd_def raster_inv_def sample_raster_def H_RES_def V_RES_def)

theorem main_loop_safe_witness:
  "\<exists>r' n. main_loop sample_config still_core 200 100 (sample_rig ()) = Some r' \<and> rig_ok r' \<and> sim_time r' = 2 * of_nat n \<and> n \<le> 100"
  using main_loop_safe [OF sample_rig_ok, of sample_config still_core 200 100 "()"] by (auto simp: sample_rig_def)

theorem main_cycle_exact_witness:
  "\<exists>r'. main_cycle sample_config still_core 30000 (sample_rig ()) = Some r' \<and> sim_time r' = 2 \<and> m_queue (rig_mouse r') = [1, 2]"
  using main_cycle_exact [OF sample_rig_ok, of sample_config still_core 30000 "()" 0 0]
  by (fastforce simp: sample_rig_def mouse_send_pre_def)


end
