(* ===== verification/Harness_Checkpoint.thy ===== *)
theory Harness_Checkpoint
  imports Ide_Checkpoint "HOL-Library.Multiset"
begin

text \<open>
  The checkpoint of the harness itself: \<open>write_harness\<close>, \<open>read_harness\<close> and
  \<open>requeue_input_events\<close> of \<open>src/verilator/main.cpp\<close>. The globals the stream holds are grouped, in the
  order of the stream, into the time base, the memories, the input state and the progress of the run,
  followed by the two drives. The Verilated model has its own file and is not part of this stream.
\<close>

section \<open>State\<close>

record time_base =
  sim_time :: u64
  current_cycle :: u64
  posedge :: bool
  audio_clock_accum :: u32
  audio_sample_accum :: u32

record memories =
  ddram_bytes :: bytes
  resp_valid :: bool
  resp_data :: u64
  fb_bytes :: bytes
  fb_palette :: bytes
  zsst_bytes :: bytes

record inputs =
  ps2_events :: "scheduled_ps2_bytes list"
  next_ps2_event :: u64
  mouse_events :: "scheduled_ps2_bytes list"
  next_mouse_event :: u64
  kbd_scancode_queue :: bytes
  mouse_byte_queue :: bytes
  last_kbd_byte_time :: u64
  last_mouse_byte_time :: u64
  ps2_kbd_scan_set :: u8
  ps2_mouse_buttons :: u8
  pending_kbd_cmd :: u8
  pending_kbd_arg :: bool
  kbd_host_busy :: bool
  kbd_host_clear_pending :: bool
  screen_check_cycles :: "u64 list"
  next_screen_check :: u64
  boot_pages_seen :: "bool list"

record progress =
  saw_first_instruction :: bool
  saw_post :: bool
  saw_video_sync :: bool
  saw_boot_sector :: bool
  saw_post_boot_exec :: bool
  saw_boot_menu_text :: bool
  saw_nonblack_pixel :: bool
  boot_page_logs :: u32
  prev_vs :: bool
  prev_hs :: bool
  prev_de :: bool
  bios_dbg_wr_prev :: bool
  last_post :: u8
  have_post :: bool
  mouse_captured :: bool
  last_title_sim_time :: u64
  resolution_x :: int
  resolution_y :: int
  next_console_text_check :: u64
  last_console_text :: string

record harness =
  hn_time :: time_base
  hn_mem :: memories
  hn_in :: inputs
  hn_run :: progress
  hn_ide0 :: hps_ide
  hn_ide1 :: hps_ide

section \<open>Writing\<close>

definition ZCKP_MAGIC :: u32 where "ZCKP_MAGIC = 0x5A434B50"

definition write_time :: "time_base \<Rightarrow> bytes" where
  "write_time c =
     write_pod (sim_time c) @ write_pod (current_cycle c) @ write_bool (posedge c) @
     write_pod (audio_clock_accum c) @ write_pod (audio_sample_accum c)"

definition write_memories :: "memories \<Rightarrow> bytes" where
  "write_memories m =
     write_vector_u8 (ddram_bytes m) @ write_bool (resp_valid m) @ write_pod (resp_data m) @
     write_vector_u8 (fb_bytes m) @ fb_palette m @ write_vector_u8 (zsst_bytes m)"

definition write_inputs :: "inputs \<Rightarrow> bytes" where
  "write_inputs i =
     write_scheduled_events (ps2_events i) @ write_pod (next_ps2_event i) @
     write_scheduled_events (mouse_events i) @ write_pod (next_mouse_event i) @
     write_deque_u8 (kbd_scancode_queue i) @ write_deque_u8 (mouse_byte_queue i) @
     write_pod (last_kbd_byte_time i) @ write_pod (last_mouse_byte_time i) @
     write_pod (ps2_kbd_scan_set i) @ write_pod (ps2_mouse_buttons i) @ write_pod (pending_kbd_cmd i) @
     write_bool (pending_kbd_arg i) @ write_bool (kbd_host_busy i) @ write_bool (kbd_host_clear_pending i) @
     write_vector_u64 (screen_check_cycles i) @ write_pod (next_screen_check i) @
     concat (map write_bool (boot_pages_seen i))"

definition write_progress :: "progress \<Rightarrow> bytes" where
  "write_progress p =
     write_bool (saw_first_instruction p) @ write_bool (saw_post p) @ write_bool (saw_video_sync p) @
     write_bool (saw_boot_sector p) @ write_bool (saw_post_boot_exec p) @ write_bool (saw_boot_menu_text p) @
     write_bool (saw_nonblack_pixel p) @ write_pod (boot_page_logs p) @ write_bool (prev_vs p) @
     write_bool (prev_hs p) @ write_bool (prev_de p) @ write_bool (bios_dbg_wr_prev p) @ write_pod (last_post p) @
     write_bool (have_post p) @ write_bool (mouse_captured p) @ write_pod (last_title_sim_time p) @
     write_int (resolution_x p) @ write_int (resolution_y p) @ write_pod (next_console_text_check p) @
     write_string (last_console_text p)"

definition write_harness :: "host_fs \<Rightarrow> harness \<Rightarrow> bytes" where
  "write_harness fs h =
     write_pod ZCKP_MAGIC @ write_pod (6 :: u32) @ write_time (hn_time h) @ write_memories (hn_mem h) @
     write_inputs (hn_in h) @ write_progress (hn_run h) @ save fs (hn_ide0 h) @ save fs (hn_ide1 h)"

section \<open>Reading\<close>

text \<open>A member that only newer versions of the stream hold keeps its value otherwise.\<close>

definition since :: "bool \<Rightarrow> ('a \<Rightarrow> 'a rd) \<Rightarrow> 'a \<Rightarrow> 'a rd" where
  "since present rd old = (if present then rd old else rret old)"

definition read_time :: "u32 \<Rightarrow> time_base \<Rightarrow> time_base rd" where
  "read_time version c =
     rbind (read_pod (sim_time c)) (\<lambda>t. rbind (read_pod (current_cycle c)) (\<lambda>n.
     rbind (read_bool (posedge c)) (\<lambda>p.
     rbind (if 4 \<le> version then read_pod (audio_clock_accum c) else rret 0) (\<lambda>a.
     rbind (if 4 \<le> version then read_pod (audio_sample_accum c) else rret 0) (\<lambda>b.
     rret \<lparr>sim_time = t, current_cycle = n, posedge = p, audio_clock_accum = a, audio_sample_accum = b\<rparr>)))))"

definition read_memories :: "nat \<Rightarrow> u32 \<Rightarrow> memories \<Rightarrow> memories rd" where
  "read_memories lim version m =
     rbind (read_vector_u8 lim (ddram_bytes m)) (\<lambda>d. rbind (read_bool (resp_valid m)) (\<lambda>v.
     rbind (read_pod (resp_data m)) (\<lambda>r. rbind (since (5 \<le> version) (read_vector_u8 lim) (fb_bytes m)) (\<lambda>f.
     rbind (since (5 \<le> version) read_raw (fb_palette m)) (\<lambda>p.
     rbind (if 6 \<le> version then read_vector_u8 lim (zsst_bytes m)
            else rret (replicate (length (zsst_bytes m)) 0)) (\<lambda>z.
     rret \<lparr>ddram_bytes = d, resp_valid = v, resp_data = r, fb_bytes = f, fb_palette = p, zsst_bytes = z\<rparr>))))))"

definition read_inputs :: "nat \<Rightarrow> u32 \<Rightarrow> inputs \<Rightarrow> inputs rd" where
  "read_inputs lim version i =
     rbind (read_scheduled_events lim (ps2_events i)) (\<lambda>pe. rbind (read_pod (next_ps2_event i)) (\<lambda>pn.
     rbind (since (3 \<le> version) (read_scheduled_events lim) (mouse_events i)) (\<lambda>me.
     rbind (since (3 \<le> version) read_pod (next_mouse_event i)) (\<lambda>mn.
     rbind (read_deque_u8 lim (kbd_scancode_queue i)) (\<lambda>kq.
     rbind (since (2 \<le> version) (read_deque_u8 lim) (mouse_byte_queue i)) (\<lambda>mq.
     rbind (read_pod (last_kbd_byte_time i)) (\<lambda>kt.
     rbind (since (2 \<le> version) read_pod (last_mouse_byte_time i)) (\<lambda>mt.
     rbind (read_pod (ps2_kbd_scan_set i)) (\<lambda>ss.
     rbind (since (2 \<le> version) read_pod (ps2_mouse_buttons i)) (\<lambda>mb.
     rbind (read_pod (pending_kbd_cmd i)) (\<lambda>pc. rbind (read_bool (pending_kbd_arg i)) (\<lambda>pa.
     rbind (read_bool (kbd_host_busy i)) (\<lambda>hb. rbind (read_bool (kbd_host_clear_pending i)) (\<lambda>hc.
     rbind (read_vector_u64 lim (screen_check_cycles i)) (\<lambda>sc. rbind (read_pod (next_screen_check i)) (\<lambda>sn.
     rbind (rd_list (\<lambda>_. read_bool False) (boot_pages_seen i)) (\<lambda>bp.
     rret \<lparr>ps2_events = pe, next_ps2_event = pn, mouse_events = me, next_mouse_event = mn,
       kbd_scancode_queue = kq, mouse_byte_queue = mq, last_kbd_byte_time = kt, last_mouse_byte_time = mt,
       ps2_kbd_scan_set = ss, ps2_mouse_buttons = mb, pending_kbd_cmd = pc, pending_kbd_arg = pa,
       kbd_host_busy = hb, kbd_host_clear_pending = hc, screen_check_cycles = sc, next_screen_check = sn,
       boot_pages_seen = bp\<rparr>)))))))))))))))))"

definition read_progress :: "nat \<Rightarrow> u32 \<Rightarrow> progress \<Rightarrow> progress rd" where
  "read_progress lim version p =
     rbind (read_bool (saw_first_instruction p)) (\<lambda>a. rbind (read_bool (saw_post p)) (\<lambda>b.
     rbind (read_bool (saw_video_sync p)) (\<lambda>c. rbind (read_bool (saw_boot_sector p)) (\<lambda>d.
     rbind (read_bool (saw_post_boot_exec p)) (\<lambda>e. rbind (read_bool (saw_boot_menu_text p)) (\<lambda>f.
     rbind (read_bool (saw_nonblack_pixel p)) (\<lambda>g. rbind (read_pod (boot_page_logs p)) (\<lambda>h.
     rbind (read_bool (prev_vs p)) (\<lambda>i. rbind (read_bool (prev_hs p)) (\<lambda>j.
     rbind (read_bool (prev_de p)) (\<lambda>k. rbind (read_bool (bios_dbg_wr_prev p)) (\<lambda>l.
     rbind (read_pod (last_post p)) (\<lambda>m. rbind (read_bool (have_post p)) (\<lambda>n.
     rbind (since (2 \<le> version) read_bool (mouse_captured p)) (\<lambda>q.
     rbind (read_pod (last_title_sim_time p)) (\<lambda>r. rbind (read_int (resolution_x p)) (\<lambda>x.
     rbind (read_int (resolution_y p)) (\<lambda>y. rbind (read_pod (next_console_text_check p)) (\<lambda>w.
     rbind (read_string lim (last_console_text p)) (\<lambda>z.
     rret \<lparr>saw_first_instruction = a, saw_post = b, saw_video_sync = c, saw_boot_sector = d,
       saw_post_boot_exec = e, saw_boot_menu_text = f, saw_nonblack_pixel = g, boot_page_logs = h,
       prev_vs = i, prev_hs = j, prev_de = k, bios_dbg_wr_prev = l, last_post = m, have_post = n,
       mouse_captured = q, last_title_sim_time = r, resolution_x = x, resolution_y = y,
       next_console_text_check = w, last_console_text = z\<rparr>))))))))))))))))))))"

definition read_harness :: "host_fs \<Rightarrow> nat \<Rightarrow> harness \<Rightarrow> harness rd" where
  "read_harness fs lim h =
     rbind (read_pod (0 :: u32)) (\<lambda>magic. rbind (read_pod (0 :: u32)) (\<lambda>version.
     if magic \<noteq> ZCKP_MAGIC \<or> version < 1 \<or> version > 6 then rthrow Bad_Checkpoint else
     rbind (read_time version (hn_time h)) (\<lambda>t. rbind (read_memories lim version (hn_mem h)) (\<lambda>m.
     rbind (read_inputs lim version (hn_in h)) (\<lambda>i. rbind (read_progress lim version (hn_run h)) (\<lambda>p.
     rbind (load fs lim (hn_ide0 h)) (\<lambda>d0. rbind (load fs lim (hn_ide1 h)) (\<lambda>d1.
     rret \<lparr>hn_time = t, hn_mem = m, hn_in = i, hn_run = p, hn_ide0 = d0, hn_ide1 = d1\<rparr>))))))))"

section \<open>Input events after a restore\<close>

text \<open>
  \<open>std::sort\<close> leaves the order of events of one cycle open, so the sort is an argument. An iterator
  beyond the end of the vector is undefined behaviour: \<open>None\<close>.
\<close>

type_synonym events = "scheduled_ps2_bytes list"

definition requeue :: "(events \<Rightarrow> events) \<Rightarrow> u64 \<Rightarrow> events \<Rightarrow> events \<Rightarrow> u64 \<Rightarrow> events option" where
  "requeue sort_events now command_line evs nxt =
     (if length evs < unat nxt then None
      else Some (sort_events (drop (unat nxt) evs @ filter (\<lambda>e. now < ev_cycle e) command_line)))"

definition requeue_input_events ::
    "(events \<Rightarrow> events) \<Rightarrow> events \<Rightarrow> events \<Rightarrow> harness \<Rightarrow> harness option" where
  "requeue_input_events sort_events cmd_ps2 cmd_mouse h =
     (case requeue sort_events (current_cycle (hn_time h)) cmd_ps2 (ps2_events (hn_in h)) (next_ps2_event (hn_in h)) of
        None \<Rightarrow> None
      | Some pe \<Rightarrow>
          (case requeue sort_events (current_cycle (hn_time h)) cmd_mouse (mouse_events (hn_in h)) (next_mouse_event (hn_in h)) of
             None \<Rightarrow> None
           | Some me \<Rightarrow> Some (h\<lparr>hn_in := (hn_in h)\<lparr>ps2_events := pe, next_ps2_event := 0,
               mouse_events := me, next_mouse_event := 0\<rparr>\<rparr>)))"

definition restore_harness ::
    "host_fs \<Rightarrow> nat \<Rightarrow> (events \<Rightarrow> events) \<Rightarrow> string \<Rightarrow> string \<Rightarrow> events \<Rightarrow> events \<Rightarrow> harness \<Rightarrow> bytes \<Rightarrow>
     load_error + harness option" where
  "restore_harness fs lim sort_events disk_path cdrom_path cmd_ps2 cmd_mouse h file =
     (case read_harness fs lim h (good_stream file) of
        Inl e \<Rightarrow> Inl e
      | Inr (h, _) \<Rightarrow>
          Inr (requeue_input_events sort_events cmd_ps2 cmd_mouse
            (h\<lparr>hn_ide0 := adopt_image_path fs disk_path (hn_ide0 h),
               hn_ide1 := if cdrom_path \<noteq> [] then adopt_image_path fs cdrom_path (hn_ide1 h) else hn_ide1 h\<rparr>)))"

section \<open>The stream restores the harness\<close>

lemma since_simps [simp]: "since True rd old = rd old" "since False rd old = rret old"
  by (simp_all add: since_def)

lemma read_time_write [simp, codec_simps]:
  "4 \<le> version \<Longrightarrow> read_time version old (good_stream (write_time c @ rest)) = Inr (c, good_stream rest)"
  by (simp add: read_time_def write_time_def)

definition memories_ok :: "nat \<Rightarrow> memories \<Rightarrow> memories \<Rightarrow> bool" where
  "memories_ok lim old m \<longleftrightarrow>
     length (ddram_bytes m) < 2 ^ 64 \<and> length (ddram_bytes m) \<le> lim \<and> length (fb_bytes m) < 2 ^ 64 \<and>
     length (fb_bytes m) \<le> lim \<and> length (zsst_bytes m) < 2 ^ 64 \<and> length (zsst_bytes m) \<le> lim \<and>
     length (fb_palette m) = length (fb_palette old)"

lemma read_memories_write [simp, codec_simps]:
  "memories_ok lim old m \<Longrightarrow> 6 \<le> version \<Longrightarrow>
     read_memories lim version old (good_stream (write_memories m @ rest)) = Inr (m, good_stream rest)"
  by (simp add: read_memories_def write_memories_def memories_ok_def word_le_nat_alt)

definition inputs_ok :: "nat \<Rightarrow> inputs \<Rightarrow> inputs \<Rightarrow> bool" where
  "inputs_ok lim old i \<longleftrightarrow>
     list_all (\<lambda>es. length es < 2 ^ 64 \<and> length es \<le> lim \<and> list_all (event_ok lim) es) [ps2_events i, mouse_events i] \<and>
     list_all (\<lambda>q. length q < 2 ^ 64 \<and> length q \<le> lim) [kbd_scancode_queue i, mouse_byte_queue i] \<and>
     length (screen_check_cycles i) < 2 ^ 64 \<and> length (screen_check_cycles i) \<le> lim \<and>
     length (boot_pages_seen i) = length (boot_pages_seen old)"

interpretation pages: codec write_bool "\<lambda>_. read_bool False" "\<lambda>_. True"
  by unfold_locales simp

lemma read_inputs_write [simp, codec_simps]:
  "inputs_ok lim old i \<Longrightarrow> 6 \<le> version \<Longrightarrow>
     read_inputs lim version old (good_stream (write_inputs i @ rest)) = Inr (i, good_stream rest)"
  by (simp add: read_inputs_def write_inputs_def inputs_ok_def word_le_nat_alt pages.rd_list_wr list_all_iff)

definition progress_ok :: "nat \<Rightarrow> progress \<Rightarrow> bool" where
  "progress_ok lim p \<longleftrightarrow> int32 (resolution_x p) \<and> int32 (resolution_y p) \<and>
     length (last_console_text p) < 2 ^ 32 \<and> length (last_console_text p) \<le> lim"

lemma read_progress_write [simp, codec_simps]:
  "progress_ok lim p \<Longrightarrow> 6 \<le> version \<Longrightarrow>
     read_progress lim version old (good_stream (write_progress p @ rest)) = Inr (p, good_stream rest)"
  by (simp add: read_progress_def write_progress_def progress_ok_def word_le_nat_alt)

text \<open>What a harness needs for its checkpoint to be readable by a harness \<open>old\<close>.\<close>

definition harness_ok :: "nat \<Rightarrow> harness \<Rightarrow> harness \<Rightarrow> bool" where
  "harness_ok lim old h \<longleftrightarrow> memories_ok lim (hn_mem old) (hn_mem h) \<and> inputs_ok lim (hn_in old) (hn_in h) \<and>
     progress_ok lim (hn_run h) \<and> ckpt_ok lim (hn_ide0 h) \<and> ckpt_ok lim (hn_ide1 h)"

definition ide_buffers_ok :: "hps_ide \<Rightarrow> bool" where
  "ide_buffers_ok t \<longleftrightarrow> length (i_buf t) = 12 \<and> length (i_packet t) = 12 \<and> length (d_ident (i_drive t)) = 256"

lemma load_save_rest:
  assumes "ckpt_ok lim s" and "same_base fs fs' (i_image_path s)" and "ide_buffers_ok t"
  shows "load fs' lim t (good_stream (save fs s @ rest)) = Inr (s\<lparr>i_jitter_delay := i_jitter_delay t\<rparr>, good_stream rest)"
  using assms by (simp add: ide_buffers_ok_def load_save)

text \<open>
  C7: a checkpoint restores the whole harness. Reading what \<open>write_harness\<close> wrote gives back the time
  base, the memories, the input queues, the progress and both drives with their disk images, and leaves
  what follows in the stream; only the pending jitter delays of the drives are the reader's own.
\<close>

theorem harness_checkpoint_roundtrip:
  assumes "harness_ok lim old h" and "ide_buffers_ok (hn_ide0 old)" and "ide_buffers_ok (hn_ide1 old)"
    and "same_base fs fs' (i_image_path (hn_ide0 h))" and "same_base fs fs' (i_image_path (hn_ide1 h))"
  shows "read_harness fs' lim old (good_stream (write_harness fs h @ rest)) =
    Inr (h\<lparr>hn_ide0 := (hn_ide0 h)\<lparr>i_jitter_delay := i_jitter_delay (hn_ide0 old)\<rparr>,
           hn_ide1 := (hn_ide1 h)\<lparr>i_jitter_delay := i_jitter_delay (hn_ide1 old)\<rparr>\<rparr>, good_stream rest)"
proof -
  note drives = load_save_rest [OF _ assms(4, 2)] load_save_rest [OF _ assms(5, 3)]
  show ?thesis
    using assms(1) by (simp add: read_harness_def write_harness_def harness_ok_def drives ZCKP_MAGIC_def)
qed

lemma rbind_Inr_iff: "rbind m f s = Inr r \<longleftrightarrow> (\<exists>x s'. m s = Inr (x, s') \<and> f x s' = Inr r)"
  by (auto simp: rbind_def split: sum.splits)

section \<open>Requeued events\<close>

definition sorts :: "(events \<Rightarrow> events) \<Rightarrow> bool" where
  "sorts sort_events \<longleftrightarrow> (\<forall>es. mset (sort_events es) = mset es \<and> sorted_wrt (\<lambda>a b. ev_cycle a \<le> ev_cycle b) (sort_events es))"

text \<open>
  after a restore no input is lost or repeated. Whatever sort the library uses, the queue then
  holds, in order of their cycles, exactly the events the checkpoint had not delivered yet and the
  command-line events after the checkpoint's cycle.
\<close>

theorem requeue_exact:
  assumes "sorts sort_events"
    and "requeue_input_events sort_events cmd_ps2 cmd_mouse h = Some h'"
  shows "mset (ps2_events (hn_in h')) = mset (drop (unat (next_ps2_event (hn_in h))) (ps2_events (hn_in h))) +
      filter_mset (\<lambda>e. current_cycle (hn_time h) < ev_cycle e) (mset cmd_ps2) \<and>
    mset (mouse_events (hn_in h')) = mset (drop (unat (next_mouse_event (hn_in h))) (mouse_events (hn_in h))) +
      filter_mset (\<lambda>e. current_cycle (hn_time h) < ev_cycle e) (mset cmd_mouse) \<and>
    sorted_wrt (\<lambda>a b. ev_cycle a \<le> ev_cycle b) (ps2_events (hn_in h')) \<and>
    sorted_wrt (\<lambda>a b. ev_cycle a \<le> ev_cycle b) (mouse_events (hn_in h')) \<and>
    next_ps2_event (hn_in h') = 0 \<and> next_mouse_event (hn_in h') = 0"
  using assms
  by (auto simp: requeue_input_events_def requeue_def sorts_def mset_filter split: if_splits option.splits)

text \<open>
  a checkpoint older than version 3 repeats the mouse events of the command line. Its stream has no
  mouse events, so the list stays the one of the command line, and requeueing appends the events after
  the checkpoint's cycle once more; those before it are replayed at once.
\<close>

theorem old_checkpoint_repeats_mouse:
  assumes "sorts sort_events" and "version < 3"
    and "read_inputs lim version i (good_stream bs) = Inr (i', s)"
    and "mouse_events i = cmd_mouse" and "next_mouse_event i = 0"
    and "requeue_input_events sort_events cmd_ps2 cmd_mouse (h\<lparr>hn_in := i'\<rparr>) = Some h'"
  shows "mset (mouse_events (hn_in h')) =
    mset cmd_mouse + filter_mset (\<lambda>e. current_cycle (hn_time h) < ev_cycle e) (mset cmd_mouse)"
proof -
  have "\<not> 3 \<le> version" using assms(2) by simp
  then have "mouse_events i' = cmd_mouse \<and> next_mouse_event i' = 0"
    using assms(3, 4, 5) by (auto simp: read_inputs_def rbind_Inr_iff)
  then show ?thesis
    using assms(1, 6)
    by (auto simp: requeue_input_events_def requeue_def sorts_def mset_filter split: if_splits option.splits)
qed

section \<open>Concrete checkpoints\<close>

definition sample_harness :: "hps_ide \<Rightarrow> bytes \<Rightarrow> harness" where
  "sample_harness d queue =
     \<lparr>hn_time = \<lparr>sim_time = 20, current_cycle = 10, posedge = True, audio_clock_accum = 3, audio_sample_accum = 4\<rparr>,
      hn_mem = \<lparr>ddram_bytes = [1, 2], resp_valid = False, resp_data = 0, fb_bytes = [5], fb_palette = [9, 9],
        zsst_bytes = []\<rparr>,
      hn_in = \<lparr>ps2_events = [\<lparr>ev_cycle = 12, ev_bytes = [0x1C]\<rparr>], next_ps2_event = 0, mouse_events = [],
        next_mouse_event = 0, kbd_scancode_queue = queue, mouse_byte_queue = [], last_kbd_byte_time = 0,
        last_mouse_byte_time = 0, ps2_kbd_scan_set = 2, ps2_mouse_buttons = 0, pending_kbd_cmd = 0,
        pending_kbd_arg = False, kbd_host_busy = False, kbd_host_clear_pending = False,
        screen_check_cycles = [100], next_screen_check = 0, boot_pages_seen = [True, False]\<rparr>,
      hn_run = \<lparr>saw_first_instruction = True, saw_post = True, saw_video_sync = False, saw_boot_sector = False,
        saw_post_boot_exec = False, saw_boot_menu_text = False, saw_nonblack_pixel = False, boot_page_logs = 1,
        prev_vs = False, prev_hs = False, prev_de = False, bios_dbg_wr_prev = False, last_post = 7,
        have_post = True, mouse_captured = False, last_title_sim_time = 0, resolution_x = 720,
        resolution_y = 400, next_console_text_check = 0, last_console_text = ''C:''\<rparr>,
      hn_ide0 = d, hn_ide1 = d\<rparr>"

theorem harness_checkpoint_roundtrip_witness:
  "\<exists>h'. read_harness (sample_fs 2) 5000 (sample_harness (hps_ide_new 1 0xF100) [])
      (good_stream (write_harness (sample_fs 1) (sample_harness sample_saved [0xFA]) @ [])) = Inr (h', good_stream []) \<and>
    kbd_scancode_queue (hn_in h') = [0xFA] \<and> last_post (hn_run h') = 7"
proof -
  let ?old = "sample_harness (hps_ide_new 1 0xF100) []" and ?h = "sample_harness sample_saved [0xFA]"
  have ok: "harness_ok 5000 ?old ?h"
    by (simp add: harness_ok_def memories_ok_def inputs_ok_def progress_ok_def sample_saved_ok sample_harness_def
        event_ok_def int32_def)
  have d: "ide_buffers_ok (hn_ide0 ?old)" "ide_buffers_ok (hn_ide1 ?old)"
    by (simp_all add: ide_buffers_ok_def sample_harness_def sample_new_shape)
  have b: "same_base (sample_fs 1) (sample_fs 2) (i_image_path (hn_ide0 ?h))"
    "same_base (sample_fs 1) (sample_fs 2) (i_image_path (hn_ide1 ?h))"
    by (simp_all add: same_base_def sample_fs_def file_identity_def sample_harness_def)
  show ?thesis
    unfolding harness_checkpoint_roundtrip [OF ok d b, of "[]"] by (simp add: sample_harness_def)
qed

lemma sort_key_sorts: "sorts (sort_key ev_cycle)"
  using sorted_sort_key [of "ev_cycle :: scheduled_ps2_bytes \<Rightarrow> u64"] by (simp add: sorts_def sorted_map)

theorem requeue_exact_witness:
  "\<exists>h'. requeue_input_events (sort_key ev_cycle) [\<lparr>ev_cycle = 11, ev_bytes = [1]\<rparr>, \<lparr>ev_cycle = 3, ev_bytes = [2]\<rparr>] []
      (sample_harness sample_saved []) = Some h' \<and>
    mset (ps2_events (hn_in h')) = {#\<lparr>ev_cycle = 12, ev_bytes = [0x1C]\<rparr>, \<lparr>ev_cycle = 11, ev_bytes = [1]\<rparr>#}"
proof -
  obtain h' where r: "requeue_input_events (sort_key ev_cycle)
      [\<lparr>ev_cycle = 11, ev_bytes = [1]\<rparr>, \<lparr>ev_cycle = 3, ev_bytes = [2]\<rparr>] [] (sample_harness sample_saved []) = Some h'"
    by (simp add: requeue_input_events_def requeue_def sample_harness_def)
  have "mset (ps2_events (hn_in h')) = {#\<lparr>ev_cycle = 12, ev_bytes = [0x1C]\<rparr>, \<lparr>ev_cycle = 11, ev_bytes = [1]\<rparr>#}"
    using requeue_exact [OF sort_key_sorts r] by (simp add: sample_harness_def)
  then show ?thesis using r by blast
qed

definition sample_old_inputs :: inputs where
  "sample_old_inputs = (hn_in (sample_harness (hps_ide_new 0 0) []))\<lparr>ps2_events := [], boot_pages_seen := [],
     screen_check_cycles := [], mouse_events := [\<lparr>ev_cycle = 50, ev_bytes = [8]\<rparr>]\<rparr>"

lemma read_sample_old:
  "read_inputs 10 2 sample_old_inputs (good_stream []) = Inr (sample_old_inputs, \<lparr>ist_data = [], ist_fail = True\<rparr>)"
proof -
  have "read_pod (0 :: u64) (good_stream []) = Inr (0, \<lparr>ist_data = [], ist_fail = True\<rparr>)"
    by (simp add: read_pod_def in_read_def good_stream_def write_pod_def)
  then have "read_scheduled_events 10 [] (good_stream []) = Inr ([], \<lparr>ist_data = [], ist_fail = True\<rparr>)"
    by (simp add: read_scheduled_events_def vresize_def)
  moreover have "read_bool False \<lparr>ist_data = [], ist_fail = True\<rparr> = Inr (False, \<lparr>ist_data = [], ist_fail = True\<rparr>)"
    "read_deque_u8 10 [] \<lparr>ist_data = [], ist_fail = True\<rparr> = Inr ([], \<lparr>ist_data = [], ist_fail = True\<rparr>)"
    "read_vector_u64 10 [] \<lparr>ist_data = [], ist_fail = True\<rparr> = Inr ([], \<lparr>ist_data = [], ist_fail = True\<rparr>)"
    by (simp_all add: read_bool_def read_deque_u8_def read_vector_u64_def vresize_def)
  ultimately show ?thesis
    by (simp add: read_inputs_def sample_old_inputs_def sample_harness_def rbind_def)
qed

theorem old_checkpoint_repeats_mouse_witness:
  "\<exists>h'. requeue_input_events (sort_key ev_cycle) [] [\<lparr>ev_cycle = 50, ev_bytes = [8]\<rparr>]
      (sample_harness (hps_ide_new 0 0) []\<lparr>hn_in := sample_old_inputs\<rparr>) = Some h' \<and>
    mset (mouse_events (hn_in h')) = {#\<lparr>ev_cycle = 50, ev_bytes = [8]\<rparr>, \<lparr>ev_cycle = 50, ev_bytes = [8]\<rparr>#}"
proof -
  obtain h' where r: "requeue_input_events (sort_key ev_cycle) [] [\<lparr>ev_cycle = 50, ev_bytes = [8]\<rparr>]
      (sample_harness (hps_ide_new 0 0) []\<lparr>hn_in := sample_old_inputs\<rparr>) = Some h'"
    by (simp add: requeue_input_events_def requeue_def sample_harness_def sample_old_inputs_def)
  have i: "mouse_events sample_old_inputs = [\<lparr>ev_cycle = 50, ev_bytes = [8]\<rparr>]" "next_mouse_event sample_old_inputs = 0"
    by (simp_all add: sample_old_inputs_def sample_harness_def)
  have "mset (mouse_events (hn_in h')) = {#\<lparr>ev_cycle = 50, ev_bytes = [8]\<rparr>, \<lparr>ev_cycle = 50, ev_bytes = [8]\<rparr>#}"
    using old_checkpoint_repeats_mouse [OF sort_key_sorts _ read_sample_old i r] by (simp add: sample_harness_def)
  then show ?thesis using r by blast
qed

end
