(* ===== verification/Milestones.thy ===== *)
theory Milestones
  imports Harness_Checkpoint
begin

text \<open>
  The milestones a run reaches, as the main loop of \<open>src/verilator/main.cpp\<close> notes them from the debug
  outputs of the model every cycle, and the exit status they decide. Messages are left out.
\<close>

text \<open>The debug outputs of the model after a cycle.\<close>

record dbg_taps =
  dbg_cs_base :: u32
  dbg_eip :: u32
  dbg_post_code :: u8
  dbg_active :: bool

definition in_boot_sector :: "u32 \<Rightarrow> bool" where
  "in_boot_sector lin \<longleftrightarrow> 0x7C00 \<le> lin \<and> lin < 0x7E00"

definition note_boot :: "u32 \<Rightarrow> progress \<Rightarrow> progress" where
  "note_boot lin p =
     (let p1 = (if \<not> saw_boot_sector p \<and> in_boot_sector lin then p\<lparr>saw_boot_sector := True\<rparr> else p)
      in if saw_boot_sector p1 \<and> \<not> saw_post_boot_exec p1 \<and> lin < 0xA0000 \<and> \<not> in_boot_sector lin
         then p1\<lparr>saw_post_boot_exec := True\<rparr> else p1)"

text \<open>\<open>boot_pages_seen\<close> has 256 entries; the first 32 new pages are logged.\<close>

definition note_page :: "u32 \<Rightarrow> progress \<times> bool list \<Rightarrow> progress \<times> bool list" where
  "note_page lin st =
     (let (p, seen) = st; page = unat (drop_bit 12 lin)
      in if saw_boot_sector p \<and> lin < 0x100000 \<and> page < length seen \<and> \<not> seen ! page
         then (if boot_page_logs p < 32 then p\<lparr>boot_page_logs := boot_page_logs p + 1\<rparr> else p, seen[page := True])
         else (p, seen))"

definition note_post :: "u8 \<Rightarrow> progress \<Rightarrow> progress" where
  "note_post code p =
     (if (\<not> have_post p \<or> code \<noteq> last_post p) \<and> code \<noteq> 0 then p\<lparr>last_post := code, have_post := True, saw_post := True\<rparr> else p)"

definition note_active :: "bool \<Rightarrow> progress \<Rightarrow> progress" where
  "note_active active p = (if active \<and> \<not> saw_first_instruction p then p\<lparr>saw_first_instruction := True\<rparr> else p)"

definition observe :: "dbg_taps \<Rightarrow> progress \<times> bool list \<Rightarrow> progress \<times> bool list" where
  "observe t st =
     (let lin = dbg_cs_base t + dbg_eip t; (p, seen) = note_page lin (note_boot lin (fst st), snd st)
      in (note_active (dbg_active t) (note_post (dbg_post_code t) p), seen))"

text \<open>The exit status at the end of a run: 0, or 2 when a milestone was not reached.\<close>

definition exit_status :: "bool \<Rightarrow> progress \<Rightarrow> nat" where
  "exit_status load_ram p =
     (if load_ram then if saw_first_instruction p then 0 else 2
      else if \<not> saw_first_instruction p \<or> \<not> saw_post p \<or> \<not> saw_video_sync p then 2 else 0)"

section \<open>What the exit status means\<close>

lemma note_frames:
  "saw_first_instruction (note_boot lin p) = saw_first_instruction p" "saw_post (note_boot lin p) = saw_post p"
  "saw_video_sync (note_boot lin p) = saw_video_sync p" "have_post (note_boot lin p) = have_post p"
  "last_post (note_boot lin p) = last_post p"
  by (simp_all add: note_boot_def Let_def)

lemma page_frames:
  "saw_first_instruction (fst (note_page lin (p, s))) = saw_first_instruction p" "saw_post (fst (note_page lin (p, s))) = saw_post p"
  "saw_video_sync (fst (note_page lin (p, s))) = saw_video_sync p" "have_post (fst (note_page lin (p, s))) = have_post p"
  "last_post (fst (note_page lin (p, s))) = last_post p"
  by (simp_all add: note_page_def Let_def)

definition posted :: "progress \<Rightarrow> bool" where
  "posted p \<longleftrightarrow> (have_post p \<longrightarrow> saw_post p)"

lemma observe_flags:
  assumes "posted p"
  shows "posted (fst (observe t (p, s)))"
    "saw_first_instruction (fst (observe t (p, s))) \<longleftrightarrow> saw_first_instruction p \<or> dbg_active t"
    "saw_post (fst (observe t (p, s))) \<longleftrightarrow> saw_post p \<or> dbg_post_code t \<noteq> 0 \<and> (\<not> have_post p \<or> dbg_post_code t \<noteq> last_post p)"
    "saw_video_sync (fst (observe t (p, s))) = saw_video_sync p"
  using assms
  by (simp_all add: observe_def Let_def split_beta note_active_def note_post_def note_frames page_frames posted_def) blast

lemma run_flags:
  assumes "posted p"
  shows "(saw_first_instruction (fst (fold observe ts (p, s))) \<longleftrightarrow> saw_first_instruction p \<or> (\<exists>t\<in>set ts. dbg_active t)) \<and>
    (saw_post (fst (fold observe ts (p, s))) \<longleftrightarrow> saw_post p \<or> (\<exists>t\<in>set ts. dbg_post_code t \<noteq> 0)) \<and>
    saw_video_sync (fst (fold observe ts (p, s))) = saw_video_sync p"
  using assms
proof (induction ts arbitrary: p s)
  case (Cons t ts)
  obtain q u where q: "observe t (p, s) = (q, u)"
    by (cases "observe t (p, s)")
  have f: "posted q" "saw_first_instruction q \<longleftrightarrow> saw_first_instruction p \<or> dbg_active t"
    "saw_post q \<longleftrightarrow> saw_post p \<or> dbg_post_code t \<noteq> 0" "saw_video_sync q = saw_video_sync p"
    using observe_flags [OF Cons.prems, of t s] Cons.prems by (auto simp: q posted_def)
  show ?case
    using Cons.IH [OF f(1), of u] f(2-4) by (auto simp: q)
qed simp

text \<open>
  The exit status of a full run is 0 exactly when the video sync was seen, the core became active in some cycle and a non-zero POST code appeared in some cycle (or a restored checkpoint had seen them); a run from a RAM snapshot only needs an active core. No later cycle takes a milestone back.
\<close>

theorem exit_status_exact:
  assumes "have_post p \<longrightarrow> saw_post p"
  shows "exit_status load_ram (fst (fold observe ts (p, seen))) =
    (if (saw_first_instruction p \<or> (\<exists>t\<in>set ts. dbg_active t)) \<and>
        (load_ram \<or> (saw_post p \<or> (\<exists>t\<in>set ts. dbg_post_code t \<noteq> 0)) \<and> saw_video_sync p) then 0 else 2)"
proof -
  have "posted p"
    using assms by (simp add: posted_def)
  then show ?thesis
    using run_flags [of p ts seen] by (simp add: exit_status_def)
qed

definition no_progress :: progress where
  "no_progress = \<lparr>saw_first_instruction = False, saw_post = False, saw_video_sync = False, saw_boot_sector = False,
     saw_post_boot_exec = False, saw_boot_menu_text = False, saw_nonblack_pixel = False, boot_page_logs = 0, prev_vs = False,
     prev_hs = False, prev_de = False, bios_dbg_wr_prev = False, last_post = 0, have_post = False, mouse_captured = False,
     last_title_sim_time = 0, resolution_x = 720, resolution_y = 400, next_console_text_check = 0, last_console_text = []\<rparr>"

definition posting :: dbg_taps where
  "posting = \<lparr>dbg_cs_base = 0xF0000, dbg_eip = 0xFFF0, dbg_post_code = 0x11, dbg_active = True\<rparr>"

theorem exit_status_exact_witness:
  "exit_status False (fst (fold observe [posting, posting\<lparr>dbg_post_code := 0\<rparr>] (no_progress\<lparr>saw_video_sync := True\<rparr>, replicate 256 False))) = 0"
  by (subst exit_status_exact) (simp_all add: no_progress_def posting_def)

end
