(* ===== verification/Misterfs.thy ===== *)
theory Misterfs
  imports Prelude
begin

text \<open>
  \<open>misterfs_host.cpp\<close>: the file operations a shared-folder server of another project (\<open>x86_share.cpp\<close>, not in the repository) is
  built on. A file system is names of regular files with their contents; an open file is a position in one, with the sticky error
  mark of a C stream. Directories, permissions and failures of the medium are not modelled.
\<close>

section \<open>Files\<close>

record file_sys =
  fs_names :: "string \<rightharpoonup> nat"
  fs_data :: "nat \<Rightarrow> bytes"
  fs_next :: nat

text \<open>\<open>FILE\<close>: the file, the position, whether it may be read and written, and \<open>ferror\<close>.\<close>

record stream =
  st_file :: nat
  st_pos :: nat
  st_reads :: bool
  st_writes :: bool
  st_error :: bool

record fileTYPE =
  f_filp :: "stream option"
  f_mode :: u32
  f_size :: int
  f_offset :: int

definition O_ACCMODE :: u32 where "O_ACCMODE = 3"
definition O_WRONLY :: u32 where "O_WRONLY = 1"
definition O_RDWR :: u32 where "O_RDWR = 2"
definition O_CREAT :: u32 where "O_CREAT = 0x40"
definition O_EXCL :: u32 where "O_EXCL = 0x80"
definition O_TRUNC :: u32 where "O_TRUNC = 0x200"

definition new_file :: fileTYPE where
  "new_file = \<lparr>f_filp = None, f_mode = 0, f_size = 0, f_offset = 0\<rparr>"

text \<open>\<open>open\<close> on a regular file.\<close>

definition posix_open :: "string \<Rightarrow> u32 \<Rightarrow> file_sys \<Rightarrow> (nat \<times> file_sys) option" where
  "posix_open path flags fs = (case fs_names fs path of
     Some i \<Rightarrow> if flags AND O_CREAT \<noteq> 0 \<and> flags AND O_EXCL \<noteq> 0 then None
       else Some (i, if flags AND O_TRUNC \<noteq> 0 \<and> flags AND O_ACCMODE \<noteq> 0 then fs\<lparr>fs_data := (fs_data fs)(i := [])\<rparr> else fs)
   | None \<Rightarrow> if flags AND O_CREAT = 0 then None
       else let i = fs_next fs in Some (i, fs\<lparr>fs_names := (fs_names fs)(path \<mapsto> i), fs_data := (fs_data fs)(i := []), fs_next := i + 1\<rparr>))"

definition FileExists :: "string \<Rightarrow> file_sys \<Rightarrow> bool" where
  "FileExists path fs \<longleftrightarrow> fs_names fs path \<noteq> None"

definition FileDelete :: "string \<Rightarrow> file_sys \<Rightarrow> bool \<times> file_sys" where
  "FileDelete path fs = (case fs_names fs path of None \<Rightarrow> (False, fs)
     | Some i \<Rightarrow> (True, fs\<lparr>fs_names := (fs_names fs)(path := None)\<rparr>))"

definition FileClose :: "fileTYPE \<Rightarrow> fileTYPE" where
  "FileClose f = f\<lparr>f_filp := None\<rparr>"

definition FileOpenEx :: "string \<Rightarrow> u32 \<Rightarrow> fileTYPE \<Rightarrow> file_sys \<Rightarrow> bool \<times> fileTYPE \<times> file_sys" where
  "FileOpenEx path flags f fs =
     (let f = FileClose f in
      case posix_open path flags fs of
        None \<Rightarrow> (False, f, fs)
      | Some (i, fs) \<Rightarrow> let acc = flags AND O_ACCMODE in
          (True, f\<lparr>f_filp := Some \<lparr>st_file = i, st_pos = 0, st_reads = (acc \<noteq> O_WRONLY),
             st_writes = (acc = O_RDWR \<or> acc = O_WRONLY), st_error = False\<rparr>,
             f_size := int (length (fs_data fs i)), f_offset := 0, f_mode := flags\<rparr>, fs))"

datatype origin = SEEK_SET | SEEK_CUR | SEEK_END

text \<open>The operations on an open file; on a closed one the code passes a null pointer to the C library, which is \<open>None\<close>.\<close>

definition FileSeek :: "int \<Rightarrow> origin \<Rightarrow> fileTYPE \<Rightarrow> file_sys \<Rightarrow> (bool \<times> fileTYPE) option" where
  "FileSeek offset orig f fs = (case f_filp f of None \<Rightarrow> None
     | Some st \<Rightarrow> let base = (case orig of SEEK_SET \<Rightarrow> 0 | SEEK_CUR \<Rightarrow> int (st_pos st) | SEEK_END \<Rightarrow> int (length (fs_data fs (st_file st))));
          p = base + offset
       in if p < 0 then Some (False, f)
          else Some (True, f\<lparr>f_filp := Some (st\<lparr>st_pos := nat p\<rparr>), f_offset := p\<rparr>))"

text \<open>\<open>None\<close> as the number of bytes is the \<open>failure\<close> value of the call.\<close>

definition FileReadAdv :: "nat \<Rightarrow> fileTYPE \<Rightarrow> file_sys \<Rightarrow> (nat option \<times> bytes \<times> fileTYPE) option" where
  "FileReadAdv len f fs = (case f_filp f of None \<Rightarrow> None
     | Some st \<Rightarrow> let bs = (if st_reads st then take len (drop (st_pos st) (fs_data fs (st_file st))) else []);
          st = st\<lparr>st_pos := st_pos st + length bs, st_error := st_error st \<or> \<not> st_reads st\<rparr>
       in Some (if st_error st then None else Some (length bs), bs, f\<lparr>f_filp := Some st, f_offset := int (st_pos st)\<rparr>))"

text \<open>A write past the end fills the gap with zeros.\<close>

definition put_at :: "nat \<Rightarrow> bytes \<Rightarrow> bytes \<Rightarrow> bytes" where
  "put_at p bs d = (if bs = [] then d else take p (d @ replicate (p - length d) 0) @ bs @ drop (p + length bs) d)"

definition FileWriteAdv :: "bytes \<Rightarrow> fileTYPE \<Rightarrow> file_sys \<Rightarrow> (nat option \<times> fileTYPE \<times> file_sys) option" where
  "FileWriteAdv bs f fs = (case f_filp f of None \<Rightarrow> None
     | Some st \<Rightarrow> let out = (if st_writes st then bs else []); p = st_pos st; i = st_file st;
          st = st\<lparr>st_pos := p + length out, st_error := st_error st \<or> \<not> st_writes st\<rparr>;
          f = f\<lparr>f_filp := Some st, f_offset := int (p + length out), f_size := max (f_size f) (int (p + length out))\<rparr>
       in Some (if st_error st then None else Some (length out), f, fs\<lparr>fs_data := (fs_data fs)(i := put_at p out (fs_data fs i))\<rparr>))"

section \<open>The mailbox\<close>

definition shmem_map :: "bytes \<Rightarrow> u32 \<Rightarrow> nat \<Rightarrow> bytes option" where
  "shmem_map shared address sz = (if address = 0x300ce000 \<and> sz \<le> length shared then Some shared else None)"

text \<open>Whether a request has been published, which switches the trace of \<open>misterfs_host_poll\<close>.\<close>

definition published :: "bytes \<Rightarrow> bool" where
  "published shared = (let request = (le_word (take 4 shared) :: u32)
     in drop_bit 16 request = 0xa55a \<and> (request + 77) AND 255 = drop_bit 8 request AND 255)"

section \<open>What was written is read back\<close>

lemma length_put_at: "bs \<noteq> [] \<Longrightarrow> length (put_at p bs d) = max (length d) (p + length bs)"
  by (auto simp: put_at_def)

lemma put_at_read: "take (length bs) (drop p (put_at p bs d)) = bs"
  by (auto simp: put_at_def min_def)

lemma put_at_other:
  assumes "k < length d" and "k < p \<or> p + length bs \<le> k"
  shows "put_at p bs d ! k = d ! k"
  using assms by (auto simp: put_at_def nth_append min_def)

definition file_ok :: "fileTYPE \<Rightarrow> file_sys \<Rightarrow> bool" where
  "file_ok f fs \<longleftrightarrow> (\<forall>st. f_filp f = Some st \<longrightarrow> f_size f = int (length (fs_data fs (st_file st))) \<and> f_offset f = int (st_pos st))"

text \<open>
  A server that seeks, writes, seeks back and reads gets what it wrote, from any position, also past the end; every other byte of
  the file is kept, and the recorded size stays the file's.
\<close>

theorem shared_file_roundtrip:
  assumes "f_filp f = Some st" and "st_reads st" "st_writes st" "\<not> st_error st" and "file_ok f fs" and "bs \<noteq> []"
  shows "\<exists>f1 f2 fs2 f3 f4. FileSeek (int p) SEEK_SET f fs = Some (True, f1) \<and> FileWriteAdv bs f1 fs = Some (Some (length bs), f2, fs2) \<and>
    FileSeek (int p) SEEK_SET f2 fs2 = Some (True, f3) \<and> FileReadAdv (length bs) f3 fs2 = Some (Some (length bs), bs, f4) \<and>
    file_ok f2 fs2 \<and> file_ok f4 fs2 \<and>
    (\<forall>k<length (fs_data fs (st_file st)). k < p \<or> p + length bs \<le> k \<longrightarrow> fs_data fs2 (st_file st) ! k = fs_data fs (st_file st) ! k)"
  using assms put_at_read [of bs p "fs_data fs (st_file st)"] length_put_at [OF assms(6), of p "fs_data fs (st_file st)"]
    put_at_other [of _ "fs_data fs (st_file st)" p bs]
  by (simp add: FileSeek_def FileWriteAdv_def FileReadAdv_def file_ok_def Let_def)

definition sample_fs :: file_sys where
  "sample_fs = \<lparr>fs_names = [''save'' \<mapsto> 0], fs_data = (\<lambda>i. [1, 2, 3]), fs_next = 1\<rparr>"

theorem shared_file_roundtrip_witness:
  "\<exists>f fs f1 f2 fs2. FileOpenEx ''save'' O_RDWR new_file sample_fs = (True, f, fs) \<and> FileSeek 5 SEEK_SET f fs = Some (True, f1) \<and>
     FileWriteAdv [9, 8] f1 fs = Some (Some 2, f2, fs2) \<and> f_size f2 = int (length (fs_data fs2 0))"
proof -
  define st where "st = \<lparr>st_file = 0, st_pos = 0, st_reads = True, st_writes = True, st_error = False\<rparr>"
  define f where "f = new_file\<lparr>f_filp := Some st, f_size := 3, f_offset := 0, f_mode := O_RDWR\<rparr>"
  have o: "FileOpenEx ''save'' O_RDWR new_file sample_fs = (True, f, sample_fs)"
    by (simp add: FileOpenEx_def posix_open_def sample_fs_def FileClose_def new_file_def f_def st_def O_RDWR_def O_WRONLY_def
        O_CREAT_def O_EXCL_def O_TRUNC_def O_ACCMODE_def Let_def)
  have "f_filp f = Some st" "st_reads st" "st_writes st" "\<not> st_error st" "file_ok f sample_fs"
    by (simp_all add: f_def st_def file_ok_def sample_fs_def)
  from shared_file_roundtrip [OF this, of "[9, 8]" 5] obtain f1 f2 fs2 where
    w: "FileSeek (int 5) SEEK_SET f sample_fs = Some (True, f1)" "FileWriteAdv [9, 8] f1 sample_fs = Some (Some 2, f2, fs2)" "file_ok f2 fs2"
    by (auto simp: numeral_2_eq_2)
  moreover have "\<exists>p. f_filp f2 = Some (st\<lparr>st_pos := p\<rparr>)"
    using w(1,2) by (auto simp: FileSeek_def FileWriteAdv_def Let_def f_def st_def)
  ultimately show ?thesis
    using o by (intro exI conjI) (assumption | simp add: file_ok_def st_def | force simp: file_ok_def st_def)+
qed

text \<open>
  The error mark of the stream is never cleared: after a read of a file opened for writing only, a write stores its bytes and
  reports failure.
\<close>

lemma sticky_error:
  assumes "f_filp f = Some st" "st_writes st" "\<not> st_reads st" and "FileReadAdv n f fs = Some (r, bs', f1)"
    and "FileWriteAdv bs f1 fs = Some (w, f2, fs2)"
  shows "r = None \<and> w = None \<and> fs_data fs2 (st_file st) = put_at (st_pos st) bs (fs_data fs (st_file st))"
  using assms by (auto simp: FileReadAdv_def FileWriteAdv_def Let_def)

end
