(* ===== verification/Zsst_Profile.thy ===== *)
theory Zsst_Profile
  imports Prelude
begin

text \<open>
  The profiler of the 3D accelerator (\<open>src/verilator/zsst_profile.h\<close>): counters sampled at every rising edge of the clock, a row of
  the table every million cycles, and a histogram of the program counter over every 64th cycle, written when the profiler is closed. The
  signals it reads are the generated model's; here they are the argument of \<open>sample\<close>.
\<close>

record profile_taps =
  i_first :: bool
  swap_event :: bool
  fbi_idle :: bool
  host_req_valid :: bool
  host_req_ready :: bool
  fbi_state :: nat
  live_counters :: "u64 list"
  host_writes :: u32

record zsst_profile =
  zp_file :: bool
  zp_path :: string
  zp_cycles :: u64
  zp_instructions :: u64
  zp_swaps :: u64
  zp_fbi_active :: u64
  zp_host_blocked :: u64
  zp_states :: "u64 list"
  zp_pcs :: "u32 \<Rightarrow> (u64 \<times> u64) option"
  zp_rows :: "u64 list list"

definition profile_open :: "bool \<Rightarrow> string \<Rightarrow> zsst_profile" where
  "profile_open can_open name = \<lparr>zp_file = can_open, zp_path = name, zp_cycles = 0, zp_instructions = 0, zp_swaps = 0, zp_fbi_active = 0,
     zp_host_blocked = 0, zp_states = replicate 32 0, zp_pcs = Map.empty, zp_rows = []\<rparr>"

text \<open>An entry of the histogram: samples with the frame buffer interface idle, and active.\<close>

definition count_pc :: "bool \<Rightarrow> (u64 \<times> u64) option \<Rightarrow> u64 \<times> u64" where
  "count_pc active e = (case e of None \<Rightarrow> if active then (0, 1) else (1, 0) | Some (i, a) \<Rightarrow> if active then (i, a + 1) else (i + 1, a))"

definition profile_row :: "u64 \<Rightarrow> u32 \<Rightarrow> profile_taps \<Rightarrow> zsst_profile \<Rightarrow> u64 list" where
  "profile_row tick host_reads t z =
     [tick, zp_cycles z, zp_instructions z, zp_swaps z, zp_fbi_active z, zp_host_blocked z, ucast host_reads, ucast (host_writes t)] @
     live_counters t @ zp_states z"

text \<open>\<open>None\<close> is a state number beyond the 32 counters.\<close>

definition profile_sample :: "profile_taps \<Rightarrow> u64 \<Rightarrow> u32 \<Rightarrow> u32 \<Rightarrow> zsst_profile \<Rightarrow> zsst_profile option" where
  "profile_sample t tick pc host_reads z =
     (if \<not> zp_file z then Some z
      else if length (zp_states z) \<le> fbi_state t then None
      else
        (let active = (\<not> fbi_idle t);
             z = z\<lparr>zp_cycles := zp_cycles z + 1, zp_instructions := zp_instructions z + of_bool (i_first t),
                   zp_swaps := zp_swaps z + of_bool (swap_event t), zp_fbi_active := zp_fbi_active z + of_bool active,
                   zp_host_blocked := zp_host_blocked z + of_bool (host_req_valid t \<and> \<not> host_req_ready t),
                   zp_states := (zp_states z)[fbi_state t := zp_states z ! fbi_state t + 1]\<rparr>;
             z = (if zp_cycles z mod 64 = 0 then z\<lparr>zp_pcs := (zp_pcs z)(pc \<mapsto> count_pc active (zp_pcs z pc))\<rparr> else z)
         in Some (if zp_cycles z = 1 \<or> zp_cycles z mod 1000000 = 0 then z\<lparr>zp_rows := zp_rows z @ [profile_row tick host_reads t z]\<rparr>
                  else z)))"

text \<open>The histogram written at the end: a line for each program counter seen, in ascending order (\<open>None\<close>: no file).\<close>

definition profile_close :: "zsst_profile \<Rightarrow> (string \<times> (u32 \<times> u64 \<times> u64) list) option" where
  "profile_close z = (if zp_file z then Some (zp_path z @ ''.pc.csv'',
       map (\<lambda>pc. (pc, the (zp_pcs z pc))) (sorted_list_of_set (dom (zp_pcs z)))) else None)"

section \<open>What the counters say\<close>

fun profile_run :: "(profile_taps \<times> u64 \<times> u32 \<times> u32) list \<Rightarrow> zsst_profile \<Rightarrow> zsst_profile option" where
  "profile_run [] z = Some z"
| "profile_run ((t, tick, pc, hr) # xs) z = Option.bind (profile_sample t tick pc hr z) (profile_run xs)"

lemma sum_list_bump:
  fixes xs :: "u64 list"
  shows "i < length xs \<Longrightarrow> sum_list (xs[i := xs ! i + 1]) = sum_list xs + 1"
proof (induction xs arbitrary: i)
  case (Cons x xs)
  then show ?case
    by (cases i) (simp_all add: algebra_simps)
qed simp

text \<open>The state counters always add up to the cycles, and there are 32 of them.\<close>

definition profile_ok :: "zsst_profile \<Rightarrow> bool" where
  "profile_ok z \<longleftrightarrow> zp_file z \<and> length (zp_states z) = 32 \<and> sum_list (zp_states z) = zp_cycles z"

lemma sample_ok:
  assumes "profile_ok z" and "fbi_state t < 32"
  shows "\<exists>z'. profile_sample t tick pc hr z = Some z' \<and> profile_ok z' \<and> zp_cycles z' = zp_cycles z + 1 \<and>
    zp_fbi_active z' = zp_fbi_active z + of_bool (\<not> fbi_idle t) \<and>
    (\<forall>s<32. zp_states z' ! s = zp_states z ! s + of_bool (s = fbi_state t))"
  using assms by (simp add: profile_sample_def profile_ok_def Let_def sum_list_bump nth_list_update)

text \<open>
  The counters are exact: over any run of samples whose state numbers fit, the cycle counter is the number of samples, the counter of each
  state the number of samples in it (so that they add up), the activity counter the number of samples with the interface busy.
\<close>

theorem profile_exact:
  assumes "\<forall>(t, _) \<in> set xs. fbi_state t < 32"
  shows "\<exists>z. profile_run xs (profile_open True name) = Some z \<and> zp_cycles z = of_nat (length xs) \<and> sum_list (zp_states z) = zp_cycles z \<and>
    zp_fbi_active z = of_nat (length (filter (\<lambda>(t, _). \<not> fbi_idle t) xs)) \<and>
    (\<forall>s<32. zp_states z ! s = of_nat (length (filter (\<lambda>(t, _). fbi_state t = s) xs)))"
proof -
  have "\<exists>z'. profile_run xs z = Some z' \<and> profile_ok z' \<and> zp_cycles z' = zp_cycles z + of_nat (length xs) \<and>
      zp_fbi_active z' = zp_fbi_active z + of_nat (length (filter (\<lambda>(t, _). \<not> fbi_idle t) xs)) \<and>
      (\<forall>s<32. zp_states z' ! s = zp_states z ! s + of_nat (length (filter (\<lambda>(t, _). fbi_state t = s) xs)))"
    if "profile_ok z" for z
    using that assms
  proof (induction xs arbitrary: z)
    case (Cons x xs)
    obtain t tick pc hr where x: "x = (t, tick, pc, hr)"
      by (cases x)
    have "fbi_state t < 32"
      using Cons.prems(2) by (simp add: x)
    from sample_ok [OF Cons.prems(1) this, of tick pc hr]
    obtain z1 where z1: "profile_sample t tick pc hr z = Some z1" "profile_ok z1" "zp_cycles z1 = zp_cycles z + 1"
        "zp_fbi_active z1 = zp_fbi_active z + of_bool (\<not> fbi_idle t)"
        "\<forall>s<32. zp_states z1 ! s = zp_states z ! s + of_bool (s = fbi_state t)"
      by blast
    show ?case
      using Cons.IH [OF z1(2)] Cons.prems(2) z1 by (auto simp: x algebra_simps)
  qed simp
  from this [of "profile_open True name"] show ?thesis
    by (auto simp add: profile_open_def profile_ok_def sum_list_replicate)
qed

theorem profile_exact_witness:
  "\<exists>z. profile_run (replicate 3 (\<lparr>i_first = True, swap_event = False, fbi_idle = False, host_req_valid = False, host_req_ready = True,
      fbi_state = 7, live_counters = [], host_writes = 0\<rparr>, 5, 0x1000, 2)) (profile_open True ''p.csv'') = Some z \<and>
    zp_cycles z = 3 \<and> zp_states z ! 7 = 3"
  using profile_exact [of "replicate 3 (\<lparr>i_first = True, swap_event = False, fbi_idle = False, host_req_valid = False,
      host_req_ready = True, fbi_state = 7, live_counters = [], host_writes = 0\<rparr>, 5, 0x1000, 2)" "''p.csv''"]
  by (auto simp: filter_replicate)

end
