(* ===== verification/Spec2Isabelle.thy ===== *)
theory Spec2Isabelle
  imports Ide_Checkpoint Ide_Atapi Floppy Ps2 Ddr Cosim_Run Cosim_Reset Cosim_Ports Cosim_Checkpoint Checkpoint_Dir Boot_Image Management Wav_Writer Control Main_Loop Main_Cycle Milestones Video Run_Setup Misterfs Zsst_Profile
begin

text \<open>
  A development of the Verilator harness of the z486 core: the C and C++ programs of
  \<open>src/verilator\<close> that boot the core (generated C++ code of Verilator), play the part of the MiSTer
  host for it, and run a reference processor beside it.

  \<^bold>\<open>The program.\<close> \<open>main.cpp\<close> steps the Verilated model \<open>Vz486_mister_sim\<close> clock by clock. In every clock
  it answers the model's DDR bursts (\<open>step\<close>), picks the picture up from the video outputs, and lets
  one device emulation at a time use the management bus: the two IDE channels (\<open>ide_hps.cpp\<close>) and the
  floppy drive. Keyboard and mouse (\<open>scancode.h\<close>, \<open>Ps2Keyboard\<close>, \<open>Ps2Mouse\<close>) act on PS/2 bytes. A
  client may steer a run over a socket (\<open>control_server.cpp\<close>). The state can be saved, exactly
  (\<open>write_harness\<close>, \<open>HpsIde::save\<close>) or portably by field name (\<open>snapshot.cpp\<close>, \<open>save_ram\<close>). With
  \<open>--cosim\<close>, \<open>cosim_host.cpp\<close> watches the processor's retirement and write ports each clock and
  has \<open>cosim/cosim86.c\<close>, the engine over 86Box's interpreter, execute the same instructions and
  compare registers, memory writes and device writes.

  \<^bold>\<open>Conventions.\<close> A C++ object is a record with the fields of the class (prefixed, \<open>i_sec_cnt\<close> for
  \<open>HpsIde::sec_cnt_\<close>); an \<open>enum class\<close> is a datatype with the source's constructors; \<open>uint8_t\<close> to
  \<open>uint64_t\<close> are the words \<^typ>\<open>8 word\<close> to \<^typ>\<open>64 word\<close>, with the wrap-around of the source. A method that
  changes the object returns the new one. A failure the source reports is a value (\<open>Inl\<close>, \<open>None\<close>, a
  \<open>fail\<close> flag of a stream); an access the C++ language leaves undefined (an array index out of range, a null
  sector pointer, a division by zero) is \<open>None\<close> in the tick functions, so that their definedness is a
  theorem and not a convention. Locales state the interfaces (a codec, a device on the management
  bus, a queue of events, the files of a checkpoint, a paced source of bytes, the send and receive phases of a transfer, a store
  of blocks); each is interpreted on the definitions of the model, and the properties rest on those
  interpretations.

  \<^bold>\<open>Theories, in the order of their imports.\<close>

  \<^item> \<open>Prelude\<close>, \<open>Text_Io\<close>, \<open>Pod_Codec\<close>, \<open>Mgmt_Bus\<close>: words and byte layouts, text of string streams, the
    binary streams of the checkpoints (\<open>read_pod\<close>, \<open>write_pod\<close>, strings, vectors, with the fail
    state of \<open>std::istream\<close>), and the ports of the management bus. The locale \<open>codec\<close> is the round
    trip with an arbitrary rest of the stream, and gives it for lists of any coded type.
  \<^item> \<open>Ide_Core\<close>, \<open>Ide_Packet\<close>, \<open>Ide_Tick\<close>: \<open>ide_hps.h\<close> and \<open>ide_hps.cpp\<close>: task file, geometry, IDENTIFY
    data, ATA commands, ATAPI packets, and \<open>HpsIde::tick\<close> with all its states.
    \<open>Ide_Invariant\<close>: the invariant of every reachable state, under which no tick is undefined.
    \<open>Ide_Port\<close>, \<open>Ide_Transfer\<close>, \<open>Ide_Commands\<close>, \<open>Ide_Atapi\<close>: runs against an
    arbitrary core, given by what it answers to a read; whole commands (READ, WRITE, IDENTIFY,
    READ(10)) end in a bounded number of ticks, with the right words sent or stored, for
    any latency jitter; the error paths. \<open>Ide_Checkpoint\<close>: \<open>save\<close>/\<open>load\<close> and \<open>save_image\<close>/\<open>load_image\<close>
    restore the drive and its image, from the overlay blocks alone.
  \<^item> \<open>Floppy\<close>, \<open>Management\<close>, \<open>Main_Loop\<close>: \<open>HpsFloppy\<close> of \<open>main.cpp\<close>; the pulses that mount media and write the
    CMOS; the round of the main loop that shares the bus among the devices, and what that sharing
    does and does not guarantee.
  \<^item> \<open>Main_Cycle\<close>: a cycle of the simulation as a whole, over an arbitrary core: the models of the drives, the PS/2 devices,
    the DDR slave, the audio clock, the picture and the co-simulation composed as \<open>step\<close> and the main loop compose them. The loop
    is safe and ends whatever the core does, a cycle is one clock of each part, and the core is shown what the devices send.
    \<open>main_loop\<close> recurs on the cycles left and needs no fuel.
  \<^item> \<open>Ps2\<close>, \<open>Control\<close>: keys and mouse motions as bytes and their paced delivery; the socket server as a
    step relation of two threads over a shared queue, and every line it accepts.
  \<^item> \<open>Zsst_Profile\<close>: the counters of the accelerator's profiler.
  \<^item> \<open>Options\<close>, \<open>Run_Setup\<close>: the command line with the number syntax of the C library, every option and its range checks;
    what a run makes of it: the status word, the speed changes, the input schedule, and the window events of the loop.
  \<^item> \<open>Ddr\<close>, \<open>Boot_Image\<close>, \<open>Video\<close>, \<open>Wav_Writer\<close>: the DDR slave of \<open>step\<close> with injected wait states (equal to an
    abstract memory), ROM staging, memory images, the audio clock; the raster, the SVGA and accelerator frame
    buffers, the text screen; the sound file.
  \<^item> \<open>Harness_Checkpoint\<close>, \<open>Milestones\<close>, \<open>Snapshot_State\<close>, \<open>Snapshot_Dir\<close>, \<open>Checkpoint_Dir\<close>: checkpoints of the
    harness, the milestones and the exit status, the state file of a portable snapshot, the retention of its keyframes,
    and which checkpoint a restore finds.
  \<^item> \<open>Cosim_Host\<close>: \<open>cosim_host.cpp\<close>, with the engine as parameter: the clock-by-clock comparison, the
    issue queue, register checks, and RAM snapshots as keyframe and differences.
  \<^item> \<open>Cosim_Queue\<close>, \<open>Cosim_Match\<close>, \<open>Cosim_Sessions\<close>: \<open>cosim86.c\<close>, the comparison of writes. The event
    queues refine first-in first-out lists; matching ends; a session with no report leaves the
    two memories equal but for what is still queued, and device writes in the same order.
  \<^item> \<open>Cosim_Memory\<close>, \<open>Cosim_Insn\<close>, \<open>Cosim_Run\<close>: the reference's view of memory (page walk, split accesses,
    undo log), its knowledge of instructions (\<open>iss_glue.h\<close>, \<open>stubs.c\<close>), and the execution of one
    instruction with rollback on faults and on missing device data. \<open>Cosim_Arch\<close>: the effective addresses
    \<open>iss_glue.h\<close> computes in the place of 86Box, equal to the processor's addressing modes.
    \<open>Cosim_Reset\<close>: the start of the engine, its exported state, and faults in real mode. \<open>Cosim_Ports\<close>: port
    accesses, and the page pointer of instruction fetches, which reads what a data read would.
    \<open>Cosim_Checkpoint\<close>: the checkpoint of engine and host, whose readers take exactly what was written and
    refuse every shorter file.
  \<^item> \<open>Misterfs\<close>: the file operations of \<open>misterfs_host.cpp\<close>.

  \<^bold>\<open>Parameters.\<close> The Verilated core is an argument: a function that answers reads of the management
  bus, or a list of port values, with no law assumed about it. 86Box's
  interpreter is an argument of \<open>Cosim_Run\<close>: one call of it reads and writes memory through the hooks
  and returns a new processor; its reads of code bytes, its
  memory accesses on an interrupt and the bytes of its structures are arguments of \<open>Cosim_Arch\<close>, \<open>Cosim_Reset\<close> and
  \<open>Cosim_Checkpoint\<close>. The field table of \<open>snapshot.cpp\<close> is generated and an argument. Files enter as
  their contents.

  \<^bold>\<open>Bounds.\<close> Loops whose length the code bounds are structural or end by a measure; \<open>match_write\<close>,
  a \<open>while (1)\<close> in C, is a partial function into \<^typ>\<open>'a option\<close> where \<open>None\<close> is not returning, and
  \<open>matching_terminates\<close> shows that it returns in every reachable state. Vectors read from a checkpoint carry the limit the code checks (\<open>lim\<close>); the
  undo log has the code's capacity of 4096 bytes, and what happens past it is a lemma. The tick
  counts of the IDE theorems are explicit in their statements.

  \<^bold>\<open>Not modelled.\<close> The core's RTL and the code Verilator and other tools generate from it; 86Box (its
  sources are not in the repository); SDL, PNG, sockets, processes and files beyond their contents; the
  printing of diagnostics; \<open>test_x87_pc53.c\<close>, a test over 86Box's softfloat.
\<close>

end
